(* ===== verification/Prelude.thy ===== *)
theory Prelude
  imports Main "HOL-Library.Word" "HOL-Library.Multiset" "HOL-Library.AList"
    "HOL-Library.Char_ord" "HOL-Library.List_Lexorder"
begin

text \<open>
  The vocabulary shared by the components: machine integers and their big-endian byte
  forms, the outcome of a call that may fail or panic, hash tables as association lists
  with an unspecified iteration order, and the string operations of the Rust standard
  library that the sources use.

  A Rust \<^verbatim>\<open>String\<close> is a HOL \<open>string\<close> whose characters are the bytes of its UTF-8
  form, so \<^verbatim>\<open>len\<close>, \<^verbatim>\<open>as_bytes\<close>, equality and the lexicographic order are those of the byte
  sequence. A \<^verbatim>\<open>usize\<close> that only counts elements of a list is a \<open>nat\<close>; casts to
  narrower types are written out.
\<close>

unbundle bit_operations_syntax

section \<open>Machine integers\<close>

type_synonym u8 = "8 word"
type_synonym u16 = "16 word"
type_synonym u32 = "32 word"
type_synonym u64 = "64 word"

named_theorems wire_simps "byte-level encodings and their inverses"

definition u16_to_be :: "u16 \<Rightarrow> u8 list" where
  "u16_to_be w = [ucast (drop_bit 8 w), ucast w]"

definition u16_of_be :: "u8 \<Rightarrow> u8 \<Rightarrow> u16" where
  "u16_of_be hi lo = push_bit 8 (ucast hi) OR ucast lo"

definition u32_to_be :: "u32 \<Rightarrow> u8 list" where
  "u32_to_be w = [ucast (drop_bit 24 w), ucast (drop_bit 16 w), ucast (drop_bit 8 w), ucast w]"

definition u32_of_be :: "u8 \<Rightarrow> u8 \<Rightarrow> u8 \<Rightarrow> u8 \<Rightarrow> u32" where
  "u32_of_be a b c d =
     push_bit 24 (ucast a) OR push_bit 16 (ucast b) OR push_bit 8 (ucast c) OR ucast d"

lemma length_u16_to_be [simp]: "length (u16_to_be w) = 2"
  by (simp add: u16_to_be_def)

lemma length_u32_to_be [simp]: "length (u32_to_be w) = 4"
  by (simp add: u32_to_be_def)

lemma u16_of_be_to_be [wire_simps]: "u16_of_be (ucast (drop_bit 8 w)) (ucast w) = w"
  by (rule bit_word_eqI) (auto simp: u16_of_be_def bit_simps)

lemma u32_of_be_to_be [wire_simps]:
  "u32_of_be (ucast (drop_bit 24 w)) (ucast (drop_bit 16 w)) (ucast (drop_bit 8 w)) (ucast w) = w"
proof (rule bit_word_eqI)
  fix n :: nat
  assume "n < LENGTH(32)"
  moreover have "n < 8 \<or> 8 \<le> n \<and> n < 16 \<or> 16 \<le> n \<and> n < 24 \<or> 24 \<le> n" by arith
  ultimately show "bit (u32_of_be (ucast (drop_bit 24 w)) (ucast (drop_bit 16 w))
      (ucast (drop_bit 8 w)) (ucast w)) n = bit w n"
    by (auto simp: u32_of_be_def bit_simps)
qed

text \<open>Values of \<open>as u16\<close> and \<open>as usize\<close> casts of lengths.\<close>

lemma unat_of_nat_u16: "n < 65536 \<Longrightarrow> unat (of_nat n :: u16) = n"
  by (simp add: unat_of_nat)

lemma unat_of_nat_u8: "n < 256 \<Longrightarrow> unat (of_nat n :: u8) = n"
  by (simp add: unat_of_nat)

lemma word_less_Suc: "x \<noteq> - 1 \<Longrightarrow> x < x + (1 :: 'a :: len word)"
proof -
  assume "x \<noteq> - 1"
  then have "1 + x \<noteq> 0" by (simp add: add_eq_0_iff)
  then have "unat (1 + x) = Suc (unat x)" by (rule unatSuc)
  then show ?thesis by (simp add: word_less_nat_alt add.commute)
qed

section \<open>Outcomes: results, errors and panics\<close>

text \<open>
  \<open>Ok\<close> and \<open>Err\<close> are the constructors of \<^verbatim>\<open>Result\<close>; \<open>Panic\<close> is a call that unwinds.
  \<open>Diverge\<close> is a loop over a third-party object whose fuel ran out; under the laws of that
  object it is shown not to happen.
\<close>

datatype ('a, 'e) outcome = Ok 'a | Err 'e | Panic | Diverge

fun obind :: "('a, 'e) outcome \<Rightarrow> ('a \<Rightarrow> ('b, 'e) outcome) \<Rightarrow> ('b, 'e) outcome" where
  "obind (Ok x) f = f x"
| "obind (Err e) f = Err e"
| "obind Panic f = Panic"
| "obind Diverge f = Diverge"

fun or_panic :: "'a option \<Rightarrow> ('a, 'e) outcome" where
  "or_panic None = Panic"
| "or_panic (Some x) = Ok x"

fun ok_or :: "'a option \<Rightarrow> 'e \<Rightarrow> ('a, 'e) outcome" where
  "ok_or None e = Err e"
| "ok_or (Some x) e = Ok x"

lemma obind_cong [fundef_cong]:
  "m = m' \<Longrightarrow> (\<And>x. m' = Ok x \<Longrightarrow> f x = g x) \<Longrightarrow> obind m f = obind m' g"
  by (cases m') auto

text \<open>With this congruence the continuation is left alone until the first call is evaluated.\<close>

lemma obind_weak_cong: "m = m' \<Longrightarrow> obind m f = obind m' f" by simp

lemma obind_eq_Ok: "obind m f = Ok y \<longleftrightarrow> (\<exists>x. m = Ok x \<and> f x = Ok y)"
  by (cases m) auto

lemma obind_eq_Panic: "obind m f = Panic \<longleftrightarrow> m = Panic \<or> (\<exists>x. m = Ok x \<and> f x = Panic)"
  by (cases m) auto

lemma map_outcome_eq_Ok: "map_outcome f g m = Ok y \<longleftrightarrow> (\<exists>x. m = Ok x \<and> y = f x)"
  by (cases m) auto

lemma or_panic_eq_Ok [simp]: "or_panic m = Ok x \<longleftrightarrow> m = Some x"
  by (cases m) auto

lemma ok_or_eq_Ok [simp]: "ok_or m e = Ok x \<longleftrightarrow> m = Some x"
  by (cases m) auto

lemma ok_or_not_Panic [simp]: "ok_or m e \<noteq> Panic"
  by (cases m) auto

lemma length_ge2_obtain:
  assumes "\<not> length xs < 2"
  obtains x y zs where "xs = x # y # zs"
  using assms by (auto simp: neq_Nil_conv Suc_le_length_iff numeral_2_eq_2 not_less)

section \<open>Strings\<close>

definition as_bytes :: "string \<Rightarrow> u8 list" where
  "as_bytes s = map of_char s"

definition of_bytes :: "u8 list \<Rightarrow> string" where
  "of_bytes bs = map (\<lambda>b. char_of (unat b)) bs"

lemma length_as_bytes [simp]: "length (as_bytes s) = length s"
  by (simp add: as_bytes_def)

lemma length_of_bytes [simp]: "length (of_bytes bs) = length bs"
  by (simp add: of_bytes_def)

lemma of_bytes_append [simp]: "of_bytes (xs @ ys) = of_bytes xs @ of_bytes ys"
  by (simp add: of_bytes_def)

lemma unat_of_char_u8: "unat (of_char c :: u8) = of_char c"
proof -
  have "of_char c = (of_nat (of_char c) :: u8)" by (simp add: of_nat_of_char)
  moreover have "(of_char c :: nat) < 256" by simp
  ultimately show ?thesis by (metis unat_of_nat_u8)
qed

lemma of_bytes_as_bytes [simp]: "of_bytes (as_bytes s) = s"
  by (simp add: of_bytes_def as_bytes_def unat_of_char_u8 comp_def)

text \<open>\<^verbatim>\<open>str::split(c)\<close> collected into a vector: always at least one piece.\<close>

fun split_on :: "char \<Rightarrow> string \<Rightarrow> string list" where
  "split_on c [] = [[]]"
| "split_on c (x # xs) =
     (if x = c then [] # split_on c xs
      else (case split_on c xs of [] \<Rightarrow> [[x]] | y # ys \<Rightarrow> (x # y) # ys))"

fun join_with :: "string \<Rightarrow> string list \<Rightarrow> string" where
  "join_with sep [] = []"
| "join_with sep [s] = s"
| "join_with sep (s # t # ss) = s @ sep @ join_with sep (t # ss)"

definition ends_with :: "string \<Rightarrow> string \<Rightarrow> bool" where
  "ends_with s suf \<longleftrightarrow> length suf \<le> length s \<and> drop (length s - length suf) s = suf"

lemma split_on_not_Nil [simp]: "split_on c s \<noteq> []"
  by (induction s) (auto split: list.splits)

lemma split_on_obtain: obtains y ys where "split_on c s = y # ys"
  using split_on_not_Nil by (cases "split_on c s") auto

lemma join_split_on: "join_with [c] (split_on c s) = s"
proof (induction s)
  case (Cons x xs)
  obtain y ys where "split_on c xs = y # ys" by (rule split_on_obtain)
  with Cons show ?case by (cases ys) auto
qed simp

lemma split_on_sep_free: "p \<in> set (split_on c s) \<Longrightarrow> c \<notin> set p"
proof (induction s arbitrary: p)
  case (Cons x xs)
  obtain y ys where "split_on c xs = y # ys" by (rule split_on_obtain)
  with Cons show ?case by (auto split: if_splits)
qed simp

lemma split_on_append:
  "c \<notin> set p \<Longrightarrow> split_on c (p @ c # s) = p # split_on c s"
  by (induction p) auto

lemma split_on_sep_free_id: "c \<notin> set p \<Longrightarrow> split_on c p = [p]"
  by (induction p) auto

lemma split_join_with:
  "ps \<noteq> [] \<Longrightarrow> \<forall>p \<in> set ps. c \<notin> set p \<Longrightarrow> split_on c (join_with [c] ps) = ps"
  by (induction "[c]" ps rule: join_with.induct) (auto simp: split_on_append split_on_sep_free_id)

lemma split_on_inj: "split_on c s = split_on c t \<longleftrightarrow> s = t"
  by (metis join_split_on)

section \<open>Hash tables\<close>

text \<open>
  A \<^verbatim>\<open>HashMap\<close> is an association list with distinct keys; \<open>map_of\<close> is \<^verbatim>\<open>get\<close>, \<open>AList.update\<close>
  is \<^verbatim>\<open>insert\<close>, \<open>AList.delete\<close> is \<^verbatim>\<open>remove\<close>. The order in which the table is iterated is
  unspecified, so code that iterates takes it as a parameter: any rearrangement of the
  entries.
\<close>

type_synonym ('k, 'v) hmap = "('k \<times> 'v) list"
type_synonym ('k, 'v) iter_order = "('k, 'v) hmap \<Rightarrow> ('k, 'v) hmap"

definition hmap_ok :: "('k, 'v) hmap \<Rightarrow> bool" where
  "hmap_ok m \<longleftrightarrow> distinct (map fst m)"

named_theorems hmap_simps "hash table operations"

lemma hmap_ok_Nil [simp]: "hmap_ok []"
  by (simp add: hmap_ok_def)

lemma hmap_ok_update [simp]: "hmap_ok m \<Longrightarrow> hmap_ok (AList.update k v m)"
  by (simp add: hmap_ok_def distinct_update)

lemma hmap_ok_delete [simp]: "hmap_ok m \<Longrightarrow> hmap_ok (AList.delete k m)"
  by (simp add: hmap_ok_def distinct_delete)

lemma map_of_update [hmap_simps]: "map_of (AList.update k v m) = (map_of m)(k \<mapsto> v)"
  by (rule update_conv')

lemma map_of_delete [hmap_simps]: "map_of (AList.delete k m) = (map_of m)(k := None)"
  by (rule delete_conv')

lemma hmap_mem_iff: "hmap_ok m \<Longrightarrow> (k, v) \<in> set m \<longleftrightarrow> map_of m k = Some v"
  by (simp add: hmap_ok_def)

text \<open>What is known of an iteration: it visits every entry exactly once.\<close>

locale hash_order =
  fixes order :: "('k, 'v) iter_order"
  assumes mset_order: "mset (order m) = mset m"
begin

lemma set_order: "set (order m) = set m"
  by (metis mset_order set_mset_mset)

lemma length_order: "length (order m) = length m"
  by (metis mset_order size_mset)

lemma hmap_ok_order: "hmap_ok (order m) \<longleftrightarrow> hmap_ok m"
proof -
  have "mset (map fst (order m)) = mset (map fst m)" by (simp add: mset_order)
  then show ?thesis unfolding hmap_ok_def by (metis mset_eq_imp_distinct_iff)
qed

lemma map_of_order: "hmap_ok m \<Longrightarrow> map_of (order m) = map_of m"
  by (rule map_of_eqI) (auto simp: set_order, metis hmap_mem_iff hmap_ok_order set_order)

end

interpretation insertion_order: hash_order "\<lambda>m. m"
  by unfold_locales simp

interpretation reverse_order: hash_order rev
  by unfold_locales simp

end
