(* ===== verification/Mqtt_Packets.thy ===== *)
theory Mqtt_Packets
  imports Prelude
begin

text \<open>
  The packet types of the embedded MQTT broker
  (\<^verbatim>\<open>crates/mqtt-broker/src/protocol/packets.rs\<close>): the enums with their discriminants, the
  checked conversions from the wire, and one record per packet struct. \<open>QoS\<close> derives
  \<^verbatim>\<open>Ord\<close>, so it is an instance of \<open>linorder\<close> and \<^verbatim>\<open>min\<close> is the library's.
\<close>

datatype PacketType =
  Connect | ConnAck | Publish | PubAck | PubRec | PubRel | PubComp | Subscribe | SubAck
| Unsubscribe | UnsubAck | PingReq | PingResp | Disconnect

fun PacketType_as_u8 :: "PacketType \<Rightarrow> u8" where
  "PacketType_as_u8 Connect = 1"
| "PacketType_as_u8 ConnAck = 2"
| "PacketType_as_u8 Publish = 3"
| "PacketType_as_u8 PubAck = 4"
| "PacketType_as_u8 PubRec = 5"
| "PacketType_as_u8 PubRel = 6"
| "PacketType_as_u8 PubComp = 7"
| "PacketType_as_u8 Subscribe = 8"
| "PacketType_as_u8 SubAck = 9"
| "PacketType_as_u8 Unsubscribe = 10"
| "PacketType_as_u8 UnsubAck = 11"
| "PacketType_as_u8 PingReq = 12"
| "PacketType_as_u8 PingResp = 13"
| "PacketType_as_u8 Disconnect = 14"

definition PacketType_from_u8 :: "u8 \<Rightarrow> PacketType option" where
  "PacketType_from_u8 v =
     (if v = 1 then Some Connect
      else if v = 2 then Some ConnAck
      else if v = 3 then Some Publish
      else if v = 4 then Some PubAck
      else if v = 5 then Some PubRec
      else if v = 6 then Some PubRel
      else if v = 7 then Some PubComp
      else if v = 8 then Some Subscribe
      else if v = 9 then Some SubAck
      else if v = 10 then Some Unsubscribe
      else if v = 11 then Some UnsubAck
      else if v = 12 then Some PingReq
      else if v = 13 then Some PingResp
      else if v = 14 then Some Disconnect
      else None)"

datatype QoS = AtMostOnce | AtLeastOnce | ExactlyOnce

fun QoS_as_u8 :: "QoS \<Rightarrow> u8" where
  "QoS_as_u8 AtMostOnce = 0"
| "QoS_as_u8 AtLeastOnce = 1"
| "QoS_as_u8 ExactlyOnce = 2"

definition QoS_from_u8 :: "u8 \<Rightarrow> QoS option" where
  "QoS_from_u8 v =
     (if v = 0 then Some AtMostOnce
      else if v = 1 then Some AtLeastOnce
      else if v = 2 then Some ExactlyOnce
      else None)"

instantiation QoS :: linorder
begin

definition less_eq_QoS :: "QoS \<Rightarrow> QoS \<Rightarrow> bool" where
  "less_eq_QoS a b \<longleftrightarrow> QoS_as_u8 a \<le> QoS_as_u8 b"

definition less_QoS :: "QoS \<Rightarrow> QoS \<Rightarrow> bool" where
  "less_QoS a b \<longleftrightarrow> QoS_as_u8 a < QoS_as_u8 b"

lemma QoS_as_u8_inj: "QoS_as_u8 a = QoS_as_u8 b \<longleftrightarrow> a = b"
  by (cases a; cases b) simp_all

instance
  by intro_classes (auto simp: less_eq_QoS_def less_QoS_def QoS_as_u8_inj [symmetric])

end

record ConnectPacket =
  cp_client_id :: string
  cp_keep_alive :: u16
  cp_username :: "string option"
  cp_password :: "u8 list option"
  cp_clean_start :: bool
  cp_will_topic :: "string option"
  cp_will_payload :: "u8 list option"
  cp_will_qos :: QoS
  cp_will_retain :: bool

record PublishPacket =
  pp_topic :: string
  pp_payload :: "u8 list"
  pp_qos :: QoS
  pp_retain :: bool
  pp_dup :: bool
  pp_packet_id :: "u16 option"

record SubscriptionFilter =
  sf_topic_filter :: string
  sf_qos :: QoS
  sf_retain_handling :: u8

record SubscribePacket =
  sp_packet_id :: u16
  sp_subscriptions :: "SubscriptionFilter list"

record UnsubscribePacket =
  up_packet_id :: u16
  up_topic_filters :: "string list"

section \<open>The conversions\<close>

lemma PacketType_from_as_u8 [wire_simps]: "PacketType_from_u8 (PacketType_as_u8 t) = Some t"
  by (cases t) (simp_all add: PacketType_from_u8_def)

lemma PacketType_as_from_u8: "PacketType_from_u8 v = Some t \<Longrightarrow> PacketType_as_u8 t = v"
  by (auto simp: PacketType_from_u8_def split: if_splits)

lemma QoS_from_as_u8 [wire_simps]: "QoS_from_u8 (QoS_as_u8 q) = Some q"
  by (cases q) (simp_all add: QoS_from_u8_def)

lemma QoS_as_from_u8: "QoS_from_u8 v = Some q \<Longrightarrow> QoS_as_u8 q = v"
  by (auto simp: QoS_from_u8_def split: if_splits)

end
