(* ===== verification/Utf8.thy ===== *)
theory Utf8
  imports Prelude
begin

text \<open>
  \<^verbatim>\<open>String::from_utf8_lossy\<close> of the standard library, which the MQTT and BACnet decoders call
  on bytes from the network: well-formed UTF-8 sequences are kept, every maximal
  ill-formed prefix becomes U+FFFD. The result of a decode of bytes that are already
  UTF-8 is those bytes, and the result is UTF-8 whatever the input.
\<close>

section \<open>Scanning one character\<close>

definition is_cont :: "u8 \<Rightarrow> bool" where
  "is_cont b \<longleftrightarrow> b AND 192 = 128"

text \<open>\<^verbatim>\<open>safe_get\<close> of the decoder: 0 past the end of the input.\<close>

definition byte_at :: "u8 list \<Rightarrow> nat \<Rightarrow> u8" where
  "byte_at bs i = (if i < length bs then bs ! i else 0)"

definition utf8_char_width :: "u8 \<Rightarrow> nat" where
  "utf8_char_width b =
     (if b < 128 then 1 else if 0xC2 \<le> b \<and> b \<le> 0xDF then 2
      else if 0xE0 \<le> b \<and> b \<le> 0xEF then 3 else if 0xF0 \<le> b \<and> b \<le> 0xF4 then 4 else 0)"

definition second3 :: "u8 \<Rightarrow> u8 \<Rightarrow> bool" where
  "second3 b c \<longleftrightarrow>
     b = 0xE0 \<and> 0xA0 \<le> c \<and> c \<le> 0xBF \<or> 0xE1 \<le> b \<and> b \<le> 0xEC \<and> 0x80 \<le> c \<and> c \<le> 0xBF
     \<or> b = 0xED \<and> 0x80 \<le> c \<and> c \<le> 0x9F \<or> 0xEE \<le> b \<and> b \<le> 0xEF \<and> 0x80 \<le> c \<and> c \<le> 0xBF"

definition second4 :: "u8 \<Rightarrow> u8 \<Rightarrow> bool" where
  "second4 b c \<longleftrightarrow>
     b = 0xF0 \<and> 0x90 \<le> c \<and> c \<le> 0xBF \<or> 0xF1 \<le> b \<and> b \<le> 0xF3 \<and> 0x80 \<le> c \<and> c \<le> 0xBF
     \<or> b = 0xF4 \<and> 0x80 \<le> c \<and> c \<le> 0x8F"

text \<open>The number of octets inspected and whether they are one character.\<close>

fun utf8_scan :: "u8 list \<Rightarrow> nat \<times> bool" where
  "utf8_scan [] = (0, False)"
| "utf8_scan (b # bs) =
     (let w = utf8_char_width b in
      if w = 1 then (1, True)
      else if w = 2 then (if is_cont (byte_at bs 0) then (2, True) else (1, False))
      else if w = 3 then
        (if \<not> second3 b (byte_at bs 0) then (1, False)
         else if \<not> is_cont (byte_at bs 1) then (2, False) else (3, True))
      else if w = 4 then
        (if \<not> second4 b (byte_at bs 0) then (1, False)
         else if \<not> is_cont (byte_at bs 1) then (2, False)
         else if \<not> is_cont (byte_at bs 2) then (3, False) else (4, True))
      else (1, False))"

definition replacement :: "u8 list" where
  "replacement = [0xEF, 0xBF, 0xBD]"

lemma utf8_scan_pos: "bs \<noteq> [] \<Longrightarrow> 0 < fst (utf8_scan bs)"
  by (cases bs) (auto simp: Let_def)

lemma utf8_scan_decr:
  assumes "bs \<noteq> []" "(n, g) = utf8_scan bs"
  shows "length (drop n bs) < length bs"
proof -
  have "0 < n" using utf8_scan_pos [OF assms(1)] assms(2) by (metis fst_conv)
  with assms(1) show ?thesis by simp
qed

function utf8_lossy :: "u8 list \<Rightarrow> u8 list" where
  "utf8_lossy bs =
     (if bs = [] then []
      else (let (n, good) = utf8_scan bs in
            (if good then take n bs else replacement) @ utf8_lossy (drop n bs)))"
  by pat_completeness auto
termination
  by (relation "measure length", simp, simp only: in_measure, rule utf8_scan_decr, simp_all)

declare utf8_lossy.simps [simp del]

definition from_utf8_lossy :: "u8 list \<Rightarrow> string" where
  "from_utf8_lossy bs = of_bytes (utf8_lossy bs)"

section \<open>Well-formed UTF-8\<close>

function valid_utf8 :: "u8 list \<Rightarrow> bool" where
  "valid_utf8 bs =
     (if bs = [] then True
      else (let (n, good) = utf8_scan bs in good \<and> valid_utf8 (drop n bs)))"
  by pat_completeness auto
termination
  by (relation "measure length", simp, simp only: in_measure, rule utf8_scan_decr, simp_all)

declare valid_utf8.simps [simp del]

definition utf8_string :: "string \<Rightarrow> bool" where
  "utf8_string s \<longleftrightarrow> valid_utf8 (as_bytes s)"

lemma utf8_lossy_Nil [simp]: "utf8_lossy [] = []"
  by (simp add: utf8_lossy.simps)

lemma valid_utf8_Nil [simp]: "valid_utf8 []"
  by (simp add: valid_utf8.simps)

lemma utf8_lossy_valid: "valid_utf8 bs \<Longrightarrow> utf8_lossy bs = bs"
proof (induction bs rule: valid_utf8.induct)
  case (1 bs)
  show ?case
  proof (cases "bs = []")
    case False
    obtain n g where s: "utf8_scan bs = (n, g)" by fastforce
    with "1.prems" False have "g" "valid_utf8 (drop n bs)"
      by (auto simp: valid_utf8.simps [of bs])
    with "1.IH" [OF False s [symmetric]] s False show ?thesis
      by (simp add: utf8_lossy.simps [of bs])
  qed simp
qed

lemma from_utf8_lossy_id [simp]: "utf8_string s \<Longrightarrow> from_utf8_lossy (as_bytes s) = s"
  by (simp add: from_utf8_lossy_def utf8_string_def utf8_lossy_valid)

text \<open>ASCII strings, the common case, are UTF-8.\<close>

lemma valid_utf8_ascii: "\<forall>b \<in> set bs. b < 128 \<Longrightarrow> valid_utf8 bs"
proof (induction bs)
  case (Cons b bs)
  then show ?case by (subst valid_utf8.simps) (simp add: utf8_char_width_def Let_def)
qed simp

text \<open>A scan that succeeds depends only on the octets it inspected.\<close>

lemma byte_at_take: "i < n \<Longrightarrow> byte_at (take n bs) i = byte_at bs i"
  by (auto simp: byte_at_def)

lemma is_cont_0 [simp]: "\<not> is_cont 0"
  by (simp add: is_cont_def)

lemma second_0 [simp]: "\<not> second3 b 0" "\<not> second4 b 0"
  by (simp_all add: second3_def second4_def)

lemma byte_at_cont_length: "is_cont (byte_at bs i) \<Longrightarrow> i < length bs"
  by (auto simp: byte_at_def split: if_splits)

lemma byte_at_append: "i < length xs \<Longrightarrow> byte_at (xs @ ys) i = byte_at xs i"
  by (simp add: byte_at_def nth_append)

lemma byte_at_take_append:
  "i < n \<Longrightarrow> n \<le> length bs \<Longrightarrow> byte_at (take n bs @ ys) i = byte_at bs i"
  by (simp add: byte_at_def nth_append)

lemma second_length: "second3 b (byte_at bs i) \<Longrightarrow> i < length bs"
  "second4 b (byte_at bs i) \<Longrightarrow> i < length bs"
  by (auto simp: byte_at_def split: if_splits)

lemma utf8_scan_True:
  assumes "utf8_scan (b # bs) = (n, True)"
  shows "n = utf8_char_width b \<and>
    (n = 1 \<or> n = 2 \<and> is_cont (byte_at bs 0)
     \<or> n = 3 \<and> second3 b (byte_at bs 0) \<and> is_cont (byte_at bs 1)
     \<or> n = 4 \<and> second4 b (byte_at bs 0) \<and> is_cont (byte_at bs 1) \<and> is_cont (byte_at bs 2))"
  using assms by (simp add: Let_def split: if_splits)

lemma utf8_scan_prefix:
  assumes "utf8_scan bs = (n, True)"
  shows "n \<le> length bs \<and> utf8_scan (take n bs @ ys) = (n, True)"
proof (cases bs)
  case (Cons b cs)
  from utf8_scan_True [OF assms [unfolded Cons]]
  consider "n = 1" "utf8_char_width b = 1"
    | "n = 2" "utf8_char_width b = 2" "is_cont (byte_at cs 0)"
    | "n = 3" "utf8_char_width b = 3" "second3 b (byte_at cs 0)" "is_cont (byte_at cs 1)"
    | "n = 4" "utf8_char_width b = 4" "second4 b (byte_at cs 0)" "is_cont (byte_at cs 1)"
      "is_cont (byte_at cs 2)"
    by metis
  then show ?thesis
  proof cases
    case 2
    then have "Suc 0 \<le> length cs" using byte_at_cont_length [of cs 0] by (simp add: Suc_leI)
    with 2 show ?thesis by (simp add: Cons numeral_eq_Suc byte_at_take_append)
  qed (simp_all add: Cons numeral_eq_Suc byte_at_take_append Suc_leI byte_at_cont_length)
qed (use assms in simp)

lemma utf8_scan_replacement: "utf8_scan (replacement @ ys) = (3, True)"
  by (simp add: replacement_def utf8_char_width_def second3_def is_cont_def byte_at_def)

lemma valid_utf8_append1:
  assumes "utf8_scan (cs @ ys) = (length cs, True)" "cs \<noteq> []" "valid_utf8 ys"
  shows "valid_utf8 (cs @ ys)"
  using assms by (subst valid_utf8.simps) simp

lemma valid_utf8_lossy: "valid_utf8 (utf8_lossy bs)"
proof (induction bs rule: utf8_lossy.induct)
  case (1 bs)
  show ?case
  proof (cases "bs = []")
    case False
    obtain n g where s: "utf8_scan bs = (n, g)" by fastforce
    let ?rest = "utf8_lossy (drop n bs)"
    have ih: "valid_utf8 ?rest" using "1" [OF False s [symmetric]] by simp
    have eq: "utf8_lossy bs = (if g then take n bs else replacement) @ ?rest"
      using s False by (simp add: utf8_lossy.simps [of bs])
    show ?thesis
    proof (cases g)
      case True
      with s have p: "n \<le> length bs" "utf8_scan (take n bs @ ?rest) = (n, True)"
        using utf8_scan_prefix by auto
      have "0 < n" using utf8_scan_pos [OF False] s by simp
      with p False ih have "valid_utf8 (take n bs @ ?rest)"
        by (intro valid_utf8_append1) auto
      with True eq show ?thesis by simp
    next
      case False
      have "valid_utf8 (replacement @ ?rest)"
        using utf8_scan_replacement ih
        by (intro valid_utf8_append1) (auto simp: replacement_def)
      with False eq show ?thesis by simp
    qed
  qed simp
qed

end
