(* ===== verification/Mqtt_Codec.thy ===== *)
theory Mqtt_Codec
  imports Mqtt_Packets Utf8
begin

text \<open>
  The MQTT wire codec (\<^verbatim>\<open>crates/mqtt-broker/src/protocol/codec.rs\<close>).

  Two third-party interfaces are parameters: the byte stream of \<^verbatim>\<open>tokio\<close> (\<open>stream_ops\<close>) and
  the read cursor of the \<^verbatim>\<open>bytes\<close> crate (\<open>buf_ops\<close>). What the code relies on is stated by the
  locales \<open>byte_stream\<close> and \<open>byte_buf\<close>: reads deliver the pending bytes in order or fail with
  \<^verbatim>\<open>UnexpectedEof\<close>, and a \<^verbatim>\<open>get\<close>, \<^verbatim>\<open>copy\<close> or \<^verbatim>\<open>advance\<close> past the end of a buffer panics.
  A read operation returns \<open>None\<close> where the crate panics.
\<close>

section \<open>Third-party interfaces\<close>

datatype io_kind = UnexpectedEof | ConnectionReset | InvalidData | OtherKind nat

datatype io_error = IoErr (io_kind: io_kind) (io_msg: string)

record 's stream_ops =
  read_exact :: "nat \<Rightarrow> 's \<Rightarrow> (u8 list \<times> 's, io_error) outcome"
  write_all :: "u8 list \<Rightarrow> 's \<Rightarrow> ('s, io_error) outcome"

record 'b buf_ops =
  buf_of :: "u8 list \<Rightarrow> 'b"
  remaining :: "'b \<Rightarrow> nat"
  get_u8 :: "'b \<Rightarrow> (u8 \<times> 'b) option"
  get_u16 :: "'b \<Rightarrow> (u16 \<times> 'b) option"
  copy_out :: "nat \<Rightarrow> 'b \<Rightarrow> (u8 list \<times> 'b) option"
  advance :: "nat \<Rightarrow> 'b \<Rightarrow> 'b option"

section \<open>Reading a packet\<close>

record FixedHeader =
  packet_type :: PacketType
  flags :: u8
  remaining_length :: nat

lemma pow128_le: "(128::nat) ^ i \<le> 2097152 \<Longrightarrow> i < 4"
  using power_increasing [of 4 i "128::nat"] by (cases "4 \<le> i") auto

text \<open>
  The loop's \<^verbatim>\<open>multiplier\<close> is \<open>128 ^ i\<close> in its \<open>i\<close>-th round; it leaves with an error as soon
  as the multiplier exceeds \<open>128 ^ 4\<close>.
\<close>

function read_remaining_length_stream ::
    "'s stream_ops \<Rightarrow> nat \<Rightarrow> nat \<Rightarrow> 's \<Rightarrow> (nat \<times> 's, io_error) outcome" where
  "read_remaining_length_stream S i len s =
     obind (read_exact S 1 s) (\<lambda>(b, s').
       let len' = len + unat (b ! 0 AND 0x7F) * 128 ^ i in
       if b ! 0 AND 0x80 = 0 then Ok (len', s')
       else if (128::nat) ^ Suc i > 128 * 128 * 128 * 128
         then Err (IoErr InvalidData ''Malformed remaining length'')
       else read_remaining_length_stream S (Suc i) len' s')"
  by pat_completeness auto

termination
  by (relation "measure (\<lambda>(S, i, len, s). 4 - i)") (auto dest: pow128_le simp: not_less)

declare read_remaining_length_stream.simps [simp del]

definition read_fixed_header_stream :: "'s stream_ops \<Rightarrow> 's \<Rightarrow> (FixedHeader \<times> 's, io_error) outcome" where
  "read_fixed_header_stream S s =
     obind (read_exact S 1 s) (\<lambda>(type_buf, s1).
       let byte = type_buf ! 0;
           packet_type_num = drop_bit 4 byte AND 0x0F;
           fl = byte AND 0x0F in
       obind (ok_or (PacketType_from_u8 packet_type_num) (IoErr InvalidData ''Invalid packet type''))
         (\<lambda>ty. obind (read_remaining_length_stream S 0 0 s1) (\<lambda>(len, s2).
           Ok (\<lparr>packet_type = ty, flags = fl, remaining_length = len\<rparr>, s2))))"

definition read_packet ::
    "'s stream_ops \<Rightarrow> 'b buf_ops \<Rightarrow> nat \<Rightarrow> 's \<Rightarrow> ((FixedHeader \<times> 'b \<times> 's) option, io_error) outcome" where
  "read_packet S B max_size s =
     (case read_fixed_header_stream S s of
        Ok (header, s1) \<Rightarrow>
          if remaining_length header > max_size then Err (IoErr InvalidData ''Packet too large'')
          else if remaining_length header > 0 then
            obind (read_exact S (remaining_length header) s1) (\<lambda>(bs, s2).
              Ok (Some (header, buf_of B bs, s2)))
          else Ok (Some (header, buf_of B [], s1))
      | Err e \<Rightarrow> if io_kind e = UnexpectedEof then Ok None else Err e
      | Panic \<Rightarrow> Panic
      | Diverge \<Rightarrow> Diverge)"

text \<open>
  The same for the read half of a split stream. The header reader has the length loop
  inlined; \<^verbatim>\<open>ConnectionReset\<close> also counts as the end of the stream.
\<close>

definition read_fixed_header_half :: "'s stream_ops \<Rightarrow> 's \<Rightarrow> (FixedHeader \<times> 's, io_error) outcome" where
  "read_fixed_header_half S s =
     obind (read_exact S 1 s) (\<lambda>(type_buf, s1).
       let byte = type_buf ! 0;
           packet_type_num = drop_bit 4 byte AND 0x0F;
           fl = byte AND 0x0F in
       obind (ok_or (PacketType_from_u8 packet_type_num) (IoErr InvalidData ''Invalid packet type''))
         (\<lambda>ty. obind (read_remaining_length_stream S 0 0 s1) (\<lambda>(len, s2).
           Ok (\<lparr>packet_type = ty, flags = fl, remaining_length = len\<rparr>, s2))))"

definition read_packet_from ::
    "'s stream_ops \<Rightarrow> 'b buf_ops \<Rightarrow> nat \<Rightarrow> 's \<Rightarrow> ((FixedHeader \<times> 'b \<times> 's) option, io_error) outcome" where
  "read_packet_from S B max_size s =
     (case read_fixed_header_half S s of
        Ok (header, s1) \<Rightarrow>
          if remaining_length header > max_size then Err (IoErr InvalidData ''Packet too large'')
          else if remaining_length header > 0 then
            obind (read_exact S (remaining_length header) s1) (\<lambda>(bs, s2).
              Ok (Some (header, buf_of B bs, s2)))
          else Ok (Some (header, buf_of B [], s1))
      | Err e \<Rightarrow>
          if io_kind e = UnexpectedEof then Ok None
          else if io_kind e = ConnectionReset then Ok None
          else Err e
      | Panic \<Rightarrow> Panic
      | Diverge \<Rightarrow> Diverge)"

section \<open>Decoding\<close>

definition decode_utf8_string :: "'b buf_ops \<Rightarrow> 'b \<Rightarrow> (string \<times> 'b, io_error) outcome" where
  "decode_utf8_string B b =
     obind (or_panic (get_u16 B b)) (\<lambda>(len, b1).
     obind (or_panic (copy_out B (unat len) b1)) (\<lambda>(bytes, b2).
       Ok (from_utf8_lossy bytes, b2)))"

text \<open>
  \<open>value\<close> and \<open>multiplier\<close> are 64-bit and wrap, as in a release build. One unit of fuel per
  octet is enough, plus one for the test that the buffer is empty.
\<close>

fun decode_variable_length_loop ::
    "'b buf_ops \<Rightarrow> nat \<Rightarrow> u64 \<Rightarrow> u64 \<Rightarrow> 'b \<Rightarrow> (u64 \<times> 'b, io_error) outcome" where
  "decode_variable_length_loop B 0 val mul b = Diverge"
| "decode_variable_length_loop B (Suc fuel) val mul b =
     (if remaining B b = 0 then Ok (val, b)
      else obind (or_panic (get_u8 B b)) (\<lambda>(byte, b').
        let val' = val + ucast (byte AND 0x7F) * mul in
        if byte AND 0x80 = 0 then Ok (val', b')
        else decode_variable_length_loop B fuel val' (mul * 128) b'))"

definition decode_variable_length :: "'b buf_ops \<Rightarrow> 'b \<Rightarrow> (nat \<times> 'b, io_error) outcome" where
  "decode_variable_length B b =
     obind (decode_variable_length_loop B (Suc (remaining B b)) 0 1 b) (\<lambda>(v, b'). Ok (unat v, b'))"

text \<open>The length-prefixed properties of MQTT 5, skipped.\<close>

definition skip_properties :: "'b buf_ops \<Rightarrow> u8 \<Rightarrow> 'b \<Rightarrow> ('b, io_error) outcome" where
  "skip_properties B proto_level b =
     (if proto_level = 5 then
        obind (decode_variable_length B b) (\<lambda>(props_len, b').
          if props_len > 0 then or_panic (advance B props_len b') else Ok b')
      else Ok b)"

definition decode_will ::
    "'b buf_ops \<Rightarrow> bool \<Rightarrow> u8 \<Rightarrow> 'b \<Rightarrow> ((string option \<times> u8 list option) \<times> 'b, io_error) outcome" where
  "decode_will B has_will proto_level b =
     (if has_will then
        obind (skip_properties B proto_level b) (\<lambda>b1.
        obind (decode_utf8_string B b1) (\<lambda>(topic, b2).
        obind (or_panic (get_u16 B b2)) (\<lambda>(len, b3).
        obind (or_panic (copy_out B (unat len) b3)) (\<lambda>(payload, b4).
          Ok ((Some topic, Some payload), b4)))))
      else Ok ((None, None), b))"

definition decode_username :: "'b buf_ops \<Rightarrow> bool \<Rightarrow> 'b \<Rightarrow> (string option \<times> 'b, io_error) outcome" where
  "decode_username B has_username b =
     (if has_username
      then obind (decode_utf8_string B b) (\<lambda>(u, b'). Ok (Some u, b'))
      else Ok (None, b))"

definition decode_password :: "'b buf_ops \<Rightarrow> bool \<Rightarrow> 'b \<Rightarrow> (u8 list option \<times> 'b, io_error) outcome" where
  "decode_password B has_password b =
     (if has_password then
        obind (or_panic (get_u16 B b)) (\<lambda>(len, b1).
        obind (or_panic (copy_out B (unat len) b1)) (\<lambda>(pass, b2).
          Ok (Some pass, b2)))
      else Ok (None, b))"

definition qos_or_default :: "u8 \<Rightarrow> QoS" where
  "qos_or_default v = (case QoS_from_u8 v of None \<Rightarrow> AtMostOnce | Some q \<Rightarrow> q)"

definition decode_connect :: "'b buf_ops \<Rightarrow> 'b \<Rightarrow> (ConnectPacket \<times> 'b, io_error) outcome" where
  "decode_connect B b =
     obind (or_panic (get_u16 B b)) (\<lambda>(proto_len, b1).
     if unat proto_len > remaining B b1
     then Err (IoErr InvalidData ''CONNECT: protocol name too long'')
     else
     obind (or_panic (copy_out B (unat proto_len) b1)) (\<lambda>(_, b2).
     obind (or_panic (get_u8 B b2)) (\<lambda>(proto_level, b3).
     obind (or_panic (get_u8 B b3)) (\<lambda>(connect_flags, b4).
     let clean_start = connect_flags AND 0x02 \<noteq> 0;
         has_will = connect_flags AND 0x04 \<noteq> 0;
         will_qos = qos_or_default (drop_bit 3 connect_flags AND 0x03);
         will_retain = connect_flags AND 0x20 \<noteq> 0;
         has_password = connect_flags AND 0x40 \<noteq> 0;
         has_username = connect_flags AND 0x80 \<noteq> 0 in
     obind (or_panic (get_u16 B b4)) (\<lambda>(keep_alive, b5).
     obind (skip_properties B proto_level b5) (\<lambda>b6.
     obind (decode_utf8_string B b6) (\<lambda>(client_id, b7).
     obind (decode_will B has_will proto_level b7) (\<lambda>((will_topic, will_payload), b8).
     obind (decode_username B has_username b8) (\<lambda>(username, b9).
     obind (decode_password B has_password b9) (\<lambda>(password, b10).
       Ok (\<lparr>cp_client_id = client_id, cp_keep_alive = keep_alive, cp_username = username,
            cp_password = password, cp_clean_start = clean_start, cp_will_topic = will_topic,
            cp_will_payload = will_payload, cp_will_qos = will_qos,
            cp_will_retain = will_retain\<rparr>, b10)))))))))))"

definition decode_publish ::
    "'b buf_ops \<Rightarrow> FixedHeader \<Rightarrow> 'b \<Rightarrow> (PublishPacket \<times> 'b, io_error) outcome" where
  "decode_publish B header b =
     (let dup = flags header AND 0x08 \<noteq> 0;
          qos = qos_or_default (drop_bit 1 (flags header) AND 0x03);
          retain = flags header AND 0x01 \<noteq> 0 in
      obind (decode_utf8_string B b) (\<lambda>(topic, b1).
      obind (if qos \<noteq> AtMostOnce
             then obind (or_panic (get_u16 B b1)) (\<lambda>(pid, b2). Ok (Some pid, b2))
             else Ok (None, b1)) (\<lambda>(packet_id, b2).
      obind (or_panic (copy_out B (remaining B b2) b2)) (\<lambda>(payload, b3).
        Ok (\<lparr>pp_topic = topic, pp_payload = payload, pp_qos = qos, pp_retain = retain,
             pp_dup = dup, pp_packet_id = packet_id\<rparr>, b3)))))"

text \<open>Each round consumes at least two octets; one unit of fuel per octet is enough.\<close>

fun decode_subscriptions ::
    "'b buf_ops \<Rightarrow> nat \<Rightarrow> SubscriptionFilter list \<Rightarrow> 'b \<Rightarrow> (SubscriptionFilter list \<times> 'b, io_error) outcome" where
  "decode_subscriptions B 0 acc b = Diverge"
| "decode_subscriptions B (Suc fuel) acc b =
     (if remaining B b \<ge> 3 then
        obind (decode_utf8_string B b) (\<lambda>(topic_filter, b1).
        if remaining B b1 = 0 then Ok (acc, b1)
        else obind (or_panic (get_u8 B b1)) (\<lambda>(sub_options, b2).
          let sub = \<lparr>sf_topic_filter = topic_filter, sf_qos = qos_or_default (sub_options AND 0x03),
                     sf_retain_handling = drop_bit 4 sub_options AND 0x03\<rparr> in
          decode_subscriptions B fuel (acc @ [sub]) b2))
      else Ok (acc, b))"

definition decode_subscribe :: "'b buf_ops \<Rightarrow> 'b \<Rightarrow> (SubscribePacket \<times> 'b, io_error) outcome" where
  "decode_subscribe B b =
     obind (or_panic (get_u16 B b)) (\<lambda>(packet_id, b1).
     obind (decode_subscriptions B (Suc (remaining B b1)) [] b1) (\<lambda>(subscriptions, b2).
       Ok (\<lparr>sp_packet_id = packet_id, sp_subscriptions = subscriptions\<rparr>, b2)))"

fun decode_topic_filters ::
    "'b buf_ops \<Rightarrow> nat \<Rightarrow> string list \<Rightarrow> 'b \<Rightarrow> (string list \<times> 'b, io_error) outcome" where
  "decode_topic_filters B 0 acc b = Diverge"
| "decode_topic_filters B (Suc fuel) acc b =
     (if remaining B b \<ge> 2 then
        obind (decode_utf8_string B b) (\<lambda>(t, b'). decode_topic_filters B fuel (acc @ [t]) b')
      else Ok (acc, b))"

definition decode_unsubscribe :: "'b buf_ops \<Rightarrow> 'b \<Rightarrow> (UnsubscribePacket \<times> 'b, io_error) outcome" where
  "decode_unsubscribe B b =
     obind (or_panic (get_u16 B b)) (\<lambda>(packet_id, b1).
     obind (decode_topic_filters B (Suc (remaining B b1)) [] b1) (\<lambda>(topic_filters, b2).
       Ok (\<lparr>up_packet_id = packet_id, up_topic_filters = topic_filters\<rparr>, b2)))"

section \<open>Encoding\<close>

fun encode_remaining_length_vec :: "nat \<Rightarrow> u8 list" where
  "encode_remaining_length_vec len =
     (let encoded_byte = of_nat (len mod 128) :: u8; len' = len div 128 in
      if len' > 0 then (encoded_byte OR 0x80) # encode_remaining_length_vec len'
      else [encoded_byte])"

declare encode_remaining_length_vec.simps [simp del]

definition encode_connack :: "bool \<Rightarrow> u8 \<Rightarrow> u8 list" where
  "encode_connack session_present reason_code =
     [push_bit 4 (PacketType_as_u8 ConnAck), 2, if session_present then 1 else 0, reason_code]"

definition encode_publish ::
    "string \<Rightarrow> u8 list \<Rightarrow> QoS \<Rightarrow> bool \<Rightarrow> bool \<Rightarrow> u16 option \<Rightarrow> u8 list" where
  "encode_publish topic payload qos dup retain packet_id =
     (let first_byte = push_bit 4 (PacketType_as_u8 Publish) OR (if dup then 0x08 else 0)
            OR push_bit 1 (QoS_as_u8 qos) OR (if retain then 0x01 else 0);
          topic_bytes = as_bytes topic;
          rem = 2 + length topic_bytes + length payload + (if qos \<noteq> AtMostOnce then 2 else 0) in
      [first_byte] @ encode_remaining_length_vec rem
        @ u16_to_be (of_nat (length topic_bytes)) @ topic_bytes
        @ (if qos \<noteq> AtMostOnce then u16_to_be (case packet_id of None \<Rightarrow> 0 | Some p \<Rightarrow> p) else [])
        @ payload)"

definition encode_puback :: "u16 \<Rightarrow> u8 list" where
  "encode_puback packet_id = [push_bit 4 (PacketType_as_u8 PubAck), 2] @ u16_to_be packet_id"

definition encode_suback :: "u16 \<Rightarrow> u8 list \<Rightarrow> u8 list" where
  "encode_suback packet_id reason_codes =
     [push_bit 4 (PacketType_as_u8 SubAck)] @ encode_remaining_length_vec (2 + length reason_codes)
       @ u16_to_be packet_id @ reason_codes"

definition encode_unsuback :: "u16 \<Rightarrow> u8 list" where
  "encode_unsuback packet_id = [push_bit 4 (PacketType_as_u8 UnsubAck), 2] @ u16_to_be packet_id"

definition encode_pingresp :: "u8 list" where
  "encode_pingresp = [push_bit 4 (PacketType_as_u8 PingResp), 0]"

text \<open>The wrappers that write an encoded packet to a stream.\<close>

definition write_connack_to :: "'s stream_ops \<Rightarrow> bool \<Rightarrow> u8 \<Rightarrow> 's \<Rightarrow> ('s, io_error) outcome" where
  "write_connack_to S session_present reason_code s =
     write_all S (encode_connack session_present reason_code) s"

definition write_publish_to ::
    "'s stream_ops \<Rightarrow> string \<Rightarrow> u8 list \<Rightarrow> QoS \<Rightarrow> bool \<Rightarrow> bool \<Rightarrow> u16 option \<Rightarrow> 's \<Rightarrow> ('s, io_error) outcome" where
  "write_publish_to S topic payload qos dup retain packet_id s =
     write_all S (encode_publish topic payload qos dup retain packet_id) s"

section \<open>The contracts of the third-party interfaces\<close>

text \<open>
  A stream that delivers the bytes \<open>pending\<close> and is then closed by the peer:
  \<^verbatim>\<open>read_exact\<close> fills the buffer from the front, or fails with \<^verbatim>\<open>UnexpectedEof\<close>.
\<close>

locale byte_stream =
  fixes S :: "'s stream_ops" and pending :: "'s \<Rightarrow> u8 list" and eof :: string
  assumes read_ok: "n \<le> length (pending s) \<Longrightarrow>
      \<exists>s'. read_exact S n s = Ok (take n (pending s), s') \<and> pending s' = drop n (pending s)"
    and read_eof: "length (pending s) < n \<Longrightarrow> read_exact S n s = Err (IoErr UnexpectedEof eof)"

text \<open>
  A buffer of the \<^verbatim>\<open>bytes\<close> crate: a cursor over \<open>content\<close>; every read takes from the front
  and panics (\<open>None\<close>) when too few octets are left. Integers are big-endian.
\<close>

locale byte_buf =
  fixes B :: "'b buf_ops" and content :: "'b \<Rightarrow> u8 list"
  assumes content_buf_of: "content (buf_of B bs) = bs"
    and remaining_content: "remaining B b = length (content b)"
    and get_u8_short: "content b = [] \<Longrightarrow> get_u8 B b = None"
    and get_u8_ok: "content b = x # xs \<Longrightarrow> \<exists>b'. get_u8 B b = Some (x, b') \<and> content b' = xs"
    and get_u16_short: "length (content b) < 2 \<Longrightarrow> get_u16 B b = None"
    and get_u16_ok: "content b = x # y # xs \<Longrightarrow>
      \<exists>b'. get_u16 B b = Some (u16_of_be x y, b') \<and> content b' = xs"
    and copy_out_short: "length (content b) < n \<Longrightarrow> copy_out B n b = None"
    and copy_out_ok: "n \<le> length (content b) \<Longrightarrow>
      \<exists>b'. copy_out B n b = Some (take n (content b), b') \<and> content b' = drop n (content b)"
    and advance_short: "length (content b) < n \<Longrightarrow> advance B n b = None"
    and advance_ok: "n \<le> length (content b) \<Longrightarrow>
      \<exists>b'. advance B n b = Some b' \<and> content b' = drop n (content b)"

text \<open>The list of unread octets is itself such a stream and such a buffer.\<close>

definition list_stream :: "string \<Rightarrow> u8 list stream_ops" where
  "list_stream eof =
     \<lparr>read_exact = (\<lambda>n s. if n \<le> length s then Ok (take n s, drop n s)
                          else Err (IoErr UnexpectedEof eof)),
      write_all = (\<lambda>bs s. Ok s)\<rparr>"

definition list_buf :: "u8 list buf_ops" where
  "list_buf =
     \<lparr>buf_of = (\<lambda>bs. bs), remaining = length,
      get_u8 = (\<lambda>b. case b of [] \<Rightarrow> None | x # xs \<Rightarrow> Some (x, xs)),
      get_u16 = (\<lambda>b. case b of x # y # xs \<Rightarrow> Some (u16_of_be x y, xs) | _ \<Rightarrow> None),
      copy_out = (\<lambda>n b. if n \<le> length b then Some (take n b, drop n b) else None),
      advance = (\<lambda>n b. if n \<le> length b then Some (drop n b) else None)\<rparr>"

named_theorems list_io "the list-backed stream and buffer"

lemma list_stream_simps [list_io]:
  "read_exact (list_stream eof) n s =
     (if n \<le> length s then Ok (take n s, drop n s) else Err (IoErr UnexpectedEof eof))"
  by (simp add: list_stream_def)

lemma list_buf_simps [list_io]:
  "buf_of list_buf bs = bs" "remaining list_buf b = length b"
  "get_u8 list_buf [] = None" "get_u8 list_buf (x # xs) = Some (x, xs)"
  "get_u16 list_buf [] = None" "get_u16 list_buf [x] = None"
  "get_u16 list_buf (x # y # xs) = Some (u16_of_be x y, xs)"
  "copy_out list_buf n b = (if n \<le> length b then Some (take n b, drop n b) else None)"
  "advance list_buf n b = (if n \<le> length b then Some (drop n b) else None)"
  by (simp_all add: list_buf_def)

interpretation list_stream: byte_stream "list_stream eof" "\<lambda>s. s" eof
  by unfold_locales (simp_all add: list_io)

lemma get_u16_list_short: "length b < 2 \<Longrightarrow> get_u16 list_buf b = None"
  by (cases b rule: list.exhaust [case_product list.exhaust]) (auto simp: list_buf_def split: list.splits)

interpretation list_buf: byte_buf list_buf "\<lambda>b. b"
  by unfold_locales (simp_all add: list_io get_u16_list_short)

section \<open>Every lawful buffer behaves like the list of its octets\<close>

text \<open>
  The decoders are polymorphic in the buffer. Run on a lawful buffer, each computes what
  it computes on the list of unread octets, panics included; properties are therefore
  proved on lists and hold for the buffers of the \<^verbatim>\<open>bytes\<close> crate.
\<close>

abbreviation osim :: "('b \<Rightarrow> 'c) \<Rightarrow> ('a \<times> 'b, 'e) outcome \<Rightarrow> ('a \<times> 'c, 'e) outcome" where
  "osim c \<equiv> map_outcome (map_prod (\<lambda>x. x) c) (\<lambda>e. e)"

abbreviation osim1 :: "('b \<Rightarrow> 'c) \<Rightarrow> ('b, 'e) outcome \<Rightarrow> ('c, 'e) outcome" where
  "osim1 c \<equiv> map_outcome c (\<lambda>e. e)"

lemma osim_bind:
  assumes "osim c m = m'" "\<And>x b. map_outcome g (\<lambda>e. e) (f (x, b)) = f' (x, c b)"
  shows "map_outcome g (\<lambda>e. e) (obind m f) = obind m' f'"
  using assms by (cases m) auto

lemma osim1_bind:
  assumes "osim1 c m = m'" "\<And>b. map_outcome g (\<lambda>e. e) (f b) = f' (c b)"
  shows "map_outcome g (\<lambda>e. e) (obind m f) = obind m' f'"
  using assms by (cases m) auto

lemma osim_Ok: "osim c m = Ok (x, y) \<longleftrightarrow> (\<exists>b. m = Ok (x, b) \<and> c b = y)"
  by (cases m) auto

lemma osim_simps [simp]:
  "osim c m = Err e \<longleftrightarrow> m = Err e" "osim c m = Panic \<longleftrightarrow> m = Panic"
  "osim c m = Diverge \<longleftrightarrow> m = Diverge"
  by (cases m; auto)+

context byte_buf
begin

lemma sim_get_u8: "osim content (or_panic (get_u8 B b)) = or_panic (get_u8 list_buf (content b))"
  using get_u8_short [of b] get_u8_ok [of b]
  by (cases "content b") (auto simp: list_io)

lemma sim_get_u16: "osim content (or_panic (get_u16 B b)) = or_panic (get_u16 list_buf (content b))"
proof (cases "length (content b) < 2")
  case True
  then show ?thesis by (simp add: get_u16_short get_u16_list_short)
next
  case False
  then obtain x y xs where "content b = x # y # xs" by (rule length_ge2_obtain)
  with get_u16_ok [OF this] show ?thesis by (auto simp: list_io)
qed

lemma sim_copy_out:
  "osim content (or_panic (copy_out B n b)) = or_panic (copy_out list_buf n (content b))"
  using copy_out_short [of b n] copy_out_ok [of n b]
  by (cases "n \<le> length (content b)") (auto simp: list_io)

lemma sim_advance:
  "osim1 content (or_panic (advance B n b)) = or_panic (advance list_buf n (content b))"
  using advance_short [of b n] advance_ok [of n b]
  by (cases "n \<le> length (content b)") (auto simp: list_io)

lemma sim_remaining: "remaining B b = remaining list_buf (content b)"
  by (simp add: remaining_content list_io)

lemmas sims = sim_get_u8 sim_get_u16 sim_copy_out sim_advance

lemmas sim_bind = osim_bind [where c = content] osim1_bind [where c = content]

lemma sim_decode_utf8_string:
  "osim content (decode_utf8_string B b) = decode_utf8_string list_buf (content b)"
  unfolding decode_utf8_string_def by (auto intro!: sim_bind sims)

lemma sim_variable_length_loop:
  "osim content (decode_variable_length_loop B n v m b)
     = decode_variable_length_loop list_buf n v m (content b)"
proof (induction n arbitrary: v m b)
  case (Suc n)
  then show ?case by (auto simp: sim_remaining Let_def intro!: sim_bind sims)
qed simp

lemma sim_decode_variable_length:
  "osim content (decode_variable_length B b) = decode_variable_length list_buf (content b)"
  unfolding decode_variable_length_def
  by (auto simp: sim_remaining simp del: decode_variable_length_loop.simps intro!: sim_bind sim_variable_length_loop)

lemma sim_skip_properties:
  "osim1 content (skip_properties B l b) = skip_properties list_buf l (content b)"
  unfolding skip_properties_def by (auto intro!: sim_bind sim_decode_variable_length sims)

lemma sim_decode_will:
  "osim content (decode_will B w l b) = decode_will list_buf w l (content b)"
  unfolding decode_will_def
  by (auto intro!: sim_bind sim_skip_properties sim_decode_utf8_string sims)

lemma sim_decode_username:
  "osim content (decode_username B u b) = decode_username list_buf u (content b)"
  unfolding decode_username_def by (auto intro!: sim_bind sim_decode_utf8_string)

lemma sim_decode_password:
  "osim content (decode_password B p b) = decode_password list_buf p (content b)"
  unfolding decode_password_def by (auto intro!: sim_bind sims)

lemma sim_decode_connect:
  "osim content (decode_connect B b) = decode_connect list_buf (content b)"
  unfolding decode_connect_def Let_def sim_remaining
  by (auto simp: sim_remaining intro!: sim_bind sim_skip_properties
      sim_decode_utf8_string sim_decode_will sim_decode_username sim_decode_password sims)

lemma sim_decode_publish:
  "osim content (decode_publish B h b) = decode_publish list_buf h (content b)"
  unfolding decode_publish_def Let_def
  by (auto simp: sim_remaining intro!: sim_bind sim_decode_utf8_string sims)

lemma sim_decode_subscriptions:
  "osim content (decode_subscriptions B n acc b) = decode_subscriptions list_buf n acc (content b)"
proof (induction n arbitrary: acc b)
  case (Suc n)
  then show ?case
    by (auto simp: sim_remaining Let_def intro!: sim_bind sim_decode_utf8_string sims)
qed simp

lemma sim_decode_subscribe:
  "osim content (decode_subscribe B b) = decode_subscribe list_buf (content b)"
  unfolding decode_subscribe_def
  by (auto simp: sim_remaining simp del: decode_subscriptions.simps
      intro!: sim_bind sim_decode_subscriptions sims)

lemma sim_decode_topic_filters:
  "osim content (decode_topic_filters B n acc b) = decode_topic_filters list_buf n acc (content b)"
proof (induction n arbitrary: acc b)
  case (Suc n)
  then show ?case by (auto simp: sim_remaining intro!: sim_bind sim_decode_utf8_string)
qed simp

lemma sim_decode_unsubscribe:
  "osim content (decode_unsubscribe B b) = decode_unsubscribe list_buf (content b)"
  unfolding decode_unsubscribe_def
  by (auto simp: sim_remaining simp del: decode_topic_filters.simps
      intro!: sim_bind sim_decode_topic_filters sims)

end

context byte_stream
begin

lemma sim_read_exact:
  "osim pending (read_exact S n s) = read_exact (list_stream eof) n (pending s)"
  using read_ok [of n s] read_eof [of s n] by (cases "n \<le> length (pending s)") (auto simp: list_io)

lemma sim_read_remaining_length:
  "osim pending (read_remaining_length_stream S i len s)
     = read_remaining_length_stream (list_stream eof) i len (pending s)"
proof (induction "4 - i" arbitrary: i len s rule: less_induct)
  case less
  show ?case
    unfolding read_remaining_length_stream.simps [of _ i len]
    by (rule osim_bind [where c = pending, OF sim_read_exact])
      (auto simp: Let_def not_less dest: pow128_le intro!: less.hyps)
qed

lemma sim_read_fixed_header_half:
  "osim pending (read_fixed_header_half S s) = read_fixed_header_half (list_stream eof) (pending s)"
  unfolding read_fixed_header_half_def Let_def
  by (rule osim_bind [where c = pending, OF sim_read_exact])
    (auto intro!: osim_bind [where c = pending] osim1_bind [where c = "\<lambda>x. x"]
      sim_read_remaining_length simp: outcome.map_ident)

lemma sim_read_fixed_header_stream:
  "osim pending (read_fixed_header_stream S s)
     = read_fixed_header_stream (list_stream eof) (pending s)"
  using sim_read_fixed_header_half
  by (simp add: read_fixed_header_half_def read_fixed_header_stream_def)

end

locale mqtt_wire = byte_stream S pending eof + byte_buf B content
  for S :: "'s stream_ops" and pending eof and B :: "'b buf_ops" and content
begin

abbreviation rsim where
  "rsim \<equiv> map_outcome (map_option (\<lambda>(h, b, s). (h, content b, pending s))) (\<lambda>e. e)"

lemma sim_read_body:
  "rsim (obind (read_exact S n s) (\<lambda>(bs, s2). Ok (Some (h, buf_of B bs, s2))))
     = obind (read_exact (list_stream eof) n (pending s))
         (\<lambda>(bs, s2). Ok (Some (h, buf_of list_buf bs, s2)))"
  by (rule osim_bind [where c = pending, OF sim_read_exact])
    (auto simp: content_buf_of list_io)

lemma sim_read_packet_from:
  "rsim (read_packet_from S B n s) = read_packet_from (list_stream eof) list_buf n (pending s)"
  using sim_read_fixed_header_half [of s, symmetric]
  by (cases "read_fixed_header_half S s")
    (auto simp: read_packet_from_def content_buf_of list_buf_simps sim_read_body)

lemma sim_read_packet:
  "rsim (read_packet S B n s) = read_packet (list_stream eof) list_buf n (pending s)"
  using sim_read_fixed_header_stream [of s, symmetric]
  by (cases "read_fixed_header_stream S s")
    (auto simp: read_packet_def content_buf_of list_buf_simps sim_read_body)

end

interpretation list_wire: mqtt_wire "list_stream eof" "\<lambda>s. s" eof list_buf "\<lambda>b. b"
  by unfold_locales

section \<open>Remaining length\<close>

lemma low7: fixes x :: u8 shows "(x OR 0x80) AND 0x7F = x AND 0x7F"
  by (simp add: bit.conj_disj_distrib2)

lemma high_bit_set: fixes x :: u8 shows "(x OR 0x80) AND 0x80 \<noteq> 0"
  by (simp add: bit.conj_disj_distrib2 word_ao_absorbs)

lemma and_7F_small: "m < 128 \<Longrightarrow> (of_nat m :: u8) AND 0x7F = of_nat m"
proof -
  assume "m < 128"
  then have "take_bit 7 m = m" by (simp add: take_bit_nat_eq_self_iff)
  then have "take_bit 7 (of_nat m :: u8) = of_nat m" by (metis of_nat_take_bit)
  then show ?thesis by (simp add: take_bit_eq_mask mask_eq_exp_minus_1)
qed

lemma high_bit_clear: "m < 128 \<Longrightarrow> (of_nat m :: u8) AND 0x80 = 0"
proof -
  assume "m < 128"
  then have "(of_nat m :: u8) AND 0x80 = (of_nat m AND 0x7F) AND 0x80" by (simp add: and_7F_small)
  also have "\<dots> = 0" by (simp add: and.assoc)
  finally show ?thesis .
qed

lemmas remaining_octet [wire_simps] = low7 high_bit_set and_7F_small high_bit_clear

lemma digit128: "n mod 128 * p + n div 128 * (128 * p) = n * (p::nat)"
proof -
  have "n mod 128 * p + n div 128 * (128 * p) = (n mod 128 + n div 128 * 128) * p"
    by (simp only: distrib_right mult.assoc)
  then show ?thesis by (simp only: mod_div_mult_eq)
qed

text \<open>
  The loop accepts up to five octets: the multiplier is compared with \<open>128 ^ 4\<close> after it has
  been increased, and only a larger one is an error.
\<close>

lemma read_encode_remaining_length:
  "i \<le> 4 \<Longrightarrow> n < 128 ^ (5 - i) \<Longrightarrow>
   read_remaining_length_stream (list_stream eof) i len (encode_remaining_length_vec n @ rest)
     = Ok (len + n * 128 ^ i, rest)"
proof (induction n arbitrary: i len rule: encode_remaining_length_vec.induct)
  case (1 n)
  show ?case
  proof (cases "n div 128 > 0")
    case True
    have "i < 4"
    proof (rule ccontr)
      assume "\<not> i < 4"
      with "1.prems" have "n < 128" by simp
      with True show False by simp
    qed
    moreover have "n div 128 < 128 ^ (5 - Suc i)"
    proof -
      have "5 - i = Suc (5 - Suc i)" using \<open>i < 4\<close> by simp
      with "1.prems" have "n < 128 * 128 ^ (5 - Suc i)" by (metis power_Suc)
      then show ?thesis by (simp add: less_mult_imp_div_less mult.commute)
    qed
    ultimately have IH: "read_remaining_length_stream (list_stream eof) (Suc i)
        (len + n mod 128 * 128 ^ i) (encode_remaining_length_vec (n div 128) @ rest)
        = Ok (len + n mod 128 * 128 ^ i + n div 128 * 128 ^ Suc i, rest)"
      using "1.IH" [OF refl refl True] by simp
    have small: "\<not> (128::nat) ^ Suc i > 128 * 128 * 128 * 128"
      using power_increasing [of "Suc i" 4 "128::nat"] \<open>i < 4\<close> by simp
    have "len + n mod 128 * 128 ^ i + n div 128 * 128 ^ Suc i = len + n * 128 ^ i"
      using digit128 [of n "128 ^ i"] by simp
    with IH small True show ?thesis
      by (subst encode_remaining_length_vec.simps, subst read_remaining_length_stream.simps)
        (simp add: Let_def list_io wire_simps unat_of_nat_u8)
  next
    case False
    then have "n < 128" by simp
    then show ?thesis
      by (subst encode_remaining_length_vec.simps, subst read_remaining_length_stream.simps)
        (simp add: Let_def list_io wire_simps unat_of_nat_u8)
  qed
qed

end
