(* ===== verification/Btree.thy ===== *)
theory Btree
  imports Prelude
begin

text \<open>
  \<^verbatim>\<open>BTreeMap\<close> of the Rust standard library: an association list in ascending order of its keys.
\<close>

section \<open>Ordered maps\<close>

type_synonym ('k, 'v) btree = "('k \<times> 'v) list"

fun btree_insert :: "'k :: linorder \<Rightarrow> 'v \<Rightarrow> ('k, 'v) btree \<Rightarrow> ('k, 'v) btree" where
  "btree_insert k v [] = [(k, v)]"
| "btree_insert k v ((j, w) # m) =
     (if k < j then (k, v) # (j, w) # m else if k = j then (k, v) # m else (j, w) # btree_insert k v m)"

text \<open>\<^verbatim>\<open>entry(k).or_insert_with(f)\<close> leaves a present key alone.\<close>

definition btree_entry :: "'k :: linorder \<Rightarrow> 'v \<Rightarrow> ('k, 'v) btree \<Rightarrow> ('k, 'v) btree" where
  "btree_entry k v m = (if map_of m k = None then btree_insert k v m else m)"

definition btree_ok :: "('k :: linorder, 'v) btree \<Rightarrow> bool" where
  "btree_ok m \<longleftrightarrow> sorted_wrt (<) (map fst m)"

lemma fst_set_btree_insert [simp]: "fst ` set (btree_insert k v m) = insert k (fst ` set m)"
  by (induction k v m rule: btree_insert.induct) auto

lemma set_btree_insert: "set (btree_insert k v m) \<subseteq> insert (k, v) (set m)"
  by (induction k v m rule: btree_insert.induct) auto

lemma ball_btree_insert:
  "(\<forall>x \<in> set (btree_insert k v m). P (fst x)) \<longleftrightarrow> P k \<and> (\<forall>x \<in> set m. P (fst x))"
  by (induction k v m rule: btree_insert.induct) auto

lemma btree_ok_insert [simp]: "btree_ok m \<Longrightarrow> btree_ok (btree_insert k v m)"
  unfolding btree_ok_def sorted_wrt_map
  by (induction k v m rule: btree_insert.induct) (auto simp: ball_btree_insert [where P = "\<lambda>x. _ < x"])

lemma map_of_btree_insert [simp]: "btree_ok m \<Longrightarrow> map_of (btree_insert k v m) = (map_of m)(k \<mapsto> v)"
  unfolding btree_ok_def by (induction k v m rule: btree_insert.induct) (auto simp: fun_eq_iff map_of_eq_None_iff)

lemma btree_ok_entry [simp]: "btree_ok m \<Longrightarrow> btree_ok (btree_entry k v m)"
  by (simp add: btree_entry_def)

lemma map_of_btree_entry [simp]:
  "btree_ok m \<Longrightarrow> map_of (btree_entry k v m) j = (if j = k \<and> map_of m k = None then Some v else map_of m j)"
  by (simp add: btree_entry_def)

text \<open>\<^verbatim>\<open>remove\<close> is \<open>AList.delete\<close>; it keeps the order.\<close>

lemma btree_ok_Nil [simp]: "btree_ok []" "btree_ok [x]"
  by (simp_all add: btree_ok_def)

lemma btree_ok_distinct: "btree_ok m \<Longrightarrow> distinct (map fst m)"
  by (simp add: btree_ok_def strict_sorted_iff)

lemma btree_ok_delete [simp]: "btree_ok m \<Longrightarrow> btree_ok (AList.delete k m)"
  unfolding btree_ok_def sorted_wrt_map AList.delete_eq by (rule sorted_wrt_filter)

lemma btree_mem_iff: "btree_ok m \<Longrightarrow> (k, v) \<in> set m \<longleftrightarrow> map_of m k = Some v"
  by (simp add: btree_ok_distinct)

end
