(* ===== verification/Mqtt_Topics.thy ===== *)
theory Mqtt_Topics
  imports Mqtt_Packets Btree
begin

text \<open>
  The subscription trie (\<^verbatim>\<open>broker/subscription.rs\<close>) and the store of retained messages
  (\<^verbatim>\<open>broker/retained.rs\<close>) of the MQTT broker.
\<close>

section \<open>Subscriptions\<close>

record Subscription =
  sub_client_id :: string
  sub_qos :: QoS

datatype TrieNode =
  TrieNode (children: "(string \<times> TrieNode) list")
    (subscriptions: "Subscription list") (multi_subscriptions: "Subscription list")

record TopicTrie =
  root :: TrieNode
  wildcard_subscriptions :: "(string \<times> Subscription) list"

record SubscriptionInfo =
  si_topic_filter :: string
  si_client_id :: string
  si_qos :: u8

definition TrieNode_default :: TrieNode where
  "TrieNode_default = TrieNode [] [] []"

definition TopicTrie_new :: TopicTrie where
  "TopicTrie_new = \<lparr>root = TrieNode_default, wildcard_subscriptions = []\<rparr>"

text \<open>\<^verbatim>\<open>retain(|s| s.client_id != client_id)\<close> followed by \<^verbatim>\<open>push\<close>.\<close>

definition retain_others :: "string \<Rightarrow> Subscription list \<Rightarrow> Subscription list" where
  "retain_others client_id subs = filter (\<lambda>s. sub_client_id s \<noteq> client_id) subs"

text \<open>
  \<^verbatim>\<open>find_or_create_node\<close> and \<^verbatim>\<open>find_node_mut\<close> hand out a mutable reference to a node; here they
  take the update \<open>f\<close> the caller makes through it. Levels \<open>+\<close> and \<open>#\<close> are skipped.
\<close>

fun find_or_create_node :: "string list \<Rightarrow> (TrieNode \<Rightarrow> TrieNode) \<Rightarrow> TrieNode \<Rightarrow> TrieNode" where
  "find_or_create_node [] f node = f node"
| "find_or_create_node (level # levels) f node =
     (if level = ''+'' then find_or_create_node levels f node
      else if level = ''#'' then find_or_create_node levels f node
      else
        let child = (case map_of (children node) level of None \<Rightarrow> TrieNode_default | Some c \<Rightarrow> c) in
        TrieNode (btree_insert level (find_or_create_node levels f child) (children node))
          (subscriptions node) (multi_subscriptions node))"

fun find_node_mut :: "string list \<Rightarrow> (TrieNode \<Rightarrow> TrieNode) \<Rightarrow> TrieNode \<Rightarrow> TrieNode" where
  "find_node_mut [] f node = f node"
| "find_node_mut (level # levels) f node =
     (if level = ''+'' then find_node_mut levels f node
      else if level = ''#'' then find_node_mut levels f node
      else case map_of (children node) level of
          None \<Rightarrow> node
        | Some child \<Rightarrow>
            TrieNode (btree_insert level (find_node_mut levels f child) (children node))
              (subscriptions node) (multi_subscriptions node))"

definition add_multi :: "string \<Rightarrow> QoS \<Rightarrow> TrieNode \<Rightarrow> TrieNode" where
  "add_multi client_id qos node =
     TrieNode (children node) (subscriptions node)
       (retain_others client_id (multi_subscriptions node)
         @ [\<lparr>sub_client_id = client_id, sub_qos = qos\<rparr>])"

definition add_exact :: "string \<Rightarrow> QoS \<Rightarrow> TrieNode \<Rightarrow> TrieNode" where
  "add_exact client_id qos node =
     TrieNode (children node)
       (retain_others client_id (subscriptions node) @ [\<lparr>sub_client_id = client_id, sub_qos = qos\<rparr>])
       (multi_subscriptions node)"

definition del_multi :: "string \<Rightarrow> TrieNode \<Rightarrow> TrieNode" where
  "del_multi client_id node =
     TrieNode (children node) (subscriptions node) (retain_others client_id (multi_subscriptions node))"

definition del_exact :: "string \<Rightarrow> TrieNode \<Rightarrow> TrieNode" where
  "del_exact client_id node =
     TrieNode (children node) (retain_others client_id (subscriptions node)) (multi_subscriptions node)"

definition subscribe :: "string \<Rightarrow> string \<Rightarrow> QoS \<Rightarrow> TopicTrie \<Rightarrow> TopicTrie" where
  "subscribe client_id topic_filter qos t =
     (let levels = split_on (CHR ''/'') topic_filter in
      if ends_with topic_filter ''#'' \<and> \<not> ends_with topic_filter ''/#''
         \<and> length levels = 1 \<and> levels ! 0 = ''#''
      then t\<lparr>root := add_multi client_id qos (root t)\<rparr>
      else if ends_with topic_filter ''#''
      then t\<lparr>root := find_or_create_node (butlast levels) (add_multi client_id qos) (root t)\<rparr>
      else if ''+'' \<in> set levels
      then t\<lparr>wildcard_subscriptions :=
               filter (\<lambda>(f, s). sub_client_id s \<noteq> client_id \<or> f \<noteq> topic_filter) (wildcard_subscriptions t)
                 @ [(topic_filter, \<lparr>sub_client_id = client_id, sub_qos = qos\<rparr>)]\<rparr>
      else t\<lparr>root := find_or_create_node levels (add_exact client_id qos) (root t)\<rparr>)"

definition unsubscribe :: "string \<Rightarrow> string \<Rightarrow> TopicTrie \<Rightarrow> TopicTrie" where
  "unsubscribe client_id topic_filter t =
     (let levels = split_on (CHR ''/'') topic_filter in
      if ends_with topic_filter ''#'' then
        let parent_levels = (if length levels = 1 \<and> levels ! 0 = ''#'' then [] else butlast levels) in
        t\<lparr>root := find_node_mut parent_levels (del_multi client_id) (root t)\<rparr>
      else if ''+'' \<in> set levels
      then t\<lparr>wildcard_subscriptions :=
               filter (\<lambda>(f, s). sub_client_id s \<noteq> client_id \<or> f \<noteq> topic_filter) (wildcard_subscriptions t)\<rparr>
      else t\<lparr>root := find_node_mut levels (del_exact client_id) (root t)\<rparr>)"

fun remove_recursive_inner :: "string \<Rightarrow> TrieNode \<Rightarrow> TrieNode" where
  "remove_recursive_inner client_id (TrieNode ch subs multi) =
     TrieNode (map (\<lambda>(name, child). (name, remove_recursive_inner client_id child)) ch)
       (retain_others client_id subs) (retain_others client_id multi)"

definition remove_subscriptions_for_client :: "string \<Rightarrow> TopicTrie \<Rightarrow> TopicTrie" where
  "remove_subscriptions_for_client client_id t =
     t\<lparr>root := remove_recursive_inner client_id (root t),
       wildcard_subscriptions :=
         filter (\<lambda>(_, s). sub_client_id s \<noteq> client_id) (wildcard_subscriptions t)\<rparr>"

text \<open>The levels still to be matched are the rest of the list from \<^verbatim>\<open>depth\<close> on.\<close>

fun match_recursive :: "TrieNode \<Rightarrow> string list \<Rightarrow> Subscription list" where
  "match_recursive node [] = multi_subscriptions node @ subscriptions node"
| "match_recursive node (level # levels) =
     multi_subscriptions node @
     (case map_of (children node) level of
        None \<Rightarrow> []
      | Some child \<Rightarrow> match_recursive child levels)"

definition topic_matches_single_wildcard :: "string \<Rightarrow> string list \<Rightarrow> bool" where
  "topic_matches_single_wildcard f topic_levels =
     (let filter_levels = split_on (CHR ''/'') f in
      if length filter_levels \<noteq> length topic_levels then False
      else list_all (\<lambda>(f, t). \<not> (f \<noteq> ''+'' \<and> f \<noteq> t)) (zip filter_levels topic_levels))"

definition match_topic :: "string \<Rightarrow> TopicTrie \<Rightarrow> Subscription list" where
  "match_topic topic t =
     (let levels = split_on (CHR ''/'') topic in
      match_recursive (root t) levels
        @ map snd (filter (\<lambda>(f, _). topic_matches_single_wildcard f levels) (wildcard_subscriptions t)))"

definition sub_info :: "string \<Rightarrow> Subscription \<Rightarrow> SubscriptionInfo" where
  "sub_info f sub = \<lparr>si_topic_filter = f, si_client_id = sub_client_id sub, si_qos = QoS_as_u8 (sub_qos sub)\<rparr>"

fun dump_recursive :: "TrieNode \<Rightarrow> string \<Rightarrow> SubscriptionInfo list" where
  "dump_recursive (TrieNode ch subs multi) prefix =
     map (sub_info (if prefix = [] then ''/'' else prefix)) subs
     @ map (sub_info ((if prefix = [] then [] else prefix @ ''/'') @ ''#'')) multi
     @ concat (map (\<lambda>(name, child).
          dump_recursive child (if prefix = [] then name else prefix @ ''/'' @ name)) ch)"

definition dump_subscriptions :: "TopicTrie \<Rightarrow> SubscriptionInfo list" where
  "dump_subscriptions t =
     dump_recursive (root t) [] @ map (\<lambda>(f, sub). sub_info f sub) (wildcard_subscriptions t)"

section \<open>Retained messages\<close>

record RetainedMessage =
  rm_payload :: "u8 list"
  rm_qos :: QoS

type_synonym RetainedStore = "(string, RetainedMessage) hmap"

definition RetainedStore_new :: RetainedStore where
  "RetainedStore_new = []"

definition store :: "string \<Rightarrow> u8 list \<Rightarrow> QoS \<Rightarrow> RetainedStore \<Rightarrow> RetainedStore" where
  "store topic payload qos m = AList.update topic \<lparr>rm_payload = payload, rm_qos = qos\<rparr> m"

definition remove :: "string \<Rightarrow> RetainedStore \<Rightarrow> RetainedStore" where
  "remove topic m = AList.delete topic m"

text \<open>The two indices of the loop walk the two lists in step.\<close>

fun match_levels :: "string list \<Rightarrow> string list \<Rightarrow> bool" where
  "match_levels (f # fp) (t # tp) =
     (if f = ''#'' then True
      else if f = ''+'' \<or> f = t then match_levels fp tp
      else False)"
| "match_levels fp tp = ((fp = [] \<and> tp = []) \<or> (fp \<noteq> [] \<and> hd fp = ''#''))"

definition topic_matches_filter :: "string \<Rightarrow> string \<Rightarrow> bool" where
  "topic_matches_filter f topic = match_levels (split_on (CHR ''/'') f) (split_on (CHR ''/'') topic)"

definition match_retained ::
    "(string, RetainedMessage) iter_order \<Rightarrow> string \<Rightarrow> RetainedStore \<Rightarrow> (string \<times> RetainedMessage) list" where
  "match_retained order f m = filter (\<lambda>(topic, _). topic_matches_filter f topic) (order m)"

end
