(* ===== verification/Mqtt_Broker.thy ===== *)
theory Mqtt_Broker
  imports Mqtt_Codec Mqtt_Topics
begin

text \<open>
  The broker itself (\<^verbatim>\<open>crates/mqtt-broker/src/broker/mod.rs\<close> and \<^verbatim>\<open>session.rs\<close>): sessions,
  the packet handlers, and one connection from accept to clean-up.

  The bounded channels of \<^verbatim>\<open>tokio::sync::mpsc\<close> are a parameter \<open>chan_ops\<close> over a state of
  all channels, which is the broker's field \<open>chans\<close>; \<^verbatim>\<open>chrono::Utc::now\<close> is the argument
  \<open>now\<close>. A handler takes the locks of the broker one after the other; it is modelled as one
  step on the shared state, so connections interleave between handlers and not inside one.
\<close>

section \<open>Third-party interface\<close>

record ('ch, 'w) chan_ops =
  channel :: "nat \<Rightarrow> 'w \<Rightarrow> 'ch \<times> 'w"
  try_send :: "'ch \<Rightarrow> u8 list \<Rightarrow> 'w \<Rightarrow> bool \<times> 'w"
  recv :: "'ch \<Rightarrow> 'w \<Rightarrow> (u8 list \<times> 'w) option"
  drop_rx :: "'ch \<Rightarrow> 'w \<Rightarrow> 'w"

section \<open>State\<close>

datatype BrokerError =
  AuthenticationFailed string
| ProtocolError string
| ConnectionClosed
| BrokerIo io_error
| BrokerOther string

record AuthConfig =
  auth_username :: "string option"
  auth_password :: "string option"

record BrokerConfig =
  enabled :: bool
  bind_addr :: string
  max_connections :: nat
  max_packet_size :: nat
  default_keep_alive_secs :: u16
  session_expiry_secs :: u32
  max_qos :: u8
  retain_available :: bool
  shared_subscriptions_available :: bool
  wildcard_subscriptions_available :: bool
  dispatch_channel_capacity :: nat
  auth :: AuthConfig
  persistence_backend :: string

definition BrokerConfig_default :: BrokerConfig where
  "BrokerConfig_default =
     \<lparr>enabled = False, bind_addr = ''127.0.0.1:1883'', max_connections = 10000, max_packet_size = 268435,
      default_keep_alive_secs = 60, session_expiry_secs = 1800, max_qos = 2, retain_available = True,
      shared_subscriptions_available = True, wildcard_subscriptions_available = True,
      dispatch_channel_capacity = 256, auth = \<lparr>auth_username = None, auth_password = None\<rparr>,
      persistence_backend = ''memory''\<rparr>"

record BrokerMetrics =
  active_connections :: u64
  total_connections :: u64
  messages_received :: u64
  messages_sent :: u64
  bytes_received :: u64
  bytes_sent :: u64
  subscriptions_count :: u64

definition BrokerMetrics_default :: BrokerMetrics where
  "BrokerMetrics_default =
     \<lparr>active_connections = 0, total_connections = 0, messages_received = 0, messages_sent = 0,
      bytes_received = 0, bytes_sent = 0, subscriptions_count = 0\<rparr>"

record ('ch, 'time) Session =
  ses_client_id :: string
  ses_keep_alive :: u16
  ses_connected_at :: 'time
  outbound_tx :: 'ch

definition Session_new :: "'time \<Rightarrow> string \<Rightarrow> u16 \<Rightarrow> 'ch \<Rightarrow> ('ch, 'time) Session" where
  "Session_new now client_id keep_alive tx =
     \<lparr>ses_client_id = client_id, ses_keep_alive = keep_alive, ses_connected_at = now, outbound_tx = tx\<rparr>"

record ('ch, 'time, 'w) MqttBroker =
  config :: BrokerConfig
  sessions :: "(string, ('ch, 'time) Session) hmap"
  topic_trie :: TopicTrie
  retained_store :: RetainedStore
  metrics :: BrokerMetrics
  packet_id_counter :: u16
  chans :: 'w

text \<open>The counter of packet ids is a static of \<^verbatim>\<open>session.rs\<close> that starts at 1.\<close>

definition MqttBroker_new :: "BrokerConfig \<Rightarrow> 'w \<Rightarrow> ('ch, 'time, 'w) MqttBroker" where
  "MqttBroker_new cfg w =
     \<lparr>config = cfg, sessions = [], topic_trie = TopicTrie_new, retained_store = RetainedStore_new,
      metrics = BrokerMetrics_default, packet_id_counter = 1, chans = w\<rparr>"

definition next_packet_id :: "('ch, 'time, 'w) MqttBroker \<Rightarrow> u16 \<times> ('ch, 'time, 'w) MqttBroker" where
  "next_packet_id br =
     (let val = packet_id_counter br;
          br' = br\<lparr>packet_id_counter := val + 1\<rparr> in
      (if val = 0 then 1 else val, br'))"

definition packet_id_for :: "QoS \<Rightarrow> ('ch, 'time, 'w) MqttBroker \<Rightarrow> u16 option \<times> ('ch, 'time, 'w) MqttBroker" where
  "packet_id_for q br =
     (if q \<noteq> AtMostOnce then (let (pid, br') = next_packet_id br in (Some pid, br')) else (None, br))"

definition send_raw ::
    "('ch, 'w) chan_ops \<Rightarrow> ('ch, 'time) Session \<Rightarrow> u8 list
      \<Rightarrow> ('ch, 'time, 'w) MqttBroker \<Rightarrow> bool \<times> ('ch, 'time, 'w) MqttBroker" where
  "send_raw M session packet br =
     (let (sent, w) = try_send M (outbound_tx session) packet (chans br) in (sent, br\<lparr>chans := w\<rparr>))"

section \<open>Handlers\<close>

definition authenticate :: "BrokerConfig \<Rightarrow> ConnectPacket \<Rightarrow> (unit, BrokerError) outcome" where
  "authenticate cfg connect =
     (case auth_username (auth cfg) of
        Some expected_user \<Rightarrow>
          let expected_pass = (case auth_password (auth cfg) of None \<Rightarrow> [] | Some p \<Rightarrow> p);
              provided_user = (case cp_username connect of None \<Rightarrow> [] | Some u \<Rightarrow> u);
              provided_pass = (case cp_password connect of None \<Rightarrow> [] | Some p \<Rightarrow> from_utf8_lossy p) in
          if provided_user \<noteq> expected_user \<or> provided_pass \<noteq> expected_pass
          then Err (AuthenticationFailed (cp_client_id connect))
          else Ok ()
      | None \<Rightarrow> Ok ())"

text \<open>\<^verbatim>\<open>if let Some(session) = sessions.get(client_id) { let _ = session.send_raw(..); }\<close>\<close>

definition send_to ::
    "('ch, 'w) chan_ops \<Rightarrow> string \<Rightarrow> u8 list \<Rightarrow> ('ch, 'time, 'w) MqttBroker \<Rightarrow> ('ch, 'time, 'w) MqttBroker" where
  "send_to M client_id packet br =
     (case map_of (sessions br) client_id of
        None \<Rightarrow> br
      | Some session \<Rightarrow> snd (send_raw M session packet br))"

definition retain_message ::
    "string \<Rightarrow> u8 list \<Rightarrow> QoS \<Rightarrow> bool \<Rightarrow> ('ch, 'time, 'w) MqttBroker \<Rightarrow> ('ch, 'time, 'w) MqttBroker" where
  "retain_message topic payload qos retain br =
     (if retain \<and> retain_available (config br) then
        br\<lparr>retained_store :=
             (if payload = [] then remove topic (retained_store br)
              else store topic payload qos (retained_store br))\<rparr>
      else br)"

definition count_sent :: "('ch, 'time, 'w) MqttBroker \<Rightarrow> ('ch, 'time, 'w) MqttBroker" where
  "count_sent br = br\<lparr>metrics := (metrics br)\<lparr>messages_sent := messages_sent (metrics br) + 1\<rparr>\<rparr>"

fun deliver ::
    "('ch, 'w) chan_ops \<Rightarrow> string \<Rightarrow> u8 list \<Rightarrow> QoS \<Rightarrow> bool \<Rightarrow> Subscription list
      \<Rightarrow> ('ch, 'time, 'w) MqttBroker \<Rightarrow> ('ch, 'time, 'w) MqttBroker" where
  "deliver M topic payload qos retain [] br = br"
| "deliver M topic payload qos retain (sub # subs) br =
     deliver M topic payload qos retain subs
       (case map_of (sessions br) (sub_client_id sub) of
          None \<Rightarrow> br
        | Some session \<Rightarrow>
            let effective_qos = min qos (sub_qos sub);
                (packet_id, br1) = packet_id_for effective_qos br;
                raw_packet = encode_publish topic payload effective_qos False retain packet_id;
                (sent, br2) = send_raw M session raw_packet br1 in
            if sent then count_sent br2 else br2)"

definition handle_publish_inner ::
    "('ch, 'w) chan_ops \<Rightarrow> string \<Rightarrow> u8 list \<Rightarrow> QoS \<Rightarrow> bool
      \<Rightarrow> ('ch, 'time, 'w) MqttBroker \<Rightarrow> ('ch, 'time, 'w) MqttBroker" where
  "handle_publish_inner M topic payload qos retain br =
     (let br1 = retain_message topic payload qos retain br;
          matches = match_topic topic (topic_trie br1) in
      deliver M topic payload qos retain matches br1)"

definition handle_publish ::
    "('ch, 'w) chan_ops \<Rightarrow> string \<Rightarrow> PublishPacket \<Rightarrow> ('ch, 'time, 'w) MqttBroker \<Rightarrow> ('ch, 'time, 'w) MqttBroker" where
  "handle_publish M client_id publish br =
     (let br1 = (if pp_qos publish = AtLeastOnce then
                   (case pp_packet_id publish of None \<Rightarrow> br
                    | Some pid \<Rightarrow> send_to M client_id (encode_puback pid) br) else br);
          br2 = (if pp_qos publish = ExactlyOnce then
                   (case pp_packet_id publish of None \<Rightarrow> br1
                    | Some pid \<Rightarrow> send_to M client_id (encode_puback pid) br1) else br1) in
      handle_publish_inner M (pp_topic publish) (pp_payload publish) (pp_qos publish) (pp_retain publish) br2)"

fun subscribe_all ::
    "string \<Rightarrow> SubscriptionFilter list \<Rightarrow> ('ch, 'time, 'w) MqttBroker \<Rightarrow> u8 list \<times> ('ch, 'time, 'w) MqttBroker" where
  "subscribe_all client_id [] br = ([], br)"
| "subscribe_all client_id (sf # sfs) br =
     (let effective_qos = sf_qos sf;
          br1 = br\<lparr>topic_trie := subscribe client_id (sf_topic_filter sf) effective_qos (topic_trie br),
                   metrics := (metrics br)\<lparr>subscriptions_count := subscriptions_count (metrics br) + 1\<rparr>\<rparr>;
          (codes, br2) = subscribe_all client_id sfs br1 in
      (QoS_as_u8 effective_qos # codes, br2))"

fun send_retained ::
    "('ch, 'w) chan_ops \<Rightarrow> ('ch, 'time) Session \<Rightarrow> QoS \<Rightarrow> (string \<times> RetainedMessage) list
      \<Rightarrow> ('ch, 'time, 'w) MqttBroker \<Rightarrow> ('ch, 'time, 'w) MqttBroker" where
  "send_retained M session filter_qos [] br = br"
| "send_retained M session filter_qos ((retained_topic, retained_msg) # rest) br =
     (let effective_qos = min filter_qos (rm_qos retained_msg);
          (packet_id, br1) = packet_id_for effective_qos br;
          br2 = snd (send_raw M session
                  (encode_publish retained_topic (rm_payload retained_msg) effective_qos False True packet_id) br1) in
      send_retained M session filter_qos rest (count_sent br2))"

fun replay_retained ::
    "('ch, 'w) chan_ops \<Rightarrow> (string, RetainedMessage) iter_order \<Rightarrow> ('ch, 'time) Session \<Rightarrow> SubscriptionFilter list
      \<Rightarrow> ('ch, 'time, 'w) MqttBroker \<Rightarrow> ('ch, 'time, 'w) MqttBroker" where
  "replay_retained M order session [] br = br"
| "replay_retained M order session (sf # sfs) br =
     replay_retained M order session sfs
       (send_retained M session (sf_qos sf) (match_retained order (sf_topic_filter sf) (retained_store br)) br)"

definition handle_subscribe ::
    "('ch, 'w) chan_ops \<Rightarrow> (string, RetainedMessage) iter_order \<Rightarrow> string \<Rightarrow> SubscribePacket
      \<Rightarrow> ('ch, 'time, 'w) MqttBroker \<Rightarrow> ('ch, 'time, 'w) MqttBroker" where
  "handle_subscribe M order client_id sp br =
     (let (reason_codes, br1) = subscribe_all client_id (sp_subscriptions sp) br in
      case map_of (sessions br1) client_id of
        None \<Rightarrow> br1
      | Some session \<Rightarrow>
          let br2 = snd (send_raw M session (encode_suback (sp_packet_id sp) reason_codes) br1) in
          replay_retained M order session (sp_subscriptions sp) br2)"

fun unsubscribe_all :: "string \<Rightarrow> string list \<Rightarrow> ('ch, 'time, 'w) MqttBroker \<Rightarrow> ('ch, 'time, 'w) MqttBroker" where
  "unsubscribe_all client_id [] br = br"
| "unsubscribe_all client_id (f # fs) br =
     unsubscribe_all client_id fs
       (br\<lparr>topic_trie := unsubscribe client_id f (topic_trie br),
           metrics := (metrics br)\<lparr>subscriptions_count := subscriptions_count (metrics br) - 1\<rparr>\<rparr>)"

definition handle_unsubscribe ::
    "('ch, 'w) chan_ops \<Rightarrow> string \<Rightarrow> UnsubscribePacket \<Rightarrow> ('ch, 'time, 'w) MqttBroker \<Rightarrow> ('ch, 'time, 'w) MqttBroker" where
  "handle_unsubscribe M client_id up br =
     send_to M client_id (encode_unsuback (up_packet_id up)) (unsubscribe_all client_id (up_topic_filters up) br)"

definition get_sessions_info ::
    "(string, ('ch, 'time) Session) iter_order \<Rightarrow> ('ch, 'time, 'w) MqttBroker \<Rightarrow> (string \<times> u16 \<times> 'time) list" where
  "get_sessions_info order br =
     map (\<lambda>(_, s). (ses_client_id s, ses_keep_alive s, ses_connected_at s)) (order (sessions br))"

definition get_subscriptions_info :: "('ch, 'time, 'w) MqttBroker \<Rightarrow> SubscriptionInfo list" where
  "get_subscriptions_info br = dump_subscriptions (topic_trie br)"

section \<open>One connection\<close>

type_synonym will_info = "(string \<times> u8 list option \<times> QoS \<times> bool) option"

definition will_info_of :: "ConnectPacket \<Rightarrow> will_info" where
  "will_info_of connect =
     map_option (\<lambda>topic. (topic, cp_will_payload connect, cp_will_qos connect, cp_will_retain connect))
       (cp_will_topic connect)"

text \<open>
  The task of a connection is at one of these points. A panic in a decoder ends the task
  without its clean-up. Between \<^verbatim>\<open>handle_connection\<close> returning and the end of the task,
  \<^verbatim>\<open>start\<close> decrements the number of active connections; that is part of the last step.
\<close>

datatype 'ch conn_phase =
  Accepted
| Connected string "'ch" will_info
| Finished "(unit, BrokerError) outcome"
| Crashed "'ch option"

text \<open>The channel a writer task still serves; a crashed connection leaves its writer behind.\<close>

fun writer_chan :: "'ch conn_phase \<Rightarrow> 'ch option" where
  "writer_chan (Connected client_id ch will) = Some ch"
| "writer_chan (Crashed x) = x"
| "writer_chan _ = None"

record ('s, 'ch) Conn =
  read_half :: 's
  write_half :: 's
  phase :: "'ch conn_phase"

text \<open>
  The part of \<^verbatim>\<open>handle_connection\<close> before the loop: the CONNECT packet, authentication, the
  new session, CONNACK. The result is the client id, the receiving end of its channel and
  the will.
\<close>

definition connect_packet ::
    "'s stream_ops \<Rightarrow> 'b buf_ops \<Rightarrow> 'time \<Rightarrow> 'ch \<Rightarrow> ('s, 'ch) Conn \<Rightarrow> ('ch, 'time, 'w) MqttBroker
      \<Rightarrow> (string \<times> 'ch \<times> will_info, BrokerError) outcome \<times> ('s, 'ch) Conn \<times> ('ch, 'time, 'w) MqttBroker" where
  "connect_packet S B now ch c br0 =
     (case read_packet_from S B (max_packet_size (config br0)) (read_half c) of
        Err e \<Rightarrow> (Err (BrokerIo e), c, br0)
      | Panic \<Rightarrow> (Panic, c, br0)
      | Diverge \<Rightarrow> (Diverge, c, br0)
      | Ok None \<Rightarrow> (Err ConnectionClosed, c, br0)
      | Ok (Some (header, buf, rd)) \<Rightarrow>
          let c1 = c\<lparr>read_half := rd\<rparr> in
          if packet_type header \<noteq> Connect
          then (Err (ProtocolError ''First packet must be CONNECT''), c1, br0)
          else case decode_connect B buf of
              Err e \<Rightarrow> (Err (ProtocolError (''Bad CONNECT: '' @ io_msg e)), c1, br0)
            | Panic \<Rightarrow> (Panic, c1, br0)
            | Diverge \<Rightarrow> (Diverge, c1, br0)
            | Ok (connect, _) \<Rightarrow>
                (case authenticate (config br0) connect of
                   Err e \<Rightarrow>
                     (case write_connack_to S False 5 (write_half c1) of
                        Ok wr \<Rightarrow> (Err e, c1\<lparr>write_half := wr\<rparr>, br0)
                      | Err _ \<Rightarrow> (Err e, c1, br0)
                      | Panic \<Rightarrow> (Panic, c1, br0)
                      | Diverge \<Rightarrow> (Diverge, c1, br0))
                 | Panic \<Rightarrow> (Panic, c1, br0)
                 | Diverge \<Rightarrow> (Diverge, c1, br0)
                 | Ok _ \<Rightarrow>
                     let client_id = cp_client_id connect;
                         session = Session_new now client_id (cp_keep_alive connect) ch;
                         br1 = br0\<lparr>sessions := AList.update client_id session (sessions br0)\<rparr> in
                     (case write_connack_to S False 0 (write_half c1) of
                        Ok wr \<Rightarrow> (Ok (client_id, ch, will_info_of connect), c1\<lparr>write_half := wr\<rparr>, br1)
                      | Err e \<Rightarrow> (Err (BrokerIo e), c1, br1)
                      | Panic \<Rightarrow> (Panic, c1, br1)
                      | Diverge \<Rightarrow> (Diverge, c1, br1))))"

text \<open>
  With the channel around it: on every path but success the receiving end goes out of scope.
\<close>

definition connect_phase ::
    "'s stream_ops \<Rightarrow> 'b buf_ops \<Rightarrow> ('ch, 'w) chan_ops \<Rightarrow> 'time \<Rightarrow> ('s, 'ch) Conn \<Rightarrow> ('ch, 'time, 'w) MqttBroker
      \<Rightarrow> (string \<times> 'ch \<times> will_info, BrokerError) outcome \<times> ('s, 'ch) Conn \<times> ('ch, 'time, 'w) MqttBroker" where
  "connect_phase S B M now c br =
     (let (ch, w) = channel M 256 (chans br);
          (r, c', br') = connect_packet S B now ch c (br\<lparr>chans := w\<rparr>) in
      case r of
        Ok _ \<Rightarrow> (r, c', br')
      | _ \<Rightarrow> (r, c', br'\<lparr>chans := drop_rx M ch (chans br')\<rparr>))"

text \<open>
  One round of the loop in \<^verbatim>\<open>connection_loop\<close>: \<open>None\<close> goes on, \<open>Some r\<close> returns.
\<close>

definition count_received :: "nat \<Rightarrow> ('ch, 'time, 'w) MqttBroker \<Rightarrow> ('ch, 'time, 'w) MqttBroker" where
  "count_received n br = br\<lparr>metrics := (metrics br)\<lparr>bytes_received := bytes_received (metrics br) + of_nat n\<rparr>\<rparr>"

definition count_message :: "('ch, 'time, 'w) MqttBroker \<Rightarrow> ('ch, 'time, 'w) MqttBroker" where
  "count_message br = br\<lparr>metrics := (metrics br)\<lparr>messages_received := messages_received (metrics br) + 1\<rparr>\<rparr>"

definition handle_packet ::
    "'b buf_ops \<Rightarrow> ('ch, 'w) chan_ops \<Rightarrow> (string, RetainedMessage) iter_order \<Rightarrow> string \<Rightarrow> FixedHeader \<Rightarrow> 'b
      \<Rightarrow> ('ch, 'time, 'w) MqttBroker \<Rightarrow> (unit, BrokerError) outcome option \<times> ('ch, 'time, 'w) MqttBroker" where
  "handle_packet B M order client_id header buf br =
     (case packet_type header of
        Publish \<Rightarrow>
          (case decode_publish B header buf of
             Ok (publish, _) \<Rightarrow> (None, handle_publish M client_id publish (count_message br))
           | Err e \<Rightarrow> (Some (Err (ProtocolError (''Bad PUBLISH: '' @ io_msg e))), br)
           | Panic \<Rightarrow> (Some Panic, br)
           | Diverge \<Rightarrow> (Some Diverge, br))
      | Subscribe \<Rightarrow>
          (case decode_subscribe B buf of
             Ok (sp, _) \<Rightarrow> (None, handle_subscribe M order client_id sp br)
           | Err e \<Rightarrow> (Some (Err (ProtocolError (''Bad SUBSCRIBE: '' @ io_msg e))), br)
           | Panic \<Rightarrow> (Some Panic, br)
           | Diverge \<Rightarrow> (Some Diverge, br))
      | Unsubscribe \<Rightarrow>
          (case decode_unsubscribe B buf of
             Ok (up, _) \<Rightarrow> (None, handle_unsubscribe M client_id up br)
           | Err e \<Rightarrow> (Some (Err (ProtocolError (''Bad UNSUBSCRIBE: '' @ io_msg e))), br)
           | Panic \<Rightarrow> (Some Panic, br)
           | Diverge \<Rightarrow> (Some Diverge, br))
      | PingReq \<Rightarrow> (None, send_to M client_id encode_pingresp br)
      | Disconnect \<Rightarrow> (Some (Ok ()), br)
      | _ \<Rightarrow> (None, br))"

definition connection_loop_step ::
    "'s stream_ops \<Rightarrow> 'b buf_ops \<Rightarrow> ('ch, 'w) chan_ops \<Rightarrow> (string, RetainedMessage) iter_order \<Rightarrow> string \<Rightarrow> 's
      \<Rightarrow> ('ch, 'time, 'w) MqttBroker \<Rightarrow> (unit, BrokerError) outcome option \<times> 's \<times> ('ch, 'time, 'w) MqttBroker" where
  "connection_loop_step S B M order client_id rd br =
     (case read_packet_from S B (max_packet_size (config br)) rd of
        Ok (Some (header, buf, rd')) \<Rightarrow>
          let (r, br') = handle_packet B M order client_id header buf (count_received (remaining B buf) br) in
          (r, rd', br')
      | Ok None \<Rightarrow> (Some (Err ConnectionClosed), rd, br)
      | Err e \<Rightarrow> (Some (Err (BrokerIo e)), rd, br)
      | Panic \<Rightarrow> (Some Panic, rd, br)
      | Diverge \<Rightarrow> (Some Diverge, rd, br))"

text \<open>The loop of one connection when no other connection runs, with fuel for its rounds.\<close>

fun connection_loop ::
    "nat \<Rightarrow> 's stream_ops \<Rightarrow> 'b buf_ops \<Rightarrow> ('ch, 'w) chan_ops \<Rightarrow> (string, RetainedMessage) iter_order \<Rightarrow> string \<Rightarrow> 's
      \<Rightarrow> ('ch, 'time, 'w) MqttBroker \<Rightarrow> ((unit, BrokerError) outcome \<times> 's \<times> ('ch, 'time, 'w) MqttBroker) option" where
  "connection_loop 0 S B M order client_id rd br = None"
| "connection_loop (Suc n) S B M order client_id rd br =
     (case connection_loop_step S B M order client_id rd br of
        (None, rd', br') \<Rightarrow> connection_loop n S B M order client_id rd' br'
      | (Some r, rd', br') \<Rightarrow> Some (r, rd', br'))"

text \<open>
  What follows the loop. Aborting the writer task drops the receiving end of the channel.
\<close>

definition cleanup ::
    "('ch, 'w) chan_ops \<Rightarrow> string \<Rightarrow> 'ch \<Rightarrow> will_info \<Rightarrow> (unit, BrokerError) outcome
      \<Rightarrow> ('ch, 'time, 'w) MqttBroker \<Rightarrow> ('ch, 'time, 'w) MqttBroker" where
  "cleanup M client_id ch will result br =
     (let br1 = br\<lparr>chans := drop_rx M ch (chans br)\<rparr>;
          br2 = (case result of
                   Err _ \<Rightarrow>
                     (case will of
                        Some (will_topic, Some will_payload, will_qos, will_retain) \<Rightarrow>
                          handle_publish_inner M will_topic will_payload will_qos will_retain br1
                      | _ \<Rightarrow> br1)
                 | _ \<Rightarrow> br1) in
      br2\<lparr>sessions := AList.delete client_id (sessions br2),
          topic_trie := remove_subscriptions_for_client client_id (topic_trie br2)\<rparr>)"

definition count_closed :: "('ch, 'time, 'w) MqttBroker \<Rightarrow> ('ch, 'time, 'w) MqttBroker" where
  "count_closed br = br\<lparr>metrics := (metrics br)\<lparr>active_connections := active_connections (metrics br) - 1\<rparr>\<rparr>"

definition finish ::
    "(unit, BrokerError) outcome \<Rightarrow> ('s, 'ch) Conn \<Rightarrow> ('ch, 'time, 'w) MqttBroker
      \<Rightarrow> ('s, 'ch) Conn \<times> ('ch, 'time, 'w) MqttBroker" where
  "finish r c br = (c\<lparr>phase := Finished r\<rparr>, count_closed br)"

text \<open>One step of the task of a connection.\<close>

definition conn_step ::
    "'s stream_ops \<Rightarrow> 'b buf_ops \<Rightarrow> ('ch, 'w) chan_ops \<Rightarrow> (string, RetainedMessage) iter_order \<Rightarrow> 'time
      \<Rightarrow> ('s, 'ch) Conn \<times> ('ch, 'time, 'w) MqttBroker \<Rightarrow> ('s, 'ch) Conn \<times> ('ch, 'time, 'w) MqttBroker" where
  "conn_step S B M order now = (\<lambda>(c, br).
     case phase c of
       Accepted \<Rightarrow>
         (case connect_phase S B M now c br of
            (Ok (client_id, ch, will), c', br') \<Rightarrow> (c'\<lparr>phase := Connected client_id ch will\<rparr>, br')
          | (Err e, c', br') \<Rightarrow> finish (Err e) c' br'
          | (_, c', br') \<Rightarrow> (c'\<lparr>phase := Crashed None\<rparr>, br'))
     | Connected client_id ch will \<Rightarrow>
         (case connection_loop_step S B M order client_id (read_half c) br of
            (None, rd, br') \<Rightarrow> (c\<lparr>read_half := rd\<rparr>, br')
          | (Some r, rd, br') \<Rightarrow>
              if r = Panic \<or> r = Diverge then (c\<lparr>read_half := rd, phase := Crashed (Some ch)\<rparr>, br')
              else finish r (c\<lparr>read_half := rd\<rparr>) (cleanup M client_id ch will r br'))
     | _ \<Rightarrow> (c, br))"

text \<open>The writer task of a connection: one packet from the channel to the stream.\<close>

definition writer_step ::
    "'s stream_ops \<Rightarrow> ('ch, 'w) chan_ops \<Rightarrow> 'ch \<Rightarrow> ('s, 'ch) Conn \<times> ('ch, 'time, 'w) MqttBroker
      \<Rightarrow> ('s, 'ch) Conn \<times> ('ch, 'time, 'w) MqttBroker" where
  "writer_step S M ch = (\<lambda>(c, br).
     case recv M ch (chans br) of
       None \<Rightarrow> (c, br)
     | Some (raw_packet, w) \<Rightarrow>
         (case write_all S raw_packet (write_half c) of
            Ok wr \<Rightarrow> (c\<lparr>write_half := wr\<rparr>, br\<lparr>chans := w\<rparr>)
          | _ \<Rightarrow> (c, br\<lparr>chans := drop_rx M ch w\<rparr>)))"

section \<open>The broker with its connections\<close>

definition accept ::
    "'s \<Rightarrow> 's \<Rightarrow> ('s, 'ch) Conn list \<times> ('ch, 'time, 'w) MqttBroker \<Rightarrow> ('s, 'ch) Conn list \<times> ('ch, 'time, 'w) MqttBroker" where
  "accept rd wr = (\<lambda>(conns, br).
     (conns @ [\<lparr>read_half = rd, write_half = wr, phase = Accepted\<rparr>],
      br\<lparr>metrics := (metrics br)\<lparr>total_connections := total_connections (metrics br) + 1,
                                active_connections := active_connections (metrics br) + 1\<rparr>\<rparr>))"

text \<open>
  The accept loop and the tasks it spawned interleave: a step is a new connection, a step of
  one task, or a step of a writer.
\<close>

inductive broker_step ::
    "'s stream_ops \<Rightarrow> 'b buf_ops \<Rightarrow> ('ch, 'w) chan_ops \<Rightarrow> (string, RetainedMessage) iter_order
      \<Rightarrow> ('s, 'ch) Conn list \<times> ('ch, 'time, 'w) MqttBroker \<Rightarrow> ('s, 'ch) Conn list \<times> ('ch, 'time, 'w) MqttBroker \<Rightarrow> bool"
  for S B M order where
  accepted: "broker_step S B M order st (accept rd wr st)"
| task: "i < length conns \<Longrightarrow> conn_step S B M order now (conns ! i, br) = (c', br') \<Longrightarrow>
    broker_step S B M order (conns, br) (conns[i := c'], br')"
| writer: "i < length conns \<Longrightarrow> writer_chan (phase (conns ! i)) = Some ch \<Longrightarrow>
    writer_step S M ch (conns ! i, br) = (c', br') \<Longrightarrow>
    broker_step S B M order (conns, br) (conns[i := c'], br')"

inductive broker_reachable ::
    "'s stream_ops \<Rightarrow> 'b buf_ops \<Rightarrow> ('ch, 'w) chan_ops \<Rightarrow> (string, RetainedMessage) iter_order \<Rightarrow> BrokerConfig \<Rightarrow> 'w
      \<Rightarrow> ('s, 'ch) Conn list \<times> ('ch, 'time, 'w) MqttBroker \<Rightarrow> bool"
  for S B M order cfg w where
  start: "broker_reachable S B M order cfg w ([], MqttBroker_new cfg w)"
| step: "broker_reachable S B M order cfg w st \<Longrightarrow> broker_step S B M order st st' \<Longrightarrow>
    broker_reachable S B M order cfg w st'"

end
