(* ===== verification/Mqtt_Topics_Correct.thy ===== *)
theory Mqtt_Topics_Correct
  imports Mqtt_Topics
begin

text \<open>
  The subscription index against its specification: a map from a client and a topic
  filter to the granted QoS, and delivery to exactly the clients that hold a filter the
  topic matches. The abstraction \<open>sub_of\<close> reads that map off the trie; every operation
  updates it at one place. The interface is the locale \<open>subscription_index\<close>.
\<close>

section \<open>Filters\<close>

abbreviation levels_of :: "string \<Rightarrow> string list" where
  "levels_of f \<equiv> split_on (CHR ''/'') f"

definition plain :: "string list \<Rightarrow> bool" where
  "plain ls \<longleftrightarrow> ''+'' \<notin> set ls \<and> ''#'' \<notin> set ls"

text \<open>
  The filters the trie indexes faithfully: no wildcard, single-level wildcards only, or a
  final \<open>#\<close> under levels without wildcards.
\<close>

definition supported :: "string \<Rightarrow> bool" where
  "supported f \<longleftrightarrow>
     last (levels_of f) = ''#'' \<and> plain (butlast (levels_of f))
     \<or> \<not> ends_with f ''#'' \<and> ''#'' \<notin> set (levels_of f)"

lemma plain_simps [simp]: "plain []" "plain (l # ls) \<longleftrightarrow> l \<noteq> ''+'' \<and> l \<noteq> ''#'' \<and> plain ls"
  by (auto simp: plain_def)

lemma split_on_last: "\<exists>pre. s = pre @ last (split_on c s)"
proof (induction s)
  case (Cons x xs)
  obtain y ys where "split_on c xs = y # ys" by (rule split_on_obtain)
  with Cons obtain pre where pre: "xs = pre @ last (y # ys)" by auto
  show ?case
  proof (cases "x = c \<or> ys \<noteq> []")
    case True
    with pre \<open>split_on c xs = y # ys\<close> have "x # xs = (x # pre) @ last (split_on c (x # xs))" by auto
    then show ?thesis by blast
  next
    case False
    with pre \<open>split_on c xs = y # ys\<close> have "x # xs = [] @ last (split_on c (x # xs))"
      using join_split_on [of c xs] by simp
    then show ?thesis by blast
  qed
qed simp

lemma ends_with_char: "ends_with s [c] \<longleftrightarrow> s \<noteq> [] \<and> last s = c"
  by (cases s rule: rev_cases) (auto simp: ends_with_def)

lemma last_level_hash: "last (levels_of f) = ''#'' \<Longrightarrow> ends_with f ''#''"
  using split_on_last [of f "CHR ''/''"] by (auto simp: ends_with_char)

lemma levels_of_hash: "length (levels_of f) = 1 \<Longrightarrow> levels_of f ! 0 = ''#'' \<Longrightarrow> butlast (levels_of f) = []"
  by (cases "levels_of f") auto

section \<open>The trie as nested maps\<close>

text \<open>The node at a path, the empty node where there is none.\<close>

fun node_at :: "string list \<Rightarrow> TrieNode \<Rightarrow> TrieNode" where
  "node_at [] n = n"
| "node_at (l # ls) n =
     (case map_of (children n) l of None \<Rightarrow> TrieNode_default | Some c \<Rightarrow> node_at ls c)"

abbreviation exact_at :: "string list \<Rightarrow> TrieNode \<Rightarrow> Subscription list" where
  "exact_at p n \<equiv> subscriptions (node_at p n)"

abbreviation multi_at :: "string list \<Rightarrow> TrieNode \<Rightarrow> Subscription list" where
  "multi_at p n \<equiv> multi_subscriptions (node_at p n)"

definition key_ok :: "string \<Rightarrow> bool" where
  "key_ok k \<longleftrightarrow> k \<noteq> ''+'' \<and> k \<noteq> ''#'' \<and> CHR ''/'' \<notin> set k"

abbreviation clients :: "Subscription list \<Rightarrow> string list" where
  "clients subs \<equiv> map sub_client_id subs"

fun node_ok :: "TrieNode \<Rightarrow> bool" where
  "node_ok (TrieNode ch subs multi) \<longleftrightarrow>
     btree_ok ch \<and> list_all (\<lambda>(k, n). key_ok k \<and> node_ok n) ch
     \<and> distinct (clients subs) \<and> distinct (clients multi)"

lemma node_ok_iff:
  "node_ok n \<longleftrightarrow> btree_ok (children n) \<and> (\<forall>(k, c) \<in> set (children n). key_ok k \<and> node_ok c)
     \<and> distinct (clients (subscriptions n)) \<and> distinct (clients (multi_subscriptions n))"
  by (cases n) (simp add: list_all_iff)

lemma node_ok_default [simp]: "node_ok TrieNode_default"
  by (simp add: TrieNode_default_def btree_ok_def)

lemma node_default_simps [simp]:
  "children TrieNode_default = []" "subscriptions TrieNode_default = []"
  "multi_subscriptions TrieNode_default = []"
  by (simp_all add: TrieNode_default_def)

lemma node_at_default [simp]: "node_at p TrieNode_default = TrieNode_default"
  by (cases p) simp_all

lemma node_ok_child: "node_ok n \<Longrightarrow> map_of (children n) k = Some c \<Longrightarrow> node_ok c \<and> key_ok k"
  using node_ok_iff [of n] map_of_SomeD [of "children n" k c] by auto

lemma node_ok_at: "node_ok n \<Longrightarrow> node_ok (node_at p n)"
  by (induction p arbitrary: n) (auto dest: node_ok_child split: option.splits)

declare node_ok.simps [simp del]

lemma node_ok_insert:
  assumes "node_ok n" "key_ok k" "node_ok c"
  shows "node_ok (TrieNode (btree_insert k c (children n)) (subscriptions n) (multi_subscriptions n))"
proof -
  have "key_ok k' \<and> node_ok c'" if "(k', c') \<in> set (btree_insert k c (children n))" for k' c'
    using that assms set_btree_insert [of k c "children n"] node_ok_iff [of n] by auto
  then show ?thesis
    using assms(1) by (subst node_ok_iff) (auto simp: node_ok_iff [of n])
qed

lemma node_at_insert:
  assumes "node_ok n"
  shows "node_at q (TrieNode (btree_insert l c (children n)) s m) =
    (case q of [] \<Rightarrow> TrieNode (btree_insert l c (children n)) s m
     | x # r \<Rightarrow> if x = l then node_at r c else node_at q n)"
  using assms by (cases q) (simp_all add: node_ok_iff [of n])

text \<open>Only nodes reached over proper keys can hold anything.\<close>

lemma node_at_nonempty_path:
  assumes "node_ok n" "exact_at p n \<noteq> [] \<or> multi_at p n \<noteq> []"
  shows "plain p \<and> (\<forall>l \<in> set p. CHR ''/'' \<notin> set l)"
  using assms
proof (induction p arbitrary: n)
  case (Cons l p)
  then obtain c where c: "map_of (children n) l = Some c" by (auto split: option.splits)
  with Cons.prems(1) have "node_ok c" "key_ok l" using node_ok_child by blast+
  moreover from c Cons.prems(2) have "exact_at p c \<noteq> [] \<or> multi_at p c \<noteq> []" by simp
  ultimately show ?case using Cons.IH by (auto simp: key_ok_def)
qed simp

section \<open>Updates at a node\<close>

definition local_update :: "(TrieNode \<Rightarrow> TrieNode) \<Rightarrow> bool" where
  "local_update f \<longleftrightarrow> (\<forall>n. children (f n) = children n) \<and> (\<forall>n. node_ok n \<longrightarrow> node_ok (f n))"

lemma local_update_children: "local_update f \<Longrightarrow> children (f n) = children n"
  by (simp add: local_update_def)

lemma node_ok_parts:
  assumes "node_ok n"
  shows "btree_ok (children n)" "list_all (\<lambda>(k, n). key_ok k \<and> node_ok n) (children n)"
    "distinct (clients (subscriptions n))" "distinct (clients (multi_subscriptions n))"
  using assms by (cases n; simp add: node_ok.simps)+

lemma distinct_clients_retain:
  "distinct (clients subs) \<Longrightarrow> distinct (clients (retain_others c subs))"
  by (simp add: retain_others_def distinct_map_filter)

lemma retain_others_absent: "c \<notin> set (clients (retain_others c subs))"
  by (auto simp: retain_others_def)

lemma local_updates [intro!]:
  "local_update (add_multi c q)" "local_update (add_exact c q)"
  "local_update (del_multi c)" "local_update (del_exact c)"
  using retain_others_absent
  by (simp_all add: local_update_def add_multi_def add_exact_def del_multi_def del_exact_def
      node_ok.simps node_ok_parts distinct_clients_retain)

lemma child_or_default:
  assumes "node_ok n"
  shows "node_ok (case map_of (children n) l of None \<Rightarrow> TrieNode_default | Some c \<Rightarrow> c)"
    and "node_at p (case map_of (children n) l of None \<Rightarrow> TrieNode_default | Some c \<Rightarrow> c) = node_at (l # p) n"
  using assms node_ok_child by (auto split: option.splits)

lemma find_or_create_ok:
  "node_ok n \<Longrightarrow> local_update f \<Longrightarrow> \<forall>l \<in> set p. CHR ''/'' \<notin> set l \<Longrightarrow>
   node_ok (find_or_create_node p f n)"
proof (induction p f n rule: find_or_create_node.induct)
  case (2 l p f n)
  then show ?case
    by (simp add: Let_def key_ok_def node_ok_insert child_or_default(1))
qed (simp add: local_update_def)

lemma find_node_mut_ok:
  "node_ok n \<Longrightarrow> local_update f \<Longrightarrow> node_ok (find_node_mut p f n)"
proof (induction p f n rule: find_node_mut.induct)
  case (2 l p f n)
  show ?case
  proof (cases "map_of (children n) l")
    case (Some c)
    then have "node_ok c" "key_ok l" using node_ok_child "2.prems" by blast+
    then show ?thesis using 2 Some by (simp add: node_ok_insert)
  qed (use 2 in simp)
qed (simp add: local_update_def)

text \<open>
  What is stored at a path, and that an update through \<^verbatim>\<open>find_or_create_node\<close> or
  \<^verbatim>\<open>find_node_mut\<close> changes it at its own path and nowhere else.
\<close>

definition content :: "TrieNode \<Rightarrow> Subscription list \<times> Subscription list" where
  "content n = (subscriptions n, multi_subscriptions n)"

lemma content_simps [simp]:
  "content (TrieNode ch s m) = (s, m)" "content TrieNode_default = ([], [])"
  by (simp_all add: content_def)

lemma find_or_create_at:
  assumes "node_ok n" "local_update f" "plain p"
  shows "content (node_at q (find_or_create_node p f n)) = content (if q = p then f (node_at p n) else node_at q n)"
  using assms
proof (induction p f n arbitrary: q rule: find_or_create_node.induct)
  case (1 f n)
  then show ?case by (cases q) (simp_all add: local_update_children)
next
  case (2 l p f n)
  let ?c = "case map_of (children n) l of None \<Rightarrow> TrieNode_default | Some c \<Rightarrow> c"
  have c: "node_ok ?c" "\<And>r. node_at r ?c = node_at (l # r) n"
    using child_or_default "2.prems"(1) by blast+
  have IH: "content (node_at r (find_or_create_node p f ?c))
      = content (if r = p then f (node_at (l # p) n) else node_at (l # r) n)" for r
    using "2.IH"(3) [OF _ _ refl c(1)] "2.prems" unfolding c(2) by simp
  show ?case
  proof (cases q)
    case (Cons x r)
    with "2.prems" IH [of r] show ?thesis
      by (cases "r = p") (simp_all add: Let_def node_at_insert del: node_at.simps(2))
  qed (use "2.prems" in \<open>simp add: Let_def content_def\<close>)
qed

lemma find_node_mut_at:
  assumes "node_ok n" "local_update f" "plain p" "content (f TrieNode_default) = ([], [])"
  shows "content (node_at q (find_node_mut p f n)) = content (if q = p then f (node_at p n) else node_at q n)"
  using assms
proof (induction p f n arbitrary: q rule: find_node_mut.induct)
  case (1 f n)
  then show ?case by (cases q) (simp_all add: local_update_children)
next
  case (2 l p f n)
  show ?case
  proof (cases "map_of (children n) l")
    case None
    with "2.prems" show ?thesis by simp
  next
    case (Some c)
    then have c: "node_ok c" "\<And>r. node_at r c = node_at (l # r) n"
      using node_ok_child "2.prems"(1) by auto
    have IH: "content (node_at r (find_node_mut p f c))
        = content (if r = p then f (node_at (l # p) n) else node_at (l # r) n)" for r
      using "2.IH"(3) [OF _ _ Some c(1)] "2.prems" unfolding c(2) by simp
    show ?thesis
    proof (cases q)
      case (Cons x r)
      with "2.prems" Some IH [of r] show ?thesis
        by (cases "r = p") (simp_all add: node_at_insert del: node_at.simps(2))
    qed (use "2.prems" Some in \<open>simp add: content_def\<close>)
  qed
qed

section \<open>The abstract index\<close>

text \<open>The QoS a client holds in a list of subscriptions.\<close>

definition qos_of :: "string \<Rightarrow> Subscription list \<Rightarrow> QoS option" where
  "qos_of c subs = map_of (map (\<lambda>s. (sub_client_id s, sub_qos s)) subs) c"

lemma qos_of_Nil [simp]: "qos_of c [] = None"
  by (simp add: qos_of_def)

lemma map_of_filter_other:
  "map_of (filter (\<lambda>(k, v). P k) xs) k = (if P k then map_of xs k else None)"
  by (induction xs) auto

lemma qos_of_retain: "qos_of c (retain_others d subs) = (if c = d then None else qos_of c subs)"
proof -
  have "map (\<lambda>s. (sub_client_id s, sub_qos s)) (retain_others d subs)
      = filter (\<lambda>(k, v). k \<noteq> d) (map (\<lambda>s. (sub_client_id s, sub_qos s)) subs)"
    by (simp add: retain_others_def filter_map comp_def)
  then show ?thesis by (simp add: qos_of_def map_of_filter_other)
qed

lemma qos_of_add:
  "qos_of c (retain_others d subs @ [\<lparr>sub_client_id = d, sub_qos = q\<rparr>])
     = (if c = d then Some q else qos_of c subs)"
  using qos_of_retain [of c d subs] by (auto simp: qos_of_def map_add_def split: option.splits)

lemma qos_of_mem:
  assumes "distinct (clients subs)"
  shows "s \<in> set subs \<longleftrightarrow> qos_of (sub_client_id s) subs = Some (sub_qos s)"
proof -
  let ?kv = "\<lambda>s :: Subscription. (sub_client_id s, sub_qos s)"
  have inj: "inj ?kv" by (rule injI) (simp add: Subscription.equality)
  have "qos_of (sub_client_id s) subs = Some (sub_qos s) \<longleftrightarrow> ?kv s \<in> ?kv ` set subs"
    using assms by (simp add: qos_of_def comp_def)
  also have "\<dots> \<longleftrightarrow> s \<in> set subs" by (rule inj_image_mem_iff [OF inj])
  finally show ?thesis by simp
qed

definition wild_of :: "string \<Rightarrow> string \<Rightarrow> (string \<times> Subscription) list \<Rightarrow> QoS option" where
  "wild_of c f ws = qos_of c (map snd (filter (\<lambda>(g, s). g = f) ws))"

text \<open>The QoS client \<open>c\<close> holds for filter \<open>f\<close>, read off the two parts of the index.\<close>

definition sub_of :: "TopicTrie \<Rightarrow> string \<Rightarrow> string \<Rightarrow> QoS option" where
  "sub_of t c f =
     (if last (levels_of f) = ''#'' then qos_of c (multi_at (butlast (levels_of f)) (root t))
      else if ''+'' \<in> set (levels_of f) then wild_of c f (wildcard_subscriptions t)
      else qos_of c (exact_at (levels_of f) (root t)))"

definition wild_ok :: "(string \<times> Subscription) list \<Rightarrow> bool" where
  "wild_ok ws \<longleftrightarrow>
     distinct (map (\<lambda>(f, s). (f, sub_client_id s)) ws)
     \<and> (\<forall>(f, s) \<in> set ws. ''+'' \<in> set (levels_of f) \<and> ''#'' \<notin> set (levels_of f))"

definition trie_ok :: "TopicTrie \<Rightarrow> bool" where
  "trie_ok t \<longleftrightarrow> node_ok (root t) \<and> wild_ok (wildcard_subscriptions t)"

lemma trie_ok_new [simp]: "trie_ok TopicTrie_new"
  by (simp add: trie_ok_def TopicTrie_new_def wild_ok_def)

lemma sub_of_new [simp]: "sub_of TopicTrie_new c f = None"
  by (simp add: sub_of_def TopicTrie_new_def wild_of_def)

lemma wild_of_mem:
  assumes "wild_ok ws"
  shows "(f, s) \<in> set ws \<longleftrightarrow> wild_of (sub_client_id s) f ws = Some (sub_qos s)"
proof -
  have "distinct (map (\<lambda>(f, s). (f, sub_client_id s)) (filter (\<lambda>(g, s). g = f) ws))"
    using assms by (simp add: wild_ok_def distinct_map_filter)
  moreover have "map (\<lambda>(f, s). (f, sub_client_id s)) (filter (\<lambda>(g, s). g = f) ws)
      = map (Pair f) (clients (map snd (filter (\<lambda>(g, s). g = f) ws)))"
    by (induction ws) auto
  ultimately have "distinct (clients (map snd (filter (\<lambda>(g, s). g = f) ws)))"
    by (metis distinct_map)
  from qos_of_mem [OF this, of s] show ?thesis by (force simp: wild_of_def)
qed

section \<open>Each operation updates the abstract index\<close>

lemma exact_content: "subscriptions n = fst (content n)" "multi_subscriptions n = snd (content n)"
  by (simp_all add: content_def)

lemma content_updates [simp]:
  "content (add_multi c q n) = (subscriptions n, retain_others c (multi_subscriptions n) @ [\<lparr>sub_client_id = c, sub_qos = q\<rparr>])"
  "content (add_exact c q n) = (retain_others c (subscriptions n) @ [\<lparr>sub_client_id = c, sub_qos = q\<rparr>], multi_subscriptions n)"
  "content (del_multi c n) = (subscriptions n, retain_others c (multi_subscriptions n))"
  "content (del_exact c n) = (retain_others c (subscriptions n), multi_subscriptions n)"
  by (simp_all add: add_multi_def add_exact_def del_multi_def del_exact_def)

lemma retain_others_Nil [simp]: "retain_others c [] = []"
  by (simp add: retain_others_def)

lemma supported_cases [consumes 1, case_names multi wild exact]:
  assumes "supported f"
  obtains
    (multi) "last (levels_of f) = ''#''" "ends_with f ''#''" "plain (butlast (levels_of f))"
  | (wild) "last (levels_of f) \<noteq> ''#''" "\<not> ends_with f ''#''" "''+'' \<in> set (levels_of f)" "''#'' \<notin> set (levels_of f)"
  | (exact) "last (levels_of f) \<noteq> ''#''" "\<not> ends_with f ''#''" "''+'' \<notin> set (levels_of f)" "plain (levels_of f)"
  using assms last_level_hash [of f] last_in_set [OF split_on_not_Nil, of "CHR ''/''" f]
  unfolding supported_def plain_def by metis

text \<open>What \<^verbatim>\<open>retain\<close> leaves of the list of single-level wildcard subscriptions.\<close>

definition drop_wild :: "string \<Rightarrow> string \<Rightarrow> (string \<times> Subscription) list \<Rightarrow> (string \<times> Subscription) list" where
  "drop_wild c f ws = filter (\<lambda>(g, s). sub_client_id s \<noteq> c \<or> g \<noteq> f) ws"

lemma subscribe_cases:
  assumes "supported f"
  shows "subscribe c f q t =
    (if last (levels_of f) = ''#''
     then t\<lparr>root := find_or_create_node (butlast (levels_of f)) (add_multi c q) (root t)\<rparr>
     else if ''+'' \<in> set (levels_of f)
     then t\<lparr>wildcard_subscriptions :=
             drop_wild c f (wildcard_subscriptions t)
               @ [(f, \<lparr>sub_client_id = c, sub_qos = q\<rparr>)]\<rparr>
     else t\<lparr>root := find_or_create_node (levels_of f) (add_exact c q) (root t)\<rparr>)"
  using assms
proof (cases rule: supported_cases)
  case multi
  then show ?thesis using levels_of_hash [of f] by (auto simp: subscribe_def Let_def)
qed (simp_all add: subscribe_def Let_def drop_wild_def)

lemma unsubscribe_cases:
  assumes "supported f"
  shows "unsubscribe c f t =
    (if last (levels_of f) = ''#''
     then t\<lparr>root := find_node_mut (butlast (levels_of f)) (del_multi c) (root t)\<rparr>
     else if ''+'' \<in> set (levels_of f)
     then t\<lparr>wildcard_subscriptions :=
             drop_wild c f (wildcard_subscriptions t)\<rparr>
     else t\<lparr>root := find_node_mut (levels_of f) (del_exact c) (root t)\<rparr>)"
  using assms
proof (cases rule: supported_cases)
  case multi
  then show ?thesis using levels_of_hash [of f] by (auto simp: unsubscribe_def Let_def)
qed (simp_all add: unsubscribe_def Let_def drop_wild_def)

lemma wild_of_drop:
  "wild_of d g (drop_wild c f ws)
     = (if d = c \<and> g = f then None else wild_of d g ws)"
proof (cases "g = f")
  case True
  have "map snd (filter (\<lambda>(h, s). h = f) (filter (\<lambda>(h, s). sub_client_id s \<noteq> c \<or> h \<noteq> f) ws))
      = retain_others c (map snd (filter (\<lambda>(h, s). h = f) ws))"
    by (simp add: retain_others_def filter_map comp_def case_prod_unfold conj_commute cong: conj_cong)
  with True show ?thesis by (simp add: wild_of_def drop_wild_def qos_of_retain)
next
  case False
  then have "filter (\<lambda>(h, s). h = g) (filter (\<lambda>(h, s). sub_client_id s \<noteq> c \<or> h \<noteq> f) ws)
      = filter (\<lambda>(h, s). h = g) ws"
    by (auto simp: case_prod_unfold intro!: filter_cong)
  with False show ?thesis by (simp add: wild_of_def drop_wild_def)
qed

lemma wild_of_snoc:
  "wild_of d g (ws @ [(f, \<lparr>sub_client_id = c, sub_qos = q\<rparr>)])
     = (case wild_of d g ws of None \<Rightarrow> if d = c \<and> g = f then Some q else None | Some r \<Rightarrow> Some r)"
  by (auto simp: wild_of_def qos_of_def map_add_def split: option.splits)

lemma last_butlast_inj:
  "xs \<noteq> [] \<Longrightarrow> ys \<noteq> [] \<Longrightarrow> last xs = last ys \<Longrightarrow> butlast xs = butlast ys \<longleftrightarrow> xs = ys"
  by (metis append_butlast_last_id)

lemma hash_butlast_inj:
  "last (levels_of f) = ''#'' \<Longrightarrow> last (levels_of g) = ''#'' \<Longrightarrow>
   butlast (levels_of g) = butlast (levels_of f) \<longleftrightarrow> g = f"
  by (simp add: last_butlast_inj split_on_inj)

lemma sub_of_subscribe:
  assumes "trie_ok t" "supported f"
  shows "sub_of (subscribe c f q t) d g = (if d = c \<and> g = f then Some q else sub_of t d g)"
proof -
  have ok: "node_ok (root t)" using assms(1) by (simp add: trie_ok_def)
  from assms(2) show ?thesis
  proof (cases rule: supported_cases)
    case multi
    note at = find_or_create_at [OF ok local_updates(1) multi(3)]
    from multi show ?thesis
      using hash_butlast_inj [OF multi(1), of g] ok
      by (auto simp: subscribe_cases [OF assms(2)] sub_of_def exact_content at qos_of_add)
  next
    case wild
    then show ?thesis
      by (auto simp: subscribe_cases [OF assms(2)] sub_of_def wild_of_snoc wild_of_drop split: option.splits)
  next
    case exact
    note at = find_or_create_at [OF ok local_updates(2) exact(4)]
    from exact show ?thesis
      by (auto simp: subscribe_cases [OF assms(2)] sub_of_def exact_content at split_on_inj qos_of_add)
  qed
qed

lemma sub_of_unsubscribe:
  assumes "trie_ok t" "supported f"
  shows "sub_of (unsubscribe c f t) d g = (if d = c \<and> g = f then None else sub_of t d g)"
proof -
  have ok: "node_ok (root t)" using assms(1) by (simp add: trie_ok_def)
  from assms(2) show ?thesis
  proof (cases rule: supported_cases)
    case multi
    note at = find_node_mut_at [OF ok local_updates(3) multi(3)]
    from multi show ?thesis
      using hash_butlast_inj [OF multi(1), of g]
      by (auto simp: unsubscribe_cases [OF assms(2)] sub_of_def exact_content at qos_of_retain)
  next
    case wild
    then show ?thesis
      by (auto simp: unsubscribe_cases [OF assms(2)] sub_of_def wild_of_drop)
  next
    case exact
    note at = find_node_mut_at [OF ok local_updates(4) exact(4)]
    from exact show ?thesis
      by (auto simp: unsubscribe_cases [OF assms(2)] sub_of_def exact_content at split_on_inj qos_of_retain)
  qed
qed

lemma node_at_remove:
  "content (node_at p (remove_recursive_inner c n)) =
     (retain_others c (exact_at p n), retain_others c (multi_at p n))"
proof (induction p arbitrary: n)
  case Nil
  then show ?case by (cases n) simp
next
  case (Cons l p)
  then show ?case
    by (cases n) (simp add: map_of_map map_prod_def split: option.splits)
qed

lemma wild_of_drop_client:
  "wild_of d g (filter (\<lambda>(_, s). sub_client_id s \<noteq> c) ws) = (if d = c then None else wild_of d g ws)"
proof -
  have "map snd (filter (\<lambda>(h, s). h = g) (filter (\<lambda>(_, s). sub_client_id s \<noteq> c) ws))
      = retain_others c (map snd (filter (\<lambda>(h, s). h = g) ws))"
    by (simp add: retain_others_def filter_map comp_def case_prod_unfold conj_commute)
  then show ?thesis by (simp add: wild_of_def qos_of_retain)
qed

lemma sub_of_remove_client:
  "sub_of (remove_subscriptions_for_client c t) d g = (if d = c then None else sub_of t d g)"
  by (simp add: sub_of_def remove_subscriptions_for_client_def exact_content node_at_remove
      wild_of_drop_client qos_of_retain)

lemma wild_ok_filter: "wild_ok ws \<Longrightarrow> wild_ok (filter P ws)"
  by (auto simp: wild_ok_def distinct_map_filter)

lemma wild_ok_snoc:
  assumes "wild_ok ws" "(f, sub_client_id s) \<notin> (\<lambda>(f, s). (f, sub_client_id s)) ` set ws"
    "''+'' \<in> set (levels_of f)" "''#'' \<notin> set (levels_of f)"
  shows "wild_ok (ws @ [(f, s)])"
  using assms by (auto simp: wild_ok_def)

lemma sep_free_levels: "\<forall>l \<in> set (levels_of f). CHR ''/'' \<notin> set l"
  using split_on_sep_free by blast

lemma trie_ok_subscribe:
  assumes "trie_ok t" "supported f"
  shows "trie_ok (subscribe c f q t)"
proof -
  have n: "node_ok (root t)" and w: "wild_ok (wildcard_subscriptions t)"
    using assms(1) by (simp_all add: trie_ok_def)
  from assms(2) show ?thesis
  proof (cases rule: supported_cases)
    case multi
    have "\<forall>l \<in> set (butlast (levels_of f)). CHR ''/'' \<notin> set l"
      using sep_free_levels [of f] by (meson in_set_butlastD)
    with multi n w show ?thesis
      by (simp add: subscribe_cases [OF assms(2)] trie_ok_def find_or_create_ok local_updates)
  next
    case wild
    have "(f, c) \<notin> (\<lambda>(f, s). (f, sub_client_id s)) ` set (drop_wild c f (wildcard_subscriptions t))"
      by (auto simp: drop_wild_def)
    with wild n w show ?thesis
      by (simp add: subscribe_cases [OF assms(2)] trie_ok_def wild_ok_snoc drop_wild_def wild_ok_filter)
  next
    case exact
    with n w show ?thesis
      by (simp add: subscribe_cases [OF assms(2)] trie_ok_def find_or_create_ok local_updates sep_free_levels)
  qed
qed

lemma trie_ok_unsubscribe: "trie_ok t \<Longrightarrow> trie_ok (unsubscribe c f t)"
  by (simp add: unsubscribe_def Let_def trie_ok_def find_node_mut_ok local_updates wild_ok_filter)

lemma map_fst_remove: "map fst (map (\<lambda>(name, child). (name, f child)) ch) = map fst ch"
  by (induction ch) auto

lemma node_ok_remove: "node_ok n \<Longrightarrow> node_ok (remove_recursive_inner c n)"
proof (induction n)
  case (TrieNode ch subs multi)
  have "list_all (\<lambda>(k, n). key_ok k \<and> node_ok n) (map (\<lambda>(name, child). (name, remove_recursive_inner c child)) ch)"
    using TrieNode unfolding node_ok.simps list_all_iff by fastforce
  with TrieNode.prems show ?case
    by (simp add: node_ok.simps btree_ok_def map_fst_remove distinct_clients_retain del: map_map)
qed

lemma trie_ok_remove_client: "trie_ok t \<Longrightarrow> trie_ok (remove_subscriptions_for_client c t)"
  by (simp add: remove_subscriptions_for_client_def trie_ok_def node_ok_remove wild_ok_filter)

lemmas sub_of_simps = sub_of_new sub_of_subscribe sub_of_unsubscribe sub_of_remove_client
lemmas trie_ok_intros = trie_ok_new trie_ok_subscribe trie_ok_unsubscribe trie_ok_remove_client

section \<open>Matching\<close>

lemma set_match_recursive:
  "set (match_recursive n ls) = set (exact_at ls n) \<union> (\<Union>i \<le> length ls. set (multi_at (take i ls) n))"
proof (induction n ls rule: match_recursive.induct)
  case (2 n l ls)
  have "(\<Union>i \<le> length (l # ls). set (multi_at (take i (l # ls)) n))
      = set (multi_subscriptions n) \<union> (\<Union>i \<le> length ls. set (multi_at (l # take i ls) n))"
    by (simp add: atMost_Suc_eq_insert_0 image_image)
  with 2 show ?case by (cases "map_of (children n) l") (auto simp: Un_ac)
qed auto

lemma match_levels_plain: "plain p \<Longrightarrow> match_levels p ls \<longleftrightarrow> ls = p"
  by (induction p ls rule: match_levels.induct) (auto simp: neq_Nil_conv)

lemma match_levels_hash:
  "plain p \<Longrightarrow> match_levels (p @ [''#'']) ls \<longleftrightarrow> (\<exists>i \<le> length ls. p = take i ls)"
proof (induction p arbitrary: ls)
  case Nil
  then show ?case by (cases ls) (auto intro: exI [of _ 0])
next
  case (Cons x p)
  show ?case
  proof (cases ls)
    case (Cons y ys)
    have "(\<exists>i \<le> length ls. x # p = take i ls) \<longleftrightarrow> x = y \<and> (\<exists>i \<le> length ys. p = take i ys)"
      (is "?l \<longleftrightarrow> ?r")
    proof
      assume ?l
      then obtain i where "i \<le> length ls" "x # p = take i ls" by blast
      with Cons show ?r by (cases i) auto
    next
      assume ?r
      then obtain i where "x = y" "i \<le> length ys" "p = take i ys" by blast
      with Cons show ?l by (intro exI [of _ "Suc i"]) simp
    qed
    with Cons Cons.IH [of ys] Cons.prems show ?thesis by auto
  qed (use Cons.prems in auto)
qed

lemma match_levels_wild:
  "''#'' \<notin> set fs \<Longrightarrow>
   match_levels fs ls \<longleftrightarrow> length fs = length ls \<and> list_all (\<lambda>(f, t). \<not> (f \<noteq> ''+'' \<and> f \<noteq> t)) (zip fs ls)"
  by (induction fs ls rule: match_levels.induct) (auto simp: neq_Nil_conv)

lemma single_wildcard_filter:
  "''#'' \<notin> set (levels_of f) \<Longrightarrow> topic_matches_single_wildcard f (levels_of topic) = topic_matches_filter f topic"
  by (simp add: topic_matches_single_wildcard_def topic_matches_filter_def match_levels_wild Let_def)

lemma mem_exact_match:
  assumes "trie_ok t"
  shows "s \<in> set (exact_at (levels_of topic) (root t)) \<longleftrightarrow>
    (\<exists>f. last (levels_of f) \<noteq> ''#'' \<and> ''+'' \<notin> set (levels_of f)
       \<and> sub_of t (sub_client_id s) f = Some (sub_qos s) \<and> topic_matches_filter f topic)"
    (is "?l \<longleftrightarrow> ?r")
proof -
  have n: "node_ok (root t)" using assms by (simp add: trie_ok_def)
  have mem: "s \<in> set (exact_at p (root t)) \<longleftrightarrow> qos_of (sub_client_id s) (exact_at p (root t)) = Some (sub_qos s)" for p
    using n node_ok_at node_ok_parts(3) qos_of_mem by blast
  show ?thesis
  proof
    assume ?l
    then have p: "plain (levels_of topic)" using node_at_nonempty_path [OF n] by force
    then have "last (levels_of topic) \<noteq> ''#''" "''+'' \<notin> set (levels_of topic)"
      using last_in_set [OF split_on_not_Nil] unfolding plain_def by metis+
    with \<open>?l\<close> p show ?r
      by (intro exI [of _ topic]) (simp add: sub_of_def mem topic_matches_filter_def match_levels_plain)
  next
    assume ?r
    then obtain f where f: "qos_of (sub_client_id s) (exact_at (levels_of f) (root t)) = Some (sub_qos s)"
      "topic_matches_filter f topic" by (auto simp: sub_of_def)
    then have "plain (levels_of f)"
      using node_at_nonempty_path [OF n, of "levels_of f"] by (metis option.distinct(1) qos_of_Nil)
    with f show ?l by (simp add: mem topic_matches_filter_def match_levels_plain)
  qed
qed

lemma mem_multi_match:
  assumes "trie_ok t"
  shows "(\<exists>i \<le> length (levels_of topic). s \<in> set (multi_at (take i (levels_of topic)) (root t))) \<longleftrightarrow>
    (\<exists>f. last (levels_of f) = ''#''
       \<and> sub_of t (sub_client_id s) f = Some (sub_qos s) \<and> topic_matches_filter f topic)"
    (is "?l \<longleftrightarrow> ?r")
proof -
  have n: "node_ok (root t)" using assms by (simp add: trie_ok_def)
  have mem: "s \<in> set (multi_at p (root t)) \<longleftrightarrow> qos_of (sub_client_id s) (multi_at p (root t)) = Some (sub_qos s)" for p
    using n node_ok_at node_ok_parts(4) qos_of_mem by blast
  show ?thesis
  proof
    assume ?l
    then obtain i where i: "i \<le> length (levels_of topic)" and s: "s \<in> set (multi_at (take i (levels_of topic)) (root t))"
      by blast
    let ?p = "take i (levels_of topic)"
    have p: "plain ?p" "\<forall>l \<in> set ?p. CHR ''/'' \<notin> set l" using s node_at_nonempty_path [OF n, of ?p] by force+
    have "levels_of (join_with ''/'' (?p @ [''#''])) = ?p @ [''#'']"
      by (rule split_join_with) (use p in auto)
    with s p i show ?r
      by (intro exI [of _ "join_with ''/'' (?p @ [''#''])"])
         (auto simp: sub_of_def mem topic_matches_filter_def match_levels_hash)
  next
    assume ?r
    then obtain f where f: "last (levels_of f) = ''#''"
      "qos_of (sub_client_id s) (multi_at (butlast (levels_of f)) (root t)) = Some (sub_qos s)"
      "topic_matches_filter f topic" by (auto simp: sub_of_def)
    have "plain (butlast (levels_of f))"
      using f(2) node_at_nonempty_path [OF n, of "butlast (levels_of f)"] by (metis option.distinct(1) qos_of_Nil)
    moreover have "levels_of f = butlast (levels_of f) @ [''#'']"
      using f(1) append_butlast_last_id [OF split_on_not_Nil] by metis
    ultimately obtain i where "i \<le> length (levels_of topic)" "butlast (levels_of f) = take i (levels_of topic)"
      using f(3) match_levels_hash unfolding topic_matches_filter_def by metis
    with f(2) show ?l using mem by metis
  qed
qed

lemma mem_wild_match:
  assumes "trie_ok t"
  shows "(\<exists>f. (f, s) \<in> set (wildcard_subscriptions t) \<and> topic_matches_single_wildcard f (levels_of topic)) \<longleftrightarrow>
    (\<exists>f. last (levels_of f) \<noteq> ''#'' \<and> ''+'' \<in> set (levels_of f)
       \<and> sub_of t (sub_client_id s) f = Some (sub_qos s) \<and> topic_matches_filter f topic)"
proof -
  have w: "wild_ok (wildcard_subscriptions t)" using assms by (simp add: trie_ok_def)
  have sh: "''+'' \<in> set (levels_of f) \<and> ''#'' \<notin> set (levels_of f) \<and> last (levels_of f) \<noteq> ''#''"
    if "(f, s) \<in> set (wildcard_subscriptions t)" for f
  proof -
    from that w have "''+'' \<in> set (levels_of f)" "''#'' \<notin> set (levels_of f)"
      unfolding wild_ok_def by blast+
    then show ?thesis using last_in_set [OF split_on_not_Nil] by metis
  qed
  show ?thesis
    using sh single_wildcard_filter wild_of_mem [OF w, of _ s] by (auto simp: sub_of_def)
qed

text \<open>
  A topic is delivered to a client exactly if the client holds a filter, under the QoS of
  that subscription, that the topic matches.
\<close>

lemma mem_match_topic:
  assumes "trie_ok t"
  shows "s \<in> set (match_topic topic t) \<longleftrightarrow>
    (\<exists>f. sub_of t (sub_client_id s) f = Some (sub_qos s) \<and> topic_matches_filter f topic)"
proof -
  have "s \<in> set (match_topic topic t) \<longleftrightarrow>
      s \<in> set (exact_at (levels_of topic) (root t))
      \<or> (\<exists>i \<le> length (levels_of topic). s \<in> set (multi_at (take i (levels_of topic)) (root t)))
      \<or> (\<exists>f. (f, s) \<in> set (wildcard_subscriptions t) \<and> topic_matches_single_wildcard f (levels_of topic))"
    by (force simp: match_topic_def Let_def set_match_recursive)
  then show ?thesis
    unfolding mem_exact_match [OF assms] mem_multi_match [OF assms] mem_wild_match [OF assms] by metis
qed

section \<open>The interface of the index\<close>

text \<open>
  What the broker relies on: a sequence of subscribe, unsubscribe and disconnect
  operations, folded over the index, delivers as the map of granted subscriptions says.
\<close>

datatype index_op =
  Sub string string QoS
| Unsub string string
| Drop string

fun op_ok :: "index_op \<Rightarrow> bool" where
  "op_ok (Sub c f q) = supported f"
| "op_ok (Unsub c f) = supported f"
| "op_ok (Drop c) = True"

fun spec_op :: "index_op \<Rightarrow> (string \<times> string \<rightharpoonup> QoS) \<Rightarrow> (string \<times> string \<rightharpoonup> QoS)" where
  "spec_op (Sub c f q) m = m((c, f) \<mapsto> q)"
| "spec_op (Unsub c f) m = m((c, f) := None)"
| "spec_op (Drop c) m = (\<lambda>(d, f). if d = c then None else m (d, f))"

locale subscription_index =
  fixes empty :: 'ix
    and subscribe :: "string \<Rightarrow> string \<Rightarrow> QoS \<Rightarrow> 'ix \<Rightarrow> 'ix"
    and unsubscribe :: "string \<Rightarrow> string \<Rightarrow> 'ix \<Rightarrow> 'ix"
    and remove_client :: "string \<Rightarrow> 'ix \<Rightarrow> 'ix"
    and matching :: "string \<Rightarrow> 'ix \<Rightarrow> Subscription list"
    and granted :: "'ix \<Rightarrow> string \<Rightarrow> string \<Rightarrow> QoS option"
    and invar :: "'ix \<Rightarrow> bool"
    and indexable :: "string \<Rightarrow> bool"
    and matches :: "string \<Rightarrow> string \<Rightarrow> bool"
  assumes invar_empty: "invar empty"
    and invar_subscribe: "invar ix \<Longrightarrow> indexable f \<Longrightarrow> invar (subscribe c f q ix)"
    and invar_unsubscribe: "invar ix \<Longrightarrow> invar (unsubscribe c f ix)"
    and invar_remove_client: "invar ix \<Longrightarrow> invar (remove_client c ix)"
    and granted_empty: "granted empty d g = None"
    and granted_subscribe: "invar ix \<Longrightarrow> indexable f \<Longrightarrow>
      granted (subscribe c f q ix) d g = (if d = c \<and> g = f then Some q else granted ix d g)"
    and granted_unsubscribe: "invar ix \<Longrightarrow> indexable f \<Longrightarrow>
      granted (unsubscribe c f ix) d g = (if d = c \<and> g = f then None else granted ix d g)"
    and granted_remove_client: "granted (remove_client c ix) d g = (if d = c then None else granted ix d g)"
    and mem_matching: "invar ix \<Longrightarrow>
      s \<in> set (matching topic ix) \<longleftrightarrow>
        (\<exists>f. granted ix (sub_client_id s) f = Some (sub_qos s) \<and> matches f topic)"
begin

fun run_op :: "index_op \<Rightarrow> 'ix \<Rightarrow> 'ix" where
  "run_op (Sub c f q) ix = subscribe c f q ix"
| "run_op (Unsub c f) ix = unsubscribe c f ix"
| "run_op (Drop c) ix = remove_client c ix"

lemma run_op_refines:
  assumes "invar ix" "case op of Sub c f q \<Rightarrow> indexable f | Unsub c f \<Rightarrow> indexable f | Drop c \<Rightarrow> True"
    "\<forall>c f. granted ix c f = m (c, f)"
  shows "invar (run_op op ix) \<and> (\<forall>c f. granted (run_op op ix) c f = spec_op op m (c, f))"
  using assms
  by (cases op) (auto simp: invar_subscribe invar_unsubscribe invar_remove_client
      granted_subscribe granted_unsubscribe granted_remove_client)

lemma run_refines:
  assumes "\<forall>op \<in> set ops. case op of Sub c f q \<Rightarrow> indexable f | Unsub c f \<Rightarrow> indexable f | Drop c \<Rightarrow> True"
  shows "invar (fold run_op ops empty) \<and> (\<forall>c f. granted (fold run_op ops empty) c f = fold spec_op ops Map.empty (c, f))"
  using assms
proof (induction ops rule: rev_induct)
  case Nil
  then show ?case by (simp add: invar_empty granted_empty)
next
  case (snoc op ops)
  then have IH: "invar (fold run_op ops empty)" "\<forall>c f. granted (fold run_op ops empty) c f = fold spec_op ops Map.empty (c, f)"
    by simp_all
  show ?case using run_op_refines [OF IH(1) _ IH(2)] snoc.prems by simp
qed

lemma matching_after_remove:
  "invar ix \<Longrightarrow> s \<in> set (matching topic (remove_client c ix)) \<longleftrightarrow> sub_client_id s \<noteq> c \<and> s \<in> set (matching topic ix)"
  by (auto simp: mem_matching invar_remove_client granted_remove_client)

lemma matching_after_subscribe:
  "invar ix \<Longrightarrow> indexable f \<Longrightarrow> matches f topic \<Longrightarrow>
   \<lparr>sub_client_id = c, sub_qos = q\<rparr> \<in> set (matching topic (subscribe c f q ix))"
  by (auto simp: mem_matching invar_subscribe granted_subscribe)

end

interpretation trie: subscription_index TopicTrie_new subscribe unsubscribe remove_subscriptions_for_client
  match_topic sub_of trie_ok supported topic_matches_filter
  by unfold_locales (simp_all add: trie_ok_intros sub_of_simps mem_match_topic)

section \<open>Properties\<close>

fun run_index_op :: "index_op \<Rightarrow> TopicTrie \<Rightarrow> TopicTrie" where
  "run_index_op (Sub c f q) t = subscribe c f q t"
| "run_index_op (Unsub c f) t = unsubscribe c f t"
| "run_index_op (Drop c) t = remove_subscriptions_for_client c t"

lemma run_index_op_eq: "run_index_op = trie.run_op"
proof (intro ext)
  show "run_index_op op t = trie.run_op op t" for op t by (cases op) simp_all
qed

lemma op_ok_eq: "op_ok op = (case op of Sub c f q \<Rightarrow> supported f | Unsub c f \<Rightarrow> supported f | Drop c \<Rightarrow> True)"
  by (cases op) simp_all

text \<open>
  C1. The subscription index refines a map. After any sequence of subscriptions,
  unsubscriptions and client removals on filters the trie indexes, a published topic is
  matched to exactly the subscriptions (client and QoS) that the map of granted
  subscriptions holds for a filter the topic matches.
\<close>

theorem index_refines_map:
  assumes "\<forall>op \<in> set ops. op_ok op"
  shows "s \<in> set (match_topic topic (fold run_index_op ops TopicTrie_new)) \<longleftrightarrow>
    (\<exists>f. fold spec_op ops Map.empty (sub_client_id s, f) = Some (sub_qos s) \<and> topic_matches_filter f topic)"
  using trie.run_refines [of ops] assms
  by (simp add: op_ok_eq run_index_op_eq trie.mem_matching)

theorem index_refines_map_witness:
  "\<lparr>sub_client_id = ''b'', sub_qos = AtLeastOnce\<rparr> \<in> set (match_topic ''x/y/z'' (fold run_index_op
      [Sub ''a'' ''x/+/z'' ExactlyOnce, Sub ''b'' ''x/#'' AtLeastOnce, Unsub ''a'' ''x/+/z'', Sub ''c'' ''x/y'' AtMostOnce]
      TopicTrie_new))"
proof (rule iffD2 [OF index_refines_map])
  show "\<exists>f. fold spec_op
      [Sub ''a'' ''x/+/z'' ExactlyOnce, Sub ''b'' ''x/#'' AtLeastOnce, Unsub ''a'' ''x/+/z'', Sub ''c'' ''x/y'' AtMostOnce]
      Map.empty (sub_client_id \<lparr>sub_client_id = ''b'', sub_qos = AtLeastOnce\<rparr>, f)
        = Some (sub_qos \<lparr>sub_client_id = ''b'', sub_qos = AtLeastOnce\<rparr>) \<and> topic_matches_filter f ''x/y/z''"
    by (intro exI [of _ "''x/#''"]) (simp add: topic_matches_filter_def)
qed (simp add: supported_def ends_with_def)

text \<open>
  The two matchers of the broker agree. A retained message under a topic is replayed for
  a filter (\<open>topic_matches_filter\<close>, \<^verbatim>\<open>retained.rs\<close>) exactly if a subscription under that filter
  receives a live publish on the topic (\<open>match_topic\<close>, \<^verbatim>\<open>subscription.rs\<close>), whatever
  other clients have subscribed to.
\<close>

theorem live_and_retained_agree:
  assumes "trie_ok t" "supported f" "\<forall>g. sub_of t c g = None"
  shows "(\<exists>s \<in> set (match_topic topic (subscribe c f q t)). sub_client_id s = c) \<longleftrightarrow> topic_matches_filter f topic"
proof -
  have "sub_of (subscribe c f q t) c g = Some r \<longleftrightarrow> g = f \<and> r = q" for g r
    using assms by (auto simp: sub_of_subscribe)
  then show ?thesis
    using trie_ok_subscribe [OF assms(1,2), of c q]
    by (auto simp: mem_match_topic intro: bexI [of _ "\<lparr>sub_client_id = c, sub_qos = q\<rparr>"])
qed

theorem live_and_retained_agree_witness:
  "(\<exists>s \<in> set (match_topic ''a/b'' (subscribe ''c'' ''a/+'' AtMostOnce TopicTrie_new)). sub_client_id s = ''c'')
     \<longleftrightarrow> topic_matches_filter ''a/+'' ''a/b''"
  by (rule live_and_retained_agree) (simp_all add: supported_def ends_with_def)

text \<open>
  Disconnect removes every subscription of the client, exact, \<open>+\<close> and \<open>#\<close>, and no
  other: matching any topic afterwards gives what it gave before, without that client.
\<close>

theorem remove_client_matches:
  assumes "trie_ok t"
  shows "set (match_topic topic (remove_subscriptions_for_client c t))
    = {s \<in> set (match_topic topic t). sub_client_id s \<noteq> c}"
  using trie.matching_after_remove [OF assms] by blast

theorem remove_client_matches_witness:
  "set (match_topic ''a'' (remove_subscriptions_for_client ''c'' (subscribe ''d'' ''#'' AtMostOnce
      (subscribe ''c'' ''a'' AtMostOnce TopicTrie_new))))
    = {s \<in> set (match_topic ''a'' (subscribe ''d'' ''#'' AtMostOnce (subscribe ''c'' ''a'' AtMostOnce TopicTrie_new))).
        sub_client_id s \<noteq> ''c''}"
  by (rule remove_client_matches) (simp add: trie_ok_intros supported_def ends_with_def)

text \<open>
  A filter with \<open>+\<close> below a final \<open>#\<close> is indexed without its \<open>+\<close> level: the
  subscription is matched to topics the filter does not match, and misses those it does.
\<close>

theorem plus_before_hash_misrouted:
  "match_topic ''sensors/a'' (subscribe ''c'' ''sensors/+/#'' q TopicTrie_new)
       = [\<lparr>sub_client_id = ''c'', sub_qos = q\<rparr>]
   \<and> match_topic ''a/b/c'' (subscribe ''c'' ''+/b/#'' q TopicTrie_new) = []
   \<and> topic_matches_filter ''+/b/#'' ''a/b/c''
   \<and> match_topic ''b/x'' (subscribe ''c'' ''+/b/#'' q TopicTrie_new) = [\<lparr>sub_client_id = ''c'', sub_qos = q\<rparr>]
   \<and> \<not> topic_matches_filter ''+/b/#'' ''b/x''"
  by (simp add: match_topic_def subscribe_def TopicTrie_new_def Let_def ends_with_def TrieNode_default_def
      add_multi_def retain_others_def topic_matches_filter_def)

end
