(* ===== verification/Mqtt_Codec_Correct.thy ===== *)
theory Mqtt_Codec_Correct
  imports Mqtt_Codec
begin

text \<open>
  Correctness of the MQTT codec, for every stream and buffer that keeps the contracts of
  \<open>Mqtt_Codec\<close>: packets are framed exactly, what the broker encodes it reads back, what a
  client sends is decoded to its fields, and the inputs on which a decoder panics.
\<close>

section \<open>Framing\<close>

text \<open>
  The length field: up to five octets with seven bits each, the low ones first, all but the last
  with the high bit set.
\<close>

fun length_value :: "u8 list \<Rightarrow> nat" where
  "length_value [] = 0"
| "length_value (d # ds) = unat d mod 128 + 128 * length_value ds"

definition length_field :: "u8 list \<Rightarrow> nat \<Rightarrow> bool" where
  "length_field ds n \<longleftrightarrow> ds \<noteq> [] \<and> length ds \<le> 5 \<and> (\<forall>d \<in> set (butlast ds). 128 \<le> unat d) \<and> unat (last ds) < 128
     \<and> n = length_value ds"

text \<open>The octets of a packet with the given header and body, and what follows it.\<close>

definition framed :: "u8 list \<Rightarrow> FixedHeader \<Rightarrow> u8 list \<Rightarrow> u8 list \<Rightarrow> bool" where
  "framed octets h body rest \<longleftrightarrow> (\<exists>c ds. octets = c # ds @ body @ rest
     \<and> unat c = 16 * unat (PacketType_as_u8 (packet_type h)) + unat (flags h) \<and> unat (flags h) < 16
     \<and> length_field ds (remaining_length h) \<and> length body = remaining_length h)"

text \<open>The first octet, and the start of a length field that is not yet complete.\<close>

definition known_type :: "u8 \<Rightarrow> bool" where
  "known_type c \<longleftrightarrow> 1 \<le> unat c div 16 \<and> unat c div 16 \<le> 14"

definition header_cut :: "u8 list \<Rightarrow> bool" where
  "header_cut octets \<longleftrightarrow> octets = [] \<or> known_type (hd octets) \<and> length octets \<le> 5 \<and> (\<forall>d \<in> set (tl octets). 128 \<le> unat d)"

lemma high_bit_unat: "(d AND 0x80 = 0) = (unat d < 128)" for d :: u8
proof -
  have "(d AND 0x80 \<noteq> 0) = bit d 7" by (simp add: bit_iff_and_push_bit_not_eq_0)
  also have "\<dots> = bit (unat d) 7" by (simp add: bit_unsigned_iff)
  also have "\<dots> = odd (unat d div 128)" by (simp add: bit_iff_odd)
  also have "\<dots> = (\<not> unat d < 128)"
  proof
    assume "odd (unat d div 128)"
    then show "\<not> unat d < 128" by (auto simp: div_less)
  next
    assume "\<not> unat d < 128"
    moreover have "unat d < 256" using unsigned_less [of d] by simp
    ultimately have "unat d div 128 = 1" by (simp add: div_nat_eqI)
    then show "odd (unat d div 128)" by simp
  qed
  finally show ?thesis by blast
qed

lemma low_bits_unat: "unat (d AND 0x7F) = unat d mod 128" "unat (d AND 0x0F) = unat d mod 16"
  "unat (drop_bit 4 d AND 0x0F) = unat d div 16" for d :: u8
proof -
  have m: "unat (e AND mask n) = unat e mod 2 ^ n" for e :: u8 and n
    by (simp only: take_bit_eq_mask [symmetric] unsigned_take_bit_eq) (rule take_bit_eq_mod)
  show "unat (d AND 0x7F) = unat d mod 128" "unat (d AND 0x0F) = unat d mod 16"
    using m [of d 7] m [of d 4] by (simp_all add: mask_eq_exp_minus_1)
  have "unat (drop_bit 4 d) = unat d div 16" by (simp only: unat_drop_bit_eq) (simp add: drop_bit_eq_div)
  moreover have "unat d < 256" using unsigned_less [of d] by simp
  then have "unat d div 16 < 16" by (simp add: less_mult_imp_div_less)
  ultimately show "unat (drop_bit 4 d AND 0x0F) = unat d div 16"
    using m [of "drop_bit 4 d" 4] by (simp add: mask_eq_exp_minus_1)
qed

lemma read_length_value:
  "ds \<noteq> [] \<Longrightarrow> length ds + i \<le> 5 \<Longrightarrow> \<forall>d \<in> set (butlast ds). 128 \<le> unat d \<Longrightarrow> unat (last ds) < 128 \<Longrightarrow>
     read_remaining_length_stream (list_stream eof) i len (ds @ rest) = Ok (len + length_value ds * 128 ^ i, rest)"
proof (induction ds arbitrary: i len)
  case (Cons d ds)
  show ?case
  proof (cases "ds = []")
    case True
    with Cons.prems show ?thesis
      by (subst read_remaining_length_stream.simps) (simp add: list_io Let_def high_bit_unat low_bits_unat)
  next
    case False
    have "128 \<le> unat d" "i < 4" "length ds + Suc i \<le> 5" using Cons.prems False by (auto simp: Suc_le_eq neq_Nil_conv)
    moreover have "\<not> (128::nat) ^ Suc i > 128 * 128 * 128 * 128"
      using power_increasing [of "Suc i" 4 "128::nat"] \<open>i < 4\<close> by simp
    moreover have "read_remaining_length_stream (list_stream eof) (Suc i) (len + unat d mod 128 * 128 ^ i) (ds @ rest)
        = Ok (len + unat d mod 128 * 128 ^ i + length_value ds * 128 ^ Suc i, rest)"
      using Cons.IH [OF False, of "Suc i"] Cons.prems False \<open>length ds + Suc i \<le> 5\<close> by simp
    ultimately show ?thesis
      by (subst read_remaining_length_stream.simps)
        (simp add: list_io Let_def high_bit_unat low_bits_unat not_less algebra_simps)
  qed
qed simp

lemma read_length_cut:
  "\<forall>d \<in> set ds. 128 \<le> unat d \<Longrightarrow> length ds + i \<le> 4 \<Longrightarrow>
     read_remaining_length_stream (list_stream eof) i len ds = Err (IoErr UnexpectedEof eof)"
proof (induction ds arbitrary: i len)
  case (Cons d ds)
  have "\<not> (128::nat) ^ Suc i > 128 * 128 * 128 * 128"
    using power_increasing [of "Suc i" 4 "128::nat"] Cons.prems(2) by simp
  with Cons show ?case
    by (subst read_remaining_length_stream.simps) (simp add: list_io Let_def high_bit_unat not_less)
qed (simp add: read_remaining_length_stream.simps list_io)

lemma read_length_long:
  "\<forall>d \<in> set ds. 128 \<le> unat d \<Longrightarrow> ds \<noteq> [] \<Longrightarrow> length ds + i = 5 \<Longrightarrow>
     read_remaining_length_stream (list_stream eof) i len (ds @ rest) = Err (IoErr InvalidData ''Malformed remaining length'')"
proof (induction ds arbitrary: i len)
  case (Cons d ds)
  show ?case
  proof (cases "ds = []")
    case True
    then have "i = 4" using Cons.prems by simp
    with True Cons.prems show ?thesis
      by (subst read_remaining_length_stream.simps) (simp add: list_io Let_def high_bit_unat not_less)
  next
    case False
    then have "1 \<le> length ds" by (simp add: Suc_leI)
    then have "Suc i \<le> 4" using Cons.prems(3) by simp
    then have "\<not> (128::nat) ^ Suc i > 128 * 128 * 128 * 128"
      using power_increasing [of "Suc i" 4 "128::nat"] by simp
    with False Cons show ?thesis
      by (subst read_remaining_length_stream.simps) (simp add: list_io Let_def high_bit_unat not_less)
  qed
qed simp

lemma length_cases:
  obtains (field) ds rest where "s = ds @ rest" "length_field ds (length_value ds)"
  | (cut) "\<forall>d \<in> set s. 128 \<le> unat d" "length s \<le> 4"
  | (long) ds rest where "s = ds @ rest" "\<forall>d \<in> set ds. 128 \<le> unat d" "length ds = 5"
proof (cases "5 \<le> length (takeWhile (\<lambda>d. 128 \<le> unat d) s)")
  case True
  let ?t = "takeWhile (\<lambda>d. 128 \<le> unat d) s"
  have "s = take 5 ?t @ drop 5 ?t @ dropWhile (\<lambda>d. 128 \<le> unat d) s"
    by (metis append_assoc append_take_drop_id takeWhile_dropWhile_id)
  moreover have "\<forall>d \<in> set (take 5 ?t). 128 \<le> unat d" by (meson in_set_takeD set_takeWhileD)
  moreover have "length (take 5 ?t) = 5" using True by simp
  ultimately show thesis by (rule long)
next
  case False
  let ?t = "takeWhile (\<lambda>d. 128 \<le> unat d) s"
  have t: "\<forall>d \<in> set ?t. 128 \<le> unat d" by (meson set_takeWhileD)
  show thesis
  proof (cases "dropWhile (\<lambda>d. 128 \<le> unat d) s")
    case Nil
    then have "?t = s" by (metis append_Nil2 takeWhile_dropWhile_id)
    with False have "length s \<le> 4" by simp
    with \<open>?t = s\<close> t show thesis by (intro cut) auto
  next
    case (Cons d rest)
    then have "s = (?t @ [d]) @ rest" by (metis append.assoc append_Cons append_Nil takeWhile_dropWhile_id)
    moreover have "unat d < 128" using Cons by (metis hd_dropWhile list.sel(1) list.simps(3) not_le)
    ultimately show thesis using field [of "?t @ [d]"] t False by (simp add: length_field_def)
  qed
qed

text \<open>The first octet: the codes 1 to 14 are packet types.\<close>

lemma known_type_iff: "known_type c \<longleftrightarrow> (\<exists>t. PacketType_from_u8 (drop_bit 4 c AND 0x0F) = Some t)"
proof -
  have "PacketType_from_u8 v \<noteq> None \<longleftrightarrow> unat v \<in> {1, 2, 3, 4, 5, 6, 7, 8, 9, 10, 11, 12, 13, 14}" for v
    by (simp add: PacketType_from_u8_def word_unat_eq_iff)
  moreover have "n \<in> {1, 2, 3, 4, 5, 6, 7, 8, 9, 10, 11, 12, 13, 14} \<longleftrightarrow> 1 \<le> n \<and> n \<le> 14" for n :: nat
    by (simp only: insert_iff empty_iff) arith
  ultimately have "1 \<le> unat v \<and> unat v \<le> 14 \<longleftrightarrow> (\<exists>t. PacketType_from_u8 v = Some t)" for v by (metis not_None_eq)
  then show ?thesis unfolding known_type_def low_bits_unat(3) [symmetric] .
qed

lemma first_octet:
  "PacketType_from_u8 (drop_bit 4 c AND 0x0F) = Some t \<and> c AND 0x0F = f
    \<longleftrightarrow> unat c = 16 * unat (PacketType_as_u8 t) + unat f \<and> unat f < 16"
proof -
  have "PacketType_from_u8 v = Some t \<longleftrightarrow> unat v = unat (PacketType_as_u8 t)" for v
    using PacketType_from_as_u8 [of t] PacketType_as_from_u8 [of v t] by (auto simp: word_unat_eq_iff [symmetric])
  moreover have "c AND 0x0F = f \<longleftrightarrow> unat c mod 16 = unat f" by (simp add: word_unat_eq_iff low_bits_unat)
  moreover have "n div 16 = a \<and> n mod 16 = b \<longleftrightarrow> n = 16 * a + b \<and> b < 16" for n a b :: nat
    by (auto simp: mult.commute)
  ultimately show ?thesis unfolding low_bits_unat(3) by (simp add: low_bits_unat(3))
qed

text \<open>What the reader returns on every input, by the shape of the header.\<close>

lemma read_packet_shapes:
  "read_packet_from (list_stream eof) list_buf m [] = Ok None"
  "\<not> known_type c \<Longrightarrow> read_packet_from (list_stream eof) list_buf m (c # s) = Err (IoErr InvalidData ''Invalid packet type'')"
  "known_type c \<Longrightarrow> \<forall>d \<in> set s. 128 \<le> unat d \<Longrightarrow> length s \<le> 4 \<Longrightarrow> read_packet_from (list_stream eof) list_buf m (c # s) = Ok None"
  "known_type c \<Longrightarrow> \<forall>d \<in> set ds. 128 \<le> unat d \<Longrightarrow> length ds = 5 \<Longrightarrow>
     read_packet_from (list_stream eof) list_buf m (c # ds @ rest) = Err (IoErr InvalidData ''Malformed remaining length'')"
proof -
  show "read_packet_from (list_stream eof) list_buf m [] = Ok None"
    by (simp add: read_packet_from_def read_fixed_header_half_def list_io)
  show "\<not> known_type c \<Longrightarrow> read_packet_from (list_stream eof) list_buf m (c # s) = Err (IoErr InvalidData ''Invalid packet type'')"
    by (simp add: known_type_iff read_packet_from_def read_fixed_header_half_def list_io)
  show "known_type c \<Longrightarrow> \<forall>d \<in> set s. 128 \<le> unat d \<Longrightarrow> length s \<le> 4 \<Longrightarrow> read_packet_from (list_stream eof) list_buf m (c # s) = Ok None"
    using read_length_cut [of s 0] by (auto simp: known_type_iff read_packet_from_def read_fixed_header_half_def list_io)
  show "known_type c \<Longrightarrow> \<forall>d \<in> set ds. 128 \<le> unat d \<Longrightarrow> length ds = 5 \<Longrightarrow>
     read_packet_from (list_stream eof) list_buf m (c # ds @ rest) = Err (IoErr InvalidData ''Malformed remaining length'')"
    using read_length_long [of ds 0 eof 0 rest] by (cases "ds = []") (auto simp: known_type_iff read_packet_from_def read_fixed_header_half_def list_io)
qed

lemma read_packet_field:
  assumes "length_field ds n" "unat c = 16 * unat (PacketType_as_u8 t) + unat f" "unat f < 16"
  shows "read_packet_from (list_stream eof) list_buf m (c # ds @ rest) =
    (if n > m then Err (IoErr InvalidData ''Packet too large'')
     else if length rest < n then Err (IoErr UnexpectedEof eof)
     else Ok (Some (\<lparr>packet_type = t, flags = f, remaining_length = n\<rparr>, take n rest, drop n rest)))"
proof -
  have "PacketType_from_u8 (drop_bit 4 c AND 0x0F) = Some t" "c AND 0x0F = f" using first_octet [of c t f] assms(2,3) by blast+
  moreover have "read_remaining_length_stream (list_stream eof) 0 0 (ds @ rest) = Ok (n, rest)"
    using read_length_value [of ds 0] assms(1) by (simp add: length_field_def)
  ultimately have "read_fixed_header_half (list_stream eof) (c # ds @ rest) = Ok (\<lparr>packet_type = t, flags = f, remaining_length = n\<rparr>, rest)"
    by (simp add: read_fixed_header_half_def list_io)
  then show ?thesis by (auto simp: read_packet_from_def list_io)
qed

lemma read_packet_list:
  "(read_packet_from (list_stream eof) list_buf m s = Ok (Some (h, body, rest)) \<longleftrightarrow> framed s h body rest \<and> remaining_length h \<le> m)
   \<and> (read_packet_from (list_stream eof) list_buf m s = Ok None \<longleftrightarrow> header_cut s)
   \<and> read_packet_from (list_stream eof) list_buf m s \<noteq> Panic \<and> read_packet_from (list_stream eof) list_buf m s \<noteq> Diverge"
proof -
  have some: "read_packet_from (list_stream eof) list_buf m s = Ok (Some (h, body, rest))"
    if "framed s h body rest" "remaining_length h \<le> m" for h body rest
  proof -
    obtain c ds where "s = c # ds @ body @ rest" "unat c = 16 * unat (PacketType_as_u8 (packet_type h)) + unat (flags h)"
      "unat (flags h) < 16" "length_field ds (remaining_length h)" "length body = remaining_length h"
      using \<open>framed s h body rest\<close> unfolding framed_def by blast
    then show ?thesis using read_packet_field [of ds "remaining_length h" c "packet_type h" "flags h" eof m "body @ rest"] that(2)
      by simp
  qed
  have cut: "read_packet_from (list_stream eof) list_buf m s = Ok None" if "header_cut s"
    using that read_packet_shapes(1,3) [where eof = eof and m = m] by (cases s) (auto simp: header_cut_def)
  consider h body rest where "framed s h body rest" "remaining_length h \<le> m" | "header_cut s"
    | e where "read_packet_from (list_stream eof) list_buf m s = Err e"
  proof (cases s)
    case Nil
    then show thesis using that(2) by (simp add: header_cut_def)
  next
    case (Cons c s1)
    show thesis
    proof (cases "known_type c")
      case False
      then show thesis using that(3) read_packet_shapes(2) Cons by blast
    next
      case True
      then obtain t where t: "PacketType_from_u8 (drop_bit 4 c AND 0x0F) = Some t" by (auto simp: known_type_iff)
      show thesis
      proof (cases s1 rule: length_cases)
        case (field ds rest)
        let ?n = "length_value ds" and ?f = "c AND 0x0F"
        have f: "unat c = 16 * unat (PacketType_as_u8 t) + unat ?f" "unat ?f < 16" using first_octet [of c t ?f] t by blast+
        have r: "read_packet_from (list_stream eof) list_buf m s = Ok (Some (\<lparr>packet_type = t, flags = ?f, remaining_length = ?n\<rparr>, take ?n rest, drop ?n rest))
            \<or> (\<exists>e. read_packet_from (list_stream eof) list_buf m s = Err e)"
          using read_packet_field [OF field(2) f, of eof m rest] Cons field(1) by auto
        have "framed s \<lparr>packet_type = t, flags = ?f, remaining_length = ?n\<rparr> (take ?n rest) (drop ?n rest)" if "?n \<le> length rest"
          unfolding framed_def using Cons field f that by (intro exI [of _ c] exI [of _ ds]) simp
        then show thesis
          using that(1) that(3) read_packet_field [OF field(2) f, of eof m rest] Cons field(1)
          by (cases "?n \<le> m \<and> ?n \<le> length rest") (auto split: if_splits)
      next
        case cut
        then show thesis using that(2) True Cons by (simp add: header_cut_def)
      next
        case (long ds rest)
        then show thesis using that(3) read_packet_shapes(4) [OF True] Cons by blast
      qed
    qed
  qed
  then show ?thesis by cases (use some cut in \<open>fastforce+\<close>)
qed

text \<open>
  C13. Reading a packet from the network, on every input. The reader returns a header, a body and
  the unread rest exactly if the pending octets are framed so and the length is within the
  limit: one octet of type and flags, a length field of one to five octets, as many octets of
  body as it says. It reports the end of the stream exactly if the header is incomplete; and
  it neither panics nor runs for ever, so that everything else is an error.
\<close>

theorem read_packet_from_frame:
  assumes "mqtt_wire S pending eof B content"
  shows "((\<exists>b s'. read_packet_from S B max_size s = Ok (Some (h, b, s')) \<and> content b = body \<and> pending s' = rest)
      \<longleftrightarrow> framed (pending s) h body rest \<and> remaining_length h \<le> max_size)
    \<and> (read_packet_from S B max_size s = Ok None \<longleftrightarrow> header_cut (pending s))
    \<and> read_packet_from S B max_size s \<noteq> Panic \<and> read_packet_from S B max_size s \<noteq> Diverge"
proof -
  have sim: "map_outcome (map_option (\<lambda>(h, b, s). (h, content b, pending s))) (\<lambda>e. e) (read_packet_from S B max_size s)
      = read_packet_from (list_stream eof) list_buf max_size (pending s)"
    by (rule mqtt_wire.sim_read_packet_from [OF assms])
  show ?thesis
    using read_packet_list [of eof max_size "pending s" h body rest, folded sim]
    by (cases "read_packet_from S B max_size s") auto
qed

theorem read_packet_from_frame_witness:
  "\<exists>b s'. read_packet_from (list_stream ''eof'') list_buf 300 ([0xE3, 0x82, 2] @ replicate 258 7 @ [9])
     = Ok (Some (\<lparr>packet_type = Disconnect, flags = 3, remaining_length = 258\<rparr>, b, s'))
   \<and> b = replicate 258 7 \<and> s' = [9]"
proof -
  have "framed ([0xE3, 0x82, 2] @ replicate 258 7 @ [9]) \<lparr>packet_type = Disconnect, flags = 3, remaining_length = 258\<rparr> (replicate 258 7) [9]"
    unfolding framed_def by (intro exI [of _ "0xE3"] exI [of _ "[0x82, 2]"]) (simp add: length_field_def)
  then show ?thesis
    using read_packet_from_frame [OF list_wire.mqtt_wire_axioms, where max_size = 300 and s = "[0xE3, 0x82, 2] @ replicate 258 7 @ [9]"] by simp
qed

section \<open>Strings on the wire\<close>

text \<open>A length-prefixed string as clients send it.\<close>

definition wire_string :: "string \<Rightarrow> u8 list" where
  "wire_string t = u16_to_be (of_nat (length t)) @ as_bytes t"

definition wire_ok :: "string \<Rightarrow> bool" where
  "wire_ok t \<longleftrightarrow> utf8_string t \<and> length t < 65536"

lemma get_u16_to_be [list_io]: "get_u16 list_buf (u16_to_be w @ rest) = Some (w, rest)"
  by (simp add: u16_to_be_def list_io wire_simps)

lemma decode_wire_string [list_io]:
  "wire_ok t \<Longrightarrow> decode_utf8_string list_buf (wire_string t @ rest) = Ok (t, rest)"
  by (simp add: decode_utf8_string_def wire_string_def wire_ok_def list_io unat_of_nat_u16)

lemma decode_wire_string_end [list_io]:
  "wire_ok t \<Longrightarrow> decode_utf8_string list_buf (wire_string t) = Ok (t, [])"
  using decode_wire_string [of t "[]"] by simp

lemma length_wire_string [simp]: "length (wire_string t) = 2 + length t"
  by (simp add: wire_string_def)

lemma wire_ok_ascii: "\<forall>b \<in> set (as_bytes t). b < 128 \<Longrightarrow> length t < 65536 \<Longrightarrow> wire_ok t"
  by (simp add: wire_ok_def utf8_string_def valid_utf8_ascii)

section \<open>PUBLISH: encode, read, decode\<close>

definition publish_first_byte :: "bool \<Rightarrow> QoS \<Rightarrow> bool \<Rightarrow> u8" where
  "publish_first_byte dup qos retain =
     push_bit 4 (PacketType_as_u8 Publish) OR (if dup then 0x08 else 0)
       OR push_bit 1 (QoS_as_u8 qos) OR (if retain then 0x01 else 0)"

lemma publish_first_byte_type:
  "PacketType_from_u8 (drop_bit 4 (publish_first_byte d q r) AND 0x0F) = Some Publish"
  by (cases d; cases q; cases r) (simp_all add: publish_first_byte_def PacketType_from_u8_def)

lemma publish_first_byte_flags:
  "(publish_first_byte d q r AND 0x0F) AND 0x08 \<noteq> 0 \<longleftrightarrow> d"
  "qos_or_default (drop_bit 1 (publish_first_byte d q r AND 0x0F) AND 0x03) = q"
  "(publish_first_byte d q r AND 0x0F) AND 0x01 \<noteq> 0 \<longleftrightarrow> r"
  by (cases d; cases q; cases r;
      simp add: publish_first_byte_def qos_or_default_def QoS_from_u8_def)+

definition publish_length :: "string \<Rightarrow> u8 list \<Rightarrow> QoS \<Rightarrow> nat" where
  "publish_length topic payload qos =
     2 + length topic + length payload + (if qos \<noteq> AtMostOnce then 2 else 0)"

definition publish_body :: "string \<Rightarrow> u8 list \<Rightarrow> QoS \<Rightarrow> u16 option \<Rightarrow> u8 list" where
  "publish_body topic payload qos pid =
     wire_string topic @ (if qos \<noteq> AtMostOnce then u16_to_be (case pid of None \<Rightarrow> 0 | Some p \<Rightarrow> p) else [])
       @ payload"

lemma length_publish_body [simp]:
  "length (publish_body topic payload qos pid) = publish_length topic payload qos"
  by (simp add: publish_body_def publish_length_def)

lemma encode_publish_parts:
  "encode_publish topic payload qos dup retain pid =
     publish_first_byte dup qos retain # encode_remaining_length_vec (publish_length topic payload qos)
       @ publish_body topic payload qos pid"
  by (simp add: encode_publish_def publish_first_byte_def publish_length_def publish_body_def
      wire_string_def Let_def del: PacketType_as_u8.simps)

abbreviation published :: "string \<Rightarrow> u8 list \<Rightarrow> QoS \<Rightarrow> bool \<Rightarrow> bool \<Rightarrow> u16 option \<Rightarrow> PublishPacket" where
  "published topic payload qos dup retain pid \<equiv>
     \<lparr>pp_topic = topic, pp_payload = payload, pp_qos = qos, pp_retain = retain, pp_dup = dup,
      pp_packet_id = (if qos = AtMostOnce then None
                      else Some (case pid of None \<Rightarrow> 0 | Some p \<Rightarrow> p))\<rparr>"

lemma read_publish_list:
  assumes "publish_length topic payload qos \<le> m" "publish_length topic payload qos < 128 ^ 5"
  shows "read_packet_from (list_stream eof) list_buf m
      (encode_publish topic payload qos dup retain pid @ rest)
    = Ok (Some (\<lparr>packet_type = Publish, flags = publish_first_byte dup qos retain AND 0x0F,
                 remaining_length = publish_length topic payload qos\<rparr>,
                publish_body topic payload qos pid, rest))"
proof -
  let ?h = "\<lparr>packet_type = Publish, flags = publish_first_byte dup qos retain AND 0x0F,
                 remaining_length = publish_length topic payload qos\<rparr>"
  have "read_fixed_header_half (list_stream eof)
      (encode_publish topic payload qos dup retain pid @ rest)
      = Ok (?h, publish_body topic payload qos pid @ rest)"
    using assms(2) unfolding encode_publish_parts read_fixed_header_half_def
    by (simp add: list_io publish_first_byte_type read_encode_remaining_length)
  with assms(1) show ?thesis
    by (simp add: read_packet_from_def list_io) (simp add: publish_length_def)
qed

lemma decode_publish_list:
  assumes "wire_ok topic"
  shows "decode_publish list_buf
      \<lparr>packet_type = Publish, flags = publish_first_byte dup qos retain AND 0x0F, remaining_length = n\<rparr>
      (publish_body topic payload qos pid)
    = Ok (published topic payload qos dup retain pid, [])"
  using assms
  unfolding decode_publish_def Let_def FixedHeader.select_convs publish_first_byte_flags
  by (simp add: publish_body_def list_io)

text \<open>
  C14. What the broker sends is what a reader gets: the bytes of \<open>encode_publish\<close> for a UTF-8
  topic, whatever follows them on the stream, are read as one PUBLISH packet and decode
  to the topic, payload, QoS, flags and packet id they were built from.
\<close>

theorem publish_roundtrip:
  assumes "mqtt_wire S pending eof B content"
    and "wire_ok topic"
    and "publish_length topic payload qos \<le> max_size"
    and "publish_length topic payload qos < 128 ^ 5"
    and "pending s = encode_publish topic payload qos dup retain packet_id @ rest"
  shows "\<exists>h b s' b'. read_packet_from S B max_size s = Ok (Some (h, b, s')) \<and> pending s' = rest
    \<and> packet_type h = Publish
    \<and> decode_publish B h b = Ok (published topic payload qos dup retain packet_id, b')
    \<and> content b' = []"
proof -
  from mqtt_wire.sim_read_packet_from [OF assms(1), of max_size s]
    read_publish_list [OF assms(3,4)] assms(5)
  obtain b s' where r: "read_packet_from S B max_size s = Ok (Some
      (\<lparr>packet_type = Publish, flags = publish_first_byte dup qos retain AND 0x0F,
        remaining_length = publish_length topic payload qos\<rparr>, b, s'))"
    (is "_ = Ok (Some (?h, b, s'))")
    and "content b = publish_body topic payload qos packet_id" "pending s' = rest"
    by (cases "read_packet_from S B max_size s") auto
  moreover have "osim content (decode_publish B ?h b) = decode_publish list_buf ?h (content b)"
    using assms(1) by (simp add: mqtt_wire_def byte_buf.sim_decode_publish)
  ultimately show ?thesis
    using decode_publish_list [OF assms(2)] by (fastforce simp: osim_Ok)
qed

theorem publish_roundtrip_witness:
  "\<exists>h b s' b'. read_packet_from (list_stream ''eof'') list_buf 100
      (encode_publish ''a/b'' [1, 2] AtLeastOnce False True (Some 42) @ [9]) = Ok (Some (h, b, s'))
    \<and> s' = [9] \<and> packet_type h = Publish
    \<and> decode_publish list_buf h b
        = Ok (published ''a/b'' [1, 2] AtLeastOnce False True (Some 42), b')
    \<and> b' = []"
proof -
  have "wire_ok ''a/b''" by (rule wire_ok_ascii) (simp_all add: as_bytes_def)
  from publish_roundtrip [OF list_wire.mqtt_wire_axioms this, where max_size = 100
      and payload = "[1, 2]" and qos = AtLeastOnce and dup = False and retain = True
      and packet_id = "Some 42" and rest = "[9]", OF _ _ refl]
  show ?thesis by (simp add: publish_length_def)
qed

section \<open>SUBSCRIBE and UNSUBSCRIBE\<close>

text \<open>The payload of a client's request, as the protocol lays it out.\<close>

definition sub_options :: "u8 \<Rightarrow> QoS \<Rightarrow> u8" where
  "sub_options r q = push_bit 4 r OR QoS_as_u8 q"

definition wire_subscription :: "SubscriptionFilter \<Rightarrow> u8 list" where
  "wire_subscription f =
     wire_string (sf_topic_filter f) @ [sub_options (sf_retain_handling f) (sf_qos f)]"

lemma length_wire_subscription [simp]:
  "length (wire_subscription f) = 3 + length (sf_topic_filter f)"
  by (simp add: wire_subscription_def)

definition subscription_ok :: "SubscriptionFilter \<Rightarrow> bool" where
  "subscription_ok f \<longleftrightarrow> wire_ok (sf_topic_filter f) \<and> sf_retain_handling f < 4"

lemma u8_below_4: "(x :: u8) < 4 \<Longrightarrow> x = 0 \<or> x = 1 \<or> x = 2 \<or> x = 3"
proof -
  assume "x < 4"
  then have "unat x < 4" by (simp add: word_less_nat_alt)
  then have "unat x = unat (0::u8) \<or> unat x = unat (1::u8) \<or> unat x = unat (2::u8) \<or> unat x = unat (3::u8)"
    by auto
  then show ?thesis by (simp only: unsigned_word_eqI [THEN eqTrueI] word_unat_eq_iff)
qed

lemma subscription_options:
  "r < 4 \<Longrightarrow> qos_or_default (sub_options r q AND 0x03) = q"
  "r < 4 \<Longrightarrow> drop_bit 4 (sub_options r q) AND 0x03 = r"
  by (cases q; auto dest!: u8_below_4 simp: sub_options_def qos_or_default_def QoS_from_u8_def)+

lemma decode_subscription_step:
  assumes "subscription_ok f"
  shows "decode_subscriptions list_buf (Suc k) acc (wire_subscription f @ rest)
    = decode_subscriptions list_buf k (acc @ [f]) rest"
  using assms
  by (cases f) (simp add: subscription_ok_def wire_subscription_def list_io subscription_options)

lemma decode_subscriptions_wire:
  "\<forall>f \<in> set fs. subscription_ok f \<Longrightarrow> length (concat (map wire_subscription fs)) < n \<Longrightarrow>
   decode_subscriptions list_buf n acc (concat (map wire_subscription fs)) = Ok (acc @ fs, [])"
proof (induction fs arbitrary: n acc)
  case Nil
  then show ?case by (cases n) (simp_all add: list_io)
next
  case (Cons f fs)
  then obtain k where n: "n = Suc k" by (cases n) auto
  have "length (concat (map wire_subscription fs)) < k"
    using Cons.prems(2) n by simp
  then have "decode_subscriptions list_buf k (acc @ [f]) (concat (map wire_subscription fs))
      = Ok (acc @ f # fs, [])"
    using Cons.IH [of k "acc @ [f]"] Cons.prems(1) by simp
  then show ?case
    using Cons.prems(1) by (simp add: n decode_subscription_step del: decode_subscriptions.simps)
qed

text \<open>
  A well-formed SUBSCRIBE body is decoded to its packet id and to exactly the requested
  filters with their QoS and retain handling, in the order sent.
\<close>

theorem decode_subscribe_wire:
  assumes "byte_buf B content" and "\<forall>f \<in> set fs. subscription_ok f"
    and "content b = u16_to_be pid @ concat (map wire_subscription fs)"
  shows "\<exists>b'. decode_subscribe B b = Ok (\<lparr>sp_packet_id = pid, sp_subscriptions = fs\<rparr>, b')
    \<and> content b' = []"
proof -
  have "decode_subscribe list_buf (content b) = Ok (\<lparr>sp_packet_id = pid, sp_subscriptions = fs\<rparr>, [])"
    using decode_subscriptions_wire [OF assms(2), where acc = "[]"]
    unfolding assms(3) by (simp add: decode_subscribe_def list_io del: decode_subscriptions.simps)
  with byte_buf.sim_decode_subscribe [OF assms(1), of b] show ?thesis by (simp add: osim_Ok)
qed

theorem decode_subscribe_wire_witness:
  "\<exists>b'. decode_subscribe list_buf
      (u16_to_be 7 @ concat (map wire_subscription
        [\<lparr>sf_topic_filter = ''a/+'', sf_qos = AtLeastOnce, sf_retain_handling = 1\<rparr>]))
    = Ok (\<lparr>sp_packet_id = 7, sp_subscriptions =
        [\<lparr>sf_topic_filter = ''a/+'', sf_qos = AtLeastOnce, sf_retain_handling = 1\<rparr>]\<rparr>, b')
    \<and> b' = []"
proof (rule decode_subscribe_wire [OF list_buf.byte_buf_axioms _ refl])
  have "wire_ok ''a/+''" by (rule wire_ok_ascii) (simp_all add: as_bytes_def)
  then show "\<forall>f \<in> set [\<lparr>sf_topic_filter = ''a/+'', sf_qos = AtLeastOnce, sf_retain_handling = 1\<rparr>].
      subscription_ok f" by (simp add: subscription_ok_def)
qed

lemma decode_topic_filters_wire:
  "\<forall>t \<in> set ts. wire_ok t \<Longrightarrow> length (concat (map wire_string ts)) < n \<Longrightarrow>
   decode_topic_filters list_buf n acc (concat (map wire_string ts)) = Ok (acc @ ts, [])"
proof (induction ts arbitrary: n acc)
  case Nil
  then show ?case by (cases n) (simp_all add: list_io)
next
  case (Cons t ts)
  then obtain k where n: "n = Suc k" by (cases n) auto
  have "decode_topic_filters list_buf k (acc @ [t]) (concat (map wire_string ts)) = Ok (acc @ t # ts, [])"
    using Cons.IH [of k "acc @ [t]"] Cons.prems n by simp
  with Cons.prems(1) show ?case by (simp add: n list_io)
qed

text \<open>The same for UNSUBSCRIBE.\<close>

theorem decode_unsubscribe_wire:
  assumes "byte_buf B content" and "\<forall>t \<in> set ts. wire_ok t"
    and "content b = u16_to_be pid @ concat (map wire_string ts)"
  shows "\<exists>b'. decode_unsubscribe B b = Ok (\<lparr>up_packet_id = pid, up_topic_filters = ts\<rparr>, b')
    \<and> content b' = []"
proof -
  have "decode_unsubscribe list_buf (content b) = Ok (\<lparr>up_packet_id = pid, up_topic_filters = ts\<rparr>, [])"
    using decode_topic_filters_wire [OF assms(2), where acc = "[]"]
    unfolding assms(3) by (simp add: decode_unsubscribe_def list_io del: decode_topic_filters.simps)
  with byte_buf.sim_decode_unsubscribe [OF assms(1), of b] show ?thesis by (simp add: osim_Ok)
qed

theorem decode_unsubscribe_wire_witness:
  "\<exists>b'. decode_unsubscribe list_buf (u16_to_be 7 @ concat (map wire_string [''a/b'']))
    = Ok (\<lparr>up_packet_id = 7, up_topic_filters = [''a/b'']\<rparr>, b') \<and> b' = []"
proof (rule decode_unsubscribe_wire [OF list_buf.byte_buf_axioms _ refl])
  have "wire_ok ''a/b''" by (rule wire_ok_ascii) (simp_all add: as_bytes_def)
  then show "\<forall>t \<in> set [''a/b'']. wire_ok t" by simp
qed

section \<open>CONNECT\<close>

definition connect_flags :: "ConnectPacket \<Rightarrow> u8" where
  "connect_flags c =
     (if cp_clean_start c then 0x02 else 0) OR (if cp_will_topic c \<noteq> None then 0x04 else 0)
       OR push_bit 3 (QoS_as_u8 (cp_will_qos c)) OR (if cp_will_retain c then 0x20 else 0)
       OR (if cp_password c \<noteq> None then 0x40 else 0) OR (if cp_username c \<noteq> None then 0x80 else 0)"

definition wire_blob :: "u8 list \<Rightarrow> u8 list" where
  "wire_blob bs = u16_to_be (of_nat (length bs)) @ bs"

text \<open>An MQTT 3.1.1 CONNECT body (protocol level 4, so no properties).\<close>

definition wire_connect :: "ConnectPacket \<Rightarrow> u8 list" where
  "wire_connect c =
     wire_string ''MQTT'' @ [4, connect_flags c] @ u16_to_be (cp_keep_alive c)
       @ wire_string (cp_client_id c)
       @ (case (cp_will_topic c, cp_will_payload c) of
            (Some t, Some p) \<Rightarrow> wire_string t @ wire_blob p | _ \<Rightarrow> [])
       @ (case cp_username c of None \<Rightarrow> [] | Some u \<Rightarrow> wire_string u)
       @ (case cp_password c of None \<Rightarrow> [] | Some p \<Rightarrow> wire_blob p)"

definition connect_ok :: "ConnectPacket \<Rightarrow> bool" where
  "connect_ok c \<longleftrightarrow>
     wire_ok (cp_client_id c) \<and> (cp_will_topic c = None \<longleftrightarrow> cp_will_payload c = None)
     \<and> pred_option wire_ok (cp_will_topic c) \<and> pred_option (\<lambda>p. length p < 65536) (cp_will_payload c)
     \<and> pred_option wire_ok (cp_username c) \<and> pred_option (\<lambda>p. length p < 65536) (cp_password c)"

definition flag_bits :: "bool \<Rightarrow> bool \<Rightarrow> QoS \<Rightarrow> bool \<Rightarrow> bool \<Rightarrow> bool \<Rightarrow> u8" where
  "flag_bits c w q r p u =
     (if c then 0x02 else 0) OR (if w then 0x04 else 0) OR push_bit 3 (QoS_as_u8 q)
       OR (if r then 0x20 else 0) OR (if p then 0x40 else 0) OR (if u then 0x80 else 0)"

lemma flag_bits_decode:
  "flag_bits c w q r p u AND 0x02 \<noteq> 0 \<longleftrightarrow> c"
  "flag_bits c w q r p u AND 0x04 \<noteq> 0 \<longleftrightarrow> w"
  "qos_or_default (drop_bit 3 (flag_bits c w q r p u) AND 0x03) = q"
  "flag_bits c w q r p u AND 0x20 \<noteq> 0 \<longleftrightarrow> r"
  "flag_bits c w q r p u AND 0x40 \<noteq> 0 \<longleftrightarrow> p"
  "flag_bits c w q r p u AND 0x80 \<noteq> 0 \<longleftrightarrow> u"
  by (cases c; cases w; cases q; cases r; cases p; cases u;
      simp add: flag_bits_def qos_or_default_def QoS_from_u8_def)+

lemma connect_flags_bits:
  "connect_flags c = flag_bits (cp_clean_start c) (cp_will_topic c \<noteq> None) (cp_will_qos c)
     (cp_will_retain c) (cp_password c \<noteq> None) (cp_username c \<noteq> None)"
  by (simp add: connect_flags_def flag_bits_def)

lemma decode_blob [list_io]:
  "length p < 65536 \<Longrightarrow> decode_password list_buf True (wire_blob p @ rest) = Ok (Some p, rest)"
  "length p < 65536 \<Longrightarrow> decode_password list_buf True (wire_blob p) = Ok (Some p, [])"
  using get_u16_to_be [of "of_nat (length p)" p]
  by (simp_all add: decode_password_def wire_blob_def list_io unat_of_nat_u16)

lemma get_blob_length:
  "length p < 65536 \<Longrightarrow> get_u16 list_buf (wire_blob p @ rest) = Some (of_nat (length p), p @ rest)"
  by (simp add: wire_blob_def list_io)

lemma decode_will_wire:
  assumes "wire_ok t" "length p < 65536"
  shows "decode_will list_buf True 4 (wire_string t @ wire_blob p @ rest) = Ok ((Some t, Some p), rest)"
  using assms
  by (simp add: decode_will_def skip_properties_def list_io get_blob_length unat_of_nat_u16)

lemma decode_username_wire:
  "wire_ok u \<Longrightarrow> decode_username list_buf True (wire_string u @ rest) = Ok (Some u, rest)"
  by (simp add: decode_username_def list_io)

lemma decode_connect_list:
  assumes "connect_ok c"
  shows "decode_connect list_buf (wire_connect c) = Ok (c, [])"
proof -
  have mqtt: "wire_ok ''MQTT''" by (rule wire_ok_ascii) (simp_all add: as_bytes_def)
  obtain cid ka un pw cs wt wp wq wr where c: "c = \<lparr>cp_client_id = cid, cp_keep_alive = ka,
      cp_username = un, cp_password = pw, cp_clean_start = cs, cp_will_topic = wt,
      cp_will_payload = wp, cp_will_qos = wq, cp_will_retain = wr\<rparr>"
    by (cases c) auto
  have hd: "get_u16 list_buf (wire_string ''MQTT'' @ rest) = Some (4, as_bytes ''MQTT'' @ rest)" for rest
    by (simp add: wire_string_def list_io)
  show ?thesis
    using assms unfolding c connect_ok_def
    by (cases wt; cases wp; cases un; cases pw)
      (simp_all add: wire_connect_def decode_connect_def hd list_io connect_flags_bits
        flag_bits_decode skip_properties_def decode_will_wire decode_username_wire
        decode_will_def decode_username_def decode_password_def get_blob_length
        wire_blob_def unat_of_nat_u16)
qed

text \<open>
  A well-formed MQTT 3.1.1 CONNECT body is decoded to its client id, keep-alive, will,
  user name, password and flags.
\<close>

theorem decode_connect_wire:
  assumes "byte_buf B content" and "connect_ok c" and "content b = wire_connect c"
  shows "\<exists>b'. decode_connect B b = Ok (c, b') \<and> content b' = []"
  using byte_buf.sim_decode_connect [OF assms(1), of b] decode_connect_list [OF assms(2)] assms(3)
  by (simp add: osim_Ok)

theorem decode_connect_wire_witness:
  "let c = \<lparr>cp_client_id = ''c1'', cp_keep_alive = 60, cp_username = Some ''u'',
      cp_password = Some [1], cp_clean_start = True, cp_will_topic = Some ''w'',
      cp_will_payload = Some [2], cp_will_qos = AtLeastOnce, cp_will_retain = False\<rparr>
   in \<exists>b'. decode_connect list_buf (wire_connect c) = Ok (c, b') \<and> b' = []"
  unfolding Let_def
proof (rule decode_connect_wire [OF list_buf.byte_buf_axioms _ refl])
  have "wire_ok ''c1''" "wire_ok ''u''" "wire_ok ''w''"
    by (rule wire_ok_ascii; simp add: as_bytes_def)+
  then show "connect_ok \<lparr>cp_client_id = ''c1'', cp_keep_alive = 60, cp_username = Some ''u'',
      cp_password = Some [1], cp_clean_start = True, cp_will_topic = Some ''w'',
      cp_will_payload = Some [2], cp_will_qos = AtLeastOnce, cp_will_retain = False\<rparr>"
    by (simp add: connect_ok_def)
qed

section \<open>Truncated packets\<close>

text \<open>The topic length announced by the first two octets of a PUBLISH body.\<close>

definition topic_octets :: "u8 list \<Rightarrow> nat" where
  "topic_octets c = unat (u16_of_be (c ! 0) (c ! 1))"

lemma decode_utf8_string_list:
  "decode_utf8_string list_buf c =
     (if length c < 2 \<or> length c < 2 + topic_octets c then Panic
      else Ok (from_utf8_lossy (take (topic_octets c) (drop 2 c)), drop (2 + topic_octets c) c))"
proof (cases "length c < 2")
  case True
  then show ?thesis by (simp add: decode_utf8_string_def get_u16_list_short)
next
  case False
  then obtain x y xs where "c = x # y # xs" by (rule length_ge2_obtain)
  then show ?thesis
    by (simp add: decode_utf8_string_def topic_octets_def list_io not_le)
qed

definition publish_truncated :: "u8 \<Rightarrow> u8 list \<Rightarrow> bool" where
  "publish_truncated fl c \<longleftrightarrow>
     length c < 2 \<or>
     length c < 2 + topic_octets c
       + (if qos_or_default (drop_bit 1 fl AND 0x03) \<noteq> AtMostOnce then 2 else 0)"

lemma decode_publish_list_cases:
  "(publish_truncated (flags h) c \<longrightarrow> decode_publish list_buf h c = Panic) \<and>
   (\<not> publish_truncated (flags h) c \<longrightarrow> (\<exists>r. decode_publish list_buf h c = Ok r))"
proof (cases "length (drop (2 + topic_octets c) c) < 2")
  case True
  then show ?thesis
    by (auto simp: decode_publish_def decode_utf8_string_list publish_truncated_def Let_def list_io
        get_u16_list_short)
next
  case False
  then obtain x y xs where rest: "drop (2 + topic_octets c) c = x # y # xs"
    by (rule length_ge2_obtain)
  from arg_cong [OF this, of length] have "length c = 4 + topic_octets c + length xs" by simp
  with rest show ?thesis
    by (auto simp: decode_publish_def decode_utf8_string_list publish_truncated_def Let_def list_io)
qed

text \<open>
  The lists of a SUBSCRIBE and an UNSUBSCRIBE are cut off inside a topic filter. The readers
  stop without complaint when the octets end behind a filter, or when too few are left to start
  another one.
\<close>

function bad_subscriptions :: "u8 list \<Rightarrow> bool" where
  "bad_subscriptions c =
     (if length c < 3 then False
      else if length c < 2 + topic_octets c then True
      else if length c = 2 + topic_octets c then False
      else bad_subscriptions (drop (3 + topic_octets c) c))"
  by pat_completeness auto

termination by (relation "measure length") auto

function bad_filters :: "u8 list \<Rightarrow> bool" where
  "bad_filters c =
     (if length c < 2 then False
      else if length c < 2 + topic_octets c then True
      else bad_filters (drop (2 + topic_octets c) c))"
  by pat_completeness auto

termination by (relation "measure length") auto

declare bad_subscriptions.simps [simp del] bad_filters.simps [simp del]

lemma decode_subscriptions_list_cases:
  "length c < n \<Longrightarrow> if bad_subscriptions c then decode_subscriptions list_buf n acc c = Panic
     else \<exists>r. decode_subscriptions list_buf n acc c = Ok r"
proof (induction n arbitrary: acc c)
  case (Suc n)
  show ?case
  proof (cases "3 \<le> length c \<and> 2 + topic_octets c < length c")
    case True
    then obtain x xs where x: "drop (2 + topic_octets c) c = x # xs" by (cases "drop (2 + topic_octets c) c") auto
    then have "drop (3 + topic_octets c) c = xs" by (metis add_Suc drop_Suc drop_drop list.sel(3) numeral_3_eq_3 numeral_2_eq_2 plus_1_eq_Suc tl_drop)
    then have len: "length xs < n" and bad: "bad_subscriptions c = bad_subscriptions xs"
      using True Suc.prems bad_subscriptions.simps [of c] by auto
    have step: "decode_subscriptions list_buf (Suc n) acc c
      = decode_subscriptions list_buf n (acc @ [\<lparr>sf_topic_filter = from_utf8_lossy (take (topic_octets c) (drop 2 c)),
          sf_qos = qos_or_default (x AND 0x03), sf_retain_handling = drop_bit 4 x AND 0x03\<rparr>]) xs"
      using True x by (simp add: decode_utf8_string_list list_io)
    show ?thesis unfolding step bad by (rule Suc.IH [OF len])
  next
    case False
    then show ?thesis by (subst bad_subscriptions.simps) (auto simp: decode_utf8_string_list list_io not_less)
  qed
qed simp

lemma decode_topic_filters_list_cases:
  "length c < n \<Longrightarrow> if bad_filters c then decode_topic_filters list_buf n acc c = Panic
     else \<exists>r. decode_topic_filters list_buf n acc c = Ok r"
proof (induction n arbitrary: acc c)
  case (Suc n)
  show ?case
  proof (cases "2 \<le> length c \<and> 2 + topic_octets c \<le> length c")
    case True
    let ?c = "drop (2 + topic_octets c) c"
    have len: "length ?c < n" and bad: "bad_filters c = bad_filters ?c" using True Suc.prems bad_filters.simps [of c] by auto
    have step: "decode_topic_filters list_buf (Suc n) acc c
      = decode_topic_filters list_buf n (acc @ [from_utf8_lossy (take (topic_octets c) (drop 2 c))]) ?c"
      using True by (simp add: decode_utf8_string_list list_io)
    show ?thesis unfolding step bad by (rule Suc.IH [OF len])
  next
    case False
    then show ?thesis by (subst bad_filters.simps) (auto simp: decode_utf8_string_list list_io)
  qed
qed simp

text \<open>A packet whose body is shorter than the lengths inside it ask for.\<close>

fun malformed :: "FixedHeader \<Rightarrow> u8 list \<Rightarrow> bool" where
  "malformed h c =
     (case packet_type h of
        Publish \<Rightarrow> publish_truncated (flags h) c
      | Subscribe \<Rightarrow> length c < 2 \<or> bad_subscriptions (drop 2 c)
      | Unsubscribe \<Rightarrow> length c < 2 \<or> bad_filters (drop 2 c)
      | _ \<Rightarrow> False)"

lemma decode_subscribe_list_cases:
  "if length c < 2 \<or> bad_subscriptions (drop 2 c) then decode_subscribe list_buf c = Panic
   else \<exists>r. decode_subscribe list_buf c = Ok r"
proof (cases "length c < 2")
  case False
  then obtain x y xs where c: "c = x # y # xs" by (rule length_ge2_obtain)
  then show ?thesis
    using decode_subscriptions_list_cases [of xs "Suc (length xs)" "[]"]
    by (auto simp: decode_subscribe_def list_io simp del: decode_subscriptions.simps split: if_splits)
qed (simp add: decode_subscribe_def get_u16_list_short)

lemma decode_unsubscribe_list_cases:
  "if length c < 2 \<or> bad_filters (drop 2 c) then decode_unsubscribe list_buf c = Panic
   else \<exists>r. decode_unsubscribe list_buf c = Ok r"
proof (cases "length c < 2")
  case False
  then obtain x y xs where c: "c = x # y # xs" by (rule length_ge2_obtain)
  then show ?thesis
    using decode_topic_filters_list_cases [of xs "Suc (length xs)" "[]"]
    by (auto simp: decode_unsubscribe_def list_io simp del: decode_topic_filters.simps split: if_splits)
qed (simp add: decode_unsubscribe_def get_u16_list_short)

text \<open>
  The PUBLISH decoder never returns an error: it panics exactly on a body too short for
  the topic it announces (and for the packet id of QoS 1 and 2), and succeeds on every
  other body. A client can therefore make the connection task panic.
\<close>

theorem decode_publish_total:
  assumes "byte_buf B content"
  shows "(decode_publish B h b = Panic \<longleftrightarrow> publish_truncated (flags h) (content b))
    \<and> (publish_truncated (flags h) (content b) \<or> (\<exists>r. decode_publish B h b = Ok r))"
proof -
  have "osim content (decode_publish B h b) = decode_publish list_buf h (content b)"
    by (rule byte_buf.sim_decode_publish [OF assms])
  then show ?thesis
    using decode_publish_list_cases [of h "content b"] by (cases "decode_publish B h b") auto
qed

theorem decode_publish_total_witness:
  "decode_publish list_buf \<lparr>packet_type = Publish, flags = 0, remaining_length = 1\<rparr> [0] = Panic"
  using decode_publish_total [OF list_buf.byte_buf_axioms,
      of "\<lparr>packet_type = Publish, flags = 0, remaining_length = 1\<rparr>" "[0]"]
  by (simp add: publish_truncated_def)

text \<open>
  The remaining length the broker writes is read back, for every length below
  \<open>128 ^ 5\<close>. MQTT allows four octets, that is lengths below \<open>128 ^ 4\<close>; the reader takes a
  fifth.
\<close>

theorem remaining_length_roundtrip:
  assumes "byte_stream S pending eof" and "n < 128 ^ 5"
    and "pending s = encode_remaining_length_vec n @ rest"
  shows "\<exists>s'. read_remaining_length_stream S 0 0 s = Ok (n, s') \<and> pending s' = rest"
  using byte_stream.sim_read_remaining_length [OF assms(1), of 0 0 s]
    read_encode_remaining_length [of 0 n eof 0 rest] assms(2,3)
  by (simp add: osim_Ok)

theorem remaining_length_roundtrip_witness:
  "\<exists>s'. read_remaining_length_stream (list_stream ''eof'') 0 0 (encode_remaining_length_vec (128 ^ 4) @ [3])
    = Ok (128 ^ 4, s') \<and> s' = [3]"
  by (rule remaining_length_roundtrip [OF list_stream.byte_stream_axioms _ refl]) simp

end
