(* ===== verification/Mqtt_Broker_Correct.thy ===== *)
theory Mqtt_Broker_Correct
  imports Mqtt_Broker Mqtt_Topics_Correct Mqtt_Codec_Correct "HOL-Library.Code_Target_Nat"
begin

text \<open>
  Properties of the broker: the invariant of its shared state over all interleavings, the
  delivery of a published message, retained messages, authentication, clean-up and the
  connection counters. The laws of the bounded channels are the locale \<open>mpsc\<close>.
\<close>

section \<open>Channels\<close>

text \<open>
  \<open>queue\<close> is what a channel holds, \<open>room\<close> how many packets it still takes (0 once the
  receiver is gone), \<open>known\<close> the channels created so far.
\<close>

locale mpsc =
  fixes M :: "('ch, 'w) chan_ops"
    and queue :: "'w \<Rightarrow> 'ch \<Rightarrow> u8 list list"
    and room :: "'w \<Rightarrow> 'ch \<Rightarrow> nat"
    and known :: "'w \<Rightarrow> 'ch set"
  assumes channel_fresh: "fst (channel M n w) \<notin> known w"
    and channel_known: "known (snd (channel M n w)) = insert (fst (channel M n w)) (known w)"
    and channel_room: "room (snd (channel M n w)) d = (if d = fst (channel M n w) then n else room w d)"
    and channel_queue: "queue (snd (channel M n w)) d = (if d = fst (channel M n w) then [] else queue w d)"
    and try_send_fst: "fst (try_send M ch p w) \<longleftrightarrow> 0 < room w ch"
    and try_send_queue: "queue (snd (try_send M ch p w)) d
          = (if d = ch \<and> 0 < room w ch then queue w d @ [p] else queue w d)"
    and try_send_room: "room (snd (try_send M ch p w)) d = (if d = ch then room w d - 1 else room w d)"
    and try_send_known: "known (snd (try_send M ch p w)) = known w"
    and recv_queue: "recv M ch w = Some (p, w') \<Longrightarrow> queue w ch = p # queue w' ch"
    and recv_known: "recv M ch w = Some (p, w') \<Longrightarrow> known w' = known w"
    and drop_rx_room: "room (drop_rx M ch w) d = (if d = ch then 0 else room w d)"
    and drop_rx_known: "known (drop_rx M ch w) = known w"

text \<open>A bounded channel as a list: its capacity while it is open, and the packets queued.\<close>

type_synonym list_chans = "(nat option \<times> u8 list list) list"

definition chan_at :: "list_chans \<Rightarrow> nat \<Rightarrow> nat option \<times> u8 list list" where
  "chan_at w ch = (if ch < length w then w ! ch else (None, []))"

definition list_room :: "list_chans \<Rightarrow> nat \<Rightarrow> nat" where
  "list_room w ch = (case chan_at w ch of (None, q) \<Rightarrow> 0 | (Some n, q) \<Rightarrow> n - length q)"

definition list_chan_ops :: "(nat, list_chans) chan_ops" where
  "list_chan_ops =
     \<lparr>channel = (\<lambda>n w. (length w, w @ [(Some n, [])])),
      try_send = (\<lambda>ch p w. if 0 < list_room w ch
                           then (True, w[ch := (fst (chan_at w ch), snd (chan_at w ch) @ [p])]) else (False, w)),
      recv = (\<lambda>ch w. case snd (chan_at w ch) of [] \<Rightarrow> None | p # q \<Rightarrow> Some (p, w[ch := (fst (chan_at w ch), q)])),
      drop_rx = (\<lambda>ch w. w[ch := (None, [])])\<rparr>"

lemma list_room_pos: "0 < list_room w ch \<Longrightarrow> ch < length w"
  by (auto simp: list_room_def chan_at_def split: if_splits)

lemma chan_at_update: "ch < length w \<Longrightarrow> chan_at (w[ch := x]) d = (if d = ch then x else chan_at w d)"
  by (simp add: chan_at_def)

lemma chan_at_out: "\<not> ch < length w \<Longrightarrow> chan_at w ch = (None, [])"
  by (simp add: chan_at_def)

lemma list_room_update:
  "ch < length w \<Longrightarrow> list_room (w[ch := x]) d
     = (if d = ch then (case x of (None, q) \<Rightarrow> 0 | (Some n, q) \<Rightarrow> n - length q) else list_room w d)"
  by (simp add: list_room_def chan_at_update)

interpretation list_chans: mpsc list_chan_ops "\<lambda>w ch. snd (chan_at w ch)" list_room "\<lambda>w. {..<length w}"
proof
  fix ch d :: nat and p w
  show "list_room (snd (try_send list_chan_ops ch p w)) d = (if d = ch then list_room w d - 1 else list_room w d)"
    using list_room_pos [of w ch]
    by (cases "chan_at w ch") (auto simp: list_chan_ops_def list_room_update, auto simp: list_room_def split: option.splits)
  show "snd (chan_at (snd (try_send list_chan_ops ch p w)) d)
      = (if d = ch \<and> 0 < list_room w ch then snd (chan_at w d) @ [p] else snd (chan_at w d))"
    using list_room_pos [of w ch] by (auto simp: list_chan_ops_def chan_at_update)
  show "list_room (drop_rx list_chan_ops ch w) d = (if d = ch then 0 else list_room w d)"
    by (cases "ch < length w") (auto simp: list_chan_ops_def list_room_update, auto simp: list_room_def chan_at_def)
next
  fix ch :: nat and w p w'
  assume r: "recv list_chan_ops ch w = Some (p, w')"
  then have "ch < length w"
    by (cases "ch < length w") (simp_all add: list_chan_ops_def chan_at_out)
  with r show "snd (chan_at w ch) = p # snd (chan_at w' ch)" "{..<length w'} = {..<length w}"
    by (auto simp: list_chan_ops_def chan_at_update split: list.splits)
qed (auto simp: list_chan_ops_def chan_at_def list_room_def nth_append)

section \<open>What the handlers leave alone\<close>

definition counts :: "('ch, 'time, 'w) MqttBroker \<Rightarrow> u64 \<times> u64" where
  "counts br = (active_connections (metrics br), total_connections (metrics br))"

text \<open>The part of the state only CONNECT, clean-up and the accept loop change.\<close>

definition fixed_part :: "('ch, 'time, 'w) MqttBroker \<Rightarrow> BrokerConfig \<times> (string, ('ch, 'time) Session) hmap \<times> u64 \<times> u64" where
  "fixed_part br = (config br, sessions br, counts br)"

named_theorems frame_simps "what the handlers leave alone"

lemma frame_send_raw [frame_simps]: "fixed_part (snd (send_raw M s p br)) = fixed_part br"
  by (simp add: send_raw_def fixed_part_def counts_def case_prod_unfold Let_def)

lemma frame_packet_id_for [frame_simps]: "fixed_part (snd (packet_id_for q br)) = fixed_part br"
  by (simp add: packet_id_for_def next_packet_id_def fixed_part_def counts_def Let_def)

lemma frame_count [frame_simps]:
  "fixed_part (count_sent br) = fixed_part br" "fixed_part (count_message br) = fixed_part br" "fixed_part (count_received n br) = fixed_part br"
  by (simp_all add: count_sent_def count_message_def count_received_def fixed_part_def counts_def)

lemma frame_send_to [frame_simps]: "fixed_part (send_to M c p br) = fixed_part br"
  by (simp add: send_to_def frame_simps split: option.splits)

lemma frame_retain [frame_simps]: "fixed_part (retain_message t p q r br) = fixed_part br"
  by (simp add: retain_message_def fixed_part_def counts_def)

lemma frame_deliver [frame_simps]: "fixed_part (deliver M t p q r subs br) = fixed_part br"
  by (induction subs arbitrary: br) (simp_all add: frame_simps Let_def case_prod_unfold split: option.splits)

lemma frame_publish_inner [frame_simps]: "fixed_part (handle_publish_inner M t p q r br) = fixed_part br"
  by (simp add: handle_publish_inner_def frame_simps Let_def)

lemma frame_publish [frame_simps]: "fixed_part (handle_publish M c pk br) = fixed_part br"
  by (simp add: handle_publish_def frame_simps Let_def split: option.splits)

lemma frame_subscribe_all [frame_simps]: "fixed_part (snd (subscribe_all c sfs br)) = fixed_part br"
  by (induction c sfs br rule: subscribe_all.induct) (simp_all add: Let_def case_prod_unfold fixed_part_def counts_def)

lemma frame_send_retained [frame_simps]: "fixed_part (send_retained M s q ms br) = fixed_part br"
  by (induction M s q ms br rule: send_retained.induct) (simp_all add: Let_def case_prod_unfold frame_simps)

lemma frame_replay [frame_simps]: "fixed_part (replay_retained M order s sfs br) = fixed_part br"
  by (induction M order s sfs br rule: replay_retained.induct) (simp_all add: frame_simps)

lemma frame_subscribe [frame_simps]: "fixed_part (handle_subscribe M order c sp br) = fixed_part br"
  by (simp add: handle_subscribe_def case_prod_unfold Let_def frame_simps split: option.splits)

lemma frame_unsubscribe_all [frame_simps]: "fixed_part (unsubscribe_all c fs br) = fixed_part br"
  by (induction c fs br rule: unsubscribe_all.induct) (simp_all add: fixed_part_def counts_def)

lemma frame_unsubscribe [frame_simps]: "fixed_part (handle_unsubscribe M c up br) = fixed_part br"
  by (simp add: handle_unsubscribe_def frame_simps)

lemma frame_handle_packet [frame_simps]: "fixed_part (snd (handle_packet B M order c h buf br)) = fixed_part br"
  by (simp add: handle_packet_def frame_simps split: PacketType.splits outcome.splits)

lemma frame_loop_step [frame_simps]: "fixed_part (snd (snd (connection_loop_step S B M order c rd br))) = fixed_part br"
  by (simp add: connection_loop_step_def frame_simps case_prod_unfold Let_def
      split: outcome.splits option.splits prod.splits)

lemma frame_eqD: "fixed_part br = fixed_part br' \<Longrightarrow> config br = config br' \<and> sessions br = sessions br' \<and> counts br = counts br'"
  by (simp add: fixed_part_def)

section \<open>The invariant of the shared state\<close>

definition sessions_ok :: "'ch set \<Rightarrow> (string, ('ch, 'time) Session) hmap \<Rightarrow> bool" where
  "sessions_ok K m \<longleftrightarrow>
     hmap_ok m
     \<and> (\<forall>c s. map_of m c = Some s \<longrightarrow> ses_client_id s = c \<and> outbound_tx s \<in> K)
     \<and> (\<forall>c s d t. map_of m c = Some s \<longrightarrow> map_of m d = Some t \<longrightarrow> outbound_tx s = outbound_tx t \<longrightarrow> c = d)"

definition retained_ok :: "bool \<Rightarrow> RetainedStore \<Rightarrow> bool" where
  "retained_ok available m \<longleftrightarrow>
     hmap_ok m \<and> (\<forall>t r. map_of m t = Some r \<longrightarrow> rm_payload r \<noteq> []) \<and> (available \<or> m = [])"

definition broker_ok :: "('w \<Rightarrow> 'ch set) \<Rightarrow> ('ch, 'time, 'w) MqttBroker \<Rightarrow> bool" where
  "broker_ok known br \<longleftrightarrow>
     sessions_ok (known (chans br)) (sessions br)
     \<and> retained_ok (retain_available (config br)) (retained_store br)
     \<and> node_ok (root (topic_trie br))"

lemma sessions_ok_new [simp]: "sessions_ok K []"
  by (simp add: sessions_ok_def)

lemma sessions_ok_insert:
  assumes "sessions_ok K m" "ch \<notin> K"
  shows "sessions_ok (insert ch K) (AList.update c (Session_new now c ka ch) m)"
  using assms by (fastforce simp: sessions_ok_def hmap_simps Session_new_def)

lemma sessions_ok_delete: "sessions_ok K m \<Longrightarrow> sessions_ok K (AList.delete c m)"
  by (auto simp: sessions_ok_def hmap_simps)

lemma sessions_ok_mono: "sessions_ok K m \<Longrightarrow> K \<subseteq> K' \<Longrightarrow> sessions_ok K' m"
  unfolding sessions_ok_def by blast

lemma retained_ok_store: "retained_ok True m \<Longrightarrow> p \<noteq> [] \<Longrightarrow> retained_ok True (store t p q m)"
  by (auto simp: retained_ok_def store_def hmap_simps)

lemma retained_ok_remove: "retained_ok a m \<Longrightarrow> retained_ok a (remove t m)"
  by (auto simp: retained_ok_def remove_def hmap_simps)

lemma node_ok_subscribe:
  assumes "node_ok (root t)"
  shows "node_ok (root (subscribe c f q t))"
proof -
  have "\<forall>l \<in> set (butlast (levels_of f)). CHR ''/'' \<notin> set l"
    using sep_free_levels [of f] by (meson in_set_butlastD)
  moreover have "node_ok (add_multi c q (root t))"
    using assms local_updates(1) by (simp add: local_update_def)
  ultimately show ?thesis
    using assms by (simp add: subscribe_def Let_def find_or_create_ok local_updates sep_free_levels)
qed

lemma node_ok_unsubscribe: "node_ok (root t) \<Longrightarrow> node_ok (root (unsubscribe c f t))"
  by (simp add: unsubscribe_def Let_def find_node_mut_ok local_updates)

lemma connect_packet_broker:
  "snd (snd (connect_packet S B now ch c br)) = br \<or>
   (\<exists>cid ka. snd (snd (connect_packet S B now ch c br))
      = br\<lparr>sessions := AList.update cid (Session_new now cid ka ch) (sessions br)\<rparr>)"
proof (cases "read_packet_from S B (max_packet_size (config br)) (read_half c)")
  case (Ok x)
  show ?thesis
  proof (cases x)
    case (Some y)
    obtain h buf rd where y: "y = (h, buf, rd)" by (cases y)
    show ?thesis
    proof (cases "decode_connect B buf")
      case d: (Ok z)
      obtain connect rest where z: "z = (connect, rest)" by (cases z)
      from Ok Some y d z show ?thesis
        by (cases "authenticate (config br) connect")
           (auto simp: connect_packet_def Let_def split: outcome.split)
    qed (use Ok Some y in \<open>simp_all add: connect_packet_def Let_def\<close>)
  qed (use Ok in \<open>simp add: connect_packet_def\<close>)
qed (simp_all add: connect_packet_def)

lemma connect_packet_cases:
  obtains "snd (snd (connect_packet S B now ch c br)) = br"
  | cid ka where "snd (snd (connect_packet S B now ch c br))
      = br\<lparr>sessions := AList.update cid (Session_new now cid ka ch) (sessions br)\<rparr>"
  using connect_packet_broker [of S B now ch c br] by blast

context mpsc
begin

lemma ok_chans:
  "broker_ok known br \<Longrightarrow> known (chans br') = known (chans br) \<Longrightarrow> sessions br' = sessions br \<Longrightarrow>
   config br' = config br \<Longrightarrow> retained_store br' = retained_store br \<Longrightarrow> topic_trie br' = topic_trie br \<Longrightarrow>
   broker_ok known br'"
  by (simp add: broker_ok_def)

lemma ok_send_raw: "broker_ok known br \<Longrightarrow> broker_ok known (snd (send_raw M s p br))"
  by (rule ok_chans) (simp_all add: send_raw_def case_prod_unfold Let_def try_send_known)

lemma ok_packet_id_for: "broker_ok known br \<Longrightarrow> broker_ok known (snd (packet_id_for q br))"
  by (simp add: packet_id_for_def next_packet_id_def Let_def broker_ok_def)

lemma ok_counts:
  "broker_ok known br \<Longrightarrow> broker_ok known (count_sent br)"
  "broker_ok known br \<Longrightarrow> broker_ok known (count_message br)"
  "broker_ok known br \<Longrightarrow> broker_ok known (count_received n br)"
  "broker_ok known br \<Longrightarrow> broker_ok known (count_closed br)"
  by (simp_all add: broker_ok_def count_sent_def count_message_def count_received_def count_closed_def)

lemma ok_send_to: "broker_ok known br \<Longrightarrow> broker_ok known (send_to M c p br)"
  by (simp add: send_to_def ok_send_raw split: option.splits)

lemma ok_retain: "broker_ok known br \<Longrightarrow> broker_ok known (retain_message t p q r br)"
  by (auto simp: broker_ok_def retain_message_def intro: retained_ok_store retained_ok_remove)

lemmas ok_intros = ok_send_raw ok_packet_id_for ok_counts ok_send_to ok_retain

lemma ok_deliver: "broker_ok known br \<Longrightarrow> broker_ok known (deliver M t p q r subs br)"
  by (induction subs arbitrary: br) (simp_all add: ok_intros Let_def case_prod_unfold split: option.splits)

lemma ok_publish_inner: "broker_ok known br \<Longrightarrow> broker_ok known (handle_publish_inner M t p q r br)"
  by (simp add: handle_publish_inner_def ok_intros ok_deliver Let_def)

lemma ok_publish: "broker_ok known br \<Longrightarrow> broker_ok known (handle_publish M c pk br)"
  by (simp add: handle_publish_def ok_intros ok_publish_inner Let_def split: option.splits)

lemma ok_subscribe_all: "broker_ok known br \<Longrightarrow> broker_ok known (snd (subscribe_all c sfs br))"
  by (induction c sfs br rule: subscribe_all.induct)
    (simp_all add: Let_def case_prod_unfold broker_ok_def node_ok_subscribe)

lemma ok_send_retained: "broker_ok known br \<Longrightarrow> broker_ok known (send_retained M s q ms br)"
proof (induction ms arbitrary: br)
  case (Cons a ms)
  then show ?case by (cases a) (simp add: Let_def case_prod_unfold ok_intros)
qed simp

lemma ok_replay: "broker_ok known br \<Longrightarrow> broker_ok known (replay_retained M order s sfs br)"
  by (induction sfs arbitrary: br) (simp_all add: ok_send_retained)

lemma ok_subscribe: "broker_ok known br \<Longrightarrow> broker_ok known (handle_subscribe M order c sp br)"
  by (simp add: handle_subscribe_def case_prod_unfold Let_def ok_intros ok_subscribe_all ok_replay split: option.splits)

lemma ok_unsubscribe_all: "broker_ok known br \<Longrightarrow> broker_ok known (unsubscribe_all c fs br)"
  by (induction c fs br rule: unsubscribe_all.induct) (simp_all add: broker_ok_def node_ok_unsubscribe)

lemma ok_unsubscribe: "broker_ok known br \<Longrightarrow> broker_ok known (handle_unsubscribe M c up br)"
  by (simp add: handle_unsubscribe_def ok_intros ok_unsubscribe_all)

lemma ok_handle_packet: "broker_ok known br \<Longrightarrow> broker_ok known (snd (handle_packet B M order c h buf br))"
  by (simp add: handle_packet_def ok_intros ok_publish ok_subscribe ok_unsubscribe
      split: PacketType.splits outcome.splits)

lemma ok_loop_step: "broker_ok known br \<Longrightarrow> broker_ok known (snd (snd (connection_loop_step S B M order c rd br)))"
  by (simp add: connection_loop_step_def ok_intros ok_handle_packet case_prod_unfold Let_def
      split: outcome.splits option.splits prod.splits)

lemma ok_drop_rx: "broker_ok known br \<Longrightarrow> broker_ok known (br\<lparr>chans := drop_rx M ch (chans br)\<rparr>)"
  by (simp add: broker_ok_def drop_rx_known)

lemma ok_cleanup: "broker_ok known br \<Longrightarrow> broker_ok known (cleanup M c ch will r br)"
proof -
  assume ok: "broker_ok known br"
  define br2 where "br2 = (case r of
      Err _ \<Rightarrow> (case will of Some (t, Some p, q, rt) \<Rightarrow> handle_publish_inner M t p q rt (br\<lparr>chans := drop_rx M ch (chans br)\<rparr>)
                | _ \<Rightarrow> br\<lparr>chans := drop_rx M ch (chans br)\<rparr>)
    | _ \<Rightarrow> br\<lparr>chans := drop_rx M ch (chans br)\<rparr>)"
  have "broker_ok known br2"
    unfolding br2_def using ok_drop_rx [OF ok] ok_publish_inner [OF ok_drop_rx [OF ok]]
    by (simp split: outcome.splits option.splits prod.splits)
  then show ?thesis
    unfolding cleanup_def Let_def br2_def [symmetric]
    by (simp add: broker_ok_def sessions_ok_delete remove_subscriptions_for_client_def node_ok_remove)
qed

lemma ok_connect_packet:
  assumes "broker_ok known br"
  shows "broker_ok known (snd (snd (connect_packet S B now (fst (channel M n (chans br))) c
    (br\<lparr>chans := snd (channel M n (chans br))\<rparr>))))"
proof -
  let ?ch = "fst (channel M n (chans br))"
  have K: "sessions_ok (insert ?ch (known (chans br))) (sessions br)"
    using assms by (auto simp: broker_ok_def intro: sessions_ok_mono)
  have U: "sessions_ok (insert ?ch (known (chans br))) (AList.update cid (Session_new now cid ka ?ch) (sessions br))"
    for cid ka using assms channel_fresh by (auto simp: broker_ok_def intro: sessions_ok_insert)
  show ?thesis
    by (rule connect_packet_cases [of S B now ?ch c "br\<lparr>chans := snd (channel M n (chans br))\<rparr>"])
       (use assms K U in \<open>simp_all add: broker_ok_def channel_known\<close>)
qed

lemma ok_connect_phase: "broker_ok known br \<Longrightarrow> broker_ok known (snd (snd (connect_phase S B M now c br)))"
  using ok_connect_packet [of br S B now 256 c]
  by (auto simp: connect_phase_def case_prod_unfold Let_def intro: ok_drop_rx split: outcome.split)

lemma ok_conn_step: "broker_ok known br \<Longrightarrow> broker_ok known (snd (conn_step S B M order now (c, br)))"
proof -
  assume ok: "broker_ok known br"
  show ?thesis
  proof (cases "phase c")
    case Accepted
    then show ?thesis
      using ok_connect_phase [OF ok, of S B now c]
      by (auto simp: conn_step_def finish_def ok_counts split: prod.split outcome.split)
  next
    case (Connected cid ch will)
    then show ?thesis
      using ok_loop_step [OF ok, of S B order cid "read_half c"]
      by (auto simp: conn_step_def finish_def ok_counts ok_cleanup split: prod.split option.split)
  qed (use ok in \<open>simp_all add: conn_step_def\<close>)
qed

lemma ok_writer_step: "broker_ok known br \<Longrightarrow> broker_ok known (snd (writer_step S M ch (c, br)))"
  using recv_known [of ch "chans br"]
  by (auto simp: writer_step_def broker_ok_def drop_rx_known split: option.split outcome.split)

lemma ok_broker_step: "broker_step S B M order st st' \<Longrightarrow> broker_ok known (snd st) \<Longrightarrow> broker_ok known (snd st')"
proof (induction rule: broker_step.induct)
  case (accepted st rd wr)
  then show ?case by (cases st) (simp add: accept_def broker_ok_def)
next
  case (task i conns now br c' br')
  then show ?case using ok_conn_step [of br S B order now "conns ! i"] by simp
next
  case (writer i conns ch br c' br')
  then show ?case using ok_writer_step [of br S ch "conns ! i"] by simp
qed

lemma ok_reachable: "broker_reachable S B M order cfg w st \<Longrightarrow> broker_ok known (snd st)"
proof (induction rule: broker_reachable.induct)
  case start
  then show ?case
    by (simp add: MqttBroker_new_def broker_ok_def RetainedStore_new_def retained_ok_def TopicTrie_new_def)
qed (rule ok_broker_step)

end

section \<open>Delivery\<close>

text \<open>A copy of a message for one subscription: QoS lowered to the granted one, fresh packet id for QoS 1 and 2.\<close>

definition packet_id_fits :: "QoS \<Rightarrow> u16 option \<Rightarrow> bool" where
  "packet_id_fits q pid \<longleftrightarrow> (pid = None \<longleftrightarrow> q = AtMostOnce) \<and> pid \<noteq> Some 0"

definition copy_for :: "string \<Rightarrow> u8 list \<Rightarrow> QoS \<Rightarrow> bool \<Rightarrow> Subscription \<Rightarrow> u8 list \<Rightarrow> bool" where
  "copy_for topic payload qos retain sub packet \<longleftrightarrow>
     (\<exists>pid. packet_id_fits (min qos (sub_qos sub)) pid
        \<and> packet = encode_publish topic payload (min qos (sub_qos sub)) False retain pid)"

definition retained_copy :: "QoS \<times> string \<times> RetainedMessage \<Rightarrow> u8 list \<Rightarrow> bool" where
  "retained_copy = (\<lambda>(q, topic, m) packet.
     \<exists>pid. packet_id_fits (min q (rm_qos m)) pid
       \<and> packet = encode_publish topic (rm_payload m) (min q (rm_qos m)) False True pid)"

lemma packet_id_for_fits: "packet_id_fits q (fst (packet_id_for q br))"
  by (simp add: packet_id_fits_def packet_id_for_def next_packet_id_def Let_def)

lemma packet_id_for_chans [simp]:
  "chans (snd (packet_id_for q br)) = chans br" "retained_store (snd (packet_id_for q br)) = retained_store br"
  "topic_trie (snd (packet_id_for q br)) = topic_trie br" "sessions (snd (packet_id_for q br)) = sessions br"
  by (simp_all add: packet_id_for_def next_packet_id_def Let_def)

lemma count_sent_simps [simp]:
  "chans (count_sent br) = chans br" "retained_store (count_sent br) = retained_store br"
  "topic_trie (count_sent br) = topic_trie br" "sessions (count_sent br) = sessions br"
  by (simp_all add: count_sent_def)

lemma send_raw_simps [simp]:
  "chans (snd (send_raw M s p br)) = snd (try_send M (outbound_tx s) p (chans br))"
  "retained_store (snd (send_raw M s p br)) = retained_store br"
  "topic_trie (snd (send_raw M s p br)) = topic_trie br" "sessions (snd (send_raw M s p br)) = sessions br"
  "fst (send_raw M s p br) = fst (try_send M (outbound_tx s) p (chans br))"
  by (simp_all add: send_raw_def case_prod_unfold Let_def)

lemma deliver_sessions [simp]: "sessions (deliver M t p q r subs br) = sessions br"
  using frame_deliver [of M t p q r subs br] by (simp add: fixed_part_def)

lemma deliver_keeps [simp]:
  "topic_trie (deliver M t p q r subs br) = topic_trie br"
  "retained_store (deliver M t p q r subs br) = retained_store br"
  by (induction subs arbitrary: br) (simp_all add: Let_def case_prod_unfold split: option.split)

lemma deliver_Cons: "deliver M t p q r (sub # subs) br = deliver M t p q r subs (deliver M t p q r [sub] br)"
  by simp

lemma retain_message_simps [simp]:
  "sessions (retain_message t p q r br) = sessions br" "chans (retain_message t p q r br) = chans br"
  "topic_trie (retain_message t p q r br) = topic_trie br"
  by (simp_all add: retain_message_def)

context mpsc
begin

lemma deliver_other:
  assumes "sub_client_id sub \<noteq> c"
    "\<forall>d t. map_of (sessions br) d = Some t \<longrightarrow> outbound_tx t = ch \<longrightarrow> d = c"
  shows "queue (chans (deliver M t p q r [sub] br)) ch = queue (chans br) ch
    \<and> room (chans (deliver M t p q r [sub] br)) ch = room (chans br) ch"
proof (cases "map_of (sessions br) (sub_client_id sub)")
  case (Some s)
  with assms have "outbound_tx s \<noteq> ch" by blast
  with Some show ?thesis by (simp add: Let_def case_prod_unfold try_send_queue try_send_room)
qed simp

lemma deliver_own:
  assumes "sub_client_id sub = c" "map_of (sessions br) c = Some s" "0 < room (chans br) (outbound_tx s)"
  shows "\<exists>pk. copy_for t p q r sub pk
    \<and> queue (chans (deliver M t p q r [sub] br)) (outbound_tx s) = queue (chans br) (outbound_tx s) @ [pk]
    \<and> room (chans (deliver M t p q r [sub] br)) (outbound_tx s) = room (chans br) (outbound_tx s) - 1"
  using assms packet_id_for_fits [of "min q (sub_qos sub)" br]
  by (simp add: Let_def case_prod_unfold try_send_queue try_send_room copy_for_def) blast

lemma deliver_queue:
  assumes "map_of (sessions br) c = Some s"
    and "\<forall>d t. map_of (sessions br) d = Some t \<longrightarrow> outbound_tx t = outbound_tx s \<longrightarrow> d = c"
    and "length (filter (\<lambda>x. sub_client_id x = c) subs) \<le> room (chans br) (outbound_tx s)"
  shows "\<exists>ps. queue (chans (deliver M t p q r subs br)) (outbound_tx s) = queue (chans br) (outbound_tx s) @ ps
    \<and> list_all2 (copy_for t p q r) (filter (\<lambda>x. sub_client_id x = c) subs) ps"
  using assms
proof (induction subs arbitrary: br)
  case (Cons sub subs)
  let ?br = "deliver M t p q r [sub] br" and ?ch = "outbound_tx s"
  note IH = Cons.IH [of ?br, unfolded deliver_sessions, OF Cons.prems(1,2)]
  show ?case
  proof (cases "sub_client_id sub = c")
    case True
    with Cons.prems(3) have "0 < room (chans br) ?ch" by simp
    from deliver_own [OF True Cons.prems(1) this, of t p q r] obtain pk where pk: "copy_for t p q r sub pk"
      "queue (chans ?br) ?ch = queue (chans br) ?ch @ [pk]" "room (chans ?br) ?ch = room (chans br) ?ch - 1" by blast
    have "length (filter (\<lambda>x. sub_client_id x = c) subs) \<le> room (chans ?br) ?ch"
      unfolding pk(3) using Cons.prems(3) True by simp
    from IH [OF this] obtain ps where ps:
      "queue (chans (deliver M t p q r subs ?br)) ?ch = queue (chans ?br) ?ch @ ps"
      "list_all2 (copy_for t p q r) (filter (\<lambda>x. sub_client_id x = c) subs) ps" by blast
    show ?thesis unfolding deliver_Cons [of M t p q r sub subs br]
      by (intro exI [of _ "pk # ps"]) (simp add: ps pk(1,2) True del: deliver.simps)
  next
    case False
    note keep = deliver_other [OF False Cons.prems(2), of t p q r]
    have "length (filter (\<lambda>x. sub_client_id x = c) subs) \<le> room (chans ?br) ?ch"
      using keep Cons.prems(3) False by (simp del: deliver.simps)
    from IH [OF this] show ?thesis
      unfolding deliver_Cons [of M t p q r sub subs br] using keep False by (simp del: deliver.simps)
  qed
next
  case Nil
  show ?case by simp
qed

lemma publish_inner_queue:
  assumes "broker_ok known br" "map_of (sessions br) c = Some s"
    and "length (filter (\<lambda>x. sub_client_id x = c) (match_topic t (topic_trie br))) \<le> room (chans br) (outbound_tx s)"
  shows "\<exists>ps. queue (chans (handle_publish_inner M t p q r br)) (outbound_tx s) = queue (chans br) (outbound_tx s) @ ps
    \<and> list_all2 (copy_for t p q r) (filter (\<lambda>x. sub_client_id x = c) (match_topic t (topic_trie br))) ps"
proof -
  have "\<forall>d t. map_of (sessions br) d = Some t \<longrightarrow> outbound_tx t = outbound_tx s \<longrightarrow> d = c"
    using assms(1,2) unfolding broker_ok_def sessions_ok_def by metis
  from deliver_queue [of "retain_message t p q r br", unfolded retain_message_simps, OF assms(2) this assms(3), of t p q r]
  show ?thesis unfolding handle_publish_inner_def Let_def retain_message_simps .
qed

lemma send_retained_queue:
  assumes "length ms \<le> room (chans br) (outbound_tx s)"
  shows "\<exists>ps. queue (chans (send_retained M s q ms br)) (outbound_tx s) = queue (chans br) (outbound_tx s) @ ps
    \<and> list_all2 retained_copy (map (Pair q) ms) ps
    \<and> room (chans (send_retained M s q ms br)) (outbound_tx s) = room (chans br) (outbound_tx s) - length ms"
  using assms
proof (induction ms arbitrary: br)
  case (Cons m ms)
  obtain topic msg where m: "m = (topic, msg)" by (cases m)
  let ?pid = "packet_id_for (min q (rm_qos msg)) br"
  let ?pk = "encode_publish topic (rm_payload msg) (min q (rm_qos msg)) False True (fst ?pid)"
  let ?br = "count_sent (snd (send_raw M s ?pk (snd ?pid)))"
  have step: "send_retained M s q (m # ms) br = send_retained M s q ms ?br"
    by (simp add: m Let_def case_prod_unfold)
  have br: "queue (chans ?br) (outbound_tx s) = queue (chans br) (outbound_tx s) @ [?pk]"
    "room (chans ?br) (outbound_tx s) = room (chans br) (outbound_tx s) - 1"
    using Cons.prems by (simp_all add: try_send_queue try_send_room)
  have "retained_copy (q, m) ?pk"
    using packet_id_for_fits [of "min q (rm_qos msg)" br] by (auto simp: retained_copy_def m)
  have "length ms \<le> room (chans ?br) (outbound_tx s)" unfolding br(2) using Cons.prems by simp
  from Cons.IH [OF this] obtain ps where
    ps: "queue (chans (send_retained M s q ms ?br)) (outbound_tx s) = queue (chans ?br) (outbound_tx s) @ ps"
      "list_all2 retained_copy (map (Pair q) ms) ps"
      "room (chans (send_retained M s q ms ?br)) (outbound_tx s) = room (chans ?br) (outbound_tx s) - length ms"
    by blast
  show ?case
    unfolding step using ps br \<open>retained_copy (q, m) ?pk\<close>
    by (intro exI [of _ "?pk # ps"]) (simp del: count_sent_simps send_raw_simps)
qed simp

end

lemma send_retained_keeps [simp]: "retained_store (send_retained M s q ms br) = retained_store br"
proof (induction ms arbitrary: br)
  case (Cons m ms)
  then show ?case by (cases m) (simp add: Let_def case_prod_unfold)
qed simp

text \<open>The retained messages a SUBSCRIBE calls for, filter by filter.\<close>

definition replay_list ::
    "(string, RetainedMessage) iter_order \<Rightarrow> RetainedStore \<Rightarrow> SubscriptionFilter list \<Rightarrow> (QoS \<times> string \<times> RetainedMessage) list" where
  "replay_list order m sfs = concat (map (\<lambda>sf. map (Pair (sf_qos sf)) (match_retained order (sf_topic_filter sf) m)) sfs)"

context mpsc
begin

lemma replay_queue:
  assumes "length (replay_list order (retained_store br) sfs) \<le> room (chans br) (outbound_tx s)"
  shows "\<exists>ps. queue (chans (replay_retained M order s sfs br)) (outbound_tx s) = queue (chans br) (outbound_tx s) @ ps
    \<and> list_all2 retained_copy (replay_list order (retained_store br) sfs) ps"
  using assms
proof (induction sfs arbitrary: br)
  case (Cons sf sfs)
  let ?ms = "match_retained order (sf_topic_filter sf) (retained_store br)"
  let ?br = "send_retained M s (sf_qos sf) ?ms br"
  have len: "length ?ms + length (replay_list order (retained_store br) sfs) \<le> room (chans br) (outbound_tx s)"
    using Cons.prems by (simp add: replay_list_def)
  then obtain ps where ps: "queue (chans ?br) (outbound_tx s) = queue (chans br) (outbound_tx s) @ ps"
    "list_all2 retained_copy (map (Pair (sf_qos sf)) ?ms) ps"
    "room (chans ?br) (outbound_tx s) = room (chans br) (outbound_tx s) - length ?ms"
    using send_retained_queue [of ?ms br s "sf_qos sf"] by auto
  have "length (replay_list order (retained_store ?br) sfs) \<le> room (chans ?br) (outbound_tx s)"
    unfolding ps(3) using len by simp
  from Cons.IH [OF this] obtain qs where
    "queue (chans (replay_retained M order s sfs ?br)) (outbound_tx s) = queue (chans ?br) (outbound_tx s) @ qs"
    "list_all2 retained_copy (replay_list order (retained_store br) sfs) qs" unfolding send_retained_keeps by blast
  with ps show ?case by (intro exI [of _ "ps @ qs"]) (simp add: replay_list_def list_all2_appendI)
qed (simp add: replay_list_def)

end

section \<open>Connection counters\<close>

fun finished :: "'ch conn_phase \<Rightarrow> bool" where
  "finished (Finished r) = True"
| "finished _ = False"

lemma counts_connect_packet: "counts (snd (snd (connect_packet S B now ch c br))) = counts br"
  using connect_packet_broker [of S B now ch c br] by (auto simp: counts_def)

lemma counts_chans [simp]: "counts (br\<lparr>chans := w\<rparr>) = counts br"
  by (simp add: counts_def)

lemma counts_connect_phase: "counts (snd (snd (connect_phase S B M now c br))) = counts br"
  by (simp add: connect_phase_def case_prod_unfold Let_def counts_connect_packet split: outcome.split)

lemma counts_cleanup: "counts (cleanup M c ch will r br) = counts br"
  using frame_publish_inner [of M _ _ _ _ "br\<lparr>chans := drop_rx M ch (chans br)\<rparr>"]
  by (auto simp: cleanup_def Let_def fixed_part_def counts_def split: outcome.split option.split)

lemma counts_loop_step: "counts (snd (snd (connection_loop_step S B M order c rd br))) = counts br"
  using frame_loop_step [of S B M order c rd br] by (simp add: fixed_part_def)

lemma counts_conn_step:
  assumes "conn_step S B M order now (c, br) = (c', br')"
  shows "counts br' = (fst (counts br) - (if finished (phase c') \<and> \<not> finished (phase c) then 1 else 0), snd (counts br))
    \<and> (finished (phase c) \<longrightarrow> finished (phase c'))"
proof (cases "phase c")
  case Accepted
  obtain r c1 br1 where r: "connect_phase S B M now c br = (r, c1, br1)" by (cases "connect_phase S B M now c br")
  with counts_connect_phase [of S B M now c br] have "counts br1 = counts br" by simp
  with Accepted r assms show ?thesis
    by (cases r) (auto simp: conn_step_def finish_def count_closed_def counts_def)
next
  case (Connected cid ch will)
  obtain r rd br1 where r: "connection_loop_step S B M order cid (read_half c) br = (r, rd, br1)"
    by (cases "connection_loop_step S B M order cid (read_half c) br")
  with counts_loop_step [of S B M order cid "read_half c" br] have "counts br1 = counts br" by simp
  with Connected r assms show ?thesis
    using counts_cleanup [of M cid ch will _ br1]
    by (cases r) (auto simp: conn_step_def finish_def count_closed_def counts_def split: if_splits)
qed (use assms in \<open>auto simp: conn_step_def\<close>)

lemma writer_step_counts:
  assumes "writer_step S M ch (c, br) = (c', br')"
  shows "counts br' = counts br \<and> phase c' = phase c"
  using assms by (auto simp: writer_step_def counts_def split: option.splits outcome.splits)

lemma length_filter_update:
  assumes "i < length xs"
  shows "length (filter P (xs[i := y])) + (if P (xs ! i) then 1 else 0)
    = length (filter P xs) + (if P y then 1 else 0)"
  using assms
proof (induction xs arbitrary: i)
  case (Cons x xs)
  then show ?case by (cases i) auto
qed simp

abbreviation open_conns :: "('s, 'ch) Conn list \<Rightarrow> nat" where
  "open_conns conns \<equiv> length (filter (\<lambda>c. \<not> finished (phase c)) conns)"

lemma reachable_counts:
  "broker_reachable S B M order cfg w st \<Longrightarrow>
   counts (snd st) = (of_nat (open_conns (fst st)), of_nat (length (fst st)))"
proof (induction rule: broker_reachable.induct)
  case start
  then show ?case by (simp add: MqttBroker_new_def BrokerMetrics_default_def counts_def)
next
  case (step st st')
  from step.hyps(2) step.IH show ?case
  proof (induction rule: broker_step.induct)
    case (accepted st rd wr)
    then show ?case by (cases st) (simp add: accept_def counts_def)
  next
    case (task i conns now br c' br')
    have len: "open_conns (conns[i := c']) + (if \<not> finished (phase (conns ! i)) then 1 else 0)
        = open_conns conns + (if \<not> finished (phase c') then 1 else 0)"
      using task.hyps(1) by (rule length_filter_update)
    show ?case
    proof (cases "finished (phase c') \<and> \<not> finished (phase (conns ! i))")
      case True
      with len have "open_conns conns = Suc (open_conns (conns[i := c']))" by simp
      with counts_conn_step [OF task.hyps(2)] task.prems True show ?thesis by simp
    next
      case False
      with counts_conn_step [OF task.hyps(2)] len have "open_conns (conns[i := c']) = open_conns conns"
        by (cases "finished (phase c')") auto
      with counts_conn_step [OF task.hyps(2)] task.prems False show ?thesis by simp
    qed
  next
    case (writer i conns ch br c' br')
    have "open_conns (conns[i := c']) = open_conns conns"
      using length_filter_update [OF writer.hyps(1), of "\<lambda>c. \<not> finished (phase c)" c']
        writer_step_counts [OF writer.hyps(3)] by simp
    with writer_step_counts [OF writer.hyps(3)] writer.prems show ?case by simp
  qed
qed

section \<open>The loop ends\<close>

text \<open>
  The octets begin with packets that are framed, within the size limit, and neither a
  DISCONNECT nor malformed, and go on with a malformed packet.
\<close>

fun packets :: "nat \<Rightarrow> u8 list \<Rightarrow> (FixedHeader \<times> u8 list) list \<Rightarrow> u8 list \<Rightarrow> bool" where
  "packets m octets [] rest = (octets = rest)"
| "packets m octets ((h, body) # ps) rest =
     (\<exists>octets'. framed octets h body octets' \<and> remaining_length h \<le> m \<and> packets m octets' ps rest)"

definition malformed_reached :: "nat \<Rightarrow> u8 list \<Rightarrow> bool" where
  "malformed_reached m octets \<longleftrightarrow> (\<exists>ps h body octets' rest. packets m octets ps octets'
     \<and> (\<forall>(h, body) \<in> set ps. packet_type h \<noteq> Disconnect \<and> \<not> malformed h body)
     \<and> framed octets' h body rest \<and> remaining_length h \<le> m \<and> malformed h body)"

lemma framed_unique:
  assumes "framed octets h body rest" "framed octets h' body' rest'"
  shows "h = h' \<and> body = body' \<and> rest = rest'"
proof -
  let ?m = "max (remaining_length h) (remaining_length h')"
  have "read_packet_from (list_stream []) list_buf ?m octets = Ok (Some (h, body, rest))"
    "read_packet_from (list_stream []) list_buf ?m octets = Ok (Some (h', body', rest'))"
    using assms read_packet_list [of "[]" ?m octets] by simp_all
  then show ?thesis by simp
qed

lemma framed_length: "framed octets h body rest \<Longrightarrow> length rest < length octets"
  by (auto simp: framed_def)

lemma malformed_reached_step:
  assumes "framed octets h body rest" "remaining_length h \<le> m"
  shows "malformed_reached m octets \<longleftrightarrow> malformed h body \<or> packet_type h \<noteq> Disconnect \<and> malformed_reached m rest"
proof
  assume "malformed_reached m octets"
  then obtain ps h1 body1 octets1 rest1 where p: "packets m octets ps octets1"
      "\<forall>(h, body) \<in> set ps. packet_type h \<noteq> Disconnect \<and> \<not> malformed h body"
      "framed octets1 h1 body1 rest1" "remaining_length h1 \<le> m" "malformed h1 body1"
    unfolding malformed_reached_def by blast
  show "malformed h body \<or> packet_type h \<noteq> Disconnect \<and> malformed_reached m rest"
  proof (cases ps)
    case Nil
    then show ?thesis using framed_unique [OF assms(1), of h1 body1 rest1] p by simp
  next
    case (Cons q qs)
    obtain h2 body2 octets2 where q: "q = (h2, body2)" "framed octets h2 body2 octets2" "packets m octets2 qs octets1"
      using p(1) Cons by (cases q) auto
    then have "h2 = h" "octets2 = rest" using framed_unique [OF assms(1) q(2)] by simp_all
    then show ?thesis using p q Cons unfolding malformed_reached_def by fastforce
  qed
next
  assume r: "malformed h body \<or> packet_type h \<noteq> Disconnect \<and> malformed_reached m rest"
  show "malformed_reached m octets"
  proof (cases "malformed h body")
    case True
    then show ?thesis
      unfolding malformed_reached_def using assms by (intro exI [of _ "[]"] exI [of _ h] exI [of _ body] exI [of _ octets] exI [of _ rest]) simp
  next
    case False
    then obtain ps h1 body1 octets1 rest1 where p: "packets m rest ps octets1"
        "\<forall>(h, body) \<in> set ps. packet_type h \<noteq> Disconnect \<and> \<not> malformed h body"
        "framed octets1 h1 body1 rest1" "remaining_length h1 \<le> m" "malformed h1 body1"
      using r unfolding malformed_reached_def by blast
    then have "packets m octets ((h, body) # ps) octets1" using assms by auto
    moreover have "\<forall>(h, body) \<in> set ((h, body) # ps). packet_type h \<noteq> Disconnect \<and> \<not> malformed h body"
      using p(2) r False by simp
    ultimately show ?thesis unfolding malformed_reached_def using p(3-5) by blast
  qed
qed

lemma malformed_reached_none:
  assumes "\<And>h body rest. framed octets h body rest \<Longrightarrow> m < remaining_length h"
  shows "\<not> malformed_reached m octets"
proof
  assume "malformed_reached m octets"
  then obtain ps h body octets1 rest where p: "packets m octets ps octets1" "framed octets1 h body rest" "remaining_length h \<le> m"
    unfolding malformed_reached_def by blast
  then show False using assms by (cases ps) (fastforce dest: assms)+
qed

lemma handle_packet_result:
  assumes "byte_buf B octets"
  shows "(fst (handle_packet B M order c h b br) = Some Panic \<longleftrightarrow> malformed h (octets b))
    \<and> fst (handle_packet B M order c h b br) \<noteq> Some Diverge
    \<and> (fst (handle_packet B M order c h b br) = None \<longrightarrow> packet_type h \<noteq> Disconnect)
    \<and> (packet_type h \<noteq> Disconnect \<longrightarrow> fst (handle_packet B M order c h b br) \<in> {None, Some Panic})"
proof -
  have p: "osim octets (decode_publish B h b) = decode_publish list_buf h (octets b)"
    "osim octets (decode_subscribe B b) = decode_subscribe list_buf (octets b)"
    "osim octets (decode_unsubscribe B b) = decode_unsubscribe list_buf (octets b)"
    using assms by (simp_all add: byte_buf.sim_decode_publish byte_buf.sim_decode_subscribe byte_buf.sim_decode_unsubscribe)
  show ?thesis
  proof (cases "packet_type h")
    case Publish
    then show ?thesis
      using p(1) decode_publish_list_cases [of h "octets b"]
      by (cases "decode_publish B h b") (auto simp: handle_packet_def)
  next
    case Subscribe
    then show ?thesis
      using p(2) decode_subscribe_list_cases [of "octets b"]
      by (cases "decode_subscribe B b") (auto simp: handle_packet_def split: if_splits)
  next
    case Unsubscribe
    then show ?thesis
      using p(3) decode_unsubscribe_list_cases [of "octets b"]
      by (cases "decode_unsubscribe B b") (auto simp: handle_packet_def split: if_splits)
  qed (auto simp: handle_packet_def)
qed

context mqtt_wire
begin

lemma loop_read_shape:
  "(read_packet_from S B m s = Ok (Some (h, b, s')) \<longrightarrow> framed (pending s) h (content b) (pending s') \<and> remaining_length h \<le> m)
   \<and> ((\<forall>h b s'. read_packet_from S B m s \<noteq> Ok (Some (h, b, s'))) \<longrightarrow> \<not> malformed_reached m (pending s))
   \<and> read_packet_from S B m s \<noteq> Panic \<and> read_packet_from S B m s \<noteq> Diverge"
proof -
  note list = read_packet_list [of eof m "pending s", folded sim_read_packet_from]
  have "\<not> malformed_reached m (pending s)" if no: "\<forall>h b s'. read_packet_from S B m s \<noteq> Ok (Some (h, b, s'))"
  proof (rule malformed_reached_none, rule ccontr)
    fix h body rest assume "framed (pending s) h body rest" "\<not> m < remaining_length h"
    then have "rsim (read_packet_from S B m s) = Ok (Some (h, body, rest))" using list by simp
    with no show False by (cases "read_packet_from S B m s") auto
  qed
  then show ?thesis using list [of h "content b" "pending s'"] by (cases "read_packet_from S B m s") auto
qed

lemma connection_loop_ends:
  "length (pending rd) < n \<Longrightarrow> \<exists>r rd' br'. connection_loop n S B M order c rd br = Some (r, rd', br') \<and> r \<noteq> Diverge
     \<and> (r = Panic \<longleftrightarrow> malformed_reached (max_packet_size (config br)) (pending rd))"
proof (induction n arbitrary: rd br)
  case (Suc n)
  let ?m = "max_packet_size (config br)"
  show ?case
  proof (cases "\<exists>h b s'. read_packet_from S B ?m rd = Ok (Some (h, b, s'))")
    case True
    then obtain h b rd1 where r: "read_packet_from S B ?m rd = Ok (Some (h, b, rd1))" by blast
    then have f: "framed (pending rd) h (content b) (pending rd1)" "remaining_length h \<le> ?m" using loop_read_shape by blast+
    obtain x br1 where x: "handle_packet B M order c h b (count_received (remaining B b) br) = (x, br1)"
      by (cases "handle_packet B M order c h b (count_received (remaining B b) br)")
    note res = handle_packet_result [OF byte_buf_axioms, of M order c h b "count_received (remaining B b) br", unfolded x fst_conv]
    have st: "connection_loop_step S B M order c rd br = (x, rd1, br1)" by (simp add: connection_loop_step_def r x)
    have "config br1 = config br" using frame_loop_step [of S B M order c rd br] by (simp add: st fixed_part_def)
    then have IH: "\<exists>r rd' br'. connection_loop n S B M order c rd1 br1 = Some (r, rd', br') \<and> r \<noteq> Diverge
        \<and> (r = Panic \<longleftrightarrow> malformed_reached ?m (pending rd1))"
      using Suc.IH [of rd1 br1] framed_length [OF f(1)] Suc.prems by simp
    show ?thesis
    proof (cases x)
      case None
      then have "malformed_reached ?m (pending rd) \<longleftrightarrow> malformed_reached ?m (pending rd1)"
        using res by (simp add: malformed_reached_step [OF f] del: malformed.simps)
      then show ?thesis using IH None st by simp
    next
      case (Some y)
      then have "y \<noteq> Diverge" "y = Panic \<longleftrightarrow> malformed h (content b)" "packet_type h = Disconnect \<or> malformed h (content b)"
        using res by (auto simp del: malformed.simps)
      then show ?thesis using Some st by (auto simp: malformed_reached_step [OF f] simp del: malformed.simps)
    qed
  next
    case False
    then have no: "\<forall>h b s'. read_packet_from S B ?m rd \<noteq> Ok (Some (h, b, s'))" by blast
    have "read_packet_from S B ?m rd = Ok None \<or> (\<exists>e. read_packet_from S B ?m rd = Err e)"
    proof (cases "read_packet_from S B ?m rd")
      case (Ok p)
      then show ?thesis using no by (cases p) auto
    qed (use loop_read_shape [of ?m rd] in auto)
    then obtain y where "connection_loop_step S B M order c rd br = (Some (Err y), rd, br)"
      by (auto simp: connection_loop_step_def)
    moreover have "\<not> malformed_reached ?m (pending rd)" using loop_read_shape [of ?m rd] no by blast
    ultimately show ?thesis by simp
  qed
qed simp

end

section \<open>An example run\<close>

text \<open>A client that connects as \<open>a\<close> and subscribes to \<open>x\<close> with QoS 1, on list streams.\<close>

definition demo_bytes :: "u8 list" where
  "demo_bytes = [0x10, 13, 0, 4, 77, 81, 84, 84, 4, 2, 0, 60, 0, 1, 97, 0x82, 6, 0, 1, 0, 1, 120, 1]"

type_synonym demo_state = "(u8 list, nat) Conn \<times> (nat, nat, list_chans) MqttBroker"

definition demo_step :: "demo_state \<Rightarrow> demo_state" where
  "demo_step = conn_step (list_stream ''eof'') list_buf list_chan_ops (\<lambda>m. m) 0"

definition demo_start :: demo_state where
  "demo_start =
     (let (conns, br) = accept demo_bytes [] ([], MqttBroker_new BrokerConfig_default []) in (hd conns, br))"

definition demo_reachable :: "demo_state \<Rightarrow> bool" where
  "demo_reachable st \<longleftrightarrow>
     broker_reachable (list_stream ''eof'') list_buf list_chan_ops (\<lambda>m. m) BrokerConfig_default [] ([fst st], snd st)"

lemma demo_reachable_start: "demo_reachable demo_start"
  using broker_reachable.step [OF broker_reachable.start broker_step.accepted]
  by (simp add: demo_reachable_def demo_start_def accept_def)

lemma demo_reachable_step: "demo_reachable st \<Longrightarrow> demo_reachable (demo_step st)"
  using broker_step.task [of 0 "[fst st]" "list_stream ''eof''" list_buf list_chan_ops "\<lambda>m. m" "0 :: nat" "snd st"]
  by (auto simp: demo_reachable_def demo_step_def intro: broker_reachable.step)

lemmas demo_reach = demo_reachable_step [OF demo_reachable_step [OF demo_reachable_start], unfolded demo_reachable_def]

abbreviation demo_br :: "(nat, nat, list_chans) MqttBroker" where
  "demo_br \<equiv> snd (demo_step (demo_step demo_start))"

lemma demo_session:
  "map_of (sessions demo_br) ''a'' = Some \<lparr>ses_client_id = ''a'', ses_keep_alive = 60, ses_connected_at = 0, outbound_tx = 0\<rparr>"
  by code_simp

lemma demo_match: "match_topic ''x'' (topic_trie demo_br) = [\<lparr>sub_client_id = ''a'', sub_qos = AtLeastOnce\<rparr>]"
  by code_simp

lemma demo_room: "list_room (chans demo_br) 0 = 255"
  by code_simp

section \<open>Properties\<close>

text \<open>
  C3. In every state the broker reaches, whatever the clients send and however their tasks
  interleave: sessions are keyed by their own client id, no two sessions share a channel,
  retained messages have a payload and are kept only if the configuration allows it, and
  the subscription trie is well-formed.
\<close>

theorem broker_invariant:
  assumes "mpsc M queue room known" "broker_reachable S B M order cfg w (conns, br)"
  shows "broker_ok known br"
  using mpsc.ok_reachable [OF assms] by simp

theorem broker_invariant_witness:
  "broker_ok (\<lambda>w. {..<length w}) (MqttBroker_new BrokerConfig_default [] :: (nat, nat, list_chans) MqttBroker)"
  by (rule broker_invariant [OF list_chans.mpsc_axioms broker_reachable.start])

text \<open>
  C2. A published message goes out once for every matching subscription of a connected
  client, in the order of the matches and with the QoS lowered to the granted one, as
  long as the client's channel has room; QoS 1 and 2 copies carry a non-zero packet id.
\<close>

theorem publish_delivers:
  assumes "mpsc M queue room known" "broker_reachable S B M order cfg w (conns, br)"
    and "map_of (sessions br) c = Some s"
    and "length (filter (\<lambda>x. sub_client_id x = c) (match_topic topic (topic_trie br))) \<le> room (chans br) (outbound_tx s)"
  shows "\<exists>ps. queue (chans (handle_publish_inner M topic payload qos retain br)) (outbound_tx s)
        = queue (chans br) (outbound_tx s) @ ps
    \<and> list_all2 (copy_for topic payload qos retain)
        (filter (\<lambda>x. sub_client_id x = c) (match_topic topic (topic_trie br))) ps"
  using mpsc.publish_inner_queue [OF assms(1) _ assms(3,4)] mpsc.ok_reachable [OF assms(1,2)] by simp

theorem publish_delivers_witness:
  "\<exists>ps. snd (chan_at (chans (handle_publish_inner list_chan_ops ''x'' [7] ExactlyOnce False demo_br)) 0)
        = snd (chan_at (chans demo_br) 0) @ ps
    \<and> list_all2 (copy_for ''x'' [7] ExactlyOnce False) [\<lparr>sub_client_id = ''a'', sub_qos = AtLeastOnce\<rparr>] ps"
  using publish_delivers [OF list_chans.mpsc_axioms demo_reach demo_session, of "''x''" "[7]" ExactlyOnce False]
  by (simp add: demo_match demo_room)


text \<open>
  A filter covers a topic if it agrees with it level by level, \<open>+\<close> standing for any one level,
  up to the end of both or up to a level \<open>#\<close> of the filter.
\<close>

definition agree_below :: "nat \<Rightarrow> string list \<Rightarrow> string list \<Rightarrow> bool" where
  "agree_below n fs ts \<longleftrightarrow> n \<le> length fs \<and> n \<le> length ts \<and> (\<forall>i < n. fs ! i = ''+'' \<or> fs ! i = ts ! i)"



lemma agree_below_0 [simp]: "agree_below 0 fs ts"
  by (simp add: agree_below_def)












text \<open>
  A PUBLISH with the retain flag replaces the retained message of its topic, an empty
  payload deletes it, and nothing else touches the store: after any publish, a later
  subscription to a filter sees the message exactly if the topic matches.
\<close>

theorem retained_after_publish:
  "map_of (retained_store (handle_publish_inner M topic payload qos retain br)) =
     (if retain \<and> retain_available (config br)
      then (map_of (retained_store br))
             (topic := if payload = [] then None else Some \<lparr>rm_payload = payload, rm_qos = qos\<rparr>)
      else map_of (retained_store br))"
  by (simp add: handle_publish_inner_def Let_def retain_message_def store_def remove_def hmap_simps)

text \<open>
  C15. A session is only created by a CONNECT packet, under the client id it names and with
  the credentials the configuration asks for; any other first packet, and any failed
  authentication, leaves the sessions as they were.
\<close>

theorem session_needs_credentials:
  assumes "sessions (snd (snd (connect_phase S B M now c br))) \<noteq> sessions br"
  shows "\<exists>header buf rd connect rest.
    read_packet_from S B (max_packet_size (config br)) (read_half c) = Ok (Some (header, buf, rd))
    \<and> packet_type header = Connect \<and> decode_connect B buf = Ok (connect, rest)
    \<and> (\<forall>user. auth_username (auth (config br)) = Some user \<longrightarrow>
         (case cp_username connect of None \<Rightarrow> [] | Some u \<Rightarrow> u) = user
         \<and> (case cp_password connect of None \<Rightarrow> [] | Some p \<Rightarrow> from_utf8_lossy p)
             = (case auth_password (auth (config br)) of None \<Rightarrow> [] | Some p \<Rightarrow> p))
    \<and> (\<forall>d. d \<noteq> cp_client_id connect \<longrightarrow>
         map_of (sessions (snd (snd (connect_phase S B M now c br)))) d = map_of (sessions br) d)"
proof -
  define ch where "ch = fst (channel M 256 (chans br))"
  define br0 where "br0 = br\<lparr>chans := snd (channel M 256 (chans br))\<rparr>"
  have ses: "sessions (snd (snd (connect_phase S B M now c br))) = sessions (snd (snd (connect_packet S B now ch c br0)))"
    by (simp add: connect_phase_def case_prod_unfold Let_def ch_def br0_def split: outcome.split)
  have br0: "sessions br0 = sessions br" "config br0 = config br" by (simp_all add: br0_def)
  have ne: "sessions (snd (snd (connect_packet S B now ch c br0))) \<noteq> sessions br0"
    using assms ses br0 by simp
  then obtain header buf rd where r: "read_packet_from S B (max_packet_size (config br)) (read_half c) = Ok (Some (header, buf, rd))"
    by (auto simp: connect_packet_def br0 split: outcome.splits option.splits)
  with ne have t: "packet_type header = Connect" by (auto simp: connect_packet_def br0 Let_def split: if_splits)
  with ne r obtain connect rest where d: "decode_connect B buf = Ok (connect, rest)"
    by (auto simp: connect_packet_def br0 Let_def split: outcome.splits)
  with ne r t have a: "authenticate (config br) connect = Ok ()"
    by (auto simp: connect_packet_def br0 Let_def split: outcome.splits)
  have "map_of (sessions (snd (snd (connect_packet S B now ch c br0)))) d = map_of (sessions br) d"
    if "d \<noteq> cp_client_id connect" for d
    using that r t d a by (simp add: connect_packet_def br0 Let_def hmap_simps split: outcome.splits)
  with r t d a show ?thesis
    unfolding ses by (auto simp: authenticate_def Let_def split: if_splits)
qed

theorem session_needs_credentials_witness:
  "\<exists>header buf rd. read_packet_from (list_stream ''eof'') list_buf 268435 demo_bytes = Ok (Some (header, buf, rd))
    \<and> packet_type header = Connect"
proof -
  have "sessions (snd (snd (connect_phase (list_stream ''eof'') list_buf list_chan_ops 0 (fst demo_start) (snd demo_start))))
      \<noteq> sessions (snd demo_start)"
    by code_simp
  moreover have "read_half (fst demo_start) = demo_bytes" "max_packet_size (config (snd demo_start)) = 268435"
    by (simp_all add: demo_start_def accept_def MqttBroker_new_def BrokerConfig_default_def)
  ultimately show ?thesis using session_needs_credentials by metis
qed

text \<open>
  C20. The read loop of a connection ends on every finite input, after at most one round more than
  the stream has octets, and with a result or an error unless a malformed packet is reached: it
  panics exactly if the stream, after packets that are well-formed and no DISCONNECT, goes on
  with a PUBLISH, SUBSCRIBE or UNSUBSCRIBE that is shorter than the lengths inside it.
\<close>

theorem connection_loop_terminates:
  assumes "mqtt_wire S pending eof B octets"
  shows "\<exists>r rd' br'. connection_loop (Suc (length (pending rd))) S B M order client_id rd br = Some (r, rd', br')
    \<and> r \<noteq> Diverge \<and> (r = Panic \<longleftrightarrow> malformed_reached (max_packet_size (config br)) (pending rd))"
  using mqtt_wire.connection_loop_ends [OF assms, of rd "Suc (length (pending rd))"] by simp

text \<open>A PINGREQ, and a PUBLISH that announces a topic of nine octets and has one.\<close>

lemma demo_malformed: "malformed_reached (max_packet_size (config demo_br)) [0xC0, 0, 0x30, 3, 0, 9, 1]"
proof -
  let ?ping = "\<lparr>packet_type = PingReq, flags = 0, remaining_length = 0\<rparr>"
  let ?publish = "\<lparr>packet_type = Publish, flags = 0, remaining_length = 3\<rparr>"
  have "max_packet_size (config demo_br) = 268435" by code_simp
  moreover have "framed [0xC0, 0, 0x30, 3, 0, 9, 1] ?ping [] [0x30, 3, 0, 9, 1]"
    unfolding framed_def by (intro exI [of _ "0xC0"] exI [of _ "[0]"]) (simp add: length_field_def)
  moreover have "framed [0x30, 3, 0, 9, 1] ?publish [0, 9, 1] []"
    unfolding framed_def by (intro exI [of _ "0x30"] exI [of _ "[3]"]) (simp add: length_field_def)
  moreover have "malformed ?publish [0, 9, 1]" by code_simp
  ultimately show ?thesis
    unfolding malformed_reached_def
    by (intro exI [of _ "[(?ping, [])]"] exI [of _ ?publish] exI [of _ "[0, 9, 1]"] exI [of _ "[0x30, 3, 0, 9, 1]"] exI [of _ "[]"]) auto
qed

theorem connection_loop_terminates_witness:
  "\<exists>rd' br'. connection_loop 8 (list_stream ''eof'') list_buf list_chan_ops (\<lambda>m. m) ''a'' [0xC0, 0, 0x30, 3, 0, 9, 1] demo_br
      = Some (Panic, rd', br')"
  using connection_loop_terminates [OF list_wire.mqtt_wire_axioms, of "[0xC0, 0, 0x30, 3, 0, 9, 1]" "''eof''" list_chan_ops "\<lambda>m. m" "''a''" demo_br]
    demo_malformed by (auto simp: numeral_eq_Suc simp del: connection_loop.simps)

text \<open>
  The connection counters. In every reachable state \<^verbatim>\<open>total_connections\<close> is the number of
  connections accepted and \<^verbatim>\<open>active_connections\<close> the number of those whose task has not
  returned; a task that panicked is counted as active for ever.
\<close>

theorem connection_counters:
  assumes "broker_reachable S B M order cfg w (conns, br)"
  shows "total_connections (metrics br) = of_nat (length conns)
    \<and> active_connections (metrics br) = of_nat (length (filter (\<lambda>c. \<not> finished (phase c)) conns))"
  using reachable_counts [OF assms] by (simp add: counts_def)

theorem connection_counters_witness:
  "total_connections (metrics demo_br) = 1
    \<and> active_connections (metrics demo_br)
      = of_nat (length (filter (\<lambda>c. \<not> finished (phase c)) [fst (demo_step (demo_step demo_start))]))"
  using connection_counters [OF demo_reach] by simp

lemma match_topic_removed:
  "s \<in> set (match_topic topic (remove_subscriptions_for_client c t)) \<Longrightarrow> sub_client_id s \<noteq> c"
proof -
  assume "s \<in> set (match_topic topic (remove_subscriptions_for_client c t))"
  then consider p where "s \<in> set (exact_at p (remove_recursive_inner c (root t)))"
    | p where "s \<in> set (multi_at p (remove_recursive_inner c (root t)))"
    | f where "(f, s) \<in> set (filter (\<lambda>(_, s). sub_client_id s \<noteq> c) (wildcard_subscriptions t))"
    by (auto simp: match_topic_def remove_subscriptions_for_client_def Let_def set_match_recursive)
  then show ?thesis
    by cases (auto simp: exact_content node_at_remove retain_others_def)
qed

text \<open>
  The clean-up of a connection leaves no session under its client id and no subscription
  of it, whichever connection these belong to: the clean-up of a connection that was
  replaced by a newer one with the same client id also removes the session and the
  subscriptions of the newer one.
\<close>

theorem cleanup_clears:
  "map_of (sessions (cleanup M client_id ch will r br)) client_id = None
   \<and> (\<forall>topic. \<forall>s. s \<in> set (match_topic topic (topic_trie (cleanup M client_id ch will r br))) \<longrightarrow> sub_client_id s \<noteq> client_id)
   \<and> (\<forall>d. d \<noteq> client_id \<longrightarrow> map_of (sessions (cleanup M client_id ch will r br)) d = map_of (sessions br) d)"
proof -
  have "sessions (handle_publish_inner M t p q rt br') = sessions br'" for t p q rt and br' :: "('a, 'b, 'c) MqttBroker"
    using frame_publish_inner [of M t p q rt br'] by (simp add: fixed_part_def)
  then show ?thesis
    by (auto simp: cleanup_def Let_def hmap_simps match_topic_removed split: outcome.split option.split)
qed

theorem cleanup_clears_witness:
  "map_of (sessions (cleanup list_chan_ops ''a'' 0 None (Ok ()) demo_br)) ''a'' = None"
  using cleanup_clears [of list_chan_ops "''a''" 0 None "Ok ()" demo_br] by blast

text \<open>
  A PUBLISH body too short for its own topic ends the task of the connection by a panic,
  and its clean-up never runs: the session and the subscriptions of the client stay.
\<close>

theorem truncated_publish_skips_cleanup:
  assumes "byte_buf B octets" "phase c = Connected client_id ch will"
    and "read_packet_from S B (max_packet_size (config br)) (read_half c) = Ok (Some (header, buf, rd))"
    and "packet_type header = Publish" "publish_truncated (flags header) (octets buf)"
  shows "\<exists>c' br'. conn_step S B M order now (c, br) = (c', br')
    \<and> phase c' = Crashed (Some ch) \<and> sessions br' = sessions br \<and> topic_trie br' = topic_trie br"
proof -
  have "decode_publish B header buf = Panic"
    using byte_buf.sim_decode_publish [OF assms(1), of header buf] decode_publish_list_cases [of header "octets buf"] assms(5)
    by simp
  with assms(2-4) show ?thesis
    by (simp add: conn_step_def connection_loop_step_def handle_packet_def Let_def count_received_def)
qed

theorem truncated_publish_skips_cleanup_witness:
  "\<exists>c' br'. conn_step (list_stream ''eof'') list_buf list_chan_ops (\<lambda>m. m) 0
      (\<lparr>read_half = [0x30, 1, 0], write_half = [], phase = Connected ''a'' 0 None\<rparr>, demo_br) = (c', br')
    \<and> phase c' = Crashed (Some 0) \<and> sessions br' = sessions demo_br \<and> topic_trie br' = topic_trie demo_br"
proof -
  have "read_packet_from (list_stream ''eof'') list_buf 268435 [0x30, 1, 0]
      = Ok (Some (\<lparr>packet_type = Publish, flags = 0, remaining_length = 1\<rparr>, [0], []))"
    by code_simp
  moreover have "max_packet_size (config demo_br) = 268435" by code_simp
  ultimately show ?thesis
    using truncated_publish_skips_cleanup [OF list_buf.byte_buf_axioms,
      of "\<lparr>read_half = [0x30, 1, 0], write_half = [], phase = Connected ''a'' 0 None\<rparr>" "''a''" 0 None
         "list_stream ''eof''" demo_br "\<lparr>packet_type = Publish, flags = 0, remaining_length = 1\<rparr>" "[0]" "[]"
         list_chan_ops "\<lambda>m. m" 0]
    by (simp add: publish_truncated_def)
qed

text \<open>
  Packet ids are never 0, but are not distinct: two consecutive ids are equal exactly
  when the counter stands at 0, once in every 65536 ids.
\<close>

theorem packet_ids:
  "fst (next_packet_id br) \<noteq> 0
   \<and> (fst (next_packet_id (snd (next_packet_id br))) = fst (next_packet_id br) \<longleftrightarrow> packet_id_counter br = 0)"
  by (auto simp: next_packet_id_def Let_def)

end
