(* ===== verification/Rust_Text.thy ===== *)
theory Rust_Text
  imports Utf8
begin

text \<open>
  Text operations of the Rust standard library used by the sources beyond those of the
  prelude: decimal and hexadecimal formatting, \<^verbatim>\<open>str::trim\<close>, \<^verbatim>\<open>parse::<u32>\<close>, the UTF-8 form
  of a \<^verbatim>\<open>char\<close>, \<^verbatim>\<open>char::from_u32\<close> and \<^verbatim>\<open>char::decode_utf16\<close>. Strings are the bytes of their
  UTF-8 form.
\<close>

section \<open>Numbers as text\<close>

definition digit_char :: "nat \<Rightarrow> char" where
  "digit_char d = char_of (if d < 10 then 48 + d else 87 + d)"

fun show_nat :: "nat \<Rightarrow> string" where
  "show_nat n = (if n < 10 then [digit_char n] else show_nat (n div 10) @ [digit_char (n mod 10)])"

declare show_nat.simps [simp del]

definition show_hex2 :: "u8 \<Rightarrow> string" where
  "show_hex2 b = [digit_char (unat b div 16), digit_char (unat b mod 16)]"

definition is_digit :: "char \<Rightarrow> bool" where
  "is_digit c \<longleftrightarrow> 48 \<le> (of_char c :: nat) \<and> (of_char c :: nat) \<le> 57"

fun parse_digits :: "nat \<Rightarrow> nat \<Rightarrow> string \<Rightarrow> nat option" where
  "parse_digits bound acc [] = Some acc"
| "parse_digits bound acc (c # cs) =
     (if is_digit c \<and> acc * 10 + (of_char c - 48) < bound
      then parse_digits bound (acc * 10 + (of_char c - 48)) cs else None)"

text \<open>\<^verbatim>\<open>parse\<close> for an unsigned type below \<open>bound\<close>: an optional plus sign and at least one digit.\<close>

definition parse_unsigned :: "nat \<Rightarrow> string \<Rightarrow> nat option" where
  "parse_unsigned bound s =
     (let ds = (case s of c # cs \<Rightarrow> if c = CHR ''+'' \<and> cs \<noteq> [] then cs else s | [] \<Rightarrow> s) in
      if ds = [] then None else parse_digits bound 0 ds)"

lemma digit_char_digit [simp]: "d < 10 \<Longrightarrow> of_char (digit_char d) = 48 + d"
  by (simp add: digit_char_def)

lemma is_digit_digit_char: "d < 10 \<Longrightarrow> is_digit (digit_char d)"
  by (simp add: is_digit_def)

lemma parse_digits_append:
  "parse_digits bound acc (xs @ ys) = Option.bind (parse_digits bound acc xs) (\<lambda>a. parse_digits bound a ys)"
  by (induction bound acc xs rule: parse_digits.induct) auto

lemma show_nat_nonempty [simp]: "show_nat n \<noteq> []"
  by (subst show_nat.simps) simp

lemma parse_show_digits: "n < bound \<Longrightarrow> parse_digits bound 0 (show_nat n) = Some n"
proof (induction n rule: show_nat.induct)
  case (1 n)
  show ?case
  proof (cases "n < 10")
    case True
    then show ?thesis using "1.prems" by (subst show_nat.simps) (simp add: is_digit_digit_char)
  next
    case False
    then have "parse_digits bound 0 (show_nat (n div 10)) = Some (n div 10)"
      using 1 by (meson div_le_dividend le_less_trans)
    moreover have "n div 10 * 10 + n mod 10 = n" by simp
    ultimately show ?thesis
      using False "1.prems" by (subst show_nat.simps) (simp add: parse_digits_append is_digit_digit_char)
  qed
qed

lemma hd_show_nat: "is_digit (hd (show_nat n))"
  by (induction n rule: show_nat.induct) (subst show_nat.simps, simp add: is_digit_digit_char)

lemma parse_show_nat: "n < bound \<Longrightarrow> parse_unsigned bound (show_nat n) = Some n"
proof -
  assume n: "n < bound"
  obtain c cs where s: "show_nat n = c # cs" by (meson show_nat_nonempty neq_Nil_conv)
  with hd_show_nat [of n] have "c \<noteq> CHR ''+''" by (auto simp: is_digit_def)
  with s n show ?thesis using parse_show_digits [OF n] by (simp add: parse_unsigned_def)
qed

section \<open>Trimming\<close>

text \<open>The UTF-8 forms of the characters with the Unicode property \<^verbatim>\<open>White_Space\<close>.\<close>

definition white_space :: "u8 list list" where
  "white_space =
     [[9], [10], [11], [12], [13], [32], [0xC2, 0x85], [0xC2, 0xA0], [0xE1, 0x9A, 0x80]]
     @ map (\<lambda>i. [0xE2, 0x80, i]) [0x80, 0x81, 0x82, 0x83, 0x84, 0x85, 0x86, 0x87, 0x88, 0x89, 0x8A, 0xA8, 0xA9, 0xAF]
     @ [[0xE2, 0x81, 0x9F], [0xE3, 0x80, 0x80]]"

definition strip_one :: "u8 list list \<Rightarrow> u8 list \<Rightarrow> u8 list option" where
  "strip_one ws bs = map_option (\<lambda>w. drop (length w) bs) (find (\<lambda>w. w \<noteq> [] \<and> take (length w) bs = w) ws)"

lemma strip_one_decr: "strip_one ws bs = Some bs' \<Longrightarrow> length bs' < length bs"
proof -
  assume "strip_one ws bs = Some bs'"
  then obtain w where "w \<noteq> []" "take (length w) bs = w" "bs' = drop (length w) bs"
    by (auto simp: strip_one_def find_Some_iff)
  then show ?thesis by (cases bs) auto
qed

function strip_all :: "u8 list list \<Rightarrow> u8 list \<Rightarrow> u8 list" where
  "strip_all ws bs = (case strip_one ws bs of None \<Rightarrow> bs | Some bs' \<Rightarrow> strip_all ws bs')"
  by pat_completeness auto
termination
  by (relation "measure (\<lambda>(ws, bs). length bs)") (auto dest: strip_one_decr)

declare strip_all.simps [simp del]

definition trim :: "string \<Rightarrow> string" where
  "trim s = of_bytes (rev (strip_all (map rev white_space) (rev (strip_all white_space (as_bytes s)))))"

section \<open>Characters\<close>

definition utf8_of_char :: "u32 \<Rightarrow> u8 list" where
  "utf8_of_char c =
     (if c < 0x80 then [ucast c]
      else if c < 0x800 then [0xC0 OR ucast (drop_bit 6 c), 0x80 OR (ucast c AND 0x3F)]
      else if c < 0x10000 then
        [0xE0 OR ucast (drop_bit 12 c), 0x80 OR (ucast (drop_bit 6 c) AND 0x3F), 0x80 OR (ucast c AND 0x3F)]
      else
        [0xF0 OR ucast (drop_bit 18 c), 0x80 OR (ucast (drop_bit 12 c) AND 0x3F),
         0x80 OR (ucast (drop_bit 6 c) AND 0x3F), 0x80 OR (ucast c AND 0x3F)])"

definition char_from_u32 :: "u32 \<Rightarrow> u32 option" where
  "char_from_u32 c = (if c > 0x10FFFF \<or> 0xD800 \<le> c \<and> c \<le> 0xDFFF then None else Some c)"

text \<open>\<^verbatim>\<open>decode_utf16\<close> with every unpaired surrogate replaced by U+FFFD.\<close>

fun decode_utf16 :: "u16 list \<Rightarrow> u32 list" where
  "decode_utf16 [] = []"
| "decode_utf16 [u] = [if u AND 0xF800 = 0xD800 then 0xFFFD else ucast u]"
| "decode_utf16 (u # v # us) =
     (if u AND 0xF800 \<noteq> 0xD800 then ucast u # decode_utf16 (v # us)
      else if u \<ge> 0xDC00 then 0xFFFD # decode_utf16 (v # us)
      else if v < 0xDC00 \<or> v > 0xDFFF then 0xFFFD # decode_utf16 (v # us)
      else ((push_bit 10 (ucast (u AND 0x3FF)) OR ucast (v AND 0x3FF)) + 0x10000) # decode_utf16 us)"

definition string_of_chars :: "u32 list \<Rightarrow> string" where
  "string_of_chars cs = of_bytes (concat (map utf8_of_char cs))"

fun chunks2 :: "u8 list \<Rightarrow> (u8 \<times> u8) list" where
  "chunks2 (a # b # bs) = (a, b) # chunks2 bs"
| "chunks2 _ = []"

fun chunks4 :: "u8 list \<Rightarrow> (u8 \<times> u8 \<times> u8 \<times> u8) list" where
  "chunks4 (a # b # c # d # bs) = (a, b, c, d) # chunks4 bs"
| "chunks4 _ = []"

section \<open>Searching and cutting\<close>

text \<open>
  \<^verbatim>\<open>windows(n).position(...)\<close> and the cut at every occurrence, left to right and without overlaps,
  that \<^verbatim>\<open>str::split\<close> and \<^verbatim>\<open>str::replace\<close> make for a pattern that is not empty: the pieces
  before the occurrences and what follows the last.
\<close>

fun find_sub :: "'a list \<Rightarrow> 'a list \<Rightarrow> nat option" where
  "find_sub d [] = (if d = [] then Some 0 else None)"
| "find_sub d (x # xs) = (if take (length d) (x # xs) = d then Some 0 else map_option Suc (find_sub d xs))"

lemma find_sub_Some:
  "find_sub d xs = Some n \<Longrightarrow> xs = take n xs @ d @ drop (n + length d) xs"
proof (induction xs arbitrary: n)
  case (Cons x xs)
  show ?case
  proof (cases "take (length d) (x # xs) = d")
    case True
    with Cons.prems show ?thesis using append_take_drop_id [of "length d" "x # xs"] by auto
  next
    case False
    with Cons show ?thesis by (cases n) auto
  qed
qed (auto split: if_splits)

lemma find_sub_decr: "find_sub d xs = Some n \<Longrightarrow> d \<noteq> [] \<Longrightarrow> length xs - (n + length d) < length xs"
  using find_sub_Some [of d xs n] by (cases xs) auto

function cut_parts :: "'a list \<Rightarrow> 'a list \<Rightarrow> 'a list list \<times> 'a list" where
  "cut_parts d xs =
     (if d = [] then ([], xs)
      else case find_sub d xs of
             None \<Rightarrow> ([], xs)
           | Some pos \<Rightarrow> (case cut_parts d (drop (pos + length d) xs) of (ps, r) \<Rightarrow> (take pos xs # ps, r)))"
  by pat_completeness auto
termination
  by (relation "measure (\<lambda>(d, xs). length xs)") (auto dest!: find_sub_decr)

declare cut_parts.simps [simp del]

text \<open>
  The characters of a string: a byte that does not continue a character starts one.
\<close>

definition continues :: "char \<Rightarrow> bool" where
  "continues c \<longleftrightarrow> 128 \<le> (of_char c :: nat) \<and> (of_char c :: nat) < 192"

function utf8_chars :: "string \<Rightarrow> string list" where
  "utf8_chars [] = []"
| "utf8_chars (c # cs) = (c # takeWhile continues cs) # utf8_chars (dropWhile continues cs)"
  by pat_completeness auto
termination
  by (relation "measure length") (auto simp: less_Suc_eq_le length_dropWhile_le)

text \<open>An empty pattern matches at every character boundary, the two ends included.\<close>

definition split_str :: "string \<Rightarrow> string \<Rightarrow> string list" where
  "split_str d s =
     (if d = [] then [] # utf8_chars s @ [[]] else case cut_parts d s of (ps, r) \<Rightarrow> ps @ [r])"

definition replace_str :: "string \<Rightarrow> string \<Rightarrow> string \<Rightarrow> string" where
  "replace_str d t s = join_with t (split_str d s)"

text \<open>The slices \<^verbatim>\<open>[i * n..min((i + 1) * n, len)]\<close> for \<open>i\<close> below the rounded-up quotient.\<close>

definition div_ceil :: "nat \<Rightarrow> nat \<Rightarrow> nat" where
  "div_ceil m n = m div n + (if m mod n = 0 then 0 else 1)"

definition slices :: "nat \<Rightarrow> 'a list \<Rightarrow> 'a list list" where
  "slices n xs = map (\<lambda>i. take n (drop (i * n) xs)) [0..<div_ceil (length xs) n]"

lemma concat_utf8_chars [simp]: "concat (utf8_chars s) = s"
  by (induction s rule: utf8_chars.induct) auto

lemma utf8_chars_nonempty: "c \<in> set (utf8_chars s) \<Longrightarrow> c \<noteq> []"
  by (induction s rule: utf8_chars.induct) auto

lemma join_with_Cons: "ps \<noteq> [] \<Longrightarrow> join_with sep (p # ps) = p @ sep @ join_with sep ps"
  by (cases ps) auto

lemma join_cut_parts: "d \<noteq> [] \<Longrightarrow> cut_parts d s = (ps, r) \<Longrightarrow> join_with d (ps @ [r]) = s"
proof (induction d s arbitrary: ps r rule: cut_parts.induct)
  case (1 d xs)
  show ?case
  proof (cases "find_sub d xs")
    case None
    with 1 show ?thesis by (simp add: cut_parts.simps [of d xs])
  next
    case (Some pos)
    obtain ps' r' where c: "cut_parts d (drop (pos + length d) xs) = (ps', r')" by fastforce
    with "1.prems" Some have p: "ps = take pos xs # ps'" "r = r'" by (simp_all add: cut_parts.simps [of d xs])
    have "join_with d (ps' @ [r']) = drop (pos + length d) xs" using "1.IH" [OF _ Some] "1.prems"(1) c by simp
    then have "join_with d (ps @ [r]) = take pos xs @ d @ drop (pos + length d) xs"
      using p by (simp add: join_with_Cons)
    then show ?thesis using find_sub_Some [OF Some] by simp
  qed
qed

lemma join_split_str: "d \<noteq> [] \<Longrightarrow> join_with d (split_str d s) = s"
  by (auto simp: split_str_def join_cut_parts split: prod.splits)

lemma join_with_Nil [simp]: "join_with [] ps = concat ps"
  by (induction "[] :: string" ps rule: join_with.induct) auto

lemma split_str_not_Nil [simp]: "split_str d s \<noteq> []"
  by (auto simp: split_str_def split: prod.splits)

lemma div_ceil_mult: "0 < n \<Longrightarrow> m \<le> div_ceil m n * n"
proof -
  assume "0 < n"
  have "m = m div n * n + m mod n" by simp
  moreover have "m mod n \<le> n" using \<open>0 < n\<close> by (simp add: less_imp_le)
  ultimately have "m \<le> m div n * n + n" "m mod n = 0 \<Longrightarrow> m \<le> m div n * n" by linarith+
  then show ?thesis by (auto simp: div_ceil_def add.commute)
qed

lemma div_ceil_less: "0 < n \<Longrightarrow> i < div_ceil m n \<Longrightarrow> i * n < m"
proof -
  assume n: "0 < n" and i: "i < div_ceil m n"
  show ?thesis
  proof (cases "m mod n = 0")
    case True
    then have "m div n * n = m" by (simp add: mod_0_imp_dvd)
    with True i n show ?thesis by (metis add.right_neutral div_ceil_def mult_less_cancel2)
  next
    case False
    with i have "i * n \<le> m div n * n" by (intro mult_right_mono) (auto simp: div_ceil_def)
    also have "\<dots> < m" using False by (metis div_mult_mod_eq less_add_same_cancel1 neq0_conv)
    finally show ?thesis .
  qed
qed

lemma concat_slices_take:
  "concat (map (\<lambda>i. take n (drop (i * n) xs)) [0..<k]) = take (k * n) xs"
  by (induction k) (simp_all add: take_add [symmetric] add.commute)

lemma concat_slices [simp]: "0 < n \<Longrightarrow> concat (slices n xs) = xs"
  unfolding slices_def concat_slices_take using div_ceil_mult [of n "length xs"] by simp

lemma slices_nonempty: "0 < n \<Longrightarrow> c \<in> set (slices n xs) \<Longrightarrow> c \<noteq> []"
proof
  assume n: "0 < n" and c: "c \<in> set (slices n xs)" "c = []"
  then obtain i where "i < div_ceil (length xs) n" "take n (drop (i * n) xs) = []" by (auto simp: slices_def)
  with div_ceil_less [OF n this(1)] n show False by simp
qed

lemma length_slices [simp]: "length (slices n xs) = div_ceil (length xs) n"
  by (simp add: slices_def)

section \<open>Wide integers\<close>

definition u64_to_be :: "u64 \<Rightarrow> u8 list" where
  "u64_to_be w =
     [ucast (drop_bit 56 w), ucast (drop_bit 48 w), ucast (drop_bit 40 w), ucast (drop_bit 32 w),
      ucast (drop_bit 24 w), ucast (drop_bit 16 w), ucast (drop_bit 8 w), ucast w]"

lemma length_u64_to_be [simp]: "length (u64_to_be w) = 8"
  by (simp add: u64_to_be_def)

text \<open>\<^verbatim>\<open>fold(acc, |acc, b| (acc << 8) | b)\<close>.\<close>

definition shift_in :: "'a::len word \<Rightarrow> u8 list \<Rightarrow> 'a word" where
  "shift_in v bs = foldl (\<lambda>acc b. push_bit 8 acc OR ucast b) v bs"

lemma shift_in_simps [simp]:
  "shift_in v [] = v" "shift_in v (b # bs) = shift_in (push_bit 8 v OR ucast b) bs"
  by (simp_all add: shift_in_def)

lemma shift_in_leading_zero: "shift_in 0 (0 # bs) = shift_in 0 bs"
  by simp

lemma shift_in_leading_ones: "shift_in (-1 :: u64) (0xFF # bs) = shift_in (-1) bs"
proof -
  have "push_bit 8 (-1 :: u64) OR ucast (0xFF :: u8) = -1"
    by code_simp
  then show ?thesis by simp
qed

lemma shift_in_u64: "shift_in v (u64_to_be w) = (w :: u64)"
proof (rule bit_word_eqI)
  fix n :: nat
  assume n: "n < LENGTH(64)"
  have "n < 8 \<or> 8 \<le> n \<and> n < 16 \<or> 16 \<le> n \<and> n < 24 \<or> 24 \<le> n \<and> n < 32 \<or> 32 \<le> n \<and> n < 40
      \<or> 40 \<le> n \<and> n < 48 \<or> 48 \<le> n \<and> n < 56 \<or> 56 \<le> n" by arith
  with n show "bit (shift_in v (u64_to_be w)) n = bit w n"
    by (elim disjE) (auto simp: u64_to_be_def bit_simps)
qed

lemma shift_in_u32: "shift_in v (u32_to_be w) = (w :: u32)"
proof (rule bit_word_eqI)
  fix n :: nat
  assume n: "n < LENGTH(32)"
  have "n < 8 \<or> 8 \<le> n \<and> n < 16 \<or> 16 \<le> n \<and> n < 24 \<or> 24 \<le> n" by arith
  with n show "bit (shift_in v (u32_to_be w)) n = bit w n"
    by (elim disjE) (auto simp: u32_to_be_def bit_simps)
qed

end
