(* ===== verification/Bacnet.thy ===== *)
theory Bacnet
  imports Rust_Text
begin

text \<open>
  The BACnet/IP client of the industrial nodes
  (\<^verbatim>\<open>crates/core/src/runtime/nodes/industrial_nodes/bacnet_client.rs\<close>): names and numbers of
  object types and properties, the tag codec, requests, reassembly of segmented replies,
  the decoders of application data, and the request and notification loops.

  Parameters stand for third-party code: \<open>json_ops\<close> for the constructors of
  \<^verbatim>\<open>serde_json::Value\<close>, \<open>udp_ops\<close> for the UDP socket and the clock of \<^verbatim>\<open>tokio\<close>. A position in a
  buffer is the rest of the buffer from there. \<^verbatim>\<open>f32\<close> and \<^verbatim>\<open>f64\<close> values are their bit patterns.
\<close>

section \<open>Names\<close>

definition OBJECT_TYPES :: "(string \<times> u32) list" where
  "OBJECT_TYPES =
     [(''analogInput'', 0), (''analogOutput'', 1), (''analogValue'', 2), (''binaryInput'', 3),
      (''binaryOutput'', 4), (''binaryValue'', 5), (''calendar'', 6), (''command'', 7),
      (''device'', 8), (''eventEnrollment'', 9), (''file'', 10), (''group'', 11),
      (''loop'', 12), (''multiStateInput'', 13), (''multiStateOutput'', 14), (''notificationClass'', 15),
      (''program'', 16), (''schedule'', 17), (''averaging'', 18), (''multiStateValue'', 19),
      (''trendLog'', 20), (''lifeSafetyPoint'', 21), (''lifeSafetyZone'', 22), (''accumulator'', 23),
      (''pulseConverter'', 24), (''eventLog'', 25), (''globalGroup'', 26), (''trendLogMultiple'', 27),
      (''loadControl'', 28), (''structuredView'', 29), (''accessDoor'', 30), (''characterstringValue'', 40),
      (''datetimeValue'', 44), (''integerValue'', 45), (''largeAnalogValue'', 46), (''positiveIntegerValue'', 48)]"

definition PROPERTIES :: "(string \<times> u32) list" where
  "PROPERTIES =
     [(''ackedTransitions'', 0), (''activeText'', 4), (''applicationSoftwareVersion'', 12), (''covIncrement'', 22),
      (''deadband'', 25), (''description'', 28), (''eventEnable'', 35), (''eventState'', 36),
      (''feedbackValue'', 40), (''firmwareRevision'', 44), (''highLimit'', 45), (''inactiveText'', 46),
      (''limitEnable'', 52), (''lowLimit'', 59), (''maxApduLengthAccepted'', 62), (''maxPresValue'', 65),
      (''minPresValue'', 69), (''modelName'', 70), (''notificationClass'', 17), (''notifyType'', 72),
      (''numberOfStates'', 74), (''objectIdentifier'', 75), (''objectList'', 76), (''objectName'', 77),
      (''objectType'', 79), (''outOfService'', 81), (''polarity'', 84), (''presentValue'', 85),
      (''priorityArray'', 87), (''protocolRevision'', 139), (''protocolVersion'', 98), (''reliability'', 103),
      (''relinquishDefault'', 104), (''resolution'', 106), (''segmentationSupported'', 107), (''stateText'', 110),
      (''statusFlags'', 111), (''systemStatus'', 112), (''timeDelay'', 113), (''units'', 117),
      (''vendorIdentifier'', 120), (''vendorName'', 121), (''databaseRevision'', 155)]"

definition is_alnum :: "char \<Rightarrow> bool" where
  "is_alnum c \<longleftrightarrow> (let n = (of_char c :: nat) in 48 \<le> n \<and> n \<le> 57 \<or> 65 \<le> n \<and> n \<le> 90 \<or> 97 \<le> n \<and> n \<le> 122)"

definition to_lower :: "char \<Rightarrow> char" where
  "to_lower c = (let n = (of_char c :: nat) in if 65 \<le> n \<and> n \<le> 90 then char_of (n + 32) else c)"

definition normalize :: "string \<Rightarrow> string" where
  "normalize name = map to_lower (filter is_alnum name)"

definition lookup :: "(string \<times> u32) list \<Rightarrow> string \<Rightarrow> u32 option" where
  "lookup table name =
     (let wanted = normalize name in
      case parse_unsigned (2 ^ 32) (trim name) of
        Some n \<Rightarrow> Some (of_nat n)
      | None \<Rightarrow> map_option snd (find (\<lambda>(n, _). normalize n = wanted) table))"

definition object_type_id :: "string \<Rightarrow> u32 option" where
  "object_type_id name =
     (case lookup OBJECT_TYPES name of Some i \<Rightarrow> if i < 1024 then Some i else None | None \<Rightarrow> None)"

definition property_id :: "string \<Rightarrow> u32 option" where
  "property_id name = lookup PROPERTIES name"

definition property_name :: "u32 \<Rightarrow> string" where
  "property_name i =
     (case find (\<lambda>(_, j). j = i) PROPERTIES of Some (n, _) \<Rightarrow> n | None \<Rightarrow> show_nat (unat i))"

section \<open>JSON values\<close>

record 'v json_ops =
  j_null :: 'v
  j_bool :: "bool \<Rightarrow> 'v"
  j_u64 :: "u64 \<Rightarrow> 'v"
  j_i64 :: "u64 \<Rightarrow> 'v"
  j_f64 :: "u64 \<Rightarrow> 'v option"
  j_str :: "string \<Rightarrow> 'v"
  j_arr :: "'v list \<Rightarrow> 'v"
  j_obj :: "(string \<times> 'v) list \<Rightarrow> 'v"

definition object_type_name :: "'v json_ops \<Rightarrow> u32 \<Rightarrow> 'v" where
  "object_type_name J i =
     (case find (\<lambda>(_, j). j = i) OBJECT_TYPES of Some (n, _) \<Rightarrow> j_str J n | None \<Rightarrow> j_u64 J (ucast i))"

section \<open>Encoding\<close>

definition push_tag :: "u32 \<Rightarrow> bool \<Rightarrow> nat \<Rightarrow> u8 list" where
  "push_tag number context len =
     (let cls = (if context then 0x08 else 0);
          first = (if number < 15 then push_bit 4 (ucast number) else 0xF0) OR cls;
          first' = (if len < 5 then first OR of_nat len else first OR 5) in
      [first']
      @ (if number \<ge> 15 then [ucast number] else [])
      @ (if len \<ge> 5 then
           (if len < 254 then [of_nat len] else 254 # u16_to_be (of_nat len))
         else []))"

text \<open>\<^verbatim>\<open>bytes\<close> without its leading zeros, keeping at least the last \<open>keep\<close> octets.\<close>

definition minimal :: "u8 list \<Rightarrow> nat \<Rightarrow> u8 list" where
  "minimal bytes keep = drop (length (takeWhile (\<lambda>b. b = 0) (take (length bytes - keep) bytes))) bytes"

definition push_context_unsigned :: "u32 \<Rightarrow> u32 \<Rightarrow> u8 list" where
  "push_context_unsigned number val =
     (let bytes = u32_to_be val;
          skip = length (takeWhile (\<lambda>b. b = 0) (take 3 bytes)) in
      push_tag number True (4 - skip) @ drop skip bytes)"

definition push_object_id :: "u32 \<Rightarrow> u32 \<Rightarrow> u32 \<Rightarrow> u8 list" where
  "push_object_id tag object_type inst =
     push_tag tag True 4 @ u32_to_be (push_bit 22 object_type OR (inst AND 0x3FFFFF))"

definition frame :: "u8 list \<Rightarrow> bool \<Rightarrow> u8 list" where
  "frame apdu expecting_reply =
     [0x81, 0x0A] @ u16_to_be (of_nat (length apdu + 6)) @ [0x01, if expecting_reply then 0x04 else 0x00] @ apdu"

definition encode_confirmed :: "u8 \<Rightarrow> u8 \<Rightarrow> u8 list \<Rightarrow> u8 list" where
  "encode_confirmed invoke_id service body = frame ([0x02, 0x70 OR 0x05, invoke_id, service] @ body) True"

definition read_property_body :: "u32 \<Rightarrow> u32 \<Rightarrow> u32 \<Rightarrow> u8 list" where
  "read_property_body object_type inst property =
     push_object_id 0 object_type inst @ push_context_unsigned 1 property"

definition encode_read_property :: "u8 \<Rightarrow> u32 \<Rightarrow> u32 \<Rightarrow> u32 \<Rightarrow> u8 list" where
  "encode_read_property invoke_id object_type inst property =
     encode_confirmed invoke_id 0x0C (read_property_body object_type inst property)"

text \<open>\<^verbatim>\<open>i64\<close> values are their two's complement words.\<close>

datatype WriteValue =
  WNull
| WBoolean bool
| WUnsigned u64
| WSigned u64
| WReal u32
| WDouble u64
| WEnumerated u32
| WString string

text \<open>The loop that advances \<^verbatim>\<open>start\<close> over redundant sign octets, up to the last one.\<close>

fun trim_sign :: "u8 list \<Rightarrow> u8 list" where
  "trim_sign (a # b # bs) =
     (if a = 0x00 \<and> b AND 0x80 = 0 \<or> a = 0xFF \<and> b AND 0x80 \<noteq> 0 then trim_sign (b # bs) else a # b # bs)"
| "trim_sign bs = bs"

fun push_application :: "WriteValue \<Rightarrow> u8 list" where
  "push_application WNull = [0x00]"
| "push_application (WBoolean b) = [0x10 OR (if b then 1 else 0)]"
| "push_application (WUnsigned v) =
     (let content = minimal (u64_to_be v) 1 in push_tag 2 False (length content) @ content)"
| "push_application (WSigned v) =
     (let content = trim_sign (u64_to_be v) in push_tag 3 False (length content) @ content)"
| "push_application (WReal v) = push_tag 4 False 4 @ u32_to_be v"
| "push_application (WDouble v) = push_tag 5 False 8 @ u64_to_be v"
| "push_application (WEnumerated v) =
     (let content = minimal (u32_to_be v) 1 in push_tag 9 False (length content) @ content)"
| "push_application (WString s) = push_tag 7 False (length s + 1) @ [0x00] @ as_bytes s"

definition write_property_body :: "u32 \<Rightarrow> u32 \<Rightarrow> u32 \<Rightarrow> WriteValue \<Rightarrow> u8 option \<Rightarrow> u8 list" where
  "write_property_body object_type inst property val priority =
     read_property_body object_type inst property @ [0x3E] @ push_application val @ [0x3F]
     @ (case priority of None \<Rightarrow> [] | Some p \<Rightarrow> push_context_unsigned 4 (ucast p))"

definition subscribe_cov_body :: "u32 \<Rightarrow> u32 \<Rightarrow> u32 \<Rightarrow> bool \<Rightarrow> u32 \<Rightarrow> u8 list" where
  "subscribe_cov_body process_id object_type inst confirmed lifetime =
     push_context_unsigned 0 process_id @ push_object_id 1 object_type inst
     @ push_tag 2 True 1 @ [if confirmed then 1 else 0] @ push_context_unsigned 3 lifetime"

section \<open>Frames\<close>

definition get_at :: "u8 list \<Rightarrow> nat \<Rightarrow> u8 option" where
  "get_at buf i = (if i < length buf then Some (buf ! i) else None)"

text \<open>\<^verbatim>\<open>pos += 3 + *buf.get(pos + 2)? as usize\<close>, when the control octet announces the address.\<close>

definition skip_address :: "u8 list \<Rightarrow> bool \<Rightarrow> nat \<Rightarrow> nat option" where
  "skip_address buf present pos =
     (if present then map_option (\<lambda>n. pos + 3 + unat n) (get_at buf (pos + 2)) else Some pos)"

definition apdu_of_frame :: "u8 list \<Rightarrow> u8 list option" where
  "apdu_of_frame buf =
     (if length buf < 4 \<or> buf ! 0 \<noteq> 0x81 \<or> unat (buf ! 2) * 256 + unat (buf ! 3) \<noteq> length buf then None
      else
        Option.bind (if buf ! 1 = 0x0A \<or> buf ! 1 = 0x0B then Some 4 else if buf ! 1 = 0x04 then Some 10 else None) (\<lambda>pos.
        Option.bind (get_at buf (pos + 1)) (\<lambda>control.
          if buf ! pos \<noteq> 1 \<or> control AND 0x80 \<noteq> 0 then None
          else
            Option.bind (skip_address buf (control AND 0x20 \<noteq> 0) (pos + 2)) (\<lambda>pos1.
            Option.bind (skip_address buf (control AND 0x08 \<noteq> 0) pos1) (\<lambda>pos2.
              let pos3 = (if control AND 0x20 \<noteq> 0 then pos2 + 1 else pos2) in
              if pos3 < length buf then Some (drop pos3 buf) else None)))))"

section \<open>Tags\<close>

record Tag =
  tag_number :: u32
  tag_context :: bool
  tag_opening :: bool
  tag_closing :: bool
  tag_len :: nat

text \<open>The tag and the rest of the buffer behind its header.\<close>

definition tag_length :: "u8 \<Rightarrow> u8 list \<Rightarrow> (nat \<times> u8 list) option" where
  "tag_length lvt buf =
     (if lvt = 5 then
        (case buf of
           [] \<Rightarrow> None
         | b # rest \<Rightarrow>
             if b = 254 then
               (case rest of x # y # rest' \<Rightarrow> Some (unat x * 256 + unat y, rest') | _ \<Rightarrow> None)
             else if b = 255 then
               (case rest of w # x # y # z # rest' \<Rightarrow> Some (unat (u32_of_be w x y z), rest') | _ \<Rightarrow> None)
             else Some (unat b, rest))
      else Some (unat lvt, buf))"

fun parse_tag :: "u8 list \<Rightarrow> (Tag \<times> u8 list) option" where
  "parse_tag [] = None"
| "parse_tag (first # buf) =
     Option.bind
       (if drop_bit 4 first = 15 then (case buf of [] \<Rightarrow> None | b # rest \<Rightarrow> Some (ucast b, rest))
        else Some (ucast (drop_bit 4 first), buf))
       (\<lambda>(num, rest).
         let ctx = (first AND 0x08 \<noteq> 0);
             lvt = first AND 0x07 in
         if ctx \<and> lvt = 6 then
           Some (\<lparr>tag_number = num, tag_context = ctx, tag_opening = True, tag_closing = False, tag_len = 0\<rparr>, rest)
         else if ctx \<and> lvt = 7 then
           Some (\<lparr>tag_number = num, tag_context = ctx, tag_opening = False, tag_closing = True, tag_len = 0\<rparr>, rest)
         else
           map_option (\<lambda>(len, rest').
             (\<lparr>tag_number = num, tag_context = ctx, tag_opening = False, tag_closing = False, tag_len = len\<rparr>, rest'))
             (tag_length lvt rest))"

text \<open>\<^verbatim>\<open>buf.get(pos..pos + len)?\<close> and what follows it.\<close>

definition take_exact :: "nat \<Rightarrow> u8 list \<Rightarrow> (u8 list \<times> u8 list) option" where
  "take_exact n buf = (if n \<le> length buf then Some (take n buf, drop n buf) else None)"

definition read_enum :: "u8 list \<Rightarrow> (u32 \<times> u8 list) option" where
  "read_enum buf =
     Option.bind (parse_tag buf) (\<lambda>(tag, rest).
     Option.bind (take_exact (tag_len tag) rest) (\<lambda>(content, rest').
       Some (shift_in 0 content, rest')))"

definition unsigned_val :: "u8 list \<Rightarrow> u64" where
  "unsigned_val content = shift_in 0 content"

definition signed_val :: "u8 list \<Rightarrow> u64" where
  "signed_val content =
     (case content of
        [] \<Rightarrow> 0
      | b # bs \<Rightarrow> shift_in (if b AND 0x80 \<noteq> 0 then -1 else 0) content)"

section \<open>Replies\<close>

datatype Reply =
  Data "u8 list"
| SegmentAck "u8 list"
| ReplyError string
| Ignore

record Reassembly =
  ra_data :: "u8 list"
  ra_next :: u8

definition Reassembly_default :: Reassembly where
  "Reassembly_default = \<lparr>ra_data = [], ra_next = 0\<rparr>"

definition class_name :: "u32 \<Rightarrow> string" where
  "class_name c =
     (if c = 0 then ''device'' else if c = 1 then ''object'' else if c = 2 then ''property''
      else if c = 3 then ''resources'' else if c = 4 then ''security'' else if c = 5 then ''services''
      else if c = 6 then ''vt'' else if c = 7 then ''communication'' else ''unknown'')"

definition code_name :: "u32 \<Rightarrow> string" where
  "code_name c =
     (if c = 2 then ''configuration-in-progress'' else if c = 9 then ''invalid-data-type''
      else if c = 25 then ''operational-problem'' else if c = 26 then ''optional-functionality-not-supported''
      else if c = 27 then ''read-access-denied'' else if c = 31 then ''unknown-object''
      else if c = 32 then ''unknown-property'' else if c = 37 then ''value-out-of-range''
      else if c = 40 then ''service-request-denied'' else if c = 42 then ''property-is-not-an-array''
      else ''code '' @ show_nat (unat c))"

definition reason_octet :: "u8 list \<Rightarrow> string" where
  "reason_octet apdu = show_nat (unat (if 2 < length apdu then apdu ! 2 else 0))"

definition complex_ack :: "u8 list \<Rightarrow> u8 \<Rightarrow> Reassembly \<Rightarrow> Reply \<times> Reassembly" where
  "complex_ack apdu invoke_id state =
     (if length apdu < 3 \<or> apdu ! 1 \<noteq> invoke_id then (Ignore, state)
      else
        let segmented = (apdu ! 0 AND 0x08 \<noteq> 0);
            more = (apdu ! 0 AND 0x04 \<noteq> 0) in
        if segmented \<and> length apdu < 5 then (Ignore, state)
        else
          let (seq, window, body) = (if segmented then (apdu ! 2, apdu ! 3, drop 4 apdu) else (0, 1, drop 2 apdu)) in
          if segmented \<and> seq \<noteq> ra_next state
          then (SegmentAck [0x42, invoke_id, ra_next state - 1, window], state)
          else
            let body' = (if \<not> segmented \<or> seq = 0 then drop 1 body else body);
                data = ra_data state @ body' in
            if segmented \<and> more
            then (SegmentAck [0x40, invoke_id, seq, window], \<lparr>ra_data = data, ra_next = seq + 1\<rparr>)
            else (Data data, \<lparr>ra_data = [], ra_next = seq + 1\<rparr>))"

definition error_reply :: "u8 list \<Rightarrow> Reply" where
  "error_reply apdu =
     (if length apdu < 3 then ReplyError ''BACnet error (truncated)''
      else
        case read_enum (drop 3 apdu) of
          Some (c, rest) \<Rightarrow>
            (case read_enum rest of
               Some (k, _) \<Rightarrow> ReplyError (''BACnet error from device: '' @ class_name c @ '' / '' @ code_name k)
             | None \<Rightarrow> ReplyError ''BACnet error from device'')
        | None \<Rightarrow> ReplyError ''BACnet error from device'')"

text \<open>\<^verbatim>\<open>apdu[0]\<close> panics on an empty slice.\<close>

definition handle_apdu :: "u8 list \<Rightarrow> u8 \<Rightarrow> Reassembly \<Rightarrow> (Reply \<times> Reassembly, string) outcome" where
  "handle_apdu apdu invoke_id state =
     (if apdu = [] then Panic
      else
        let kind = drop_bit 4 (apdu ! 0) in
        if length apdu < 2 \<or> kind \<noteq> 3 \<and> apdu ! 1 \<noteq> invoke_id then Ok (Ignore, state)
        else if kind = 3 then Ok (complex_ack apdu invoke_id state)
        else if kind = 5 then Ok (error_reply apdu, state)
        else if kind = 6 then Ok (ReplyError (''BACnet reject from device (reason '' @ reason_octet apdu @ '')''), state)
        else if kind = 7 then Ok (ReplyError (''BACnet abort from device (reason '' @ reason_octet apdu @ '')''), state)
        else if kind = 2 then Ok (Data [], state)
        else Ok (Ignore, state))"

section \<open>Decoding application data\<close>

fun top_bit :: "nat \<Rightarrow> nat" where
  "top_bit n = (if n < 2 then 0 else Suc (top_bit (n div 2)))"

declare top_bit.simps [simp del]

text \<open>\<^verbatim>\<open>f32 as f64\<close> on bit patterns: the exponent is rebiased, subnormals become normal.\<close>

definition f64_of_f32 :: "u32 \<Rightarrow> u64" where
  "f64_of_f32 w =
     (let sign = push_bit 32 (ucast (w AND 0x80000000)) :: u64;
          ex = unat (drop_bit 23 w AND 0xFF);
          man = unat (w AND 0x7FFFFF) in
      if ex = 255 then
        sign OR 0x7FF0000000000000 OR (if man = 0 then 0 else 0x0008000000000000 OR push_bit 29 (of_nat man))
      else if ex \<noteq> 0 then sign OR push_bit 52 (of_nat (ex + 896)) OR push_bit 29 (of_nat man)
      else if man = 0 then sign
      else
        let k = top_bit man in
        sign OR push_bit 52 (of_nat (k + 874)) OR push_bit (52 - k) (of_nat (man - 2 ^ k)))"

definition json_number_of :: "'v json_ops \<Rightarrow> u64 \<Rightarrow> 'v" where
  "json_number_of J v = (case j_f64 J v of Some x \<Rightarrow> x | None \<Rightarrow> j_null J)"

definition decode_string :: "u8 list \<Rightarrow> string" where
  "decode_string content =
     (case content of
        [] \<Rightarrow> []
      | encoding # txt \<Rightarrow>
          if encoding = 0 then from_utf8_lossy txt
          else if encoding = 3 then
            string_of_chars (List.map_filter (\<lambda>(a, b, c, d). char_from_u32 (u32_of_be a b c d)) (chunks4 txt))
          else if encoding = 4 then
            string_of_chars (decode_utf16 (map (\<lambda>(a, b). u16_of_be a b) (chunks2 txt)))
          else if encoding = 5 then string_of_chars (map ucast txt)
          else from_utf8_lossy txt)"

definition wildcard :: "u8 \<Rightarrow> string" where
  "wildcard b = (if b = 0xFF then ''*'' else show_nat (unat b))"

definition bit_string :: "'v json_ops \<Rightarrow> u8 list \<Rightarrow> 'v" where
  "bit_string J content =
     (case content of
        [] \<Rightarrow> j_arr J []
      | unused # bytes \<Rightarrow>
          j_arr J (map (\<lambda>i. j_bool J (bytes ! (i div 8) AND drop_bit (i mod 8) 0x80 \<noteq> 0))
            [0..<length bytes * 8 - unat unused]))"

definition hex_string :: "u8 list \<Rightarrow> string" where
  "hex_string content = concat (map show_hex2 content)"

definition be_word :: "u8 list \<Rightarrow> u32" where
  "be_word content = u32_of_be (content ! 0) (content ! 1) (content ! 2) (content ! 3)"

definition decode_application :: "'v json_ops \<Rightarrow> Tag \<Rightarrow> u8 list \<Rightarrow> 'v" where
  "decode_application J tag content =
     (let n = tag_number tag in
      if n = 0 then j_null J
      else if n = 1 then j_bool J (tag_len tag \<noteq> 0)
      else if n = 2 then j_u64 J (unsigned_val content)
      else if n = 3 then j_i64 J (signed_val content)
      else if n = 4 \<and> length content = 4 then json_number_of J (f64_of_f32 (be_word content))
      else if n = 5 \<and> length content = 8 then json_number_of J (shift_in 0 content)
      else if n = 6 then j_str J (hex_string content)
      else if n = 7 then j_str J (decode_string content)
      else if n = 8 then bit_string J content
      else if n = 9 then j_u64 J (unsigned_val content)
      else if n = 10 \<and> length content = 4 then
        j_str J ((if content ! 0 = 0xFF then ''*'' else show_nat (1900 + unat (content ! 0)))
                 @ ''-'' @ wildcard (content ! 1) @ ''-'' @ wildcard (content ! 2))
      else if n = 11 \<and> length content = 4 then
        j_str J (wildcard (content ! 0) @ '':'' @ wildcard (content ! 1) @ '':'' @ wildcard (content ! 2)
                 @ ''.'' @ wildcard (content ! 3))
      else if n = 12 \<and> length content = 4 then
        j_obj J [(''objectType'', object_type_name J (drop_bit 22 (be_word content))),
                 (''instance'', j_u64 J (ucast (be_word content AND 0x3FFFFF)))]
      else j_str J (hex_string content))"

text \<open>
  The loop and the recursion of \<^verbatim>\<open>decode_sequence\<close>, with fuel for both; every round takes at
  least one octet, so one more than the length of the buffer is enough.
\<close>

fun decode_sequence_loop ::
    "'v json_ops \<Rightarrow> nat \<Rightarrow> bool \<Rightarrow> 'v list \<Rightarrow> u8 list \<Rightarrow> ('v list \<times> u8 list, string) outcome" where
  "decode_sequence_loop J 0 is_top vals buf = Diverge"
| "decode_sequence_loop J (Suc n) is_top vals buf =
     (if buf = [] then
        (if is_top then Ok (vals, buf) else Err ''missing closing tag in BACnet value'')
      else
        case parse_tag buf of
          None \<Rightarrow> Err ''truncated BACnet value''
        | Some (tag, rest) \<Rightarrow>
            if tag_closing tag then
              (if is_top then Err ''unbalanced closing tag in BACnet value'' else Ok (vals, buf))
            else if tag_opening tag then
              obind (decode_sequence_loop J n False [] rest) (\<lambda>(inner, rest1).
                case parse_tag rest1 of
                  None \<Rightarrow> Err ''missing closing tag''
                | Some (close, rest2) \<Rightarrow>
                    if \<not> tag_closing close then Err ''missing closing tag in BACnet value''
                    else decode_sequence_loop J n is_top (vals @ [j_arr J inner]) rest2)
            else
              let len = (if \<not> tag_context tag \<and> tag_number tag = 1 then 0 else tag_len tag) in
              case take_exact len rest of
                None \<Rightarrow> Err ''truncated BACnet value''
              | Some (content, rest1) \<Rightarrow>
                  decode_sequence_loop J n is_top
                    (vals @ [if tag_context tag then j_u64 J (unsigned_val content)
                             else decode_application J tag content]) rest1)"

definition decode_sequence ::
    "'v json_ops \<Rightarrow> u8 list \<Rightarrow> bool \<Rightarrow> ('v list \<times> u8 list, string) outcome" where
  "decode_sequence J buf is_top = decode_sequence_loop J (Suc (length buf)) is_top [] buf"

definition read_context_unsigned :: "u32 \<Rightarrow> u8 list \<Rightarrow> (u32 \<times> u8 list) option" where
  "read_context_unsigned num data =
     Option.bind (parse_tag data) (\<lambda>(tag, rest).
       if \<not> tag_context tag \<or> tag_number tag \<noteq> num \<or> tag_opening tag \<or> tag_closing tag then None
       else Option.bind (take_exact (tag_len tag) rest) (\<lambda>(content, rest').
         Some (ucast (unsigned_val content), rest')))"

text \<open>\<^verbatim>\<open>let _ = read_context_unsigned(..)\<close>: the position moves only on success.\<close>

definition skip_context_unsigned :: "u32 \<Rightarrow> u8 list \<Rightarrow> u8 list" where
  "skip_context_unsigned num data =
     (case read_context_unsigned num data of Some (_, rest) \<Rightarrow> rest | None \<Rightarrow> data)"

definition single_or_array :: "'v json_ops \<Rightarrow> 'v list \<Rightarrow> 'v" where
  "single_or_array J vals = (if length vals = 1 then hd vals else j_arr J vals)"

definition decode_read_property_ack ::
    "'v json_ops \<Rightarrow> u8 list \<Rightarrow> u32 \<Rightarrow> u32 \<Rightarrow> u32 \<Rightarrow> ('v, string) outcome" where
  "decode_read_property_ack J data object_type inst property =
     obind (ok_or (parse_tag data) ''empty ReadProperty reply'') (\<lambda>(tag, rest).
       if \<not> tag_context tag \<or> tag_number tag \<noteq> 0 \<or> tag_len tag \<noteq> 4 then Err ''malformed ReadProperty reply''
       else obind (ok_or (take_exact 4 rest) ''truncated ReadProperty reply'') (\<lambda>(oid, rest1).
         let raw = be_word oid in
         if drop_bit 22 raw \<noteq> object_type
            \<or> raw AND 0x3FFFFF \<noteq> inst \<and> \<not> (object_type = 8 \<and> inst = 0x3FFFFF)
         then Err ''ReadProperty reply is for another object''
         else obind (ok_or (read_context_unsigned 1 rest1) ''ReadProperty reply has no property id'') (\<lambda>(prop, rest2).
           if prop \<noteq> property then Err ''ReadProperty reply is for another property''
           else
             let rest3 = skip_context_unsigned 2 rest2 in
             obind (ok_or (parse_tag rest3) ''ReadProperty reply has no value'') (\<lambda>(open_tag, rest4).
               if \<not> tag_opening open_tag \<or> tag_number open_tag \<noteq> 3 then Err ''ReadProperty reply has no value''
               else obind (decode_sequence J rest4 False) (\<lambda>(vals, _). Ok (single_or_array J vals))))))"

section \<open>Change-of-value notifications\<close>

record 'v CovEvent =
  ev_process_id :: u32
  ev_object_type :: u32
  ev_instance :: u32
  ev_time_remaining :: u32
  ev_values :: "(u32 \<times> 'v) list"

definition read_context_object :: "u32 \<Rightarrow> u8 list \<Rightarrow> ((u32 \<times> u32) \<times> u8 list) option" where
  "read_context_object num data =
     Option.bind (parse_tag data) (\<lambda>(tag, rest).
       if \<not> tag_context tag \<or> tag_number tag \<noteq> num \<or> tag_len tag \<noteq> 4 then None
       else Option.bind (take_exact 4 rest) (\<lambda>(oid, rest').
         Some ((drop_bit 22 (be_word oid), be_word oid AND 0x3FFFFF), rest')))"

definition expect_context :: "u32 \<Rightarrow> bool \<Rightarrow> u8 list \<Rightarrow> u8 list option" where
  "expect_context num is_opening data =
     Option.bind (parse_tag data) (\<lambda>(tag, rest).
       if \<not> tag_context tag \<or> tag_number tag \<noteq> num \<or> tag_opening tag \<noteq> is_opening \<or> tag_closing tag = is_opening then None
       else Some rest)"

text \<open>The loop over the reported properties; \<open>None\<close> on malformed data, as the \<^verbatim>\<open>?\<close> of the source.\<close>

fun cov_values ::
    "'v json_ops \<Rightarrow> nat \<Rightarrow> (u32 \<times> 'v) list \<Rightarrow> u8 list \<Rightarrow> ((u32 \<times> 'v) list \<times> u8 list) option" where
  "cov_values J 0 vals data = None"
| "cov_values J (Suc n) vals data =
     (case read_context_unsigned 0 data of
        None \<Rightarrow> Some (vals, data)
      | Some (property, rest) \<Rightarrow>
          Option.bind (expect_context 2 True (skip_context_unsigned 1 rest)) (\<lambda>rest1.
            case decode_sequence J rest1 False of
              Ok (decoded, rest2) \<Rightarrow>
                Option.bind (expect_context 2 False rest2) (\<lambda>rest3.
                  cov_values J n (vals @ [(property, single_or_array J decoded)]) (skip_context_unsigned 3 rest3))
            | _ \<Rightarrow> None))"

definition decode_cov_notification :: "'v json_ops \<Rightarrow> u8 list \<Rightarrow> 'v CovEvent option" where
  "decode_cov_notification J data =
     Option.bind (read_context_unsigned 0 data) (\<lambda>(process_id, d1).
     Option.bind (read_context_object 1 d1) (\<lambda>(_, d2).
     Option.bind (read_context_object 2 d2) (\<lambda>((object_type, inst), d3).
     Option.bind (read_context_unsigned 3 d3) (\<lambda>(time_remaining, d4).
     Option.bind (expect_context 4 True d4) (\<lambda>d5.
     Option.bind (cov_values J (Suc (length d5)) [] d5) (\<lambda>(vals, d6).
     Option.bind (expect_context 4 False d6) (\<lambda>_.
       Some \<lparr>ev_process_id = process_id, ev_object_type = object_type, ev_instance = inst,
             ev_time_remaining = time_remaining, ev_values = vals\<rparr>)))))))"

datatype 'v CovFrame = Notification "'v CovEvent" "u8 list option" | Other

definition classify_cov_frame :: "'v json_ops \<Rightarrow> u8 list \<Rightarrow> 'v CovFrame" where
  "classify_cov_frame J apdu =
     (if apdu \<noteq> [] \<and> drop_bit 4 (apdu ! 0) = 1 \<and> get_at apdu 1 = Some 2 then
        (case decode_cov_notification J (drop 2 apdu) of Some e \<Rightarrow> Notification e None | None \<Rightarrow> Other)
      else if apdu \<noteq> [] \<and> drop_bit 4 (apdu ! 0) = 0 \<and> length apdu > 4 \<and> apdu ! 3 = 1 then
        (case decode_cov_notification J (drop 4 apdu) of
           Some e \<Rightarrow> Notification e (Some [0x20, apdu ! 2, 1])
         | None \<Rightarrow> Other)
      else Other)"

section \<open>Talking to a device\<close>

text \<open>
  The socket: \<open>arm\<close> sets the deadline \<^verbatim>\<open>Instant::now() + apdu_timeout\<close> (in milliseconds),
  \<open>receive\<close> is \<^verbatim>\<open>timeout_at(deadline, recv_from)\<close>. Errors are their text.
\<close>

datatype 'addr event = Datagram "u8 list" 'addr | RecvError string | TimedOut

record ('w, 'addr, 'ip) udp_ops =
  open_udp :: "'addr \<Rightarrow> 'w \<Rightarrow> string option \<times> 'w"
  send :: "u8 list \<Rightarrow> 'addr \<Rightarrow> 'w \<Rightarrow> string option \<times> 'w"
  arm :: "nat \<Rightarrow> 'w \<Rightarrow> 'w"
  receive :: "'w \<Rightarrow> 'addr event \<times> 'w"
  ip_of :: "'addr \<Rightarrow> 'ip"
  show_addr :: "'addr \<Rightarrow> string"

definition MAX_FRAME :: nat where
  "MAX_FRAME = 1600"

text \<open>
  One attempt: receive until the answer, an error or the deadline (\<open>Ok None\<close>). Indexing
  the octets of the final segment panics if the reply is too short.
\<close>

fun await_reply ::
    "('w, 'addr, 'ip) udp_ops \<Rightarrow> nat \<Rightarrow> 'addr \<Rightarrow> u8 \<Rightarrow> Reassembly \<Rightarrow> 'w \<Rightarrow> (u8 list option, string) outcome \<times> 'w" where
  "await_reply U 0 target invoke_id state w = (Diverge, w)"
| "await_reply U (Suc n) target invoke_id state w =
     (case receive U w of
        (TimedOut, w1) \<Rightarrow> (Ok None, w1)
      | (RecvError e, w1) \<Rightarrow> (Err (''BACnet receive from '' @ show_addr U target @ '': '' @ e), w1)
      | (Datagram bytes from, w1) \<Rightarrow>
          if ip_of U from \<noteq> ip_of U target then await_reply U n target invoke_id state w1
          else
            case apdu_of_frame (take MAX_FRAME bytes) of
              None \<Rightarrow> await_reply U n target invoke_id state w1
            | Some apdu \<Rightarrow>
                (case handle_apdu apdu invoke_id state of
                   Ok (Ignore, state') \<Rightarrow> await_reply U n target invoke_id state' w1
                 | Ok (ReplyError e, state') \<Rightarrow> (Err e, w1)
                 | Ok (SegmentAck ack, state') \<Rightarrow>
                     (case send U (frame ack False) from w1 of
                        (Some e, w2) \<Rightarrow> (Err (''BACnet send to '' @ show_addr U target @ '': '' @ e), w2)
                      | (None, w2) \<Rightarrow> await_reply U n target invoke_id state' w2)
                 | Ok (Data data, state') \<Rightarrow>
                     if apdu ! 0 AND 0x08 \<noteq> 0 then
                       (if length apdu < 4 then (Panic, w1)
                        else (Ok (Some data), snd (send U (frame [0x40, invoke_id, apdu ! 2, apdu ! 3] False) from w1)))
                     else (Ok (Some data), w1)
                 | Err e \<Rightarrow> (Err e, w1)
                 | Panic \<Rightarrow> (Panic, w1)
                 | Diverge \<Rightarrow> (Diverge, w1)))"

text \<open>The loop over \<^verbatim>\<open>0..=retries\<close>; the first argument counts the attempts left.\<close>

fun attempts ::
    "nat \<Rightarrow> ('w, 'addr, 'ip) udp_ops \<Rightarrow> nat \<Rightarrow> 'addr \<Rightarrow> u8 \<Rightarrow> u8 list \<Rightarrow> nat \<Rightarrow> u32 \<Rightarrow> 'w
      \<Rightarrow> (u8 list, string) outcome \<times> 'w" where
  "attempts 0 U fuel target invoke_id request timeout retries w =
     (Err (''BACnet timeout waiting for '' @ show_addr U target @ '' ('' @ show_nat timeout @ '' ms, ''
           @ show_nat (unat retries) @ '' retries)''), w)"
| "attempts (Suc k) U fuel target invoke_id request timeout retries w =
     (case send U request target w of
        (Some e, w1) \<Rightarrow> (Err (''BACnet send to '' @ show_addr U target @ '': '' @ e), w1)
      | (None, w1) \<Rightarrow>
          (case await_reply U fuel target invoke_id Reassembly_default (arm U timeout w1) of
             (Ok None, w2) \<Rightarrow> attempts k U fuel target invoke_id request timeout retries w2
           | (Ok (Some data), w2) \<Rightarrow> (Ok data, w2)
           | (Err e, w2) \<Rightarrow> (Err e, w2)
           | (Panic, w2) \<Rightarrow> (Panic, w2)
           | (Diverge, w2) \<Rightarrow> (Diverge, w2)))"

text \<open>\<^verbatim>\<open>NEXT_INVOKE_ID\<close> is threaded through the calls.\<close>

definition confirmed_request ::
    "('w, 'addr, 'ip) udp_ops \<Rightarrow> nat \<Rightarrow> 'addr \<Rightarrow> u8 \<Rightarrow> u8 list \<Rightarrow> nat \<Rightarrow> u32 \<Rightarrow> u8 \<times> 'w
      \<Rightarrow> (u8 list, string) outcome \<times> u8 \<times> 'w" where
  "confirmed_request U fuel target service body timeout retries = (\<lambda>(next_invoke_id, w).
     let invoke_id = next_invoke_id;
         request = encode_confirmed invoke_id service body;
         (r, w') = attempts (Suc (unat retries)) U fuel target invoke_id request timeout retries w in
     (r, next_invoke_id + 1, w'))"

definition read_property ::
    "'v json_ops \<Rightarrow> ('w, 'addr, 'ip) udp_ops \<Rightarrow> nat \<Rightarrow> 'addr \<Rightarrow> u32 \<Rightarrow> u32 \<Rightarrow> u32 \<Rightarrow> nat \<Rightarrow> u32 \<Rightarrow> u8 \<times> 'w
      \<Rightarrow> ('v, string) outcome \<times> u8 \<times> 'w" where
  "read_property J U fuel target object_type inst property timeout retries = (\<lambda>(ids, w).
     case open_udp U target w of
       (Some e, w1) \<Rightarrow> (Err (''BACnet socket: '' @ e), ids, w1)
     | (None, w1) \<Rightarrow>
         let (r, st) = confirmed_request U fuel target 0x0C (read_property_body object_type inst property)
                         timeout retries (ids, w1) in
         (obind r (\<lambda>data. decode_read_property_ack J data object_type inst property), st))"

definition write_property ::
    "('w, 'addr, 'ip) udp_ops \<Rightarrow> nat \<Rightarrow> 'addr \<Rightarrow> u32 \<Rightarrow> u32 \<Rightarrow> u32 \<Rightarrow> WriteValue \<Rightarrow> u8 option \<Rightarrow> nat \<Rightarrow> u32
      \<Rightarrow> u8 \<times> 'w \<Rightarrow> (unit, string) outcome \<times> u8 \<times> 'w" where
  "write_property U fuel target object_type inst property val priority timeout retries = (\<lambda>(ids, w).
     case open_udp U target w of
       (Some e, w1) \<Rightarrow> (Err (''BACnet socket: '' @ e), ids, w1)
     | (None, w1) \<Rightarrow>
         let (r, st) = confirmed_request U fuel target 0x0F
                         (write_property_body object_type inst property val priority) timeout retries (ids, w1) in
         (obind r (\<lambda>_. Ok ()), st))"

record 'addr CovSubscription =
  cov_target :: 'addr
  cov_process_id :: u32
  cov_object_type :: u32
  cov_instance :: u32

definition cov_subscribe ::
    "('w, 'addr, 'ip) udp_ops \<Rightarrow> nat \<Rightarrow> 'addr CovSubscription \<Rightarrow> u32 \<Rightarrow> nat \<Rightarrow> u32 \<Rightarrow> u8 \<times> 'w
      \<Rightarrow> (unit, string) outcome \<times> u8 \<times> 'w" where
  "cov_subscribe U fuel sub lifetime timeout retries st =
     (let (r, st') = confirmed_request U fuel (cov_target sub) 0x05
            (subscribe_cov_body (cov_process_id sub) (cov_object_type sub) (cov_instance sub) False lifetime)
            timeout retries st in
      (obind r (\<lambda>_. Ok ()), st'))"

definition cov_cancel ::
    "('w, 'addr, 'ip) udp_ops \<Rightarrow> nat \<Rightarrow> 'addr CovSubscription \<Rightarrow> nat \<Rightarrow> u8 \<times> 'w \<Rightarrow> u8 \<times> 'w" where
  "cov_cancel U fuel sub timeout st =
     snd (confirmed_request U fuel (cov_target sub) 0x05
       (push_context_unsigned 0 (cov_process_id sub)
        @ push_object_id 1 (cov_object_type sub) (cov_instance sub)) timeout 0 st)"

text \<open>Waiting for the next notification; the deadline was set by the caller.\<close>

fun cov_next ::
    "'v json_ops \<Rightarrow> ('w, 'addr, 'ip) udp_ops \<Rightarrow> nat \<Rightarrow> 'addr CovSubscription \<Rightarrow> 'w
      \<Rightarrow> ('v CovEvent option, string) outcome \<times> 'w" where
  "cov_next J U 0 sub w = (Diverge, w)"
| "cov_next J U (Suc n) sub w =
     (case receive U w of
        (TimedOut, w1) \<Rightarrow> (Ok None, w1)
      | (RecvError e, w1) \<Rightarrow> (Err (''BACnet receive from '' @ show_addr U (cov_target sub) @ '': '' @ e), w1)
      | (Datagram bytes from, w1) \<Rightarrow>
          if ip_of U from \<noteq> ip_of U (cov_target sub) then cov_next J U n sub w1
          else
            case apdu_of_frame (take MAX_FRAME bytes) of
              None \<Rightarrow> cov_next J U n sub w1
            | Some apdu \<Rightarrow>
                (case classify_cov_frame J apdu of
                   Other \<Rightarrow> cov_next J U n sub w1
                 | Notification e ack \<Rightarrow>
                     let w2 = (case ack of None \<Rightarrow> w1 | Some a \<Rightarrow> snd (send U (frame a False) from w1)) in
                     if ev_process_id e = cov_process_id sub \<and> ev_object_type e = cov_object_type sub
                        \<and> ev_instance e = cov_instance sub
                     then (Ok (Some e), w2)
                     else cov_next J U n sub w2))"

end
