(* ===== verification/Bacnet_Correct.thy ===== *)
theory Bacnet_Correct
  imports Bacnet "HOL-Library.Code_Target_Nat"
begin

text \<open>
  Properties of the BACnet client: tags, frames and values survive encoding and decoding,
  the decoders are total, segmented replies are reassembled, and a read returns what the
  device sent whatever other traffic arrives. The laws of the socket are the locale
  \<open>udp_socket\<close>.
\<close>

section \<open>Tags\<close>

lemma u8_below_16: "n < 16 \<Longrightarrow> n \<in> set (map of_nat [0..<16])" for n :: u8
proof -
  assume "n < 16"
  then have "unat n < 16" by (simp add: word_less_nat_alt)
  then have "unat n \<in> set [0..<16]" by simp
  then have "of_nat (unat n) \<in> (of_nat :: nat \<Rightarrow> u8) ` set [0..<16]" by (rule imageI)
  then show ?thesis by simp
qed

definition tag_octet :: "u8 \<Rightarrow> bool \<Rightarrow> u8 \<Rightarrow> u8" where
  "tag_octet n c l = (push_bit 4 n OR (if c then 0x08 else 0)) OR l"

lemma tag_octet_table:
  "\<forall>n \<in> set (map of_nat [0..<16]). \<forall>c \<in> {True, False}. \<forall>l \<in> set (map of_nat [0..<6]).
     drop_bit 4 (tag_octet n c l) = n \<and> (tag_octet n c l AND 0x08 \<noteq> 0) = c \<and> tag_octet n c l AND 0x07 = l"
  by code_simp

lemma tag_octet_parts:
  assumes "n < 16" "l < 6"
  shows "drop_bit 4 (tag_octet n c (of_nat l)) = n" "(tag_octet n c (of_nat l) AND 0x08 \<noteq> 0) = c"
    "tag_octet n c (of_nat l) AND 0x07 = of_nat l"
proof -
  have "of_nat l \<in> set (map of_nat [0..<6] :: u8 list)" using assms(2) by auto
  then show "drop_bit 4 (tag_octet n c (of_nat l)) = n" "(tag_octet n c (of_nat l) AND 0x08 \<noteq> 0) = c"
    "tag_octet n c (of_nat l) AND 0x07 = of_nat l"
    using tag_octet_table u8_below_16 [OF assms(1)] by blast+
qed

lemma push_tag_octets:
  "push_tag n c len = tag_octet (if n < 15 then ucast n else 15) c (of_nat (if len < 5 then len else 5))
     # (if n < 15 then [] else [ucast n])
     @ (if len \<ge> 5 then (if len < 254 then [of_nat len] else 254 # u16_to_be (of_nat len)) else [])"
  by (cases "n < 15") (auto simp: push_tag_def tag_octet_def Let_def not_less)

lemma tag_length_push:
  assumes "len < 65536"
  shows "tag_length (of_nat (if len < 5 then len else 5))
      ((if len \<ge> 5 then (if len < 254 then [of_nat len] else 254 # u16_to_be (of_nat len)) else []) @ rest)
    = Some (len, rest)"
proof -
  have two: "unat (ucast (drop_bit 8 (of_nat len :: u16)) :: u8) * 256 + unat (ucast (of_nat len :: u16) :: u8) = len"
  proof -
    have "unat (drop_bit 8 (of_nat len :: u16)) = len div 256"
      using assms by (simp add: drop_bit_eq_div unat_div unat_of_nat)
    then have "unat (ucast (drop_bit 8 (of_nat len :: u16)) :: u8) = len div 256"
      using assms by (simp add: unsigned_ucast_eq take_bit_eq_mod)
    moreover have "unat (ucast (of_nat len :: u16) :: u8) = len mod 256"
      using assms by (simp add: unsigned_ucast_eq take_bit_eq_mod unat_of_nat)
    ultimately show ?thesis by simp
  qed
  have small: "(of_nat len :: u8) \<noteq> 254 \<and> (of_nat len :: u8) \<noteq> 255" if "len < 254"
    using that unat_of_nat_u8 [of len] by (auto dest: arg_cong [of _ _ unat])
  consider "len < 5" | "5 \<le> len" "len < 254" | "254 \<le> len" by linarith
  then show ?thesis
  proof cases
    case 1
    then have "unat (of_nat len :: u8) = len" by (simp add: unat_of_nat_u8)
    moreover from this 1 have "(of_nat len :: u8) \<noteq> 5" by (auto dest: arg_cong [of _ _ unat])
    ultimately show ?thesis using 1 by (simp add: tag_length_def)
  next
    case 2
    then show ?thesis using small by (simp add: tag_length_def unat_of_nat_u8)
  next
    case 3
    then show ?thesis using two by (simp add: tag_length_def u16_to_be_def)
  qed
qed

lemma unat_ucast_u8: "n < 256 \<Longrightarrow> unat (ucast n :: u8) = unat n" for n :: u32
  by (simp add: unsigned_ucast_eq unsigned_take_bit_eq word_less_nat_alt take_bit_nat_eq_self)

lemma ucast_u8_u32: "n < 256 \<Longrightarrow> ucast (ucast n :: u8) = n" for n :: u32
  by (rule word_unat_eq_iff [THEN iffD2])
     (simp add: unat_ucast_u8 unsigned_ucast_eq [of "ucast n :: u8"] unsigned_take_bit_eq take_bit_nat_eq_self word_less_nat_alt)

lemma parse_push_tag:
  assumes "n < 256" "len < 65536"
  shows "parse_tag (push_tag n c len @ rest)
    = Some (\<lparr>tag_number = n, tag_context = c, tag_opening = False, tag_closing = False, tag_len = len\<rparr>, rest)"
proof -
  define l where "l = (if len < 5 then len else 5)"
  define oct where "oct = tag_octet (if n < 15 then ucast n else 15) c (of_nat l)"
  define ls where "ls = (if len \<ge> 5 then (if len < 254 then [of_nat len] else 254 # u16_to_be (of_nat len)) else []) @ rest"
  have l: "l < 6" by (simp add: l_def)
  have lvt: "(of_nat l :: u8) \<noteq> 6 \<and> (of_nat l :: u8) \<noteq> 7"
    using unat_of_nat_u8 [of l] l by (auto dest: arg_cong [of _ _ unat])
  have small: "(ucast n :: u8) < 15" if "n < 15"
    using that unat_ucast_u8 [OF assms(1)] by (simp add: word_less_nat_alt)
  have n16: "(if n < 15 then ucast n else 15 :: u8) < 16"
    using small by (auto simp: word_less_nat_alt)
  have oct: "drop_bit 4 oct = (if n < 15 then ucast n else 15)" "(oct AND 0x08 \<noteq> 0) = c" "oct AND 0x07 = of_nat l"
    unfolding oct_def by (rule tag_octet_parts [OF n16 l])+
  have len: "tag_length (of_nat l) ls = Some (len, rest)"
    unfolding l_def ls_def by (rule tag_length_push [OF assms(2)])
  have split: "push_tag n c len @ rest = oct # (if n < 15 then [] else [ucast n]) @ ls"
    by (simp add: push_tag_octets oct_def l_def ls_def)
  show ?thesis
  proof (cases "n < 15")
    case True
    with small have "(ucast n :: u8) \<noteq> 15" by auto
    then show ?thesis
      unfolding split using True oct lvt len ucast_u8_u32 [OF assms(1)] by (simp add: Let_def)
  next
    case False
    then show ?thesis
      unfolding split using oct lvt len ucast_u8_u32 [OF assms(1)] by (simp add: Let_def)
  qed
qed

section \<open>Values\<close>

text \<open>What a written value reads back as.\<close>

fun json_of :: "'v json_ops \<Rightarrow> WriteValue \<Rightarrow> 'v" where
  "json_of J WNull = j_null J"
| "json_of J (WBoolean b) = j_bool J b"
| "json_of J (WUnsigned v) = j_u64 J v"
| "json_of J (WSigned v) = j_i64 J v"
| "json_of J (WReal v) = json_number_of J (f64_of_f32 v)"
| "json_of J (WDouble v) = json_number_of J v"
| "json_of J (WEnumerated v) = j_u64 J (ucast v)"
| "json_of J (WString s) = j_str J s"

fun writable :: "WriteValue \<Rightarrow> bool" where
  "writable (WString s) \<longleftrightarrow> utf8_string s \<and> length s < 65535"
| "writable _ \<longleftrightarrow> True"

lemma shift_in_minimal: "shift_in 0 (minimal bs k) = shift_in 0 bs"
proof -
  have "shift_in 0 (drop (length (takeWhile (\<lambda>b. b = 0) (take m bs))) bs) = shift_in 0 bs" for m
  proof (induction bs arbitrary: m)
    case (Cons b bs)
    then show ?case by (cases m) auto
  qed simp
  then show ?thesis by (simp add: minimal_def)
qed

lemma length_minimal: "length (minimal bs k) \<le> length bs"
  by (simp add: minimal_def)

lemma shift_in_u32_wide: "shift_in 0 (u32_to_be w) = (ucast w :: u64)"
proof (rule bit_word_eqI)
  fix n :: nat
  assume n: "n < LENGTH(64)"
  have "n < 8 \<or> 8 \<le> n \<and> n < 16 \<or> 16 \<le> n \<and> n < 24 \<or> 24 \<le> n \<and> n < 32 \<or> 32 \<le> n" by arith
  with n show "bit (shift_in 0 (u32_to_be w) :: u64) n = bit (ucast w :: u64) n"
    by (elim disjE) (auto simp: u32_to_be_def bit_simps dest: bit_imp_le_length)
qed

lemma signed_trim: "signed_val (trim_sign bs) = signed_val bs"
proof (induction bs rule: trim_sign.induct)
  case (1 a b bs)
  show ?case
  proof (cases "a = 0x00 \<and> b AND 0x80 = 0 \<or> a = 0xFF \<and> b AND 0x80 \<noteq> 0")
    case True
    then have "signed_val (b # bs) = signed_val (a # b # bs)"
      by (auto simp: signed_val_def shift_in_leading_ones shift_in_leading_zero simp del: shift_in_simps)
    with 1 True show ?thesis by simp
  qed auto
qed simp_all

lemma signed_u64: "signed_val (u64_to_be v) = v"
  using shift_in_u64 [of _ v] by (simp add: signed_val_def u64_to_be_def)

lemma length_trim_sign: "length (trim_sign bs) \<le> length bs"
  by (induction bs rule: trim_sign.induct) auto

lemma be_word_u32: "be_word (u32_to_be v) = v"
  by (simp add: be_word_def u32_to_be_def wire_simps)

lemma decode_string_utf8: "utf8_string s \<Longrightarrow> decode_string (0 # as_bytes s) = s"
  by (simp add: decode_string_def from_utf8_lossy_id)

lemma take_exact_append: "take_exact (length xs) (xs @ ys) = Some (xs, ys)"
  by (simp add: take_exact_def)

lemma sequence_step_tagged:
  assumes "n < 256" "length content < 65536" "n \<noteq> 1"
  shows "decode_sequence_loop J (Suc k) is_top vals (push_tag n False (length content) @ content @ rest)
    = decode_sequence_loop J k is_top
        (vals @ [decode_application J \<lparr>tag_number = n, tag_context = False, tag_opening = False, tag_closing = False,
                                       tag_len = length content\<rparr> content]) rest"
proof -
  have "push_tag n False (length content) \<noteq> []" by (simp add: push_tag_octets)
  then show ?thesis
    using parse_push_tag [OF assms(1,2), of False "content @ rest"] assms(3) take_exact_append [of content rest]
    by simp
qed

lemma parse_bool_tag:
  "parse_tag ((0x10 OR (if b then 1 else 0)) # rest)
     = Some (\<lparr>tag_number = 1, tag_context = False, tag_opening = False, tag_closing = False,
             tag_len = (if b then 1 else 0)\<rparr>, rest)"
  by (cases b) (simp_all add: tag_length_def)

lemma sequence_step:
  assumes "writable v"
  shows "decode_sequence_loop J (Suc k) is_top vals (push_application v @ rest)
    = decode_sequence_loop J k is_top (vals @ [json_of J v]) rest"
proof (cases v)
  case WNull
  then show ?thesis by (simp add: tag_length_def take_exact_def decode_application_def)
next
  case (WBoolean b)
  then show ?thesis
    using parse_bool_tag [of b rest] by (cases b) (simp_all add: take_exact_def decode_application_def)
next
  case (WUnsigned u)
  have "length (minimal (u64_to_be u) 1) < 65536" using length_minimal [of "u64_to_be u" 1] by simp
  with WUnsigned show ?thesis
    using sequence_step_tagged [of 2 "minimal (u64_to_be u) 1" J k is_top vals rest]
    by (simp add: decode_application_def unsigned_val_def shift_in_minimal shift_in_u64 Let_def del: decode_sequence_loop.simps)
next
  case (WSigned i)
  have "length (trim_sign (u64_to_be i)) < 65536" using length_trim_sign [of "u64_to_be i"] by simp
  with WSigned show ?thesis
    using sequence_step_tagged [of 3 "trim_sign (u64_to_be i)" J k is_top vals rest]
    by (simp add: decode_application_def signed_trim signed_u64 Let_def del: decode_sequence_loop.simps)
next
  case (WReal r)
  then show ?thesis
    using sequence_step_tagged [of 4 "u32_to_be r" J k is_top vals rest]
    by (simp add: decode_application_def be_word_u32 del: decode_sequence_loop.simps)
next
  case (WDouble r)
  then show ?thesis
    using sequence_step_tagged [of 5 "u64_to_be r" J k is_top vals rest]
    by (simp add: decode_application_def shift_in_u64 del: decode_sequence_loop.simps)
next
  case (WEnumerated e)
  have "length (minimal (u32_to_be e) 1) < 65536" using length_minimal [of "u32_to_be e" 1] by simp
  with WEnumerated show ?thesis
    using sequence_step_tagged [of 9 "minimal (u32_to_be e) 1" J k is_top vals rest]
    by (simp add: decode_application_def unsigned_val_def shift_in_minimal shift_in_u32_wide Let_def
        del: decode_sequence_loop.simps)
next
  case (WString s)
  with assms have "length (0 # as_bytes s) < 65536" by simp
  with WString assms show ?thesis
    using sequence_step_tagged [of 7 "0 # as_bytes s" J k is_top vals rest]
    by (simp add: decode_application_def decode_string_utf8 del: decode_sequence_loop.simps)
qed

lemma push_application_nonempty: "push_application v \<noteq> []"
  by (cases v) (simp_all add: push_tag_octets Let_def)

lemma sequence_values:
  assumes "list_all writable vs" "length vs \<le> k"
  shows "decode_sequence_loop J k is_top vals (concat (map push_application vs) @ rest)
    = decode_sequence_loop J (k - length vs) is_top (vals @ map (json_of J) vs) rest"
  using assms
proof (induction vs arbitrary: k vals)
  case (Cons v vs)
  then obtain k' where "k = Suc k'" by (cases k) auto
  with Cons sequence_step [of v J k' is_top vals "concat (map push_application vs) @ rest"] show ?case
    by (simp del: decode_sequence_loop.simps)
qed simp

lemma length_concat_push: "length vs \<le> length (concat (map push_application vs))"
proof (induction vs)
  case (Cons v vs)
  then show ?case using push_application_nonempty [of v] by (cases "push_application v") auto
qed simp

lemma decode_sequence_values:
  assumes "list_all writable vs"
  shows "decode_sequence J (concat (map push_application vs)) True = Ok (map (json_of J) vs, [])"
proof -
  let ?bs = "concat (map push_application vs)"
  have "length vs \<le> Suc (length ?bs)" using length_concat_push [of vs] by simp
  from sequence_values [OF assms this, of J True "[]" "[]"]
  have "decode_sequence J ?bs True = decode_sequence_loop J (Suc (length ?bs) - length vs) True (map (json_of J) vs) []"
    by (simp add: decode_sequence_def del: decode_sequence_loop.simps)
  moreover have "Suc (length ?bs) - length vs = Suc (length ?bs - length vs)" using length_concat_push [of vs] by simp
  ultimately show ?thesis by simp
qed

section \<open>Frames and replies\<close>

lemma unat_be_u16: "n < 65536 \<Longrightarrow>
  unat (u16_to_be (of_nat n) ! 0) * 256 + unat (u16_to_be (of_nat n) ! 1) = n"
  using tag_length_push [of n "[]"]
  by (cases "n < 254") (auto simp: u16_to_be_def tag_length_def unsigned_ucast_eq unsigned_take_bit_eq
      drop_bit_eq_div unat_div unat_of_nat take_bit_eq_mod split: if_splits)

lemma apdu_of_frame_frame:
  assumes "apdu \<noteq> []" "length apdu + 6 < 65536"
  shows "apdu_of_frame (frame apdu er) = Some apdu"
proof -
  obtain x y where be: "u16_to_be (of_nat (length apdu + 6)) = [x, y]" by (simp add: u16_to_be_def)
  with unat_be_u16 [OF assms(2)] have len: "unat x * 256 + unat y = length apdu + 6" by simp
  have f: "frame apdu er = 0x81 # 0x0A # x # y # 1 # (if er then 4 else 0) # apdu"
    using be by (simp add: frame_def)
  show ?thesis
    unfolding f apdu_of_frame_def using len assms(1)
    by (simp add: get_at_def skip_address_def)
qed

lemma parse_closing: "parse_tag (0x3F # rest) =
    Some (\<lparr>tag_number = 3, tag_context = True, tag_opening = False, tag_closing = True, tag_len = 0\<rparr>, rest)"
  by simp

lemma parse_opening: "parse_tag (0x3E # rest) =
    Some (\<lparr>tag_number = 3, tag_context = True, tag_opening = True, tag_closing = False, tag_len = 0\<rparr>, rest)"
  by simp

lemma length_context_unsigned: "4 - length (takeWhile (\<lambda>b. b = 0) (take 3 (u32_to_be v)))
    = length (drop (length (takeWhile (\<lambda>b. b = 0) (take 3 (u32_to_be v)))) (u32_to_be v))"
  by simp

lemma push_context_unsigned_minimal:
  "push_context_unsigned n v = push_tag n True (length (minimal (u32_to_be v) 1)) @ minimal (u32_to_be v) 1"
  by (simp add: push_context_unsigned_def minimal_def Let_def)

lemma read_push_context_unsigned:
  assumes "n < 256"
  shows "read_context_unsigned n (push_context_unsigned n v @ rest) = Some (v, rest)"
proof -
  let ?c = "minimal (u32_to_be v) 1"
  have "length ?c < 65536" using length_minimal [of "u32_to_be v" 1] by simp
  moreover have "(ucast (ucast v :: u64) :: u32) = v"
    by (rule bit_word_eqI) (simp add: bit_simps)
  ultimately show ?thesis
    using parse_push_tag [OF assms, of "length ?c" True "?c @ rest"]
    by (simp add: read_context_unsigned_def push_context_unsigned_minimal take_exact_append unsigned_val_def
        shift_in_minimal shift_in_u32_wide)
qed

lemma take_bit_small: "unat w < 2 ^ k \<Longrightarrow> take_bit k w = w" for w :: u32
  by (simp add: word_unat_eq_iff unsigned_take_bit_eq take_bit_nat_eq_self)

lemma bit_small: "unat w < 2 ^ k \<Longrightarrow> bit w m \<Longrightarrow> m < k" for w :: u32
  using take_bit_small [of w k] bit_take_bit_iff [of k w m] by metis

lemma mask_22: "x AND 0x3FFFFF = take_bit 22 x" for x :: u32
  by (simp add: take_bit_eq_mask mask_eq_exp_minus_1)

lemma object_id_parts:
  fixes ot i :: u32
  assumes "ot < 1024" "i < 0x400000"
  shows "drop_bit 22 (push_bit 22 ot OR (i AND 0x3FFFFF)) = ot"
    "(push_bit 22 ot OR (i AND 0x3FFFFF)) AND 0x3FFFFF = i"
proof -
  have ot: "unat ot < 2 ^ 10" and i: "unat i < 2 ^ 22" using assms by (simp_all add: word_less_nat_alt)
  show "drop_bit 22 (push_bit 22 ot OR (i AND 0x3FFFFF)) = ot"
    unfolding mask_22 by (rule bit_word_eqI) (auto simp: bit_simps dest: bit_small [OF ot])
  show "(push_bit 22 ot OR (i AND 0x3FFFFF)) AND 0x3FFFFF = i"
    unfolding mask_22 by (rule bit_word_eqI) (auto simp: bit_simps dest: bit_small [OF i])
qed

text \<open>A device's answer to ReadProperty: object, property, and the values between tags 3E and 3F.\<close>

definition read_property_reply :: "u32 \<Rightarrow> u32 \<Rightarrow> u32 \<Rightarrow> WriteValue list \<Rightarrow> u8 list" where
  "read_property_reply object_type inst property vs =
     read_property_body object_type inst property @ [0x3E] @ concat (map push_application vs) @ [0x3F]"

lemma decode_sequence_closed:
  assumes "list_all writable vs"
  shows "decode_sequence J (concat (map push_application vs) @ [0x3F]) False = Ok (map (json_of J) vs, [0x3F])"
proof -
  let ?bs = "concat (map push_application vs)"
  have le: "length vs \<le> length ?bs" by (rule length_concat_push)
  from sequence_values [OF assms, of "Suc (length (?bs @ [0x3F]))" J False "[]" "[0x3F]"] le
  have "decode_sequence J (?bs @ [0x3F]) False
      = decode_sequence_loop J (Suc (length ?bs - length vs + 1)) False (map (json_of J) vs) [0x3F]"
    by (simp add: decode_sequence_def Suc_diff_le del: decode_sequence_loop.simps)
  then show ?thesis by simp
qed

lemma skip_context_opening: "skip_context_unsigned 2 (0x3E # rest) = 0x3E # rest"
  by (simp add: skip_context_unsigned_def read_context_unsigned_def)

lemma parse_object_id:
  "parse_tag (push_object_id 0 ot i @ rest) =
     Some (\<lparr>tag_number = 0, tag_context = True, tag_opening = False, tag_closing = False, tag_len = 4\<rparr>,
           u32_to_be (push_bit 22 ot OR (i AND 0x3FFFFF)) @ rest)"
  using parse_push_tag [of 0 4 True "u32_to_be (push_bit 22 ot OR (i AND 0x3FFFFF)) @ rest"]
  by (simp add: push_object_id_def)

lemma take_exact_u32: "take_exact 4 (u32_to_be w @ rest) = Some (u32_to_be w, rest)"
  using take_exact_append [of "u32_to_be w" rest] by simp

lemma decode_read_property_reply:
  assumes "ot < 1024" "i < 0x400000" "list_all writable vs"
  shows "decode_read_property_ack J (read_property_reply ot i pr vs) ot i pr
    = Ok (single_or_array J (map (json_of J) vs))"
proof -
  define raw where "raw = push_bit 22 ot OR (i AND 0x3FFFFF)"
  have raw: "drop_bit 22 raw = ot" "raw AND 0x3FFFFF = i"
    unfolding raw_def by (rule object_id_parts [OF assms(1,2)])+
  note pid = read_push_context_unsigned [of 1 pr "0x3E # concat (map push_application vs) @ [0x3F]"]
  show ?thesis
    unfolding decode_read_property_ack_def read_property_reply_def read_property_body_def append_assoc
      parse_object_id raw_def [symmetric]
    using pid decode_sequence_closed [OF assms(3), of J]
    by (simp add: take_exact_u32 be_word_u32 raw Let_def skip_context_opening parse_opening del: parse_tag.simps)
qed

section \<open>The decoders are total\<close>

lemma tag_length_shorter: "tag_length l buf = Some (n, rest) \<Longrightarrow> length rest \<le> length buf"
  by (auto simp: tag_length_def split: if_splits list.splits)

lemma parse_tag_shorter: "parse_tag buf = Some (tag, rest) \<Longrightarrow> length rest < length buf"
  by (cases buf) (auto simp: Let_def bind_eq_Some_conv dest!: tag_length_shorter split: if_splits list.splits)

lemma take_exact_shorter: "take_exact n buf = Some (c, rest) \<Longrightarrow> length rest \<le> length buf"
  by (auto simp: take_exact_def split: if_splits)

definition settled :: "nat \<Rightarrow> ('v list \<times> u8 list, string) outcome \<Rightarrow> bool" where
  "settled n r \<longleftrightarrow> (\<exists>e. r = Err e) \<or> (\<exists>vs rest. r = Ok (vs, rest) \<and> length rest \<le> n)"

lemma settled_simps [simp]: "settled n (Err e)" "settled n (Ok (vs, rest)) \<longleftrightarrow> length rest \<le> n"
  by (simp_all add: settled_def)

lemma settled_mono: "settled m r \<Longrightarrow> m \<le> n \<Longrightarrow> settled n r"
  by (auto simp: settled_def)

lemma decode_sequence_loop_total: "length buf < n \<Longrightarrow> settled (length buf) (decode_sequence_loop J n is_top vals buf)"
proof (induction n arbitrary: is_top vals buf)
  case (Suc n)
  show ?case
  proof (cases "buf = []")
    case False
    show ?thesis
    proof (cases "parse_tag buf")
      case (Some p)
      obtain tag rest where p: "p = (tag, rest)" by (cases p)
      have rest: "length rest < length buf" using parse_tag_shorter Some p by blast
      have next_round: "settled (length buf) (decode_sequence_loop J n t v r)" if "length r \<le> length rest" for t v r
        using Suc.IH [of r t v] Suc.prems that rest by (auto intro: settled_mono)
      consider "tag_closing tag" | "\<not> tag_closing tag" "tag_opening tag" | "\<not> tag_closing tag" "\<not> tag_opening tag" by blast
      then show ?thesis
      proof cases
        case 1
        with False Some p show ?thesis by simp
      next
        case 2
        have "settled (length rest) (decode_sequence_loop J n False [] rest)" using Suc rest by simp
        with 2 False Some p next_round show ?thesis
          by (auto simp: settled_def [of "length rest"] split: option.split dest!: parse_tag_shorter)
      next
        case 3
        with False Some p next_round show ?thesis
          by (auto simp: Let_def split: option.split dest!: take_exact_shorter)
      qed
    qed (use False in simp)
  qed simp
qed simp

lemma decode_sequence_total: "settled (length buf) (decode_sequence J buf is_top)"
  unfolding decode_sequence_def by (rule decode_sequence_loop_total) simp

lemma cov_read_shorter:
  "read_context_unsigned k buf = Some (v, rest) \<Longrightarrow> length rest < length buf"
  by (auto simp: read_context_unsigned_def bind_eq_Some_conv dest!: parse_tag_shorter take_exact_shorter split: if_splits)

lemma skip_context_shorter: "length (skip_context_unsigned k buf) \<le> length buf"
  by (auto simp: skip_context_unsigned_def dest: cov_read_shorter split: option.split)

lemma expect_context_shorter: "expect_context k o' buf = Some rest \<Longrightarrow> length rest < length buf"
  by (auto simp: expect_context_def bind_eq_Some_conv dest!: parse_tag_shorter split: if_splits)

text \<open>The fuel of \<open>cov_values\<close> does not matter once it exceeds the length of the data.\<close>

lemma cov_values_fuel:
  "length data < n \<Longrightarrow> length data < m \<Longrightarrow> cov_values J n vals data = cov_values J m vals data"
proof (induction n arbitrary: m vals data)
  case (Suc n)
  then obtain m' where m: "m = Suc m'" by (cases m) auto
  show ?case
  proof (cases "read_context_unsigned 0 data")
    case (Some p)
    obtain property rest where p: "p = (property, rest)" by (cases p)
    have r: "length rest < length data" using cov_read_shorter Some p by blast
    have "cov_values J n v d = cov_values J m' v d" if "length d \<le> length rest" for v d
      using Suc.IH [of d m' v] Suc.prems m that r by simp
    moreover have "length (skip_context_unsigned 3 rest3) \<le> length rest"
      if "expect_context 2 True (skip_context_unsigned 1 rest) = Some rest1"
        "decode_sequence J rest1 False = Ok (decoded, rest2)" "expect_context 2 False rest2 = Some rest3"
      for rest1 decoded rest2 rest3
      using expect_context_shorter [OF that(1)] expect_context_shorter [OF that(3)] skip_context_shorter [of 1 rest]
        skip_context_shorter [of 3 rest3] decode_sequence_total [of rest1 J False] that(2) by simp
    ultimately show ?thesis
      using Some p m by (auto split: outcome.split intro!: Option.bind_cong)
  qed (simp add: m)
qed simp

section \<open>Reassembly\<close>

text \<open>
  Segment \<open>k\<close> of a reply: the header octets, and the service choice in front of the first
  body. \<open>feed\<close> hands a sequence of APDUs to \<^verbatim>\<open>handle_apdu\<close>.
\<close>

definition segment :: "u8 \<Rightarrow> u8 \<Rightarrow> u8 \<Rightarrow> bool \<Rightarrow> nat \<Rightarrow> u8 list \<Rightarrow> u8 list" where
  "segment iid window service mor k body =
     [if mor then 0x3C else 0x38, iid, of_nat k, window] @ (if k = 0 then service # body else body)"

fun segments :: "u8 \<Rightarrow> u8 \<Rightarrow> u8 \<Rightarrow> nat \<Rightarrow> u8 list list \<Rightarrow> u8 list list" where
  "segments iid window service k [] = []"
| "segments iid window service k (b # bs) =
     segment iid window service (bs \<noteq> []) k b # segments iid window service (Suc k) bs"

fun feed :: "u8 \<Rightarrow> u8 list list \<Rightarrow> Reassembly \<Rightarrow> Reply list \<times> Reassembly" where
  "feed iid [] state = ([], state)"
| "feed iid (a # as) state =
     (case handle_apdu a iid state of
        Ok (r, state') \<Rightarrow> (let (rs, s) = feed iid as state' in (r # rs, s))
      | _ \<Rightarrow> ([], state))"

lemma handle_complex:
  "drop_bit 4 a = 3 \<Longrightarrow> handle_apdu (a # i # rest) iid st = Ok (complex_ack (a # i # rest) iid st)"
  by (cases rest) (simp_all add: handle_apdu_def complex_ack_def Let_def)

lemma complex_ack_segment:
  assumes "a AND 0x08 \<noteq> 0"
  shows "complex_ack (a # iid # seq # window # b # body) iid st =
    (if seq \<noteq> ra_next st then (SegmentAck [0x42, iid, ra_next st - 1, window], st)
     else
       let data = ra_data st @ (if seq = 0 then body else b # body) in
       if a AND 0x04 \<noteq> 0 then (SegmentAck [0x40, iid, seq, window], \<lparr>ra_data = data, ra_next = seq + 1\<rparr>)
       else (Data data, \<lparr>ra_data = [], ra_next = seq + 1\<rparr>))"
  using assms by (simp add: complex_ack_def Let_def)

lemma segment_bits:
  "drop_bit 4 (0x3C :: u8) = 3" "drop_bit 4 (0x38 :: u8) = 3" "(0x3C :: u8) AND 0x08 \<noteq> 0" "(0x38 :: u8) AND 0x08 \<noteq> 0"
  "(0x3C :: u8) AND 0x04 \<noteq> 0" "(0x38 :: u8) AND 0x04 = 0"
  by code_simp+

lemma segment_octet:
  "drop_bit 4 (if mor then 0x3C else 0x38 :: u8) = 3" "(if mor then 0x3C else 0x38 :: u8) AND 0x08 \<noteq> 0"
  "((if mor then 0x3C else 0x38 :: u8) AND 0x04 \<noteq> 0) = mor"
  by (cases mor, simp_all only: if_True if_False segment_bits not_True_eq_False simp_thms)+

lemma handle_segment_any:
  assumes "body \<noteq> []"
  shows "handle_apdu (segment iid window service mor k body) iid st =
    Ok (if of_nat k \<noteq> ra_next st then (SegmentAck [0x42, iid, ra_next st - 1, window], st)
        else
          let data = ra_data st @ (if k \<noteq> 0 \<and> (of_nat k :: u8) = 0 then tl body else body) in
          if mor then (SegmentAck [0x40, iid, of_nat k, window], \<lparr>ra_data = data, ra_next = of_nat (Suc k)\<rparr>)
          else (Data data, \<lparr>ra_data = [], ra_next = of_nat (Suc k)\<rparr>))"
proof -
  define a :: u8 where "a = (if mor then 0x3C else 0x38)"
  have a: "drop_bit 4 a = 3" "a AND 0x08 \<noteq> 0" "(a AND 0x04 \<noteq> 0) = mor"
    unfolding a_def by (rule segment_octet)+
  obtain b bs where body: "body = b # bs" using assms by (cases body) auto
  show ?thesis
  proof (cases "k = 0")
    case True
    then have "segment iid window service mor k body = a # iid # of_nat k # window # service # body"
      by (simp add: segment_def a_def)
    with a True show ?thesis by (simp add: handle_complex complex_ack_segment Let_def)
  next
    case False
    then have "segment iid window service mor k body = a # iid # of_nat k # window # b # bs"
      by (simp add: segment_def a_def body)
    with a False body show ?thesis by (simp add: handle_complex complex_ack_segment Let_def add.commute)
  qed
qed

lemma handle_segment:
  assumes "body \<noteq> []" "ra_next st = of_nat k" "\<not> (k \<noteq> 0 \<and> (of_nat k :: u8) = 0)"
  shows "handle_apdu (segment iid window service mor k body) iid st =
    Ok (if mor then (SegmentAck [0x40, iid, of_nat k, window],
                     \<lparr>ra_data = ra_data st @ body, ra_next = of_nat (Suc k)\<rparr>)
        else (Data (ra_data st @ body), \<lparr>ra_data = [], ra_next = of_nat (Suc k)\<rparr>))"
  unfolding handle_segment_any [OF assms(1)] Let_def using assms(2,3) by auto

lemma feed_Ok: "handle_apdu a iid st = Ok (r, st') \<Longrightarrow> feed iid (a # as) st = (r # fst (feed iid as st'), snd (feed iid as st'))"
  by (simp add: case_prod_unfold Let_def)

lemma of_nat_u8_nonzero: "k \<noteq> 0 \<Longrightarrow> k < 256 \<Longrightarrow> (of_nat k :: u8) \<noteq> 0"
  using unat_of_nat_u8 [of k] by (auto dest: arg_cong [of _ _ unat])

lemma feed_segments:
  assumes "bodies \<noteq> []" "list_all (\<lambda>b. b \<noteq> []) bodies" "k + length bodies \<le> 256" "ra_next st = of_nat k"
  shows "feed iid (segments iid window service k bodies) st =
    (map (\<lambda>i. SegmentAck [0x40, iid, of_nat i, window]) [k..<k + length bodies - 1] @ [Data (ra_data st @ concat bodies)],
     \<lparr>ra_data = [], ra_next = of_nat (k + length bodies)\<rparr>)"
  using assms
proof (induction bodies arbitrary: k st)
  case (Cons b bs)
  have nz: "\<not> (k \<noteq> 0 \<and> (of_nat k :: u8) = 0)" using of_nat_u8_nonzero [of k] Cons.prems(3) by auto
  show ?case
  proof (cases "bs = []")
    case True
    with Cons.prems show ?thesis
      using handle_segment [of b st k iid window service False, OF _ _ nz]
      by (simp add: feed_Ok del: feed.simps(2))
  next
    case False
    let ?st = "\<lparr>ra_data = ra_data st @ b, ra_next = of_nat (Suc k)\<rparr>"
    have "handle_apdu (segment iid window service True k b) iid st = Ok (SegmentAck [0x40, iid, of_nat k, window], ?st)"
      using handle_segment [of b st k iid window service True, OF _ _ nz] Cons.prems by simp
    moreover have "feed iid (segments iid window service (Suc k) bs) ?st =
      (map (\<lambda>i. SegmentAck [0x40, iid, of_nat i, window]) [Suc k..<Suc k + length bs - 1] @ [Data (ra_data ?st @ concat bs)],
       \<lparr>ra_data = [], ra_next = of_nat (Suc k + length bs)\<rparr>)"
      using Cons.IH [of "Suc k" ?st] Cons.prems False by simp
    moreover have "[k..<k + length (b # bs) - 1] = k # [Suc k..<Suc k + length bs - 1]"
      using False by (simp add: upt_rec)
    ultimately show ?thesis
      using False by (simp add: feed_Ok del: feed.simps(2) upt_Suc)
  qed
qed simp

section \<open>The socket\<close>

text \<open>
  An APDU answers request \<open>iid\<close> if it is an acknowledgement, an error, a reject or an abort
  (the kind is the upper half of the first octet) that carries the request's invoke id.
  Traffic that is not an answer: datagrams of other hosts, of other protocols or with a wrong
  length field, and frames whose APDU answers another request or none.
\<close>

fun answers :: "u8 \<Rightarrow> u8 list \<Rightarrow> bool" where
  "answers iid (c # i # rest) = (i = iid \<and> unat c div 16 \<in> {2, 3, 5, 6, 7})"
| "answers iid _ = False"

definition foreign :: "('w, 'addr, 'ip) udp_ops \<Rightarrow> 'addr \<Rightarrow> u8 \<Rightarrow> 'addr event \<Rightarrow> bool" where
  "foreign U target iid e \<longleftrightarrow> (\<exists>bytes peer. e = Datagram bytes peer \<and>
     (ip_of U peer \<noteq> ip_of U target \<or> bytes = [] \<or> hd bytes \<noteq> 0x81
      \<or> (\<exists>t f x y rest. bytes = [t, f, x, y] @ rest \<and> length bytes \<le> MAX_FRAME \<and> unat x * 256 + unat y \<noteq> length bytes)
      \<or> (\<exists>apdu er. bytes = frame apdu er \<and> apdu \<noteq> [] \<and> length bytes \<le> MAX_FRAME \<and> \<not> answers iid apdu)))"

lemma kind_nat: "drop_bit 4 c = (of_nat k :: u8) \<longleftrightarrow> unat c div 16 = k" if "k < 16" for c :: u8
proof -
  have "drop_bit 4 c = of_nat k \<longleftrightarrow> unat (drop_bit 4 c) = unat (of_nat k :: u8)" by (rule word_unat_eq_iff)
  then show ?thesis using that by (simp add: unat_drop_bit_eq unat_of_nat_u8 del: drop_bit_eq_div) (simp add: drop_bit_eq_div)
qed

lemmas kinds = kind_nat [of 2, simplified] kind_nat [of 3, simplified] kind_nat [of 5, simplified]
  kind_nat [of 6, simplified] kind_nat [of 7, simplified]

lemma handle_unrelated:
  assumes "apdu \<noteq> []" "\<not> answers iid apdu"
  shows "handle_apdu apdu iid st = Ok (Ignore, st)"
proof (cases "(iid, apdu)" rule: answers.cases)
  case (1 _ c i rest)
  then show ?thesis using assms by (auto simp: handle_apdu_def complex_ack_def Let_def kinds)
qed (use assms in \<open>auto simp: handle_apdu_def\<close>)

lemma foreign_ignored:
  assumes "foreign U target iid (Datagram bytes peer)" "ip_of U peer = ip_of U target"
  shows "apdu_of_frame (take MAX_FRAME bytes) = None
    \<or> (\<exists>apdu. apdu_of_frame (take MAX_FRAME bytes) = Some apdu \<and> (\<forall>st. handle_apdu apdu iid st = Ok (Ignore, st)))"
proof -
  have m: "MAX_FRAME = 1600" by (rule MAX_FRAME_def)
  consider "bytes = [] \<or> hd bytes \<noteq> 0x81"
    | t f x y rest where "bytes = [t, f, x, y] @ rest" "length bytes \<le> MAX_FRAME" "unat x * 256 + unat y \<noteq> length bytes"
    | apdu er where "bytes = frame apdu er" "apdu \<noteq> []" "length bytes \<le> MAX_FRAME" "\<not> answers iid apdu"
    using assms unfolding foreign_def by auto
  then show ?thesis
  proof cases
    case 1
    then show ?thesis by (cases bytes) (auto simp: apdu_of_frame_def m)
  next
    case 2
    then show ?thesis by (auto simp: apdu_of_frame_def)
  next
    case 3
    then have "length apdu + 6 < 65536" by (simp add: frame_def m)
    then have "apdu_of_frame (take MAX_FRAME bytes) = Some apdu" using 3 apdu_of_frame_frame by simp
    then show ?thesis using handle_unrelated [OF 3(2,4)] by blast
  qed
qed

lemma handle_ok: "apdu \<noteq> [] \<Longrightarrow> \<exists>r st'. handle_apdu apdu iid st = Ok (r, st')"
  by (cases "complex_ack apdu iid st") (simp add: handle_apdu_def Let_def)

lemma apdu_nonempty: "apdu_of_frame buf = Some apdu \<Longrightarrow> apdu \<noteq> []"
  by (auto simp: apdu_of_frame_def bind_eq_Some_conv Let_def split: if_splits)

text \<open>
  A SimpleAck for the request with reserved bit 3 set and no octets behind the service choice;
  the first octet is \<open>0x28\<close> to \<open>0x2F\<close>.
\<close>

fun short_ack :: "u8 \<Rightarrow> u8 list \<Rightarrow> bool" where
  "short_ack iid (c # i # rest) = (i = iid \<and> unat c div 8 = 5 \<and> length rest < 2)"
| "short_ack iid _ = False"

definition short_ack_from :: "('w, 'addr, 'ip) udp_ops \<Rightarrow> 'addr \<Rightarrow> u8 \<Rightarrow> 'addr event \<Rightarrow> bool" where
  "short_ack_from U target iid e \<longleftrightarrow> (\<exists>bytes peer apdu. e = Datagram bytes peer \<and> ip_of U peer = ip_of U target
     \<and> apdu_of_frame (take MAX_FRAME bytes) = Some apdu \<and> short_ack iid apdu)"

lemma bit3_nat: "(c AND 8 \<noteq> 0) = odd (unat c div 8)" for c :: u8
proof -
  have "(c AND 8 \<noteq> 0) = bit c 3" by (simp add: bit_iff_and_push_bit_not_eq_0)
  also have "\<dots> = bit (unat c) 3" by (simp add: bit_unsigned_iff)
  also have "\<dots> = odd (unat c div 8)" by (simp add: bit_iff_odd)
  finally show ?thesis .
qed

lemma data_short:
  assumes "handle_apdu apdu iid st = Ok (Data d, st')" "apdu ! 0 AND 0x08 \<noteq> 0" "length apdu < 4"
  shows "short_ack iid apdu"
proof (cases "(iid, apdu)" rule: short_ack.cases)
  case (1 _ c i rest)
  have a: "i = iid" "drop_bit 4 c = 2"
    using assms 1 by (auto simp: handle_apdu_def complex_ack_def Let_def error_reply_def split: if_splits option.splits)
  have "unat c div 16 = 2" using a(2) kinds(1) by blast
  moreover have "odd (unat c div 8)" using assms(2) 1 bit3_nat [of c] by simp
  moreover have "unat c div 16 = unat c div 8 div 2" by (simp add: div_mult2_eq [of _ 8 2, simplified])
  ultimately have "unat c div 8 = 5" by (auto elim!: oddE)
  then show ?thesis using 1 a assms(3) by auto
qed (use assms in \<open>auto simp: handle_apdu_def\<close>)

text \<open>
  \<open>inbox\<close> is what arrives from now on, deadlines passing included; an empty inbox only
  lets deadlines pass. \<open>sent\<close> records what was sent.
\<close>

locale udp_socket =
  fixes U :: "('w, 'addr, 'ip) udp_ops"
    and inbox :: "'w \<Rightarrow> 'addr event list"
    and sent :: "'w \<Rightarrow> (u8 list \<times> 'addr) list"
  assumes receive_event: "inbox w = e # es \<Longrightarrow> \<exists>w'. receive U w = (e, w') \<and> inbox w' = es \<and> sent w' = sent w"
    and receive_empty: "inbox w = [] \<Longrightarrow> \<exists>w'. receive U w = (TimedOut, w') \<and> inbox w' = [] \<and> sent w' = sent w"
    and send_ok: "\<exists>w'. send U bs a w = (None, w') \<and> inbox w' = inbox w \<and> sent w' = sent w @ [(bs, a)]"
    and arm_keeps: "inbox (arm U t w) = inbox w" "sent (arm U t w) = sent w"
    and open_ok: "\<exists>w'. open_udp U a w = (None, w') \<and> inbox w' = inbox w \<and> sent w' = sent w"
begin

lemma receive_cases:
  obtains e es w' where "inbox w = e # es" "receive U w = (e, w')" "inbox w' = es" "sent w' = sent w"
  | w' where "inbox w = []" "receive U w = (TimedOut, w')" "inbox w' = []" "sent w' = sent w"
  using receive_event [of w] receive_empty [of w] by (cases "inbox w") blast+

lemma await_foreign:
  assumes "foreign U target iid e" "inbox w = e # es"
  shows "\<exists>w'. await_reply U (Suc n) target iid st w = await_reply U n target iid st w' \<and> inbox w' = es \<and> sent w' = sent w"
proof -
  obtain bytes peer where e: "e = Datagram bytes peer" using assms(1) by (auto simp: foreign_def)
  obtain w' where w': "receive U w = (e, w')" "inbox w' = es" "sent w' = sent w" using receive_event [OF assms(2)] by blast
  have "await_reply U (Suc n) target iid st w = await_reply U n target iid st w'"
    using foreign_ignored [of U target iid bytes peer] assms(1) w'(1) unfolding e by (cases "ip_of U peer = ip_of U target") auto
  then show ?thesis using w' by blast
qed

lemma await_all_foreign:
  assumes "list_all (foreign U target iid) noise" "inbox w = noise @ es"
  shows "\<exists>w'. await_reply U (length noise + n) target iid st w = await_reply U n target iid st w'
    \<and> inbox w' = es \<and> sent w' = sent w"
  using assms
proof (induction noise arbitrary: w)
  case (Cons e noise)
  then obtain w1 where w1: "await_reply U (Suc (length noise + n)) target iid st w = await_reply U (length noise + n) target iid st w1"
    "inbox w1 = noise @ es" "sent w1 = sent w"
    using await_foreign [of target iid e w "noise @ es" "length noise + n" st] by auto
  with Cons.IH [of w1] Cons.prems show ?case by auto
qed auto

lemma await_not_diverge: "length (inbox w) < n \<Longrightarrow>
  fst (await_reply U n target iid st w) \<noteq> Diverge \<and> length (inbox (snd (await_reply U n target iid st w))) \<le> length (inbox w)"
proof (induction n arbitrary: st w)
  case (Suc n)
  show ?case
  proof (rule receive_cases [of w])
    fix w' assume "inbox w = []" "receive U w = (TimedOut, w')" "inbox w' = []" "sent w' = sent w"
    then show ?thesis by simp
  next
    fix e es w1 assume w1: "inbox w = e # es" "receive U w = (e, w1)" "inbox w1 = es" "sent w1 = sent w"
    have IH: "fst (await_reply U n target iid st' w2) \<noteq> Diverge
        \<and> length (inbox (snd (await_reply U n target iid st' w2))) \<le> length (inbox w)" if "inbox w2 = es" for st' w2
      using Suc.IH [of w2 st'] Suc.prems w1 that by simp
    show ?thesis
    proof (cases e)
      case (Datagram bytes peer)
      have s: "inbox (snd (send U bs peer w1)) = es" "fst (send U bs peer w1) = None" for bs
        using send_ok [of bs peer w1] w1 by auto
      show ?thesis
      proof (cases "apdu_of_frame (take MAX_FRAME bytes)")
        case None
        with w1 Datagram IH [OF w1(3)] show ?thesis by simp
      next
        case (Some apdu)
        show ?thesis
        proof (cases "handle_apdu apdu iid st")
          case (Ok p)
          obtain r st' where p: "p = (r, st')" by (cases p)
          show ?thesis
          proof (cases r)
            case (SegmentAck ack)
            obtain w2 where "send U (frame ack False) peer w1 = (None, w2)" "inbox w2 = es"
              using send_ok [of "frame ack False" peer w1] w1 by auto
            with w1 Datagram Some Ok p SegmentAck IH show ?thesis by simp
          qed (use w1 Datagram Some Ok p IH s in auto)
        qed (use w1 Datagram Some IH handle_apdu_def in \<open>auto simp: handle_apdu_def Let_def split: if_splits\<close>)
      qed
    qed (use w1 in auto)
  qed
qed simp

lemma handle_plain_ack:
  "handle_apdu (0x30 # iid # service # data) iid Reassembly_default = Ok (Data data, \<lparr>ra_data = [], ra_next = 1\<rparr>)"
proof -
  have "drop_bit 4 (0x30 :: u8) = 3" "(0x30 :: u8) AND 0x08 = 0" by code_simp+
  then show ?thesis by (simp add: handle_complex complex_ack_def Let_def Reassembly_default_def)
qed

lemma await_plain_ack:
  assumes "inbox w = Datagram (frame (0x30 # iid # service # data) er) peer # es"
    and "ip_of U peer = ip_of U target" "length data + 9 \<le> MAX_FRAME"
  shows "\<exists>w'. await_reply U (Suc n) target iid Reassembly_default w = (Ok (Some data), w') \<and> inbox w' = es \<and> sent w' = sent w"
proof -
  let ?f = "frame (0x30 # iid # service # data) er"
  have "length ?f \<le> MAX_FRAME" using assms(3) by (simp add: frame_def)
  moreover have "apdu_of_frame ?f = Some (0x30 # iid # service # data)"
    using assms(3) by (intro apdu_of_frame_frame) (simp_all add: MAX_FRAME_def)
  moreover have "(0x30 :: u8) AND 0x08 = 0" by code_simp
  ultimately show ?thesis
    using receive_event [OF assms(1)] assms(2) by (auto simp: handle_plain_ack)
qed

lemma attempts_answered:
  assumes "list_all (foreign U target iid) noise" "length noise < fuel"
    and "inbox w = noise @ Datagram (frame (0x30 # iid # service # data) er) peer # es"
    and "ip_of U peer = ip_of U target" "length data + 9 \<le> MAX_FRAME"
  shows "\<exists>w'. attempts (Suc k) U fuel target iid request timeout retries w = (Ok data, w')
    \<and> inbox w' = es \<and> sent w' = sent w @ [(request, target)]"
proof -
  obtain w1 where w1: "send U request target w = (None, w1)" "inbox w1 = inbox w" "sent w1 = sent w @ [(request, target)]"
    using send_ok by blast
  let ?w = "arm U timeout w1"
  obtain n where n: "fuel = length noise + Suc n" using assms(2) less_iff_Suc_add by auto
  have "inbox ?w = noise @ Datagram (frame (0x30 # iid # service # data) er) peer # es"
    using w1 assms(3) by (simp add: arm_keeps)
  from await_all_foreign [OF assms(1) this, of "Suc n" Reassembly_default] obtain w2 where
    w2: "await_reply U fuel target iid Reassembly_default ?w = await_reply U (Suc n) target iid Reassembly_default w2"
      "inbox w2 = Datagram (frame (0x30 # iid # service # data) er) peer # es" "sent w2 = sent ?w"
    unfolding n by blast
  from await_plain_ack [OF w2(2) assms(4,5), of n] show ?thesis
    using w1 w2 by (auto simp: arm_keeps simp del: await_reply.simps)
qed

lemma await_silent:
  assumes "list_all (\<lambda>e. e = TimedOut \<or> foreign U target iid e) (inbox w)" "length (inbox w) < n"
  shows "\<exists>w'. await_reply U n target iid st w = (Ok None, w') \<and> sent w' = sent w
    \<and> list_all (\<lambda>e. e = TimedOut \<or> foreign U target iid e) (inbox w') \<and> length (inbox w') \<le> length (inbox w)"
  using assms
proof (induction n arbitrary: w)
  case (Suc n)
  show ?case
  proof (rule receive_cases [of w])
    fix w' assume "inbox w = []" "receive U w = (TimedOut, w')" "inbox w' = []" "sent w' = sent w"
    then show ?thesis by simp
  next
    fix e es w1 assume w1: "inbox w = e # es" "receive U w = (e, w1)" "inbox w1 = es" "sent w1 = sent w"
    show ?thesis
    proof (cases "e = TimedOut")
      case True
      then show ?thesis using w1 Suc.prems by simp
    next
      case False
      with Suc.prems w1 have "foreign U target iid e" by simp
      from await_foreign [OF this w1(1), of n st] obtain w2 where
        w2: "await_reply U (Suc n) target iid st w = await_reply U n target iid st w2" "inbox w2 = es" "sent w2 = sent w" by blast
      with Suc.IH [of w2] Suc.prems w1(1) show ?thesis by (simp del: await_reply.simps) (meson le_SucI)
    qed
  qed
qed simp

lemma attempts_silent:
  assumes "list_all (\<lambda>e. e = TimedOut \<or> foreign U target iid e) (inbox w)" "length (inbox w) < fuel"
  shows "\<exists>w'. attempts k U fuel target iid request timeout retries w
      = (Err (''BACnet timeout waiting for '' @ show_addr U target @ '' ('' @ show_nat timeout @ '' ms, ''
           @ show_nat (unat retries) @ '' retries)''), w')
    \<and> sent w' = sent w @ replicate k (request, target)"
  using assms
proof (induction k arbitrary: w)
  case (Suc k)
  obtain w1 where w1: "send U request target w = (None, w1)" "inbox w1 = inbox w" "sent w1 = sent w @ [(request, target)]"
    using send_ok [of request target w] by auto
  obtain w2 where w2: "await_reply U fuel target iid Reassembly_default (arm U timeout w1) = (Ok None, w2)" "sent w2 = sent w1"
      "list_all (\<lambda>e. e = TimedOut \<or> foreign U target iid e) (inbox w2)" "length (inbox w2) \<le> length (inbox w)"
    using await_silent [of target iid "arm U timeout w1" fuel Reassembly_default] Suc.prems w1 by (auto simp: arm_keeps)
  with Suc.IH [of w2] Suc.prems w1 show ?case by (auto simp: replicate_append_same)
qed simp

text \<open>Panics come from a short acknowledgement only.\<close>

lemma await_inbox:
  "set (inbox (snd (await_reply U n target iid st w))) \<subseteq> set (inbox w)
   \<and> (fst (await_reply U n target iid st w) = Panic \<longrightarrow> (\<exists>e \<in> set (inbox w). short_ack_from U target iid e))"
proof (induction n arbitrary: st w)
  case (Suc n)
  show ?case
  proof (rule receive_cases [of w])
    fix w' assume "inbox w = []" "receive U w = (TimedOut, w')" "inbox w' = []" "sent w' = sent w"
    then show ?thesis by simp
  next
    fix e es w1 assume w1: "inbox w = e # es" "receive U w = (e, w1)" "inbox w1 = es" "sent w1 = sent w"
    have IH: "set (inbox (snd (await_reply U n target iid st' w2))) \<subseteq> set (inbox w)
        \<and> (fst (await_reply U n target iid st' w2) = Panic \<longrightarrow> (\<exists>e \<in> set (inbox w). short_ack_from U target iid e))"
      if "inbox w2 = es" for st' w2
      using Suc.IH [of st' w2] w1 that by auto
    show ?thesis
    proof (cases e)
      case (Datagram bytes peer)
      show ?thesis
      proof (cases "ip_of U peer = ip_of U target")
        case ip: True
        show ?thesis
        proof (cases "apdu_of_frame (take MAX_FRAME bytes)")
          case None
          with w1 Datagram IH [OF w1(3)] show ?thesis by simp
        next
          case (Some apdu)
          then have ne: "apdu \<noteq> []" by (rule apdu_nonempty)
          then obtain r st' where h: "handle_apdu apdu iid st = Ok (r, st')"
            using handle_ok by blast
          show ?thesis
          proof (cases r)
            case (SegmentAck ack)
            obtain w2 where "send U (frame ack False) peer w1 = (None, w2)" "inbox w2 = es"
              using send_ok [of "frame ack False" peer w1] w1 by auto
            with w1 Datagram Some h SegmentAck IH ip show ?thesis by simp
          next
            case (Data d)
            have "inbox (snd (send U bs peer w1)) = es" for bs using send_ok [of bs peer w1] w1 by auto
            moreover have "short_ack_from U target iid e" if "apdu ! 0 AND 0x08 \<noteq> 0" "length apdu < 4"
              using data_short [OF h [unfolded Data] that] Datagram ip Some by (auto simp: short_ack_from_def)
            ultimately show ?thesis using w1 Datagram Some h Data ip by auto
          qed (use w1 Datagram Some h ip IH in auto)
        qed
      qed (use w1 Datagram IH in auto)
    qed (use w1 in auto)
  qed
qed simp

lemma attempts_panic:
  "fst (attempts k U fuel target iid request timeout retries w) = Panic \<Longrightarrow> \<exists>e \<in> set (inbox w). short_ack_from U target iid e"
proof (induction k arbitrary: w)
  case (Suc k)
  obtain w1 where w1: "send U request target w = (None, w1)" "inbox w1 = inbox w"
    using send_ok [of request target w] by auto
  obtain r w2 where r: "await_reply U fuel target iid Reassembly_default (arm U timeout w1) = (r, w2)"
    by (cases "await_reply U fuel target iid Reassembly_default (arm U timeout w1)")
  then have "set (inbox w2) \<subseteq> set (inbox w)" "r = Panic \<Longrightarrow> \<exists>e \<in> set (inbox w). short_ack_from U target iid e"
    using await_inbox [of fuel target iid Reassembly_default "arm U timeout w1"] w1 by (simp_all add: arm_keeps)
  moreover have "\<exists>e \<in> set (inbox w2). short_ack_from U target iid e"
    if "r = Ok None" using Suc.IH [of w2] Suc.prems w1 r that by simp
  ultimately show ?case using Suc.prems w1 r by (cases r) (auto split: option.splits)
qed simp

lemma attempts_not_diverge:
  "length (inbox w) < fuel \<Longrightarrow> fst (attempts k U fuel target iid request timeout retries w) \<noteq> Diverge"
proof (induction k arbitrary: w)
  case (Suc k)
  obtain w1 where w1: "send U request target w = (None, w1)" "inbox w1 = inbox w"
    using send_ok [of request target w] by auto
  obtain r w2 where r: "await_reply U fuel target iid Reassembly_default (arm U timeout w1) = (r, w2)"
    by (cases "await_reply U fuel target iid Reassembly_default (arm U timeout w1)")
  then have "r \<noteq> Diverge" "length (inbox w2) \<le> length (inbox w)"
    using await_not_diverge [of "arm U timeout w1" fuel target iid Reassembly_default] Suc.prems w1
    by (simp_all add: arm_keeps)
  with Suc w1 r show ?case by (cases r) (auto split: option.split)
qed simp

end

text \<open>A socket whose inbox is a list, with addresses and hosts numbers.\<close>

type_synonym list_net = "nat event list \<times> (u8 list \<times> nat) list"

definition list_udp :: "(list_net, nat, nat) udp_ops" where
  "list_udp =
     \<lparr>open_udp = (\<lambda>a w. (None, w)),
      send = (\<lambda>bs a (es, out). (None, (es, out @ [(bs, a)]))),
      arm = (\<lambda>t w. w),
      receive = (\<lambda>(es, out). case es of [] \<Rightarrow> (TimedOut, ([], out)) | e # es' \<Rightarrow> (e, (es', out))),
      ip_of = (\<lambda>a. a), show_addr = show_nat\<rparr>"

interpretation list_udp: udp_socket list_udp fst snd
  by unfold_locales (auto simp: list_udp_def split: prod.splits)

text \<open>A JSON library whose values are texts, for examples.\<close>

definition text_json :: "string json_ops" where
  "text_json =
     \<lparr>j_null = ''null'', j_bool = (\<lambda>b. if b then ''true'' else ''false''), j_u64 = (\<lambda>n. show_nat (unat n)),
      j_i64 = (\<lambda>n. show_nat (unat n)), j_f64 = (\<lambda>n. Some (''f'' @ show_nat (unat n))), j_str = (\<lambda>s. s),
      j_arr = concat, j_obj = (\<lambda>kvs. concat (map (\<lambda>(k, v). k @ v) kvs))\<rparr>"

section \<open>Names\<close>

lemma show_nat_digits: "c \<in> set (show_nat n) \<Longrightarrow> is_digit c"
  by (induction n rule: show_nat.induct)
     (subst (asm) show_nat.simps, auto simp: is_digit_digit_char split: if_splits)

lemma strip_all_keeps:
  assumes "hd bs \<notin> hd ` set ws"
  shows "strip_all ws bs = bs"
proof -
  have "\<not> (w \<noteq> [] \<and> take (length w) bs = w)" if "w \<in> set ws" for w
  proof
    assume w: "w \<noteq> [] \<and> take (length w) bs = w"
    then have "hd bs = hd w" by (cases bs; cases w) auto
    with that assms show False by auto
  qed
  then have "strip_one ws bs = None" by (auto simp: strip_one_def find_None_iff)
  then show ?thesis by (subst strip_all.simps) simp
qed

definition visible :: "char \<Rightarrow> bool" where
  "visible c \<longleftrightarrow> 48 \<le> (of_char c :: nat) \<and> (of_char c :: nat) < 123"

lemma visible_not_white_space:
  assumes "visible c"
  shows "of_char c \<notin> hd ` set white_space" "of_char c \<notin> hd ` set (map rev white_space)"
proof -
  have "of_char c = (of_nat (of_char c) :: u8)" by (simp add: of_nat_of_char)
  moreover have "of_char c \<in> set [48..<123]" using assms by (simp add: visible_def del: upt_rec_numeral)
  moreover have "\<forall>n \<in> set [48..<123]. (of_nat n :: u8) \<notin> hd ` set white_space" by code_simp
  moreover have "\<forall>n \<in> set [48..<123]. (of_nat n :: u8) \<notin> hd ` set (map rev white_space)" by code_simp
  ultimately show "of_char c \<notin> hd ` set white_space" "of_char c \<notin> hd ` set (map rev white_space)"
    by metis+
qed

lemma trim_visible:
  assumes "s \<noteq> []" "visible (hd s)" "visible (last s)"
  shows "trim s = s"
proof -
  have "strip_all white_space (as_bytes s) = as_bytes s"
    using assms by (intro strip_all_keeps) (simp add: as_bytes_def hd_map visible_not_white_space)
  moreover have "strip_all (map rev white_space) (rev (as_bytes s)) = rev (as_bytes s)"
    using assms by (intro strip_all_keeps) (simp add: as_bytes_def hd_rev last_map visible_not_white_space del: set_map)
  ultimately show ?thesis by (simp add: trim_def)
qed

lemma trim_show_nat: "trim (show_nat n) = show_nat n"
proof (rule trim_visible)
  have digit: "is_digit c \<Longrightarrow> visible c" for c by (simp add: is_digit_def visible_def)
  show "visible (hd (show_nat n))" "visible (last (show_nat n))"
    by (auto intro!: digit show_nat_digits [of _ n])
qed simp

lemma find_distinct: "distinct (map f xs) \<Longrightarrow> x \<in> set xs \<Longrightarrow> find (\<lambda>y. f y = f x) xs = Some x"
  by (induction xs) (auto simp: image_iff)

lemma property_names_distinct: "distinct (map (\<lambda>(n, _). normalize n) PROPERTIES)"
  by code_simp

lemma property_names_words:
  "list_all (\<lambda>(n, _). n \<noteq> [] \<and> visible (hd n) \<and> visible (last n) \<and> \<not> is_digit (hd n) \<and> hd n \<noteq> CHR ''+'') PROPERTIES"
  by code_simp

lemma parse_word: "s \<noteq> [] \<Longrightarrow> \<not> is_digit (hd s) \<Longrightarrow> hd s \<noteq> CHR ''+'' \<Longrightarrow> parse_unsigned b s = None"
  by (cases s) (auto simp: parse_unsigned_def)

lemma property_names_resolve:
  assumes "(n, i) \<in> set PROPERTIES"
  shows "lookup PROPERTIES n = Some i"
proof -
  have "n \<noteq> []" "visible (hd n)" "visible (last n)" "\<not> is_digit (hd n)" "hd n \<noteq> CHR ''+''"
    using property_names_words assms by (auto simp: list_all_iff)
  then have "parse_unsigned (2 ^ 32) (trim n) = None" by (simp add: trim_visible parse_word)
  moreover have "find (\<lambda>(m, _). normalize m = normalize n) PROPERTIES = Some (n, i)"
    using find_distinct [OF property_names_distinct assms] by (simp add: case_prod_unfold)
  ultimately show ?thesis by (simp add: lookup_def)
qed

lemma property_name_resolves: "property_id (property_name i) = Some i"
proof (cases "find (\<lambda>(_, j). j = i) PROPERTIES")
  case None
  have "unat i < 2 ^ 32" using unsigned_less [of i] by simp
  then show ?thesis
    using None parse_show_nat [of "unat i" "2 ^ 32"] by (simp add: property_id_def property_name_def lookup_def trim_show_nat)
next
  case (Some p)
  obtain n j where p: "p = (n, j)" by (cases p)
  with Some have "(n, j) \<in> set PROPERTIES" "j = i" by (force simp: find_Some_iff in_set_conv_nth)+
  with property_names_resolve [of n i] Some p show ?thesis by (simp add: property_id_def property_name_def)
qed

section \<open>Properties\<close>

text \<open>
  C10. Reading a property works end to end. Whatever other traffic comes first (datagrams of other
  hosts, of other protocols or with a wrong length, and from the device itself answers to other
  requests, requests of its own and notifications), once the device answers with the object,
  the property and a list of values, \<^verbatim>\<open>read_property\<close> has sent one request and returns those
  values as JSON.
\<close>

theorem read_property_answer:
  assumes "udp_socket U inbox sent" "object_type < 1024" "inst < 0x400000" "list_all writable vs"
    and "list_all (foreign U target iid) noise" "length noise < fuel"
    and "inbox w = noise @ Datagram (frame (0x30 # iid # 0x0C # read_property_reply object_type inst property vs) er) peer # es"
    and "ip_of U peer = ip_of U target" "length (read_property_reply object_type inst property vs) + 9 \<le> MAX_FRAME"
  shows "\<exists>w'. read_property J U fuel target object_type inst property timeout retries (iid, w)
      = (Ok (single_or_array J (map (json_of J) vs)), iid + 1, w')
    \<and> sent w' = sent w @ [(encode_read_property iid object_type inst property, target)]"
proof -
  obtain w1 where w1: "open_udp U target w = (None, w1)" "inbox w1 = inbox w" "sent w1 = sent w"
    using udp_socket.open_ok [OF assms(1)] by blast
  with assms(7) have "inbox w1 = noise
      @ Datagram (frame (0x30 # iid # 0x0C # read_property_reply object_type inst property vs) er) peer # es" by simp
  from udp_socket.attempts_answered [OF assms(1,5,6) this assms(8,9), of "unat retries"
      "encode_read_property iid object_type inst property" timeout retries]
  show ?thesis
    using w1 decode_read_property_reply [OF assms(2-4), of J property]
    by (auto simp: read_property_def confirmed_request_def encode_read_property_def simp del: attempts.simps)
qed

text \<open>
  For the example: another host, and from the device an answer with the value 1 to a request
  with another invoke id, as an acknowledgement and as an error.
\<close>

definition demo_noise :: "nat event list" where
  "demo_noise = [Datagram [1, 2] 8, Datagram (frame (0x30 # 8 # 0x0C # read_property_reply 2 5 85 [WUnsigned 1]) False) 7,
     Datagram (frame [0x50, 8, 0x0C, 0x91, 2, 0x91, 32] False) 7]"

lemma demo_noise_foreign: "list_all (foreign list_udp 7 9) demo_noise"
proof -
  let ?a = "0x30 # 8 # 0x0C # read_property_reply 2 5 85 [WUnsigned 1]" and ?b = "[0x50, 8, 0x0C, 0x91, 2, 0x91, 32] :: u8 list"
  have "length (frame ?a False) \<le> MAX_FRAME" "length (frame ?b False) \<le> MAX_FRAME" by code_simp+
  moreover have "\<not> answers 9 ?a" "\<not> answers 9 ?b" by simp_all
  ultimately have "foreign list_udp 7 9 (Datagram (frame ?a False) 7)" "foreign list_udp 7 9 (Datagram (frame ?b False) 7)"
    unfolding foreign_def by blast+
  then show ?thesis by (simp add: demo_noise_def foreign_def list_udp_def)
qed

theorem read_property_answer_witness:
  "\<exists>w'. read_property text_json list_udp 4 7 2 5 85 1000 3
      (9, (demo_noise @ [Datagram (frame (0x30 # 9 # 0x0C # read_property_reply 2 5 85 [WReal 0]) False) 7], []))
    = (Ok (single_or_array text_json (map (json_of text_json) [WReal 0])), 9 + 1, w')
    \<and> snd w' = snd (demo_noise @ [Datagram (frame (0x30 # 9 # 0x0C # read_property_reply 2 5 85 [WReal 0]) False) 7],
        [] :: (u8 list \<times> nat) list) @ [(encode_read_property 9 2 5 85, 7)]"
proof (rule read_property_answer [OF list_udp.udp_socket_axioms, where noise = demo_noise
      and er = False and peer = 7 and es = "[]"])
  show "length (read_property_reply 2 5 85 [WReal 0]) + 9 \<le> MAX_FRAME" by code_simp
  show "list_all (foreign list_udp 7 9) demo_noise" by (rule demo_noise_foreign)
qed (simp_all add: demo_noise_def)

text \<open>
  C24. Under any finite traffic a request returns an answer or an error: the one way to panic is a
  SimpleAck of the device for this request that has reserved bit 3 set and ends before the
  fourth octet. When nothing but unrelated traffic and passing deadlines arrives, the request
  is sent once and once more per retry, nothing else is sent, and the result is the timeout
  error.
\<close>

theorem confirmed_request_returns:
  assumes "udp_socket U inbox sent" "length (inbox w) < fuel"
  shows "fst (confirmed_request U fuel target service body timeout retries (iid, w)) \<noteq> Diverge
    \<and> (fst (confirmed_request U fuel target service body timeout retries (iid, w)) = Panic \<longrightarrow>
        (\<exists>e \<in> set (inbox w). short_ack_from U target iid e))
    \<and> (list_all (\<lambda>e. e = TimedOut \<or> foreign U target iid e) (inbox w) \<longrightarrow>
        (\<exists>w'. confirmed_request U fuel target service body timeout retries (iid, w)
            = (Err (''BACnet timeout waiting for '' @ show_addr U target @ '' ('' @ show_nat timeout @ '' ms, ''
                 @ show_nat (unat retries) @ '' retries)''), iid + 1, w')
          \<and> sent w' = sent w @ replicate (Suc (unat retries)) (encode_confirmed iid service body, target)))"
proof (intro conjI impI)
  note unfold = confirmed_request_def Let_def case_prod_unfold
  show "fst (confirmed_request U fuel target service body timeout retries (iid, w)) \<noteq> Diverge"
    using udp_socket.attempts_not_diverge [OF assms] by (simp add: unfold del: attempts.simps)
  show "\<exists>e \<in> set (inbox w). short_ack_from U target iid e"
    if "fst (confirmed_request U fuel target service body timeout retries (iid, w)) = Panic"
    using udp_socket.attempts_panic [OF assms(1)] that by (simp add: unfold del: attempts.simps)
  assume "list_all (\<lambda>e. e = TimedOut \<or> foreign U target iid e) (inbox w)"
  from udp_socket.attempts_silent [OF assms(1) this assms(2), of "Suc (unat retries)" "encode_confirmed iid service body" timeout retries]
  show "\<exists>w'. confirmed_request U fuel target service body timeout retries (iid, w)
      = (Err (''BACnet timeout waiting for '' @ show_addr U target @ '' ('' @ show_nat timeout @ '' ms, ''
           @ show_nat (unat retries) @ '' retries)''), iid + 1, w')
    \<and> sent w' = sent w @ replicate (Suc (unat retries)) (encode_confirmed iid service body, target)"
    by (auto simp: confirmed_request_def simp del: attempts.simps replicate_Suc)
qed

theorem confirmed_request_returns_witness:
  "\<exists>w'. confirmed_request list_udp 5 7 0x0C [] 1000 3 (9, (TimedOut # demo_noise, []))
      = (Err (''BACnet timeout waiting for '' @ show_addr list_udp 7 @ '' ('' @ show_nat 1000 @ '' ms, ''
           @ show_nat (unat (3 :: u32)) @ '' retries)''), 9 + 1, w')
    \<and> snd w' = replicate (Suc (unat (3 :: u32))) (encode_confirmed 9 0x0C [], 7)"
proof -
  have "list_all (\<lambda>e. e = TimedOut \<or> foreign list_udp 7 9 e) demo_noise"
    using demo_noise_foreign by (auto simp: list_all_iff)
  then show ?thesis
    using confirmed_request_returns [OF list_udp.udp_socket_axioms, where w = "(TimedOut # demo_noise, [])" and fuel = 5 and target = 7
        and service = "0x0C" and body = "[]" and timeout = 1000 and retries = 3 and iid = 9]
    by (simp add: demo_noise_def del: replicate.simps)
qed

text \<open>
  C23. A segmented answer of up to 256 segments, received in order, is acknowledged segment by
  segment and reassembled to the concatenation of the bodies; a segment out of order
  changes nothing and is answered with a negative acknowledgement.
\<close>

theorem reassembly:
  assumes "bodies \<noteq> []" "list_all (\<lambda>b. b \<noteq> []) bodies" "length bodies \<le> 256"
  shows "feed iid (segments iid window service 0 bodies) Reassembly_default =
      (map (\<lambda>i. SegmentAck [0x40, iid, of_nat i, window]) [0..<length bodies - 1] @ [Data (concat bodies)],
       \<lparr>ra_data = [], ra_next = of_nat (length bodies)\<rparr>)
    \<and> (\<forall>k st. ra_next st \<noteq> of_nat k \<longrightarrow>
         handle_apdu (segment iid window service mor k (hd bodies)) iid st
           = Ok (SegmentAck [0x42, iid, ra_next st - 1, window], st))"
proof -
  have "hd bodies \<noteq> []" using assms(1,2) by (cases bodies) auto
  then have "handle_apdu (segment iid window service mor k (hd bodies)) iid st
      = Ok (SegmentAck [0x42, iid, ra_next st - 1, window], st)" if "ra_next st \<noteq> of_nat k" for k st
    using that by (simp add: handle_segment_any)
  then show ?thesis
    using feed_segments [OF assms(1,2), of 0 Reassembly_default iid window service] assms(3)
    by (simp add: Reassembly_default_def)
qed

theorem reassembly_witness:
  "feed 5 (segments 5 2 0x0C 0 [[1, 2], [3]]) Reassembly_default
    = ([SegmentAck [0x40, 5, 0, 2], Data [1, 2, 3]], \<lparr>ra_data = [], ra_next = 2\<rparr>)"
  using reassembly [where bodies = "[[1, 2], [3]]" and iid = 5 and window = 2 and service = "0x0C" and mor = False] by simp

text \<open>
  Reassembly beyond 256 segments loses data: the sequence number of segment 256 is 0 again,
  and the octet that is the service choice of the first segment is dropped from it too.
\<close>

theorem segment_256_loses_octet:
  assumes "ra_next st = 0" "body \<noteq> []"
  shows "handle_apdu (segment iid window service False 256 body) iid st
    = Ok (Data (ra_data st @ tl body), \<lparr>ra_data = [], ra_next = 1\<rparr>)"
proof -
  have "(of_nat 256 :: u8) = 0" by simp
  then show ?thesis using assms by (simp add: handle_segment_any Let_def)
qed

theorem segment_256_loses_octet_witness:
  "handle_apdu (segment 5 2 0x0C False 256 [8, 9]) 5 \<lparr>ra_data = [1], ra_next = 0\<rparr>
    = Ok (Data [1, 9], \<lparr>ra_data = [], ra_next = 1\<rparr>)"
  using segment_256_loses_octet [where st = "\<lparr>ra_data = [1], ra_next = 0\<rparr>" and body = "[8, 9]" and iid = 5
      and window = 2 and service = "0x0C"] by simp

text \<open>
  C22. Every value the client can write (null, booleans, unsigned and signed 64-bit integers,
  reals, doubles, enumerated values and UTF-8 strings of up to 65534 octets) decodes to the
  JSON value it stands for, alone or in a sequence.
\<close>

theorem value_roundtrip:
  assumes "list_all writable vs"
  shows "decode_sequence J (concat (map push_application vs)) True = Ok (map (json_of J) vs, [])"
  by (rule decode_sequence_values [OF assms])

theorem value_roundtrip_witness:
  "decode_sequence text_json (concat (map push_application [WSigned (-5), WBoolean True, WNull, WUnsigned 300])) True
    = Ok (map (json_of text_json) [WSigned (-5), WBoolean True, WNull, WUnsigned 300], [])"
  by (rule value_roundtrip) simp

text \<open>
  C36. The value decoder is total: on every input it returns an error or values and a rest that
  is a suffix no longer than the input; it neither panics nor runs for ever.
\<close>

theorem decode_sequence_returns:
  "(\<exists>e. decode_sequence J buf is_top = Err e)
   \<or> (\<exists>vs rest. decode_sequence J buf is_top = Ok (vs, rest) \<and> length rest \<le> length buf)"
  using decode_sequence_total [of buf J is_top] unfolding settled_def .

text \<open>A tag header is parsed back, for every tag number below 256 and every length below 65536.\<close>

theorem tag_roundtrip:
  assumes "n < 256" "len < 65536"
  shows "parse_tag (push_tag n c len @ rest)
    = Some (\<lparr>tag_number = n, tag_context = c, tag_opening = False, tag_closing = False, tag_len = len\<rparr>, rest)"
  by (rule parse_push_tag [OF assms])

theorem tag_roundtrip_witness:
  "parse_tag (push_tag 20 True 300 @ [1])
    = Some (\<lparr>tag_number = 20, tag_context = True, tag_opening = False, tag_closing = False, tag_len = 300\<rparr>, [1])"
  by (rule tag_roundtrip) simp_all

text \<open>The name of every property number, listed or not, resolves to that number.\<close>

theorem property_name_roundtrip: "property_id (property_name i) = Some i"
  by (rule property_name_resolves)

text \<open>
  A SimpleAck whose reserved bit 3 is set makes the client panic: the code that
  acknowledges a last segment indexes octets 2 and 3 of any answer with that bit, and a
  SimpleAck may have only two.
\<close>

theorem simple_ack_panics:
  assumes "udp_socket U inbox sent" "inbox w = Datagram (frame [0x28, iid] er) peer # es"
    and "ip_of U peer = ip_of U target"
  shows "fst (confirmed_request U (Suc n) target service body timeout retries (iid, w)) = Panic"
proof -
  obtain w1 where w1: "send U (encode_confirmed iid service body) target w = (None, w1)" "inbox w1 = inbox w"
    using udp_socket.send_ok [OF assms(1)] by blast
  with assms(2) have "inbox (arm U timeout w1) = Datagram (frame [0x28, iid] er) peer # es"
    by (simp add: udp_socket.arm_keeps [OF assms(1)])
  then obtain w2 where w2: "receive U (arm U timeout w1) = (Datagram (frame [0x28, iid] er) peer, w2)"
    using udp_socket.receive_event [OF assms(1)] by blast
  have f: "apdu_of_frame (take MAX_FRAME (frame [0x28, iid] er)) = Some [0x28, iid]"
    using apdu_of_frame_frame [of "[0x28, iid]" er] by (simp add: frame_def MAX_FRAME_def)
  have bits: "drop_bit 4 (0x28 :: u8) = 2" "(0x28 :: u8) AND 0x08 \<noteq> 0" by code_simp+
  then have h: "handle_apdu [0x28, iid] iid Reassembly_default = Ok (Data [], Reassembly_default)"
    by (simp add: handle_apdu_def)
  show ?thesis
    using w1 w2 f h bits(2) assms(3) by (simp add: confirmed_request_def)
qed

theorem simple_ack_panics_witness:
  "fst (confirmed_request list_udp (Suc 0) 7 0x0F [] 1000 0 (4, ([Datagram (frame [0x28, 4] False) 7], []))) = Panic"
  by (rule simple_ack_panics [OF list_udp.udp_socket_axioms, where peer = 7 and es = "[]"]) simp_all

end
