(* ===== verification/Cluster.thy ===== *)
theory Cluster
  imports Mqtt_Codec Rust_Text "HOL-Library.DAList"
begin

text \<open>
  The clustering crate (\<^verbatim>\<open>crates/cluster/src\<close>): members and their lifecycle (\<^verbatim>\<open>member.rs\<close>), the
  gossip engine with its heartbeat, failure detector and message handling (\<^verbatim>\<open>gossip.rs\<close>), flow
  assignment (\<^verbatim>\<open>partition.rs\<close>), context replication and session affinity (\<^verbatim>\<open>sync.rs\<close>).

  Parameters: the concurrent map of the \<^verbatim>\<open>dashmap\<close> crate is \<open>dash_ops\<close>, with the laws of the
  locale \<open>dash_map\<close>; \<^verbatim>\<open>chrono\<close> times are an arbitrary type with the function \<open>since\<close> for the
  milliseconds between two of them, and \<open>now\<close> is an argument; a socket address is an
  arbitrary type; random choices and the JSON codec of messages are arguments.
  A reference from \<^verbatim>\<open>get_mut\<close> that is written through is a \<open>dinsert\<close> of the new value.
\<close>

section \<open>The concurrent map\<close>

record ('m, 'v) dash_ops =
  dget :: "string \<Rightarrow> 'm \<Rightarrow> 'v option"
  dinsert :: "string \<Rightarrow> 'v \<Rightarrow> 'm \<Rightarrow> 'm"
  dremove :: "string \<Rightarrow> 'm \<Rightarrow> 'm"
  diter :: "'m \<Rightarrow> (string \<times> 'v) list"

locale dash_map =
  fixes D :: "('m, 'v) dash_ops"
  assumes dget_insert: "dget D k (dinsert D j v m) = (if k = j then Some v else dget D k m)"
    and dget_remove: "dget D k (dremove D j m) = (if k = j then None else dget D k m)"
    and diter_set: "(k, v) \<in> set (diter D m) \<longleftrightarrow> dget D k m = Some v"
    and diter_distinct: "distinct (map fst (diter D m))"

definition list_dash :: "((string, 'v) alist, 'v) dash_ops" where
  "list_dash =
     \<lparr>dget = (\<lambda>k m. DAList.lookup m k), dinsert = DAList.update, dremove = DAList.delete, diter = DAList.impl_of\<rparr>"

interpretation list_dash: dash_map list_dash
proof
  fix k :: string and v :: 'v and m :: "(string, 'v) alist"
  show "(k, v) \<in> set (diter list_dash m) \<longleftrightarrow> dget list_dash k m = Some v"
    by (simp add: list_dash_def DAList.lookup_def)
qed (simp_all add: list_dash_def DAList.lookup_update lookup_delete)

section \<open>Members\<close>

datatype MemberState = Joining | Alive | Suspect | Dead | Self

record ('addr, 'time) ClusterMember =
  cm_node_id :: string
  cm_addr :: 'addr
  cm_state :: MemberState
  cm_incarnation :: u64
  cm_last_heartbeat :: 'time
  cm_joined_at :: 'time
  cm_metadata :: "(string, string) hmap"

definition ClusterMember_new :: "'time \<Rightarrow> string \<Rightarrow> 'addr \<Rightarrow> ('addr, 'time) ClusterMember" where
  "ClusterMember_new now node_id addr =
     \<lparr>cm_node_id = node_id, cm_addr = addr, cm_state = Alive, cm_incarnation = 0,
      cm_last_heartbeat = now, cm_joined_at = now, cm_metadata = []\<rparr>"

definition new_self :: "'time \<Rightarrow> string \<Rightarrow> 'addr \<Rightarrow> ('addr, 'time) ClusterMember" where
  "new_self now node_id addr = (ClusterMember_new now node_id addr)\<lparr>cm_state := Self\<rparr>"

definition record_heartbeat :: "'time \<Rightarrow> ('addr, 'time) ClusterMember \<Rightarrow> ('addr, 'time) ClusterMember" where
  "record_heartbeat now m = m\<lparr>cm_last_heartbeat := now\<rparr>"

definition is_alive :: "('addr, 'time) ClusterMember \<Rightarrow> bool" where
  "is_alive m \<longleftrightarrow> cm_state m = Alive \<or> cm_state m = Self"

definition mark_suspect :: "('addr, 'time) ClusterMember \<Rightarrow> ('addr, 'time) ClusterMember" where
  "mark_suspect m = (if cm_state m = Alive then m\<lparr>cm_state := Suspect\<rparr> else m)"

definition mark_dead :: "('addr, 'time) ClusterMember \<Rightarrow> ('addr, 'time) ClusterMember" where
  "mark_dead m = m\<lparr>cm_state := Dead\<rparr>"

definition refute :: "'time \<Rightarrow> ('addr, 'time) ClusterMember \<Rightarrow> ('addr, 'time) ClusterMember" where
  "refute now m = m\<lparr>cm_incarnation := cm_incarnation m + 1, cm_state := Alive, cm_last_heartbeat := now\<rparr>"

fun show_state :: "MemberState \<Rightarrow> string" where
  "show_state Joining = ''joining''"
| "show_state Alive = ''alive''"
| "show_state Suspect = ''suspect''"
| "show_state Dead = ''dead''"
| "show_state Self = ''self''"

section \<open>Gossip\<close>

record 'addr HeartbeatPayload =
  hb_node_id :: string
  hb_addr :: 'addr
  hb_incarnation :: u64
  hb_state :: MemberState
  hb_metadata :: "(string, string) hmap"

record 'addr MemberDigest =
  md_node_id :: string
  md_addr :: 'addr
  md_state :: MemberState
  md_incarnation :: u64

datatype 'addr GossipMessage =
  Heartbeat "'addr HeartbeatPayload"
| FullSync "'addr MemberDigest list"
| Leave string
| Ack

definition accept_heartbeat ::
    "'time \<Rightarrow> 'addr HeartbeatPayload \<Rightarrow> ('addr, 'time) ClusterMember \<Rightarrow> ('addr, 'time) ClusterMember" where
  "accept_heartbeat now p m =
     (if hb_incarnation p \<ge> cm_incarnation m then
        let m1 = (if hb_incarnation p > cm_incarnation m then m\<lparr>cm_incarnation := hb_incarnation p\<rparr> else m);
            m2 = (if cm_state m1 = Suspect \<and> hb_state p = Alive then refute now m1 else m1) in
        (record_heartbeat now (m2\<lparr>cm_state := hb_state p, cm_addr := hb_addr p\<rparr>))\<lparr>cm_metadata := hb_metadata p\<rparr>
      else m)"

definition process_heartbeat ::
    "('m, ('addr, 'time) ClusterMember) dash_ops \<Rightarrow> 'time \<Rightarrow> 'addr HeartbeatPayload \<Rightarrow> 'm \<Rightarrow> 'm" where
  "process_heartbeat D now p members =
     (case dget D (hb_node_id p) members of
        Some m \<Rightarrow> dinsert D (hb_node_id p) (accept_heartbeat now p m) members
      | None \<Rightarrow>
          dinsert D (hb_node_id p)
            ((ClusterMember_new now (hb_node_id p) (hb_addr p))
               \<lparr>cm_state := Alive, cm_incarnation := hb_incarnation p, cm_metadata := hb_metadata p\<rparr>) members)"

definition accept_digest ::
    "'time \<Rightarrow> 'addr MemberDigest \<Rightarrow> ('addr, 'time) ClusterMember \<Rightarrow> ('addr, 'time) ClusterMember" where
  "accept_digest now d m =
     (if md_incarnation d > cm_incarnation m then
        record_heartbeat now
          (m\<lparr>cm_incarnation := md_incarnation d, cm_state := md_state d, cm_addr := md_addr d\<rparr>)
      else m)"

definition process_digest ::
    "('m, ('addr, 'time) ClusterMember) dash_ops \<Rightarrow> 'time \<Rightarrow> 'addr MemberDigest \<Rightarrow> 'm \<Rightarrow> 'm" where
  "process_digest D now d members =
     (case dget D (md_node_id d) members of
        Some m \<Rightarrow> dinsert D (md_node_id d) (accept_digest now d m) members
      | None \<Rightarrow>
          if md_state d \<noteq> Dead then
            dinsert D (md_node_id d)
              ((ClusterMember_new now (md_node_id d) (md_addr d))
                 \<lparr>cm_state := md_state d, cm_incarnation := md_incarnation d\<rparr>) members
          else members)"

definition process_full_sync ::
    "('m, ('addr, 'time) ClusterMember) dash_ops \<Rightarrow> 'time \<Rightarrow> 'addr MemberDigest list \<Rightarrow> 'm \<Rightarrow> 'm" where
  "process_full_sync D now digests members = fold (process_digest D now) digests members"

text \<open>Messages from UDP multicast; those from TCP differ in the guard of \<^verbatim>\<open>Leave\<close>.\<close>

fun handle_message ::
    "('m, ('addr, 'time) ClusterMember) dash_ops \<Rightarrow> 'time \<Rightarrow> 'addr GossipMessage \<Rightarrow> 'm \<Rightarrow> 'm" where
  "handle_message D now (Heartbeat p) members = process_heartbeat D now p members"
| "handle_message D now (FullSync ds) members = process_full_sync D now ds members"
| "handle_message D now (Leave node_id) members = dremove D node_id members"
| "handle_message D now Ack members = members"

fun connection_message ::
    "('m, ('addr, 'time) ClusterMember) dash_ops \<Rightarrow> string \<Rightarrow> 'time \<Rightarrow> 'addr GossipMessage \<Rightarrow> 'm \<Rightarrow> 'm" where
  "connection_message D local_id now (Heartbeat p) members = process_heartbeat D now p members"
| "connection_message D local_id now (FullSync ds) members = process_full_sync D now ds members"
| "connection_message D local_id now (Leave node_id) members =
     (if node_id \<noteq> local_id then dremove D node_id members else members)"
| "connection_message D local_id now Ack members = members"

datatype gossip_error = GIo io_error | TooLarge nat | BadJson

text \<open>One inbound connection: a 4-octet length, the limit of 4 MiB, the message.\<close>

definition gossip_connection ::
    "'s stream_ops \<Rightarrow> (u8 list \<Rightarrow> 'addr GossipMessage option) \<Rightarrow> ('m, ('addr, 'time) ClusterMember) dash_ops
      \<Rightarrow> string \<Rightarrow> 'time \<Rightarrow> 's \<Rightarrow> 'm \<Rightarrow> ('m, gossip_error) outcome" where
  "gossip_connection S from_json D local_id now s members =
     (case read_exact S 4 s of
        Ok (len_buf, s1) \<Rightarrow>
          let len = unat (u32_of_be (len_buf ! 0) (len_buf ! 1) (len_buf ! 2) (len_buf ! 3)) in
          if len > 4 * 1024 * 1024 then Err (TooLarge len)
          else
            (case read_exact S len s1 of
               Ok (buf, s2) \<Rightarrow>
                 (case from_json buf of
                    Some msg \<Rightarrow> Ok (connection_message D local_id now msg members)
                  | None \<Rightarrow> Err BadJson)
             | Err e \<Rightarrow> Err (GIo e)
             | Panic \<Rightarrow> Panic
             | Diverge \<Rightarrow> Diverge)
      | Err e \<Rightarrow> Err (GIo e)
      | Panic \<Rightarrow> Panic
      | Diverge \<Rightarrow> Diverge)"

text \<open>What \<^verbatim>\<open>send_tcp_raw\<close> writes to its connection.\<close>

definition tcp_frame :: "u8 list \<Rightarrow> u8 list" where
  "tcp_frame data = u32_to_be (of_nat (length data)) @ data"

text \<open>
  One tick of the heartbeat task. \<open>pick n\<close> is the random index below \<open>n\<close>, \<open>full\<close> the one
  tick in ten that sends the whole table, \<open>to_json\<close> the serialiser. The result is the
  member table and what is sent, if anything.
\<close>

definition local_heartbeat ::
    "('m, ('addr, 'time) ClusterMember) dash_ops \<Rightarrow> string \<Rightarrow> 'addr \<Rightarrow> 'm \<Rightarrow> 'addr GossipMessage" where
  "local_heartbeat D local_id addr members =
     Heartbeat \<lparr>hb_node_id = local_id, hb_addr = addr,
       hb_incarnation = (case dget D local_id members of Some m \<Rightarrow> cm_incarnation m | None \<Rightarrow> 0),
       hb_state = Alive, hb_metadata = []\<rparr>"

definition digest_of :: "('addr, 'time) ClusterMember \<Rightarrow> 'addr MemberDigest" where
  "digest_of m = \<lparr>md_node_id = cm_node_id m, md_addr = cm_addr m, md_state = cm_state m, md_incarnation = cm_incarnation m\<rparr>"

definition heartbeat_targets ::
    "('m, ('addr, 'time) ClusterMember) dash_ops \<Rightarrow> string \<Rightarrow> 'm \<Rightarrow> 'addr list" where
  "heartbeat_targets D local_id members =
     map cm_addr (filter (\<lambda>m. cm_state m = Alive \<and> cm_node_id m \<noteq> local_id) (map snd (diter D members)))"

definition heartbeat_tick ::
    "('m, ('addr, 'time) ClusterMember) dash_ops \<Rightarrow> ('addr GossipMessage \<Rightarrow> u8 list option) \<Rightarrow> (nat \<Rightarrow> nat) \<Rightarrow> bool
      \<Rightarrow> string \<Rightarrow> 'addr option \<Rightarrow> 'time \<Rightarrow> 'm \<Rightarrow> 'm \<times> ('addr \<times> u8 list) option" where
  "heartbeat_tick D to_json pick full local_id bind now members =
     (let members1 = (case dget D local_id members of
            Some me \<Rightarrow> dinsert D local_id (record_heartbeat now me) members
          | None \<Rightarrow> members);
          targets = heartbeat_targets D local_id members1 in
      if targets = [] then (members1, None)
      else
        let target = targets ! pick (length targets);
            addr = (case bind of Some a \<Rightarrow> a | None \<Rightarrow> target) in
        case to_json (local_heartbeat D local_id addr members1) of
          None \<Rightarrow> (members1, None)
        | Some data \<Rightarrow>
            if full then
              (case to_json (FullSync (map (\<lambda>(_, m). digest_of m) (diter D members1))) of
                 Some d \<Rightarrow> (members1, Some (target, tcp_frame d))
               | None \<Rightarrow> (members1, Some (target, tcp_frame data)))
            else (members1, Some (target, tcp_frame data)))"

text \<open>One tick of the failure detector. \<open>since now t\<close> are the milliseconds from \<open>t\<close> to \<open>now\<close>.\<close>

definition failure_action ::
    "('time \<Rightarrow> 'time \<Rightarrow> int) \<Rightarrow> u64 \<Rightarrow> 'time \<Rightarrow> ('addr, 'time) ClusterMember \<Rightarrow> MemberState option" where
  "failure_action since timeout_ms now m =
     (let elapsed_ms = of_int (max (since now (cm_last_heartbeat m)) 0) :: u64 in
      if elapsed_ms > timeout_ms \<and> cm_state m \<noteq> Dead then Some Dead
      else if elapsed_ms > timeout_ms div 2 \<and> cm_state m = Alive then Some Suspect
      else None)"

definition failure_actions ::
    "('m, ('addr, 'time) ClusterMember) dash_ops \<Rightarrow> ('time \<Rightarrow> 'time \<Rightarrow> int) \<Rightarrow> u64 \<Rightarrow> string \<Rightarrow> 'time \<Rightarrow> 'm
      \<Rightarrow> (string \<times> MemberState) list" where
  "failure_actions D since timeout_ms local_id now members =
     List.map_filter (\<lambda>m. map_option (Pair (cm_node_id m)) (failure_action since timeout_ms now m))
       (filter (\<lambda>m. cm_node_id m \<noteq> local_id) (map snd (diter D members)))"

definition apply_action ::
    "('m, ('addr, 'time) ClusterMember) dash_ops \<Rightarrow> string \<times> MemberState \<Rightarrow> 'm \<Rightarrow> 'm" where
  "apply_action D = (\<lambda>(node_id, new_state) members.
     case dget D node_id members of
       None \<Rightarrow> members
     | Some m \<Rightarrow>
         (case new_state of
            Dead \<Rightarrow> dinsert D node_id (mark_dead m) members
          | Suspect \<Rightarrow> dinsert D node_id (mark_suspect m) members
          | _ \<Rightarrow> members))"

definition failure_tick ::
    "('m, ('addr, 'time) ClusterMember) dash_ops \<Rightarrow> ('time \<Rightarrow> 'time \<Rightarrow> int) \<Rightarrow> u64 \<Rightarrow> string \<Rightarrow> 'time \<Rightarrow> 'm \<Rightarrow> 'm" where
  "failure_tick D since timeout_ms local_id now members =
     fold (apply_action D) (failure_actions D since timeout_ms local_id now members) members"

text \<open>\<^verbatim>\<open>start\<close> registers this node; \<^verbatim>\<open>leave\<close> notifies the other live members.\<close>

definition register_self ::
    "('m, ('addr, 'time) ClusterMember) dash_ops \<Rightarrow> 'time \<Rightarrow> string \<Rightarrow> 'addr \<Rightarrow> 'm \<Rightarrow> 'm" where
  "register_self D now local_id bind members = dinsert D local_id (new_self now local_id bind) members"

definition leave_targets :: "('m, ('addr, 'time) ClusterMember) dash_ops \<Rightarrow> string \<Rightarrow> 'm \<Rightarrow> 'addr list" where
  "leave_targets D local_id members =
     map cm_addr (filter (\<lambda>m. cm_node_id m \<noteq> local_id \<and> is_alive m) (map snd (diter D members)))"

definition alive_count :: "('m, ('addr, 'time) ClusterMember) dash_ops \<Rightarrow> 'm \<Rightarrow> nat" where
  "alive_count D members = length (filter is_alive (map snd (diter D members)))"

end
