(* ===== verification/Cluster_State.thy ===== *)
theory Cluster_State
  imports Cluster
begin

text \<open>
  What the cluster computes from its member table: the leader and the assignment of flows
  to nodes (\<^verbatim>\<open>partition.rs\<close>), the replicated context, deployment acknowledgements and session
  affinity (\<^verbatim>\<open>sync.rs\<close>), and the validation of the configuration (\<^verbatim>\<open>config.rs\<close>).

  The member table is the map of \<open>Cluster\<close>; the assignment and context tables are
  standard hash maps, so code that iterates them takes the order as an argument.
\<close>

section \<open>Flow assignment\<close>

record FlowAssignment =
  fa_flow_id :: string
  fa_assigned_to :: string
  fa_generation :: u64

type_synonym assignments = "(string, FlowAssignment) hmap"

definition alive_ids :: "('m, ('addr, 'time) ClusterMember) dash_ops \<Rightarrow> 'm \<Rightarrow> string list" where
  "alive_ids D members = map cm_node_id (filter is_alive (map snd (diter D members)))"

fun min_id :: "string list \<Rightarrow> string option" where
  "min_id [] = None"
| "min_id (x # xs) = (case min_id xs of None \<Rightarrow> Some x | Some y \<Rightarrow> Some (min x y))"

definition leader_id :: "('m, ('addr, 'time) ClusterMember) dash_ops \<Rightarrow> 'm \<Rightarrow> string option" where
  "leader_id D members = min_id (alive_ids D members)"

definition is_leader :: "('m, ('addr, 'time) ClusterMember) dash_ops \<Rightarrow> string \<Rightarrow> 'm \<Rightarrow> bool" where
  "is_leader D local_id members \<longleftrightarrow> leader_id D members = Some local_id"

definition fresh_table :: "string list \<Rightarrow> string list \<Rightarrow> assignments" where
  "fresh_table alive_nodes flow_ids =
     fold (\<lambda>(i, flow_id). AList.update flow_id
         \<lparr>fa_flow_id = flow_id, fa_assigned_to = alive_nodes ! (i mod length alive_nodes), fa_generation = 0\<rparr>)
       (enumerate 0 flow_ids) []"

definition merge_assignment :: "string \<times> FlowAssignment \<Rightarrow> assignments \<Rightarrow> assignments" where
  "merge_assignment = (\<lambda>(fid, new_a) guard.
     let bump = AList.update fid
           \<lparr>fa_flow_id = fid, fa_assigned_to = fa_assigned_to new_a,
            fa_generation = (case map_of guard fid of Some e \<Rightarrow> fa_generation e | None \<Rightarrow> 0) + 1\<rparr> guard in
     case map_of guard fid of
       Some existing \<Rightarrow> if fa_assigned_to existing = fa_assigned_to new_a then guard else bump
     | None \<Rightarrow> bump)"

definition compute_assignments ::
    "('m, ('addr, 'time) ClusterMember) dash_ops \<Rightarrow> (string, FlowAssignment) iter_order \<Rightarrow> string list \<Rightarrow> 'm \<Rightarrow> assignments
      \<Rightarrow> FlowAssignment list \<times> assignments" where
  "compute_assignments D order flow_ids members guard =
     (let alive_nodes = alive_ids D members in
      if alive_nodes = [] then ([], guard)
      else
        let table = fresh_table alive_nodes flow_ids;
            guard1 = fold merge_assignment (order table) guard;
            guard2 = filter (\<lambda>(fid, _). map_of table fid \<noteq> None) guard1 in
        (map snd (order guard2), guard2))"

text \<open>The loop over the entries of the table with the counter \<^verbatim>\<open>idx\<close>.\<close>

fun reassign :: "string \<Rightarrow> string list \<Rightarrow> nat \<Rightarrow> (string \<times> FlowAssignment) list \<Rightarrow> (string \<times> FlowAssignment) list" where
  "reassign dead alive_nodes idx [] = []"
| "reassign dead alive_nodes idx ((k, e) # es) =
     (if fa_assigned_to e = dead
      then (k, e\<lparr>fa_assigned_to := alive_nodes ! (idx mod length alive_nodes), fa_generation := fa_generation e + 1\<rparr>)
             # reassign dead alive_nodes (Suc idx) es
      else (k, e) # reassign dead alive_nodes idx es)"

definition rebalance_after_failure ::
    "('m, ('addr, 'time) ClusterMember) dash_ops \<Rightarrow> (string, FlowAssignment) iter_order \<Rightarrow> string \<Rightarrow> 'm \<Rightarrow> assignments
      \<Rightarrow> FlowAssignment list \<times> assignments" where
  "rebalance_after_failure D order dead members guard =
     (let alive_nodes = map cm_node_id (filter (\<lambda>m. is_alive m \<and> cm_node_id m \<noteq> dead) (map snd (diter D members))) in
      if alive_nodes = [] then ([], guard)
      else
        let guard1 = reassign dead alive_nodes 0 (order guard) in
        (map snd (order guard1), guard1))"

definition flow_owner :: "assignments \<Rightarrow> string \<Rightarrow> string option" where
  "flow_owner guard flow_id = map_option fa_assigned_to (map_of guard flow_id)"

definition owns_flow :: "string \<Rightarrow> assignments \<Rightarrow> string \<Rightarrow> bool" where
  "owns_flow local_id guard flow_id \<longleftrightarrow> flow_owner guard flow_id = Some local_id"

text \<open>Entries from a leader, and entries of the replicated context, replace older ones only.\<close>

definition apply_assignment :: "FlowAssignment \<Rightarrow> assignments \<Rightarrow> assignments" where
  "apply_assignment a guard =
     (case map_of guard (fa_flow_id a) of
        Some existing \<Rightarrow>
          if fa_generation existing \<ge> fa_generation a then guard else AList.update (fa_flow_id a) a guard
      | None \<Rightarrow> AList.update (fa_flow_id a) a guard)"

definition apply_assignments :: "FlowAssignment list \<Rightarrow> assignments \<Rightarrow> assignments" where
  "apply_assignments incoming guard = fold apply_assignment incoming guard"

section \<open>Replicated context\<close>

record 'v ContextEntry =
  ce_key :: string
  ce_value :: 'v
  ce_version :: u64

type_synonym 'v context_table = "(string, 'v ContextEntry) hmap"

definition context_set :: "string \<Rightarrow> 'v \<Rightarrow> 'v context_table \<Rightarrow> 'v context_table" where
  "context_set key val ctx =
     AList.update key
       \<lparr>ce_key = key, ce_value = val,
        ce_version = (case map_of ctx key of Some e \<Rightarrow> ce_version e | None \<Rightarrow> 0) + 1\<rparr> ctx"

definition context_get :: "'v context_table \<Rightarrow> string \<Rightarrow> 'v option" where
  "context_get ctx key = map_option ce_value (map_of ctx key)"

definition context_delete :: "string \<Rightarrow> 'v context_table \<Rightarrow> 'v context_table" where
  "context_delete key ctx = AList.delete key ctx"

definition apply_context_update :: "'v ContextEntry \<Rightarrow> 'v context_table \<Rightarrow> 'v context_table" where
  "apply_context_update entry ctx =
     (case map_of ctx (ce_key entry) of
        Some existing \<Rightarrow>
          if ce_version existing \<ge> ce_version entry then ctx else AList.update (ce_key entry) entry ctx
      | None \<Rightarrow> AList.update (ce_key entry) entry ctx)"

definition apply_context_updates :: "'v ContextEntry list \<Rightarrow> 'v context_table \<Rightarrow> 'v context_table" where
  "apply_context_updates entries ctx = fold apply_context_update entries ctx"

section \<open>Deployments\<close>

record DeployAck =
  da_deploy_id :: string
  da_node_id :: string
  da_success :: bool
  da_error :: "string option"

definition record_deploy_ack :: "DeployAck \<Rightarrow> (string, DeployAck list) hmap \<Rightarrow> (string, DeployAck list) hmap" where
  "record_deploy_ack ack acks =
     AList.update (da_deploy_id ack)
       ((case map_of acks (da_deploy_id ack) of Some v \<Rightarrow> v | None \<Rightarrow> []) @ [ack]) acks"

definition deploy_acks_for :: "(string, DeployAck list) hmap \<Rightarrow> string \<Rightarrow> DeployAck list" where
  "deploy_acks_for acks deploy_id = (case map_of acks deploy_id of Some v \<Rightarrow> v | None \<Rightarrow> [])"

definition deploy_ack_count :: "(string, DeployAck list) hmap \<Rightarrow> string \<Rightarrow> nat" where
  "deploy_ack_count acks deploy_id = (case map_of acks deploy_id of Some v \<Rightarrow> length v | None \<Rightarrow> 0)"

definition handle_deploy :: "('req \<Rightarrow> bool) option \<Rightarrow> 'req \<Rightarrow> bool" where
  "handle_deploy callback req = (case callback of Some cb \<Rightarrow> cb req | None \<Rightarrow> False)"

section \<open>Session affinity\<close>

definition simple_hash :: "string \<Rightarrow> u64" where
  "simple_hash s = foldl (\<lambda>h b. (h XOR ucast b) * 1099511628211) 14695981039346656037 (as_bytes s)"

definition session_affinity ::
    "('m, ('addr, 'time) ClusterMember) dash_ops \<Rightarrow> string \<Rightarrow> 'm \<Rightarrow> string option" where
  "session_affinity D session_key members =
     (let candidates = sort (alive_ids D members) in
      if candidates = [] then None
      else Some (candidates ! (unat (simple_hash session_key) mod length candidates)))"

definition owns_session ::
    "('m, ('addr, 'time) ClusterMember) dash_ops \<Rightarrow> string \<Rightarrow> string \<Rightarrow> 'm \<Rightarrow> bool" where
  "owns_session D local_id session_key members \<longleftrightarrow> session_affinity D session_key members = Some local_id"

section \<open>Configuration\<close>

record ClusterConfig =
  cc_enabled :: bool
  cc_node_id :: string
  cc_bind :: string
  cc_peers :: "string list"
  cc_heartbeat_interval_ms :: u64
  cc_failure_timeout_ms :: u64
  cc_discovery_mode :: string
  cc_multicast_addr :: string
  cc_dns_service :: string
  cc_cluster_port :: u16

definition ClusterConfig_default :: ClusterConfig where
  "ClusterConfig_default =
     \<lparr>cc_enabled = False, cc_node_id = [], cc_bind = ''0.0.0.0:7980'', cc_peers = [],
      cc_heartbeat_interval_ms = 2000, cc_failure_timeout_ms = 10000, cc_discovery_mode = ''static'',
      cc_multicast_addr = ''239.255.0.1:7980'', cc_dns_service = [], cc_cluster_port = 7980\<rparr>"

datatype config_error =
  BadBind
| HeartbeatZero
| TimeoutTooShort u64 u64
| BadPeer nat string

text \<open>\<open>parse_addr\<close> is \<^verbatim>\<open>parse::<SocketAddr>\<close>; the error texts are the constructors.\<close>

definition validate :: "(string \<Rightarrow> 'addr option) \<Rightarrow> ClusterConfig \<Rightarrow> (unit, config_error) outcome" where
  "validate parse_addr c =
     (if parse_addr (cc_bind c) = None then Err BadBind
      else if cc_heartbeat_interval_ms c = 0 then Err HeartbeatZero
      else if cc_failure_timeout_ms c \<le> cc_heartbeat_interval_ms c
        then Err (TimeoutTooShort (cc_failure_timeout_ms c) (cc_heartbeat_interval_ms c))
      else
        case find (\<lambda>(i, p). parse_addr p = None) (enumerate 0 (cc_peers c)) of
          Some (i, p) \<Rightarrow> Err (BadPeer i p)
        | None \<Rightarrow> Ok ())"

end
