(* ===== verification/Cluster_Correct.thy ===== *)
theory Cluster_Correct
  imports Cluster_State
begin

text \<open>
  Properties of the cluster: the member table under every order of messages and ticks, what
  the failure detector does to each member, a member that refutes a suspicion, convergence
  of the replicated context, flow assignment and fail-over, agreement of nodes that see the
  same members.
\<close>

section \<open>The member table\<close>

text \<open>The events of one node; each handler runs to completion on the shared table.\<close>

inductive gossip_step ::
    "('m, ('addr, 'time) ClusterMember) dash_ops \<Rightarrow> ('time \<Rightarrow> 'time \<Rightarrow> int) \<Rightarrow> u64 \<Rightarrow> string \<Rightarrow> 'm \<Rightarrow> 'm \<Rightarrow> bool"
  for D since timeout_ms local_id where
  multicast: "gossip_step D since timeout_ms local_id m (handle_message D now msg m)"
| connection: "gossip_step D since timeout_ms local_id m (connection_message D local_id now msg m)"
| beat: "gossip_step D since timeout_ms local_id m (fst (heartbeat_tick D to_json pick full local_id bind now m))"
| detect: "gossip_step D since timeout_ms local_id m (failure_tick D since timeout_ms local_id now m)"

inductive_cases gossip_stepE: "gossip_step D since timeout_ms local_id m m'"

definition keyed :: "('m, ('addr, 'time) ClusterMember) dash_ops \<Rightarrow> 'm \<Rightarrow> bool" where
  "keyed D m \<longleftrightarrow> list_all (\<lambda>(k, x). cm_node_id x = k) (diter D m)"

text \<open>What the failure detector does to one member.\<close>

fun transition :: "MemberState option \<Rightarrow> ('addr, 'time) ClusterMember \<Rightarrow> ('addr, 'time) ClusterMember" where
  "transition (Some Dead) x = mark_dead x"
| "transition (Some Suspect) x = mark_suspect x"
| "transition _ x = x"

lemma transition_None: "transition None = (\<lambda>x. x)"
  by (rule ext) simp

lemma accept_heartbeat_id [simp]: "cm_node_id (accept_heartbeat now p x) = cm_node_id x"
  by (simp add: accept_heartbeat_def Let_def refute_def record_heartbeat_def)

lemma accept_digest_id [simp]: "cm_node_id (accept_digest now d x) = cm_node_id x"
  by (simp add: accept_digest_def record_heartbeat_def)

lemma mark_id [simp]:
  "cm_node_id (mark_dead x) = cm_node_id x" "cm_node_id (mark_suspect x) = cm_node_id x"
  "cm_node_id (record_heartbeat now x) = cm_node_id x"
  by (simp_all add: mark_dead_def mark_suspect_def record_heartbeat_def)

lemma new_member_id [simp]:
  "cm_node_id (ClusterMember_new now k a) = k" "cm_node_id (new_self now k a) = k"
  by (simp_all add: ClusterMember_new_def new_self_def)

context dash_map
begin

lemmas dash_simps = dget_insert dget_remove

lemma in_diter: "x \<in> set (map snd (diter D m)) \<longleftrightarrow> (\<exists>k. dget D k m = Some x)"
  by (force simp: diter_set [symmetric])

lemma diter_cong: "(\<And>k. dget D k m = dget D k m') \<Longrightarrow> set (diter D m) = set (diter D m')"
  by (auto simp: diter_set)

end

text \<open>The tables of the cluster: members of the map are records with their own identifier.\<close>

locale member_map = dash_map D
  for D :: "('m, ('addr, 'time) ClusterMember) dash_ops"
begin

lemma keyed_iff: "keyed D m \<longleftrightarrow> (\<forall>k x. dget D k m = Some x \<longrightarrow> cm_node_id x = k)"
  unfolding keyed_def list_all_iff by (metis (mono_tags, lifting) case_prodD case_prodI2 diter_set)

lemma keyed_insert: "keyed D m \<Longrightarrow> cm_node_id x = k \<Longrightarrow> keyed D (dinsert D k x m)"
  by (simp add: keyed_iff dash_simps)

lemma keyed_remove: "keyed D m \<Longrightarrow> keyed D (dremove D k m)"
  by (simp add: keyed_iff dash_simps)

lemma keyedD: "keyed D m \<Longrightarrow> dget D k m = Some x \<Longrightarrow> cm_node_id x = k"
  by (simp add: keyed_iff)

lemma keyed_process_heartbeat: "keyed D m \<Longrightarrow> keyed D (process_heartbeat D now p m)"
  by (auto simp: process_heartbeat_def intro!: keyed_insert dest: keyedD split: option.splits)

lemma keyed_process_digest: "keyed D m \<Longrightarrow> keyed D (process_digest D now d m)"
  by (auto simp: process_digest_def intro!: keyed_insert dest: keyedD split: option.splits)

lemma keyed_process_full_sync: "keyed D m \<Longrightarrow> keyed D (process_full_sync D now ds m)"
  unfolding process_full_sync_def by (induction ds arbitrary: m) (auto simp: keyed_process_digest)

lemma keyed_handle_message: "keyed D m \<Longrightarrow> keyed D (handle_message D now msg m)"
  by (cases msg) (auto simp: keyed_process_heartbeat keyed_process_full_sync keyed_remove)

lemma keyed_connection_message: "keyed D m \<Longrightarrow> keyed D (connection_message D local_id now msg m)"
  by (cases msg) (auto simp: keyed_process_heartbeat keyed_process_full_sync keyed_remove)

lemma fst_heartbeat_tick:
  "fst (heartbeat_tick D to_json pick full local_id bind now m) =
     (case dget D local_id m of Some me \<Rightarrow> dinsert D local_id (record_heartbeat now me) m | None \<Rightarrow> m)"
  by (simp add: heartbeat_tick_def Let_def split: option.splits)

lemma keyed_heartbeat_tick: "keyed D m \<Longrightarrow> keyed D (fst (heartbeat_tick D to_json pick full local_id bind now m))"
  by (auto simp: fst_heartbeat_tick intro!: keyed_insert dest: keyedD split: option.splits)

lemma keyed_apply_action: "keyed D m \<Longrightarrow> keyed D (apply_action D a m)"
  by (auto simp: apply_action_def intro!: keyed_insert dest: keyedD split: option.splits prod.splits MemberState.splits)

lemma keyed_failure_tick: "keyed D m \<Longrightarrow> keyed D (failure_tick D since timeout_ms local_id now m)"
  unfolding failure_tick_def
  by (induction "failure_actions D since timeout_ms local_id now m" arbitrary: m rule: list.induct)
    (auto intro: List.fold_invariant [where P = "keyed D" and Q = "\<lambda>_. True"] keyed_apply_action)

lemma keyed_step: "gossip_step D since timeout_ms local_id m m' \<Longrightarrow> keyed D m \<Longrightarrow> keyed D m'"
  by (erule gossip_stepE)
    (auto intro: keyed_handle_message keyed_connection_message keyed_heartbeat_tick keyed_failure_tick)

lemma keyed_reachable: "(gossip_step D since timeout_ms local_id)\<^sup>*\<^sup>* m m' \<Longrightarrow> keyed D m \<Longrightarrow> keyed D m'"
  by (induction rule: rtranclp_induct) (auto intro: keyed_step)

lemma map_snd_keyed: "keyed D m \<Longrightarrow> map (\<lambda>(k, x). cm_node_id x) (diter D m) = map fst (diter D m)"
  by (auto simp: keyed_def list_all_iff)

lemma distinct_ids: "keyed D m \<Longrightarrow> distinct (map cm_node_id (filter Q (map snd (diter D m))))"
proof -
  assume "keyed D m"
  then have "map cm_node_id (map snd (diter D m)) = map fst (diter D m)"
    by (auto simp: keyed_def list_all_iff)
  then have "distinct (map cm_node_id (map snd (diter D m)))" by (simp only: diter_distinct)
  then show ?thesis by (rule distinct_map_filter)
qed

lemma set_alive_ids: "keyed D m \<Longrightarrow> set (alive_ids D m) = {k. \<exists>x. dget D k m = Some x \<and> is_alive x}"
  unfolding alive_ids_def
  by (auto simp: in_diter image_iff keyed_iff simp del: set_map simp add: set_map [where f = cm_node_id])

lemma dget_apply_action:
  "dget D k (apply_action D (j, st) m) = (if k = j then map_option (transition (Some st)) (dget D k m) else dget D k m)"
  by (cases st) (auto simp: apply_action_def dash_simps split: option.splits)

lemma dget_apply_actions:
  "distinct (map fst as) \<Longrightarrow>
     dget D k (fold (apply_action D) as m) = map_option (transition (map_of as k)) (dget D k m)"
proof (induction as arbitrary: m)
  case (Cons a as)
  obtain j st where a: "a = (j, st)" by fastforce
  have "k = j \<Longrightarrow> map_of as k = None" using Cons.prems by (simp add: a map_of_eq_None_iff)
  with Cons show ?case by (auto simp: a dget_apply_action option.map_comp comp_def option.map_ident)
qed (simp add: transition_None option.map_ident)

lemma map_fst_failure_actions:
  "map fst (failure_actions D since timeout_ms local_id now m) =
     map cm_node_id (filter (\<lambda>x. failure_action since timeout_ms now x \<noteq> None)
       (filter (\<lambda>x. cm_node_id x \<noteq> local_id) (map snd (diter D m))))"
  unfolding failure_actions_def
  by (induction "map snd (diter D m)" arbitrary: m rule: list.induct)
    (auto simp: List.map_filter_def comp_def intro!: map_cong filter_cong)

lemma distinct_failure_actions:
  "keyed D m \<Longrightarrow> distinct (map fst (failure_actions D since timeout_ms local_id now m))"
  unfolding map_fst_failure_actions filter_filter by (rule distinct_ids)

lemma in_failure_actions:
  assumes "keyed D m"
  shows "(k, st) \<in> set (failure_actions D since timeout_ms local_id now m) \<longleftrightarrow>
     (\<exists>x. dget D k m = Some x \<and> k \<noteq> local_id \<and> failure_action since timeout_ms now x = Some st)"
proof -
  have "(k, st) \<in> set (failure_actions D since timeout_ms local_id now m) \<longleftrightarrow>
      (\<exists>x \<in> set (map snd (diter D m)). cm_node_id x = k \<and> k \<noteq> local_id \<and> failure_action since timeout_ms now x = Some st)"
    by (force simp: failure_actions_def List.map_filter_def image_iff)
  also have "\<dots> \<longleftrightarrow> (\<exists>x. dget D k m = Some x \<and> k \<noteq> local_id \<and> failure_action since timeout_ms now x = Some st)"
    using assms unfolding in_diter keyed_iff Bex_def by auto
  finally show ?thesis .
qed

lemma map_of_failure_actions:
  assumes "keyed D m" "dget D k m = Some x"
  shows "map_of (failure_actions D since timeout_ms local_id now m) k =
    (if k = local_id then None else failure_action since timeout_ms now x)" (is "map_of ?as k = ?r")
proof (rule option.exhaust [of ?r])
  assume "?r = None"
  with assms have "\<And>st. (k, st) \<notin> set ?as" by (auto simp: in_failure_actions)
  then have "map_of ?as k = None" by (force simp: map_of_eq_None_iff)
  with \<open>?r = None\<close> show ?thesis by simp
next
  fix st
  assume "?r = Some st"
  with assms have "(k, st) \<in> set ?as" by (auto simp: in_failure_actions split: if_splits)
  with \<open>?r = Some st\<close> show ?thesis by (simp add: distinct_failure_actions assms)
qed

lemma dget_failure_tick:
  assumes "keyed D m"
  shows "dget D k (failure_tick D since timeout_ms local_id now m) =
    map_option (\<lambda>x. if k = local_id then x else transition (failure_action since timeout_ms now x) x) (dget D k m)"
  using assms unfolding failure_tick_def
  by (cases "dget D k m") (simp_all add: dget_apply_actions distinct_failure_actions map_of_failure_actions)

text \<open>Heartbeats that carry an incarnation below the stored one leave the entry as it is.\<close>

lemma stale_heartbeats:
  assumes "dget D k m = Some x" "list_all (\<lambda>(t, q). hb_incarnation q < cm_incarnation x) later"
  shows "dget D k (fold (\<lambda>(t, q). process_heartbeat D t q) later m) = Some x"
  using assms
proof (induction later arbitrary: m)
  case (Cons l later)
  obtain t q where l: "l = (t, q)" by fastforce
  have "\<not> cm_incarnation x \<le> hb_incarnation q" using Cons.prems by (simp add: l not_le)
  then have "accept_heartbeat t q x = x" by (simp add: accept_heartbeat_def)
  then have "dget D k (process_heartbeat D t q m) = Some x"
    using Cons.prems by (auto simp: process_heartbeat_def dash_simps split: option.splits)
  with Cons show ?case by (simp add: l)
qed simp

lemma refuting_heartbeat:
  assumes "dget D (hb_node_id p) m = Some x" "cm_state x = Suspect" "hb_state p = Alive"
    and "hb_incarnation p = cm_incarnation x"
  shows "\<exists>y. dget D (hb_node_id p) (process_heartbeat D t p m) = Some y \<and> cm_node_id y = cm_node_id x \<and>
    cm_incarnation y = cm_incarnation x + 1 \<and> cm_state y = Alive \<and> cm_last_heartbeat y = t"
  using assms
  by (simp add: process_heartbeat_def accept_heartbeat_def dash_simps Let_def refute_def record_heartbeat_def)

text \<open>Of a table received as a whole, the one digest of a member counts for it.\<close>

lemma full_sync_other:
  "k \<notin> md_node_id ` set ds \<Longrightarrow> dget D k (process_full_sync D t ds m) = dget D k m"
  unfolding process_full_sync_def
proof (induction ds arbitrary: m)
  case (Cons d ds)
  have "dget D k (process_digest D t d m) = dget D k m"
    using Cons.prems by (auto simp: process_digest_def dash_simps split: option.splits)
  with Cons show ?case by simp
qed simp

lemma full_sync_member:
  assumes "distinct (map md_node_id ds)" "d \<in> set ds" "dget D (md_node_id d) m = Some x"
  shows "dget D (md_node_id d) (process_full_sync D t ds m) = Some (accept_digest t d x)"
proof -
  obtain as bs where ds: "ds = as @ d # bs" using assms(2) by (meson split_list)
  have "md_node_id d \<notin> md_node_id ` set as" "md_node_id d \<notin> md_node_id ` set bs" using assms(1) by (auto simp: ds)
  then have "dget D (md_node_id d) (process_full_sync D t as m) = Some x"
    "dget D (md_node_id d) (process_full_sync D t bs w) = dget D (md_node_id d) w" for w
    using assms(3) by (simp_all add: full_sync_other)
  then show ?thesis by (simp add: ds process_full_sync_def process_digest_def dash_simps)
qed

text \<open>A node that hears of a newer incarnation of itself takes it over and beats with it.\<close>

lemma sync_raises_incarnation:
  assumes "keyed D m" "dget D k m = Some y" "dget D k mine = Some x" "cm_incarnation x < cm_incarnation y"
  shows "\<exists>q. local_heartbeat D k addr (process_full_sync D t (map (\<lambda>(_, z). digest_of z) (diter D m)) mine) = Heartbeat q
    \<and> hb_node_id q = k \<and> hb_state q = Alive \<and> hb_incarnation q = cm_incarnation y"
proof -
  let ?ds = "map (\<lambda>(_, z). digest_of z) (diter D m)"
  have k: "cm_node_id y = k" using assms(1,2) by (rule keyedD)
  have "map md_node_id ?ds = map (\<lambda>(k, z). cm_node_id z) (diter D m)" by (auto simp: digest_of_def)
  then have d: "distinct (map md_node_id ?ds)" using diter_distinct [of m] unfolding map_snd_keyed [OF assms(1)] by argo
  have "digest_of y \<in> set ?ds" using assms(2) by (force simp: diter_set [symmetric])
  from full_sync_member [OF d this] assms(3)
  have "dget D k (process_full_sync D t ?ds mine) = Some (accept_digest t (digest_of y) x)" by (simp add: digest_of_def k)
  then show ?thesis using assms(4) by (simp add: local_heartbeat_def accept_digest_def digest_of_def record_heartbeat_def)
qed

lemma current_heartbeat:
  assumes "dget D (hb_node_id q) m = Some y" "hb_incarnation q = cm_incarnation y" "hb_state q = Alive"
  shows "\<exists>z. dget D (hb_node_id q) (process_heartbeat D t q m) = Some z \<and> cm_last_heartbeat z = t \<and> cm_state z = Alive"
  using assms by (simp add: process_heartbeat_def accept_heartbeat_def dash_simps Let_def record_heartbeat_def)

end

section \<open>Properties of the member table\<close>

interpretation list_members: member_map list_dash ..

abbreviation demo_members :: "(string, (nat, nat) ClusterMember) alist" where
  "demo_members \<equiv> register_self list_dash 0 ''a'' 7 DAList.empty"

abbreviation demo_beat :: "nat HeartbeatPayload" where
  "demo_beat \<equiv> \<lparr>hb_node_id = ''b'', hb_addr = 8, hb_incarnation = 0, hb_state = Alive, hb_metadata = []\<rparr>"

text \<open>
  C25. From a table that holds only this node, whatever messages arrive by multicast or TCP
  and however the heartbeat and failure-detection ticks interleave with them, every entry of
  the member table is stored under the identifier it carries, so no node is counted twice.
\<close>

theorem members_invariant:
  assumes "dash_map D" and "\<And>k. dget D k m0 = None"
    and "(gossip_step D since timeout_ms local_id)\<^sup>*\<^sup>* (register_self D t0 local_id bind m0) m"
  shows "(\<forall>k x. dget D k m = Some x \<longrightarrow> cm_node_id x = k) \<and> distinct (alive_ids D m)"
proof -
  have mm: "member_map D" using assms(1) by (rule member_map.intro)
  have "keyed D (register_self D t0 local_id bind m0)"
    using assms(2) by (simp add: member_map.keyed_iff [OF mm] register_self_def dash_map.dget_insert [OF assms(1)])
  then have "keyed D m" by (rule member_map.keyed_reachable [OF mm assms(3)])
  then show ?thesis
    by (simp add: member_map.keyed_iff [OF mm] alive_ids_def member_map.distinct_ids [OF mm])
qed

theorem members_invariant_witness:
  "distinct (alive_ids list_dash (connection_message list_dash ''a'' 5 (Heartbeat demo_beat) demo_members))"
proof -
  let ?m = "connection_message list_dash ''a'' 5 (Heartbeat demo_beat) demo_members"
  have "(gossip_step list_dash (\<lambda>x y. int x - int y) 10000 ''a'')\<^sup>*\<^sup>* demo_members ?m"
    by (intro r_into_rtranclp connection)
  from members_invariant [OF list_dash.dash_map_axioms _ this]
  show ?thesis by (simp add: list_dash_def)
qed

text \<open>
  One tick of the failure detector: each member other than this node whose last
  heartbeat is older than the timeout becomes dead, one older than half the timeout and
  alive becomes suspect, and every other entry, this node's included, is unchanged.
\<close>

theorem failure_tick_each:
  assumes "dash_map D" and "keyed D m"
  shows "dget D k (failure_tick D since timeout_ms local_id now m) =
    (case dget D k m of
       None \<Rightarrow> None
     | Some x \<Rightarrow>
         let elapsed = of_int (max (since now (cm_last_heartbeat x)) 0) :: u64 in
         Some (if k = local_id then x
               else if elapsed > timeout_ms then x\<lparr>cm_state := Dead\<rparr>
               else if elapsed > timeout_ms div 2 \<and> cm_state x = Alive then x\<lparr>cm_state := Suspect\<rparr>
               else x))"
proof -
  have "member_map D" using assms(1) by (rule member_map.intro)
  from member_map.dget_failure_tick [OF this assms(2)] show ?thesis
    by (cases "dget D k m") (auto simp: failure_action_def Let_def mark_dead_def mark_suspect_def)
qed

theorem failure_tick_each_witness:
  "dget list_dash ''b'' (failure_tick list_dash (\<lambda>x y. int x - int y) 10000 ''a'' 20000
     (process_heartbeat list_dash 5 demo_beat demo_members)) \<noteq> None"
proof -
  have "keyed list_dash (process_heartbeat list_dash 5 demo_beat demo_members)"
    by code_simp
  from failure_tick_each [OF list_dash.dash_map_axioms this]
  show ?thesis by (simp add: list_dash_def process_heartbeat_def DAList.lookup_update Let_def split: option.splits)
qed

text \<open>
  C28. A member that was suspected and then answers with a heartbeat of the incarnation
  it always had is stored with the next incarnation. As long as nothing but heartbeats with
  its own incarnation arrives for it, all of them are ignored, and the failure detector declares
  it dead once the timeout has passed since the first answer. What ends this is a full table
  sent to the member in between: the member takes over the incarnation it finds there for
  itself, and its next heartbeat counts again.
\<close>

theorem refuted_member_locked_out:
  assumes "dash_map D" and "keyed D m"
    and "dget D (hb_node_id p) m = Some x" and "cm_state x = Suspect" and "hb_state p = Alive"
    and "hb_incarnation p = cm_incarnation x" and "cm_incarnation x \<noteq> - 1"
    and "list_all (\<lambda>(t, q). hb_node_id q = hb_node_id p \<and> hb_incarnation q = cm_incarnation x) later"
    and "hb_node_id p \<noteq> local_id" and "of_int (max (since now t1) 0) > timeout_ms"
    and "dget D (hb_node_id p) mine = Some me" and "cm_incarnation me = cm_incarnation x"
  defines "m' \<equiv> fold (\<lambda>(t, q). process_heartbeat D t q) later (process_heartbeat D t1 p m)"
  shows "(\<exists>y. dget D (hb_node_id p) (failure_tick D since timeout_ms local_id now m') = Some y \<and> cm_state y = Dead)
    \<and> (\<exists>q z. local_heartbeat D (hb_node_id p) addr (process_full_sync D t2 (map (\<lambda>(_, z). digest_of z) (diter D m')) mine) = Heartbeat q
        \<and> dget D (hb_node_id p) (process_heartbeat D t3 q m') = Some z \<and> cm_last_heartbeat z = t3 \<and> cm_state z = Alive)"
proof -
  have mm: "member_map D" using assms(1) by (rule member_map.intro)
  obtain y where y: "dget D (hb_node_id p) (process_heartbeat D t1 p m) = Some y"
      "cm_incarnation y = cm_incarnation x + 1" "cm_last_heartbeat y = t1"
    using member_map.refuting_heartbeat [OF mm assms(3-6)] by metis
  have less: "cm_incarnation x < cm_incarnation x + 1"
    using assms(7) by (rule word_less_Suc)
  then have "list_all (\<lambda>(t, q). hb_incarnation q < cm_incarnation y) later"
    using assms(8) by (auto simp: list_all_iff y(2))
  then have y': "dget D (hb_node_id p) m' = Some y"
    unfolding m'_def by (rule member_map.stale_heartbeats [OF mm y(1)])
  moreover have k: "keyed D m'"
    unfolding m'_def using member_map.keyed_process_heartbeat [OF mm] assms(2)
    by (auto intro!: List.fold_invariant [where P = "keyed D" and Q = "\<lambda>_. True"])
  ultimately have "\<exists>y. dget D (hb_node_id p) (failure_tick D since timeout_ms local_id now m') = Some y \<and> cm_state y = Dead"
    using assms(9,10) y(3) by (auto simp: member_map.dget_failure_tick [OF mm] failure_action_def Let_def mark_dead_def)
  moreover obtain q where q: "local_heartbeat D (hb_node_id p) addr (process_full_sync D t2 (map (\<lambda>(_, z). digest_of z) (diter D m')) mine)
      = Heartbeat q" "hb_node_id q = hb_node_id p" "hb_state q = Alive" "hb_incarnation q = cm_incarnation y"
    using member_map.sync_raises_incarnation [OF mm k y' assms(11)] less y(2) assms(12) by metis
  ultimately show ?thesis using member_map.current_heartbeat [OF mm, of q m' y t3] y' by auto
qed

definition demo_suspect :: "(string, (nat, nat) ClusterMember) alist" where
  "demo_suspect =
     failure_tick list_dash (\<lambda>x y. int x - int y) 10000 ''a'' 6000 (process_heartbeat list_dash 5 demo_beat demo_members)"

text \<open>The node \<open>b\<close> of the example, and the receiver's table after two of its heartbeats.\<close>

definition demo_mine :: "(string, (nat, nat) ClusterMember) alist" where
  "demo_mine = register_self list_dash 0 ''b'' 8 DAList.empty"

definition demo_answered :: "(string, (nat, nat) ClusterMember) alist" where
  "demo_answered = process_heartbeat list_dash 15000 demo_beat (process_heartbeat list_dash 7000 demo_beat demo_suspect)"

theorem refuted_member_locked_out_witness:
  "(\<exists>y. dget list_dash ''b'' (failure_tick list_dash (\<lambda>x y. int x - int y) 10000 ''a'' 20000 demo_answered) = Some y \<and> cm_state y = Dead)
    \<and> (\<exists>q z. local_heartbeat list_dash ''b'' 8 (process_full_sync list_dash 15500 (map (\<lambda>(_, z). digest_of z) (diter list_dash demo_answered)) demo_mine)
          = Heartbeat q
        \<and> dget list_dash ''b'' (process_heartbeat list_dash 16000 q demo_answered) = Some z \<and> cm_last_heartbeat z = 16000 \<and> cm_state z = Alive)"
proof -
  have k: "keyed list_dash demo_suspect" by code_simp
  obtain x where x: "dget list_dash ''b'' demo_suspect = Some x" "cm_state x = Suspect" "cm_incarnation x = 0"
  proof -
    have "map_option (\<lambda>x. (cm_state x, cm_incarnation x)) (dget list_dash ''b'' demo_suspect) = Some (Suspect, 0)" by code_simp
    then show thesis using that by auto
  qed
  obtain me where me: "dget list_dash ''b'' demo_mine = Some me" "cm_incarnation me = 0"
  proof -
    have "map_option cm_incarnation (dget list_dash ''b'' demo_mine) = Some 0" by code_simp
    then show thesis using that by auto
  qed
  show ?thesis
    using refuted_member_locked_out [OF list_dash.dash_map_axioms k, of demo_beat x "[(15000, demo_beat)]"
        "''a''" 10000 "\<lambda>x y. int x - int y" 20000 7000 demo_mine me] x me
    by (simp add: demo_answered_def)
qed

section \<open>Agreement on the member table\<close>

lemma min_id_eq: "min_id xs = (if set xs = {} then None else Some (Min (set xs)))"
  by (induction xs) (auto simp: Min_insert2 split: option.splits)

definition live_in :: "('m, ('addr, 'time) ClusterMember) dash_ops \<Rightarrow> 'm \<Rightarrow> string \<Rightarrow> bool" where
  "live_in D m k \<longleftrightarrow> (case dget D k m of Some x \<Rightarrow> is_alive x | None \<Rightarrow> False)"

context member_map
begin

lemma set_alive_live: "keyed D m \<Longrightarrow> set (alive_ids D m) = Collect (live_in D m)"
  by (auto simp: set_alive_ids live_in_def split: option.splits)

lemma distinct_alive_ids: "keyed D m \<Longrightarrow> distinct (alive_ids D m)"
  by (simp add: alive_ids_def distinct_ids)

lemma leader_iff:
  assumes "keyed D m"
  shows "leader_id D m = Some l \<longleftrightarrow> live_in D m l \<and> (\<forall>k. live_in D m k \<longrightarrow> l \<le> k)"
proof (cases "Collect (live_in D m) = {}")
  case False
  moreover have "finite (Collect (live_in D m))" by (metis List.finite_set assms set_alive_live)
  ultimately have "l = Min (Collect (live_in D m)) \<longleftrightarrow> l \<in> Collect (live_in D m) \<and> (\<forall>k \<in> Collect (live_in D m). l \<le> k)"
    by (intro eq_Min_iff)
  with False show ?thesis by (auto simp: leader_id_def min_id_eq set_alive_live [OF assms])
qed (auto simp: leader_id_def min_id_eq set_alive_live [OF assms])

lemma affinity_live:
  assumes "keyed D m" "live_in D m k"
  shows "\<exists>j. session_affinity D s m = Some j \<and> live_in D m j"
proof -
  define c where "c = sort (alive_ids D m)"
  have c: "set c = Collect (live_in D m)" by (simp add: c_def set_alive_live [OF assms(1)])
  with assms(2) have "c \<noteq> []" by (metis empty_iff list.set(1) mem_Collect_eq)
  then have "c ! (unat (simple_hash s) mod length c) \<in> set c" by (intro nth_mem) simp
  with \<open>c \<noteq> []\<close> show ?thesis unfolding c by (auto simp: session_affinity_def Let_def c_def)
qed

end

text \<open>
  C26. The leader is the smallest identifier among the live members, and a session belongs
  to a live member whenever there is one. Two nodes whose tables hold the same live members
  agree on the leader and on the owner of every session, whatever the iteration order of
  their maps.
\<close>

theorem views_agree:
  assumes "dash_map D" and "keyed D m" and "dash_map D'" and "keyed D' m'"
    and "live_in D m = live_in D' m'"
  shows "leader_id D m = leader_id D' m' \<and> session_affinity D s m = session_affinity D' s m'
    \<and> (\<forall>l. leader_id D m = Some l \<longleftrightarrow> live_in D m l \<and> (\<forall>k. live_in D m k \<longrightarrow> l \<le> k))
    \<and> (\<forall>k. live_in D m k \<longrightarrow> (\<exists>j. session_affinity D s m = Some j \<and> live_in D m j))"
proof -
  have mm: "member_map D" "member_map D'" using assms(1,3) by (auto intro: member_map.intro)
  have "set (alive_ids D m) = set (alive_ids D' m')"
    using assms(5) by (simp add: member_map.set_alive_live [OF mm(1) assms(2)] member_map.set_alive_live [OF mm(2) assms(4)])
  moreover from this have "sort (alive_ids D m) = sort (alive_ids D' m')"
    by (simp add: sorted_distinct_set_unique member_map.distinct_alive_ids [OF mm(1) assms(2)]
        member_map.distinct_alive_ids [OF mm(2) assms(4)])
  ultimately have "leader_id D m = leader_id D' m'" "session_affinity D s m = session_affinity D' s m'"
    by (simp_all add: session_affinity_def leader_id_def min_id_eq)
  then show ?thesis
    using member_map.leader_iff [OF mm(1) assms(2)] member_map.affinity_live [OF mm(1) assms(2)] by metis
qed

theorem views_agree_witness:
  "leader_id list_dash (process_heartbeat list_dash 5 demo_beat demo_members)
     = leader_id list_dash (register_self list_dash 0 ''a'' 7 (process_heartbeat list_dash (5 :: nat) demo_beat DAList.empty))"
proof -
  let ?m = "process_heartbeat list_dash 5 demo_beat demo_members"
  let ?m' = "register_self list_dash 0 ''a'' (7 :: nat) (process_heartbeat list_dash (5 :: nat) demo_beat DAList.empty)"
  have k: "keyed list_dash ?m" "keyed list_dash ?m'" by code_simp+
  have "live_in list_dash ?m = live_in list_dash ?m'"
    by (rule ext) (simp add: live_in_def list_dash_def process_heartbeat_def register_self_def DAList.lookup_update
        is_alive_def new_self_def ClusterMember_new_def)
  from views_agree [OF list_dash.dash_map_axioms k(1) list_dash.dash_map_axioms k(2) this] show ?thesis ..
qed

section \<open>Flow assignment\<close>

definition assignment_at :: "string list \<Rightarrow> nat \<Rightarrow> string \<Rightarrow> FlowAssignment option \<Rightarrow> FlowAssignment" where
  "assignment_at nodes i fid old =
     (let node = nodes ! (i mod length nodes) in
      case old of
        Some e \<Rightarrow>
          if fa_assigned_to e = node then e
          else \<lparr>fa_flow_id = fid, fa_assigned_to = node, fa_generation = fa_generation e + 1\<rparr>
      | None \<Rightarrow> \<lparr>fa_flow_id = fid, fa_assigned_to = node, fa_generation = 1\<rparr>)"

abbreviation place :: "string list \<Rightarrow> nat \<times> string \<Rightarrow> assignments \<Rightarrow> assignments" where
  "place nodes \<equiv> \<lambda>(i, fid). AList.update fid
     \<lparr>fa_flow_id = fid, fa_assigned_to = nodes ! (i mod length nodes), fa_generation = 0\<rparr>"

lemma fresh_table_nth:
  "distinct fs \<Longrightarrow> i < length fs \<Longrightarrow>
     map_of (fold (place nodes) (enumerate n fs) t) (fs ! i) =
       Some \<lparr>fa_flow_id = fs ! i, fa_assigned_to = nodes ! ((n + i) mod length nodes), fa_generation = 0\<rparr>"
  by (induction fs arbitrary: n t rule: rev_induct)
    (auto simp: enumerate_append_eq hmap_simps nth_append less_Suc_eq)

lemma hmap_ok_fresh_table: "hmap_ok (fresh_table nodes fs)"
  unfolding fresh_table_def by (induction fs rule: rev_induct) (auto simp: enumerate_append_eq)

lemma map_of_fresh_table: "map_of (fresh_table nodes fs) k = None \<longleftrightarrow> k \<notin> set fs"
  unfolding fresh_table_def by (induction fs rule: rev_induct) (auto simp: enumerate_append_eq hmap_simps)

definition merged :: "string \<Rightarrow> FlowAssignment \<Rightarrow> FlowAssignment option \<Rightarrow> FlowAssignment" where
  "merged fid a old =
     (case old of
        Some e \<Rightarrow> if fa_assigned_to e = fa_assigned_to a then e
          else \<lparr>fa_flow_id = fid, fa_assigned_to = fa_assigned_to a, fa_generation = fa_generation e + 1\<rparr>
      | None \<Rightarrow> \<lparr>fa_flow_id = fid, fa_assigned_to = fa_assigned_to a, fa_generation = 1\<rparr>)"

lemma map_of_merge_assignment:
  "map_of (merge_assignment (fid, a) g) k = (if k = fid then Some (merged fid a (map_of g fid)) else map_of g k)"
  by (auto simp: merge_assignment_def merged_def hmap_simps Let_def split: option.splits)

lemma hmap_ok_merge_assignment: "hmap_ok g \<Longrightarrow> hmap_ok (merge_assignment x g)"
  by (cases x) (auto simp: merge_assignment_def Let_def split: option.splits)

lemma map_of_merge_assignments:
  "distinct (map fst t) \<Longrightarrow> map_of (fold merge_assignment t g) k =
     (case map_of t k of Some a \<Rightarrow> Some (merged k a (map_of g k)) | None \<Rightarrow> map_of g k)"
proof (induction t arbitrary: g)
  case (Cons x t)
  obtain fid a where x: "x = (fid, a)" by fastforce
  have "map_of t fid = None" using Cons.prems by (simp add: x map_of_eq_None_iff)
  with Cons show ?case by (auto simp: x map_of_merge_assignment split: option.splits)
qed simp

lemma map_of_filter_key: "map_of (filter (\<lambda>(k, _). Q k) g) k = (if Q k then map_of g k else None)"
  by (induction g) auto

lemma assigned_table:
  assumes "hash_order order" "alive_ids D m \<noteq> []" "distinct flow_ids"
  shows "map_of (snd (compute_assignments D order flow_ids m guard)) k =
    (case map_of (fresh_table (alive_ids D m) flow_ids) k of
       Some a \<Rightarrow> Some (merged k a (map_of guard k))
     | None \<Rightarrow> None)"
proof -
  let ?t = "fresh_table (alive_ids D m) flow_ids"
  have t: "distinct (map fst (order ?t))" "map_of (order ?t) = map_of ?t"
    using hash_order.hmap_ok_order [OF assms(1), of ?t] hash_order.map_of_order [OF assms(1), of ?t] hmap_ok_fresh_table
    by (auto simp: hmap_ok_def)
  show ?thesis
    using assms(2) by (simp add: compute_assignments_def Let_def map_of_filter_key map_of_merge_assignments [OF t(1)] t(2)
        split: option.splits)
qed

lemma merged_fresh:
  "distinct fs \<Longrightarrow> i < length fs \<Longrightarrow> map_of (fresh_table nodes fs) (fs ! i) = Some a \<Longrightarrow>
     merged (fs ! i) a old = assignment_at nodes i (fs ! i) old"
  using fresh_table_nth [of fs i nodes 0 "[]"]
  by (auto simp: fresh_table_def merged_def assignment_at_def Let_def split: option.splits)

text \<open>
  C12. With live members \<open>n\<^sub>0 \<dots> n\<^sub>k\<close> the \<open>i\<close>-th flow is given to the node of index
  \<open>i mod (k + 1)\<close>. A flow that already belongs to that node keeps its entry, any other gets a
  generation one above its old one, entries of flows that are not listed are dropped, and
  the result is the list of the entries of the new table.
\<close>

theorem compute_assignments_spec:
  assumes "hash_order order" and "alive_ids D m \<noteq> []" and "distinct flow_ids"
    and "compute_assignments D order flow_ids m guard = (out, guard')"
  shows "(\<forall>i < length flow_ids. map_of guard' (flow_ids ! i) =
        Some (assignment_at (alive_ids D m) i (flow_ids ! i) (map_of guard (flow_ids ! i))))
    \<and> dom (map_of guard') = set flow_ids
    \<and> (\<forall>a \<in> ran (map_of guard'). fa_assigned_to a \<in> set (alive_ids D m))
    \<and> mset out = mset (map snd guard')"
proof -
  let ?t = "map_of (fresh_table (alive_ids D m) flow_ids)"
  have g: "map_of guard' k = (case ?t k of Some a \<Rightarrow> Some (merged k a (map_of guard k)) | None \<Rightarrow> None)" for k
    using assigned_table [OF assms(1-3), of guard k] assms(4) by simp
  have t: "?t k = None \<longleftrightarrow> k \<notin> set flow_ids" for k by (rule map_of_fresh_table)
  have dom: "dom (map_of guard') = set flow_ids" using t by (auto simp: dom_def g split: option.splits)
  have nth: "\<forall>i < length flow_ids. map_of guard' (flow_ids ! i) =
      Some (assignment_at (alive_ids D m) i (flow_ids ! i) (map_of guard (flow_ids ! i)))"
    using assms(3) t by (auto simp: g merged_fresh split: option.splits)
  have "fa_assigned_to (assignment_at (alive_ids D m) i f old) \<in> set (alive_ids D m)" for i f old
    using assms(2) by (auto simp: assignment_at_def Let_def split: option.splits)
  then have "\<forall>a \<in> ran (map_of guard'). fa_assigned_to a \<in> set (alive_ids D m)"
    using dom nth by (auto simp: ran_def) (metis domI in_set_conv_nth option.inject)
  moreover have "mset out = mset (map snd guard')"
    using assms(2,4) hash_order.mset_order [OF assms(1)] by (auto simp: compute_assignments_def Let_def)
  ultimately show ?thesis using dom nth by blast
qed

theorem compute_assignments_spec_witness:
  "map_of (snd (compute_assignments list_dash (\<lambda>t. t) [''f'', ''g'', ''h''] demo_members [])) ''g'' =
     Some \<lparr>fa_flow_id = ''g'', fa_assigned_to = ''a'', fa_generation = 1\<rparr>"
proof -
  let ?r = "compute_assignments list_dash (\<lambda>t. t) [''f'', ''g'', ''h''] demo_members []"
  have a: "alive_ids list_dash demo_members = [''a'']" by code_simp
  have "distinct [''f'', ''g'', ''h'']" by simp
  from compute_assignments_spec [OF insertion_order.hash_order_axioms _ this, of list_dash demo_members "[]" "fst ?r" "snd ?r",
      THEN conjunct1, rule_format, of 1]
  have "map_of (snd ?r) ([''f'', ''g'', ''h''] ! 1) = Some (assignment_at [''a''] 1 ''g'' None)"
    by (simp add: a)
  then show ?thesis by (simp add: assignment_at_def)
qed

definition taken_over :: "string \<Rightarrow> string list \<Rightarrow> FlowAssignment \<Rightarrow> FlowAssignment \<Rightarrow> bool" where
  "taken_over dead nodes e e' \<longleftrightarrow>
     (if fa_assigned_to e = dead
      then \<exists>n \<in> set nodes. e' = e\<lparr>fa_assigned_to := n, fa_generation := fa_generation e + 1\<rparr>
      else e' = e)"

lemma reassign_entries:
  assumes "nodes \<noteq> []"
  shows "list_all2 (\<lambda>(k, e) (k', e'). k' = k \<and> taken_over dead nodes e e') es (reassign dead nodes idx es)"
  using assms by (induction dead nodes idx es rule: reassign.induct) (auto simp: taken_over_def)

lemma map_of_list_all2:
  "list_all2 (\<lambda>(k, e) (k', e'). k' = k \<and> P e e') es es' \<Longrightarrow> rel_option P (map_of es k) (map_of es' k)"
  by (induction es es' rule: list_all2_induct) auto

text \<open>
  C27. When a node has failed and another live node is known, no flow is left with the
  failed node: each of its flows is taken by a live node with the next generation, the other
  entries are unchanged, and no entry is lost or added.
\<close>

theorem rebalance_takes_over:
  assumes "hash_order order" and "dash_map D" and "keyed D m" and "hmap_ok guard"
    and "live_in D m j" and "j \<noteq> dead"
    and "rebalance_after_failure D order dead m guard = (out, guard')"
  shows "(case (map_of guard k, map_of guard' k) of
      (Some e, Some e') \<Rightarrow>
        if fa_assigned_to e = dead
        then live_in D m (fa_assigned_to e') \<and> fa_assigned_to e' \<noteq> dead \<and> fa_flow_id e' = fa_flow_id e
          \<and> fa_generation e' = fa_generation e + 1
        else e' = e
    | (None, None) \<Rightarrow> True
    | _ \<Rightarrow> False) \<and> mset out = mset (map snd guard')"
proof -
  let ?ns = "map cm_node_id (filter (\<lambda>x. is_alive x \<and> cm_node_id x \<noteq> dead) (map snd (diter D m)))"
  have ns: "set ?ns = {n. live_in D m n \<and> n \<noteq> dead}"
  proof -
    have "set ?ns = set (alive_ids D m) - {dead}" by (auto simp: alive_ids_def)
    then show ?thesis by (auto simp: member_map.set_alive_live [OF member_map.intro [OF assms(2)] assms(3)])
  qed
  with assms(5,6) have ne: "?ns \<noteq> []" by (metis (mono_tags, lifting) empty_iff list.set(1) mem_Collect_eq)
  then have r: "guard' = reassign dead ?ns 0 (order guard)" "mset out = mset (map snd guard')"
    using assms(7) hash_order.mset_order [OF assms(1)] by (auto simp: rebalance_after_failure_def Let_def)
  have "rel_option (taken_over dead ?ns) (map_of guard k) (map_of guard' k)"
    using map_of_list_all2 [OF reassign_entries [OF ne, of dead "order guard" 0], of k]
    by (simp add: r(1) hash_order.map_of_order [OF assms(1,4)])
  then show ?thesis using ns r(2) by (auto simp: option_rel_Some1 option_rel_Some2 taken_over_def split: option.splits)
qed

theorem rebalance_takes_over_witness:
  "map_of (snd (rebalance_after_failure list_dash rev ''z'' demo_members
     [(''f'', \<lparr>fa_flow_id = ''f'', fa_assigned_to = ''z'', fa_generation = 3\<rparr>)])) ''f'' \<noteq> None"
proof -
  let ?g = "[(''f'', \<lparr>fa_flow_id = ''f'', fa_assigned_to = ''z'', fa_generation = 3\<rparr>)]"
  let ?r = "rebalance_after_failure list_dash rev ''z'' demo_members ?g"
  have "keyed list_dash demo_members" "hmap_ok ?g" "live_in list_dash demo_members ''a''" by code_simp+
  from rebalance_takes_over [OF reverse_order.hash_order_axioms list_dash.dash_map_axioms this,
      of "''z''" "fst ?r" "snd ?r" "''f''"]
  show ?thesis by (simp split: option.splits)
qed

section \<open>Replicated context\<close>

text \<open>The entries that compete for a key: the one stored and those received.\<close>

definition candidates :: "'v context_table \<Rightarrow> 'v ContextEntry list \<Rightarrow> string \<Rightarrow> 'v ContextEntry set" where
  "candidates ctx us k = set_option (map_of ctx k) \<union> {e \<in> set us. ce_key e = k}"

definition newest :: "'v ContextEntry set \<Rightarrow> 'v ContextEntry option \<Rightarrow> bool" where
  "newest S r \<longleftrightarrow> (case r of None \<Rightarrow> S = {} | Some x \<Rightarrow> x \<in> S \<and> (\<forall>y \<in> S. ce_version y \<le> ce_version x))"

lemma map_of_apply_context_update:
  "map_of (apply_context_update e ctx) k =
     (case map_of ctx k of
        Some x \<Rightarrow> if ce_key e = k \<and> ce_version x < ce_version e then Some e else Some x
      | None \<Rightarrow> if ce_key e = k then Some e else None)"
  by (auto simp: apply_context_update_def hmap_simps not_le split: option.splits)

lemma newest_apply_update: "newest (candidates ctx [e] k) (map_of (apply_context_update e ctx) k)"
  by (auto simp: newest_def candidates_def map_of_apply_context_update split: option.splits)

lemma newest_step:
  "newest S r \<Longrightarrow> newest (set_option r \<union> T) r' \<Longrightarrow> newest (S \<union> T) r'"
  by (fastforce simp: newest_def split: option.splits)

lemma newest_apply_updates: "newest (candidates ctx us k) (map_of (apply_context_updates us ctx) k)"
proof (induction us rule: rev_induct)
  case Nil
  show ?case by (simp add: newest_def candidates_def apply_context_updates_def split: option.splits)
next
  case (snoc e us)
  let ?c = "apply_context_updates us ctx"
  have "newest (set_option (map_of ?c k) \<union> {x \<in> {e}. ce_key x = k}) (map_of (apply_context_update e ?c) k)"
    using newest_apply_update [of ?c e k] by (simp add: candidates_def)
  from newest_step [OF snoc this]
  have "newest (candidates ctx us k \<union> {x \<in> {e}. ce_key x = k}) (map_of (apply_context_update e ?c) k)" .
  moreover have "candidates ctx us k \<union> {x \<in> {e}. ce_key x = k} = candidates ctx (us @ [e]) k"
    by (auto simp: candidates_def)
  ultimately show ?case by (simp add: apply_context_updates_def)
qed

lemma newest_unique: "newest S r \<Longrightarrow> newest S r' \<Longrightarrow> inj_on ce_version S \<Longrightarrow> r = r'"
  by (auto simp: newest_def inj_on_def split: option.splits) (metis order_antisym)

text \<open>
  C11. The replicated context converges: as long as no two different entries of a key carry
  the same version, two nodes that started from the same context and received the same
  updates, in any order and any number of times, hold the same entries, and each is the
  entry of the highest version.
\<close>

theorem context_converges:
  assumes "set us = set vs" and "\<And>k. inj_on ce_version (candidates ctx us k)"
  shows "map_of (apply_context_updates us ctx) = map_of (apply_context_updates vs ctx)
    \<and> newest (candidates ctx us k) (map_of (apply_context_updates us ctx) k)"
proof -
  have "candidates ctx us = candidates ctx vs" using assms(1) by (simp add: candidates_def fun_eq_iff)
  then show ?thesis using newest_apply_updates newest_unique assms(2) by (metis ext)
qed

theorem context_converges_witness:
  "map_of (apply_context_updates [\<lparr>ce_key = ''k'', ce_value = 1 :: nat, ce_version = 1\<rparr>,
      \<lparr>ce_key = ''k'', ce_value = 2, ce_version = 2\<rparr>] [])
   = map_of (apply_context_updates [\<lparr>ce_key = ''k'', ce_value = 2, ce_version = 2\<rparr>,
      \<lparr>ce_key = ''k'', ce_value = 1, ce_version = 1\<rparr>] [])"
  by (rule context_converges [THEN conjunct1]) (auto simp: candidates_def inj_on_def)

text \<open>
  Two nodes that hold the same context and both write a key before they exchange their
  entries do not converge: both entries carry the same version, so each node rejects the
  other's and keeps its own value.
\<close>

theorem concurrent_writes_diverge:
  assumes "map_of (context_set k v ctx) k = Some e" and "map_of (context_set k w ctx) k = Some f"
  shows "context_get (apply_context_updates [f] (context_set k v ctx)) k = Some v
    \<and> context_get (apply_context_updates [e] (context_set k w ctx)) k = Some w"
  using assms
  by (auto simp: context_get_def context_set_def apply_context_updates_def apply_context_update_def hmap_simps)

theorem concurrent_writes_diverge_witness:
  "context_get (apply_context_updates [\<lparr>ce_key = ''k'', ce_value = 2 :: nat, ce_version = 1\<rparr>] (context_set ''k'' 1 [])) ''k'' = Some 1"
  by (rule concurrent_writes_diverge [THEN conjunct1]) (simp_all add: context_set_def hmap_simps)

section \<open>The wire\<close>

text \<open>
  C32. A message written by one node as a length-prefixed frame of at most 4 MiB and read by
  the connection handler of another has the effect of that message on the member table.
\<close>

theorem gossip_frame_delivered:
  assumes "byte_stream S pending eof" and "pending s = tcp_frame data @ rest"
    and "length data \<le> 4 * 1024 * 1024" and "from_json data = Some msg"
  shows "gossip_connection S from_json D local_id now s m = Ok (connection_message D local_id now msg m)"
proof -
  have len: "unat (of_nat (length data) :: u32) = length data" using assms(3) by (simp add: unat_of_nat)
  obtain s1 where s1: "read_exact S 4 s = Ok (u32_to_be (of_nat (length data)), s1)" "pending s1 = data @ rest"
    using byte_stream.read_ok [OF assms(1), of 4 s] assms(2) by (auto simp: tcp_frame_def)
  obtain s2 where s2: "read_exact S (length data) s1 = Ok (data, s2)"
    using byte_stream.read_ok [OF assms(1), of "length data" s1] s1(2) by auto
  have "u32_of_be (u32_to_be w ! 0) (u32_to_be w ! 1) (u32_to_be w ! 2) (u32_to_be w ! 3) = w" for w
    by (simp add: u32_to_be_def wire_simps)
  then show ?thesis
    using assms(3,4) by (simp add: gossip_connection_def s1(1) s2 len Let_def)
qed

theorem gossip_frame_delivered_witness:
  "gossip_connection (list_stream []) (\<lambda>bs. if bs = [1, 2] then Some (Leave ''b'') else None) list_dash ''a'' (5 :: nat)
     (tcp_frame [1, 2]) demo_members = Ok (connection_message list_dash ''a'' 5 (Leave ''b'') demo_members)"
  by (rule gossip_frame_delivered [OF list_stream.byte_stream_axioms, where rest = "[]"]) simp_all

end
