(* ===== verification/Graph.thy ===== *)
theory Graph
  imports Btree "HOL-Library.Code_Target_Nat"
begin

text \<open>
  The directed graph of \<^verbatim>\<open>crates/core/src/utils/graph.rs\<close> and the topological sorter of
  \<^verbatim>\<open>topo.rs\<close>, which orders flows, groups, nodes and environment entries when flows are
  loaded.

  A \<^verbatim>\<open>BTreeSet\<close> that is only tested for membership is the list of its elements. Indexing a map with a missing key
  panics. The depth-first visit takes a fuel, and more than the number of nodes is enough.
\<close>

section \<open>Graphs\<close>

type_synonym ('n, 'e) Graph = "('n, ('n, 'e) btree) btree"

definition Graph_new :: "('n, 'e) Graph" where
  "Graph_new = []"

definition add :: "'n :: linorder \<Rightarrow> ('n, 'e) Graph \<Rightarrow> ('n, 'e) Graph" where
  "add node g = btree_entry node [] g"

text \<open>
  \<^verbatim>\<open>link\<close> returns a reference to the edge, initialised with the default \<open>d\<close>; \<open>link_set\<close> is
  the assignment \<^verbatim>\<open>*g.link(a, b) = e\<close>.
\<close>

definition link :: "'e \<Rightarrow> 'n :: linorder \<Rightarrow> 'n \<Rightarrow> ('n, 'e) Graph \<Rightarrow> ('n, 'e) Graph" where
  "link d node child g =
     (let g1 = btree_entry node [] g;
          cs = (case map_of g1 node of Some cs \<Rightarrow> cs | None \<Rightarrow> []) in
      btree_insert node (btree_entry child d cs) g1)"

definition link_set :: "'n :: linorder \<Rightarrow> 'n \<Rightarrow> 'e \<Rightarrow> ('n, 'e) Graph \<Rightarrow> ('n, 'e) Graph" where
  "link_set node child e g =
     (let g1 = btree_entry node [] g;
          cs = (case map_of g1 node of Some cs \<Rightarrow> cs | None \<Rightarrow> []) in
      btree_insert node (btree_insert child e cs) g1)"

definition contains :: "('n, 'e) Graph \<Rightarrow> 'n \<Rightarrow> bool" where
  "contains g k \<longleftrightarrow> map_of g k \<noteq> None"

definition edge :: "('n, 'e) Graph \<Rightarrow> 'n \<Rightarrow> 'n \<Rightarrow> 'e option" where
  "edge g a b = (case map_of g a of Some cs \<Rightarrow> map_of cs b | None \<Rightarrow> None)"

definition edges :: "('n, 'e) Graph \<Rightarrow> 'n \<Rightarrow> ('n \<times> 'e) list" where
  "edges g a = (case map_of g a of Some cs \<Rightarrow> cs | None \<Rightarrow> [])"

definition reversed :: "('n :: linorder, 'e) Graph \<Rightarrow> ('n, 'e) Graph" where
  "reversed g =
     fold (\<lambda>n ret. fold (\<lambda>(m, e). link_set m n e) (edges g n) (add n ret)) (map fst g) Graph_new"

section \<open>Topological sort\<close>

fun ofold :: "('a \<Rightarrow> 's \<Rightarrow> ('s, 'e) outcome) \<Rightarrow> 'a list \<Rightarrow> 's \<Rightarrow> ('s, 'e) outcome" where
  "ofold f [] s = Ok s"
| "ofold f (x # xs) s = obind (f x s) (ofold f xs)"

primrec sort_inner_visit ::
    "nat \<Rightarrow> ('n, 'e) Graph \<Rightarrow> 'n \<Rightarrow> 'n list \<times> 'n list \<Rightarrow> ('n list \<times> 'n list, unit) outcome" where
  "sort_inner_visit 0 g node st = Diverge"
| "sort_inner_visit (Suc fuel) g node st =
     (case st of (dst, marks) \<Rightarrow>
        if node \<in> set marks then Ok (dst, marks)
        else
          case map_of g node of
            None \<Rightarrow> Panic
          | Some children \<Rightarrow>
              obind (ofold (sort_inner_visit fuel g) (map fst children) (dst, node # marks))
                (\<lambda>(dst', marks'). Ok (dst' @ [node], marks')))"

definition sort_graph :: "('n, 'e) Graph \<Rightarrow> ('n list, unit) outcome" where
  "sort_graph g =
     obind (ofold (sort_inner_visit (Suc (length g)) g) (map fst g) ([], [])) (\<lambda>(ret, _). Ok ret)"

section \<open>Paths\<close>

text \<open>
  The loop of \<^verbatim>\<open>is_path_from_to\<close>: the inner loop scans the children of the popped node;
  the outer loop ends when the stack is empty, or when the popped node has no entry.
\<close>

fun scan_children :: "'n \<Rightarrow> 'n list \<Rightarrow> 'n list \<Rightarrow> 'n list \<Rightarrow> ('n list \<times> 'n list) option" where
  "scan_children target [] seen stack = Some (seen, stack)"
| "scan_children target (p # ps) seen stack =
     (if p = target then None
      else if p \<in> set seen then scan_children target ps seen stack
      else scan_children target ps (p # seen) (p # stack))"

definition all_nodes :: "('n, 'e) Graph \<Rightarrow> 'n set" where
  "all_nodes g = fst ` set g \<union> (\<Union>(_, cs) \<in> set g. fst ` set cs)"

lemma finite_all_nodes [simp]: "finite (all_nodes g)"
  by (auto simp: all_nodes_def)

lemma scan_children_measure:
  "scan_children target ps seen stack = Some (seen', stack') \<Longrightarrow> finite N \<Longrightarrow> set ps \<subseteq> N \<Longrightarrow>
     card (N - set seen') + length stack' = card (N - set seen) + length stack \<and> set seen \<subseteq> set seen'"
proof (induction target ps seen stack rule: scan_children.induct)
  case (2 target p ps seen stack)
  show ?case
  proof (cases "p \<in> set seen")
    case False
    have "card (N - set seen) = Suc (card (N - set (p # seen)))"
      using 2(4,5) False by (metis DiffI Diff_insert card_Suc_Diff1 finite_Diff list.set_intros(1) list.simps(15) subsetD)
    with 2 False show ?thesis by (auto split: if_splits)
  qed (use 2 in \<open>auto split: if_splits\<close>)
qed simp

function path_loop :: "('n, 'e) Graph \<Rightarrow> 'n \<Rightarrow> 'n list \<Rightarrow> 'n list \<Rightarrow> bool" where
  "path_loop g target seen [] = False"
| "path_loop g target seen (p # stack) =
     (case map_of g p of
        None \<Rightarrow> False
      | Some cs \<Rightarrow>
          (case scan_children target (map fst cs) seen stack of
             None \<Rightarrow> True
           | Some (seen', stack') \<Rightarrow> path_loop g target seen' stack'))"
  by pat_completeness auto
termination
proof (relation "measure (\<lambda>(g, t, seen, stack). card (all_nodes g - set seen) + length stack)")
  fix g :: "('n, 'e) Graph" and target p seen stack cs x seen' stack'
  assume a: "map_of g p = Some cs" "scan_children target (map fst cs) seen stack = Some x" "(seen', stack') = x"
  have "set (map fst cs) \<subseteq> all_nodes g" using map_of_SomeD [OF a(1)] by (force simp: all_nodes_def)
  with a scan_children_measure [of target "map fst cs" seen stack seen' stack' "all_nodes g"]
  show "((g, target, seen', stack'), (g, target, seen, p # stack))
      \<in> measure (\<lambda>(g, t, seen, stack). card (all_nodes g - set seen) + length stack)"
    by auto
qed simp

definition is_path_from_to :: "('n, 'e) Graph \<Rightarrow> 'n \<Rightarrow> 'n \<Rightarrow> bool" where
  "is_path_from_to g a b = path_loop g b [a] [a]"

section \<open>The sorter of the flow loader\<close>

type_synonym 'n TopologicalSorter = "('n, unit) Graph"

definition TopologicalSorter_new :: "'n TopologicalSorter" where
  "TopologicalSorter_new = Graph_new"

definition add_vertex :: "'n :: linorder \<Rightarrow> 'n TopologicalSorter \<Rightarrow> 'n TopologicalSorter" where
  "add_vertex item g = add item g"

definition add_dep :: "'n :: linorder \<Rightarrow> 'n \<Rightarrow> 'n TopologicalSorter \<Rightarrow> 'n TopologicalSorter" where
  "add_dep a b g = link () b a (add a g)"

definition add_deps :: "'n :: linorder \<Rightarrow> 'n list \<Rightarrow> 'n TopologicalSorter \<Rightarrow> 'n TopologicalSorter" where
  "add_deps a bs g = fold (add_dep a) bs g"

definition topological_sort :: "'n TopologicalSorter \<Rightarrow> ('n list, unit) outcome" where
  "topological_sort g = sort_graph g"

definition dependency_sort :: "'n TopologicalSorter \<Rightarrow> ('n list, unit) outcome" where
  "dependency_sort g = obind (topological_sort g) (\<lambda>r. Ok (rev r))"

end
