(* ===== verification/Graph_Correct.thy ===== *)
theory Graph_Correct
  imports Graph
begin

text \<open>
  The sorter of the flow loader never panics and lists every element once, cycles included;
  without cycles an element comes after everything it depends on. Reversal of a graph is exact,
  and a path found by \<^verbatim>\<open>is_path_from_to\<close> exists.
\<close>

section \<open>Well-formed graphs\<close>

definition graph_ok :: "('n :: linorder, 'e) Graph \<Rightarrow> bool" where
  "graph_ok g \<longleftrightarrow> btree_ok g \<and> list_all (\<lambda>(_, cs). btree_ok cs) g"

text \<open>Every child of a node is itself a node; \<^verbatim>\<open>link\<close> alone does not ensure it.\<close>

definition closed :: "('n, 'e) Graph \<Rightarrow> bool" where
  "closed g \<longleftrightarrow> list_all (\<lambda>(_, cs). list_all (\<lambda>(c, _). contains g c) cs) g"

definition edge_rel :: "('n, 'e) Graph \<Rightarrow> ('n \<times> 'n) set" where
  "edge_rel g = {(a, b). edge g a b \<noteq> None}"

lemma contains_keys: "contains g k \<longleftrightarrow> k \<in> fst ` set g"
  by (auto simp: contains_def map_of_eq_None_iff)

lemma edge_rel_children: "map_of g a = Some cs \<Longrightarrow> (a, b) \<in> edge_rel g \<longleftrightarrow> b \<in> set (map fst cs)"
  by (simp add: edge_rel_def edge_def map_of_eq_None_iff del: not_None_eq)

lemma closedD: "closed g \<Longrightarrow> map_of g a = Some cs \<Longrightarrow> set (map fst cs) \<subseteq> fst ` set g"
  by (fastforce simp: closed_def list_all_iff contains_keys dest!: map_of_SomeD)

lemma edge_rel_source: "(a, b) \<in> edge_rel g \<Longrightarrow> a \<in> fst ` set g"
  by (auto simp: edge_rel_def edge_def contains_def contains_keys [symmetric] split: option.splits)

section \<open>Depth-first search\<close>

definition ordered_by :: "('n \<times> 'n) set \<Rightarrow> 'n list \<Rightarrow> bool" where
  "ordered_by E xs \<longleftrightarrow> (\<forall>ys x zs. xs = ys @ x # zs \<longrightarrow> E `` {x} \<subseteq> set ys)"

lemma ordered_by_snoc: "ordered_by E (xs @ [x]) \<longleftrightarrow> ordered_by E xs \<and> E `` {x} \<subseteq> set xs"
  unfolding ordered_by_def by (auto simp: append_eq_append_conv2 append_eq_Cons_conv Cons_eq_append_conv) blast+

definition dfs_inv :: "('n, 'e) Graph \<Rightarrow> 'n list \<Rightarrow> 'n list \<Rightarrow> bool" where
  "dfs_inv g dst marks \<longleftrightarrow> distinct dst \<and> set dst \<subseteq> set marks \<and> set marks \<subseteq> fst ` set g
     \<and> (acyclic (edge_rel g) \<longrightarrow> ordered_by (edge_rel g) dst)"

text \<open>The nodes on the current branch: marked, not yet emitted.\<close>

abbreviation grey :: "'n list \<Rightarrow> 'n list \<Rightarrow> 'n set" where
  "grey dst marks \<equiv> set marks - set dst"

definition dfs_post :: "('n, 'e) Graph \<Rightarrow> 'n set \<Rightarrow> 'n list \<times> 'n list \<Rightarrow> ('n list \<times> 'n list, unit) outcome \<Rightarrow> bool" where
  "dfs_post g new st r \<longleftrightarrow> (\<exists>dst' marks'. r = Ok (dst', marks') \<and> dfs_inv g dst' marks'
     \<and> set (snd st) \<union> new \<subseteq> set marks' \<and> grey dst' marks' = grey (fst st) (snd st))"

definition dfs_pre :: "('n, 'e) Graph \<Rightarrow> nat \<Rightarrow> 'n set \<Rightarrow> 'n list \<times> 'n list \<Rightarrow> bool" where
  "dfs_pre g fuel new st \<longleftrightarrow> dfs_inv g (fst st) (snd st) \<and> new \<subseteq> fst ` set g
     \<and> grey (fst st) (snd st) \<times> new \<subseteq> (edge_rel g)\<^sup>+ \<and> card (fst ` set g - set (snd st)) < fuel"

lemma dfs_children:
  assumes visit: "\<And>c st. c \<in> set cs \<Longrightarrow> dfs_pre g fuel {c} st \<Longrightarrow> dfs_post g {c} st (f c st)"
  shows "dfs_pre g fuel (set cs) st \<Longrightarrow> dfs_post g (set cs) st (ofold f cs st)"
  using assms
proof (induction cs arbitrary: st)
  case (Cons c cs)
  have "dfs_pre g fuel {c} st" using Cons.prems(1) by (auto simp: dfs_pre_def)
  from Cons.prems(2) [OF _ this] obtain dst1 marks1 where r: "f c st = Ok (dst1, marks1)"
      "dfs_inv g dst1 marks1" "set (snd st) \<union> {c} \<subseteq> set marks1" "grey dst1 marks1 = grey (fst st) (snd st)"
    by (auto simp: dfs_post_def)
  have "card (fst ` set g - set marks1) \<le> card (fst ` set g - set (snd st))"
    using r(3) by (intro card_mono) auto
  with Cons.prems(1) r have "dfs_pre g fuel (set cs) (dst1, marks1)" by (auto simp: dfs_pre_def)
  from Cons.IH [OF this Cons.prems(2)] r show ?case by (auto simp: dfs_post_def) blast+
next
  case Nil
  then show ?case by (cases st) (simp add: dfs_pre_def dfs_post_def)
qed

lemma dfs_emit:
  assumes inv: "dfs_inv g dst' marks'" and sub: "E = edge_rel g" "E `` {node} \<subseteq> set marks'"
    and gr: "grey dst' marks' = insert node G" and anc: "insert node G \<times> E `` {node} \<subseteq> E\<^sup>+"
  shows "dfs_inv g (dst' @ [node]) marks'"
proof -
  have "E `` {node} \<subseteq> set dst'" if "acyclic E"
  proof
    fix c
    assume c: "c \<in> E `` {node}"
    show "c \<in> set dst'"
    proof (rule ccontr)
      assume "c \<notin> set dst'"
      with c sub(2) gr have "c \<in> insert node G" by blast
      with anc c have "(c, c) \<in> E\<^sup>+" by blast
      with that show False by (simp add: acyclic_def)
    qed
  qed
  moreover have "node \<in> grey dst' marks'" using gr by simp
  ultimately show ?thesis using inv by (auto simp: dfs_inv_def ordered_by_snoc sub(1))
qed

lemma dfs_visit:
  assumes "closed g"
  shows "dfs_pre g fuel {node} st \<Longrightarrow> dfs_post g {node} st (sort_inner_visit fuel g node st)"
proof (induction fuel arbitrary: node st)
  case (Suc fuel)
  obtain dst marks where st: "st = (dst, marks)" by fastforce
  note pre = Suc.prems [unfolded dfs_pre_def st fst_conv snd_conv]
  show ?case
  proof (cases "node \<in> set marks")
    case False
    from pre obtain cs where cs: "map_of g node = Some cs"
      by (metis contains_def contains_keys insert_subset not_None_eq)
    let ?E = "edge_rel g" and ?cs = "set (map fst cs)"
    have E: "?E `` {node} = ?cs" using edge_rel_children [OF cs] by auto
    have dst: "set dst \<subseteq> set marks" using pre by (simp add: dfs_inv_def)
    have gr: "grey dst (node # marks) = insert node (grey dst marks)" using False dst by auto
    have anc: "insert node (grey dst marks) \<times> ?cs \<subseteq> ?E\<^sup>+"
    proof clarify
      fix x c
      assume x: "x \<in> insert node (grey dst marks)" and "c \<in> ?cs"
      then have "(node, c) \<in> ?E" using E by auto
      moreover have "x = node \<or> (x, node) \<in> ?E\<^sup>+" using x pre by blast
      ultimately show "(x, c) \<in> ?E\<^sup>+" by (auto intro: trancl_into_trancl)
    qed
    have "card (fst ` set g - set (node # marks)) < card (fst ` set g - set marks)"
      using False pre by (intro psubset_card_mono) auto
    then have "dfs_pre g fuel ?cs (dst, node # marks)"
      using pre closedD [OF assms cs] gr anc dst by (auto simp: dfs_pre_def dfs_inv_def)
    from dfs_children [of "map fst cs", OF Suc.IH this]
    obtain dst' marks' where r: "ofold (sort_inner_visit fuel g) (map fst cs) (dst, node # marks) = Ok (dst', marks')"
        "dfs_inv g dst' marks'" "set (node # marks) \<union> ?cs \<subseteq> set marks'" "grey dst' marks' = insert node (grey dst marks)"
      unfolding dfs_post_def fst_conv snd_conv gr by auto
    have "dfs_inv g (dst' @ [node]) marks'"
      using dfs_emit [OF r(2) refl _ r(4)] r(3) anc E by auto
    then show ?thesis using r False by (auto simp: dfs_post_def st cs)
  qed (use pre in \<open>auto simp: dfs_post_def st\<close>)
qed (simp add: dfs_pre_def)

lemma sort_graph_ok:
  assumes "closed g" "btree_ok g"
  shows "\<exists>xs. sort_graph g = Ok xs \<and> distinct xs \<and> set xs = fst ` set g
    \<and> (acyclic (edge_rel g) \<longrightarrow> ordered_by (edge_rel g) xs)"
proof -
  have "card (fst ` set g) < Suc (length g)" by (metis card_image_le card_length finite_set le_imp_less_Suc order_trans)
  then have "dfs_pre g (Suc (length g)) (set (map fst g)) ([], [])"
    by (simp add: dfs_pre_def dfs_inv_def ordered_by_def)
  then have "dfs_post g (set (map fst g)) ([], []) (ofold (sort_inner_visit (Suc (length g)) g) (map fst g) ([], []))"
    by (rule dfs_children [rotated]) (rule dfs_visit [OF assms(1)])
  then obtain dst marks where r: "ofold (sort_inner_visit (Suc (length g)) g) (map fst g) ([], []) = Ok (dst, marks)"
      "dfs_inv g dst marks" "set (map fst g) \<subseteq> set marks" "grey dst marks = {}"
    by (auto simp: dfs_post_def)
  then have "set dst = fst ` set g" by (auto simp: dfs_inv_def)
  with r show ?thesis by (simp add: sort_graph_def dfs_inv_def)
qed

section \<open>Building graphs\<close>

lemma graph_ok_iff:
  "graph_ok g \<longleftrightarrow> btree_ok g \<and> (\<forall>k cs. map_of g k = Some cs \<longrightarrow> btree_ok cs)"
proof -
  have "btree_ok g \<Longrightarrow> (k, cs) \<in> set g \<longleftrightarrow> map_of g k = Some cs" for k cs
    by (simp add: btree_ok_distinct)
  then show ?thesis unfolding graph_ok_def list_all_iff by (metis (mono_tags, lifting) case_prodD case_prodI2)
qed

lemma graph_okD: "graph_ok g \<Longrightarrow> btree_ok g" "graph_ok g \<Longrightarrow> map_of g k = Some cs \<Longrightarrow> btree_ok cs"
  by (auto simp: graph_ok_iff)

lemma map_of_add: "graph_ok g \<Longrightarrow> map_of (add n g) j = (if j = n \<and> map_of g n = None then Some [] else map_of g j)"
  by (simp add: add_def graph_okD)

lemma map_of_link:
  "graph_ok g \<Longrightarrow> map_of (link d n c g) j =
     (if j = n then Some (btree_entry c d (case map_of g n of Some cs \<Rightarrow> cs | None \<Rightarrow> [])) else map_of g j)"
  by (auto simp: link_def Let_def graph_okD split: option.splits)

lemma map_of_link_set:
  "graph_ok g \<Longrightarrow> map_of (link_set n c e g) j =
     (if j = n then Some (btree_insert c e (case map_of g n of Some cs \<Rightarrow> cs | None \<Rightarrow> [])) else map_of g j)"
  by (auto simp: link_set_def Let_def graph_okD split: option.splits)

lemma graph_okI: "btree_ok g \<Longrightarrow> (\<And>k cs. map_of g k = Some cs \<Longrightarrow> btree_ok cs) \<Longrightarrow> graph_ok g"
  by (simp add: graph_ok_iff)

lemma graph_ok_add: "graph_ok g \<Longrightarrow> graph_ok (add n g)"
  by (rule graph_okI, simp add: add_def Let_def graph_okD(1))
    (auto simp: map_of_add dest: graph_okD(2) split: if_splits option.splits)

lemma graph_ok_link: "graph_ok g \<Longrightarrow> graph_ok (link d n c g)"
  by (rule graph_okI, simp add: link_def Let_def graph_okD(1))
    (auto simp: map_of_link dest: graph_okD(2) split: if_splits option.splits)

lemma graph_ok_link_set: "graph_ok g \<Longrightarrow> graph_ok (link_set n c e g)"
  by (rule graph_okI, simp add: link_set_def Let_def graph_okD(1))
    (auto simp: map_of_link_set dest: graph_okD(2) split: if_splits option.splits)

lemmas graph_ok_rules = graph_ok_add graph_ok_link graph_ok_link_set

lemma edge_add: "graph_ok g \<Longrightarrow> edge (add n g) a b = edge g a b"
  by (auto simp: edge_def map_of_add split: option.splits)

lemma edge_link:
  "graph_ok g \<Longrightarrow> edge (link d n c g) a b =
     (if a = n \<and> b = c \<and> edge g n c = None then Some d else edge g a b)"
  by (auto simp: edge_def map_of_link graph_okD split: option.splits)

lemma edge_link_set:
  "graph_ok g \<Longrightarrow> edge (link_set n c e g) a b = (if a = n \<and> b = c then Some e else edge g a b)"
  by (auto simp: edge_def map_of_link_set graph_okD split: option.splits)

lemma contains_add: "graph_ok g \<Longrightarrow> contains (add n g) k \<longleftrightarrow> k = n \<or> contains g k"
  by (auto simp: contains_def map_of_add)

lemma contains_link: "graph_ok g \<Longrightarrow> contains (link d n c g) k \<longleftrightarrow> k = n \<or> contains g k"
  by (auto simp: contains_def map_of_link)

lemma closed_iff: "graph_ok g \<Longrightarrow> closed g \<longleftrightarrow> (\<forall>(a, b) \<in> edge_rel g. contains g b)"
proof -
  assume g: "graph_ok g"
  then have "(k, cs) \<in> set g \<longleftrightarrow> map_of g k = Some cs" for k cs
    by (simp add: btree_ok_distinct graph_okD)
  moreover have "map_of g k = Some cs \<Longrightarrow> (\<exists>e. (b, e) \<in> set cs) \<longleftrightarrow> (k, b) \<in> edge_rel g" for k cs b
    by (force simp: edge_rel_children)
  moreover have "(k, b) \<in> edge_rel g \<Longrightarrow> \<exists>cs. map_of g k = Some cs" for k b
    by (auto simp: edge_rel_def edge_def split: option.splits)
  ultimately show ?thesis unfolding closed_def list_all_iff by (auto split: prod.splits) metis+
qed

section \<open>Runs of the sorter\<close>

datatype 'n topo_op = Vertex 'n | Dep 'n 'n

fun apply_topo :: "'n :: linorder topo_op \<Rightarrow> 'n TopologicalSorter \<Rightarrow> 'n TopologicalSorter" where
  "apply_topo (Vertex x) g = add_vertex x g"
| "apply_topo (Dep a b) g = add_dep a b g"

definition sorter_of :: "'n :: linorder topo_op list \<Rightarrow> 'n TopologicalSorter" where
  "sorter_of ops = fold apply_topo ops TopologicalSorter_new"

definition deps_of :: "'n topo_op list \<Rightarrow> ('n \<times> 'n) set" where
  "deps_of ops = {(a, b). Dep a b \<in> set ops}"

definition elements_of :: "'n topo_op list \<Rightarrow> 'n set" where
  "elements_of ops = {x. Vertex x \<in> set ops} \<union> fst ` deps_of ops \<union> snd ` deps_of ops"

lemma sorter_of_snoc: "sorter_of (ops @ [x]) = apply_topo x (sorter_of ops)"
  by (simp add: sorter_of_def)

lemma graph_ok_sorter: "graph_ok (sorter_of ops)"
proof (induction ops rule: rev_induct)
  case (snoc x ops)
  then show ?case
    by (cases x) (simp_all add: sorter_of_snoc add_vertex_def add_dep_def graph_ok_rules)
qed (simp add: sorter_of_def TopologicalSorter_new_def Graph_new_def graph_ok_def)

lemma edge_rel_sorter: "edge_rel (sorter_of ops) = (deps_of ops)\<inverse>"
proof (induction ops rule: rev_induct)
  case (snoc x ops)
  then show ?case
    by (cases x) (auto simp: sorter_of_snoc add_vertex_def add_dep_def edge_rel_def deps_of_def edge_add edge_link
        graph_ok_rules graph_ok_sorter)
qed (simp add: sorter_of_def TopologicalSorter_new_def Graph_new_def edge_rel_def edge_def deps_of_def)

lemma contains_sorter: "contains (sorter_of ops) k \<longleftrightarrow> k \<in> elements_of ops"
proof (induction ops rule: rev_induct)
  case (snoc x ops)
  then show ?case
    by (cases x) (auto simp: sorter_of_snoc add_vertex_def add_dep_def contains_add contains_link
        graph_ok_rules graph_ok_sorter elements_of_def deps_of_def image_iff)
qed (simp add: sorter_of_def TopologicalSorter_new_def Graph_new_def contains_def elements_of_def deps_of_def)

lemma closed_sorter: "closed (sorter_of ops)"
  by (auto simp: closed_iff graph_ok_sorter edge_rel_sorter contains_sorter elements_of_def intro!: rev_image_eqI)

definition before :: "'n list \<Rightarrow> 'n \<Rightarrow> 'n \<Rightarrow> bool" where
  "before xs a b \<longleftrightarrow> b \<in> set (tl (dropWhile (\<lambda>x. x \<noteq> a) xs))"

lemma beforeI: "distinct (us @ a # vs) \<Longrightarrow> b \<in> set vs \<Longrightarrow> before (us @ a # vs) a b"
  by (induction us) (auto simp: before_def)

lemma dependency_sort_sorter:
  "\<exists>xs. dependency_sort (sorter_of ops) = Ok xs \<and> distinct xs \<and> set xs = elements_of ops
     \<and> (acyclic (deps_of ops) \<longrightarrow> (\<forall>(a, b) \<in> deps_of ops. before xs b a))"
proof -
  let ?g = "sorter_of ops"
  obtain ys where ys: "sort_graph ?g = Ok ys" "distinct ys" "set ys = fst ` set ?g"
      "acyclic (edge_rel ?g) \<longrightarrow> ordered_by (edge_rel ?g) ys"
    using sort_graph_ok [OF closed_sorter graph_okD(1) [OF graph_ok_sorter], of ops] by blast
  have set: "set ys = elements_of ops" using ys(3) contains_keys [of ?g] contains_sorter [of ops] by auto
  have "before (rev ys) b a" if ac: "acyclic (deps_of ops)" and ab: "(a, b) \<in> deps_of ops" for a b
  proof -
    have "b \<in> set ys" using ab by (force simp: set elements_of_def)
    then obtain us vs where u: "ys = us @ b # vs" by (meson split_list)
    have "ordered_by (edge_rel ?g) ys" using ys(4) ac by (simp add: edge_rel_sorter)
    then have "a \<in> set us" using ab u by (auto simp: ordered_by_def edge_rel_sorter)
    then show ?thesis using ys(2) u by (auto intro!: beforeI)
  qed
  then show ?thesis
    using ys set by (auto simp: dependency_sort_def topological_sort_def)
qed

text \<open>
  C5. Whatever elements and dependencies were added, cyclic ones included, the sort ends
  without a panic and lists every element once. If the dependencies have no cycle, every
  element comes after all the elements it depends on.
\<close>

theorem dependency_sort_correct:
  "\<exists>xs. dependency_sort (sorter_of ops) = Ok xs \<and> distinct xs \<and> set xs = elements_of ops
     \<and> (acyclic (deps_of ops) \<longrightarrow> (\<forall>(a, b) \<in> deps_of ops. before xs b a))"
  by (rule dependency_sort_sorter)

theorem dependency_sort_correct_witness:
  "\<exists>xs. dependency_sort (sorter_of [Dep (1 :: nat) 2, Dep 2 3, Vertex 0]) = Ok xs \<and> before xs 3 2 \<and> before xs 2 1"
proof -
  have "deps_of [Dep (1 :: nat) 2, Dep 2 3, Vertex 0] = {(1, 2), (2, 3)}" by (auto simp: deps_of_def)
  moreover have "acyclic {(1 :: nat, 2), (2, 3)}"
    by (rule acyclic_subset [OF wf_acyclic [OF wf_less_than]]) auto
  ultimately show ?thesis
    using dependency_sort_correct [of "[Dep (1 :: nat) 2, Dep 2 3, Vertex 0]"] by auto
qed

section \<open>Reversal\<close>

lemma edge_edges: "edge g a b = map_of (edges g a) b"
  by (simp add: edge_def edges_def split: option.splits)

lemma link_all:
  assumes "graph_ok ret" "distinct (map fst es)"
  shows "graph_ok (fold (\<lambda>(m, e). link_set m n e) es ret)
    \<and> edge (fold (\<lambda>(m, e). link_set m n e) es ret) x y =
        (if y = n \<and> map_of es x \<noteq> None then map_of es x else edge ret x y)"
  using assms
proof (induction es arbitrary: ret)
  case (Cons me es)
  obtain m e where me: "me = (m, e)" by fastforce
  have "map_of es m = None" using Cons.prems by (simp add: me map_of_eq_None_iff)
  with Cons.IH [of "link_set m n e ret"] Cons.prems show ?case
    by (auto simp: me graph_ok_rules edge_link_set)
qed simp

lemma reversed_fold:
  assumes "graph_ok g" "graph_ok ret" "distinct ks"
  shows "edge (fold (\<lambda>n ret. fold (\<lambda>(m, e). link_set m n e) (edges g n) (add n ret)) ks ret) x y =
    (if y \<in> set ks \<and> edge g y x \<noteq> None then edge g y x else edge ret x y)"
  using assms
proof (induction ks arbitrary: ret)
  case (Cons n ks)
  have d: "distinct (map fst (edges g n))"
    using graph_okD(2) [OF Cons.prems(1)] by (auto simp: edges_def btree_ok_distinct split: option.splits)
  note l = link_all [OF graph_ok_add [OF Cons.prems(2)] d, where n = n]
  from Cons.IH [OF Cons.prems(1) l [THEN conjunct1]] Cons.prems
  show ?case by (auto simp: l [THEN conjunct2] edge_add edge_edges [symmetric])
qed simp

text \<open>The reversed graph has exactly the edges of the graph, each with its label, turned around.\<close>

theorem edge_reversed:
  assumes "graph_ok g"
  shows "edge (reversed g) b a = edge g a b"
proof -
  have "edge g a b \<noteq> None \<Longrightarrow> a \<in> set (map fst g)"
    using edge_rel_source [of a b g] by (simp add: edge_rel_def)
  moreover have "edge (reversed g) b a = (if a \<in> set (map fst g) \<and> edge g a b \<noteq> None then edge g a b else edge Graph_new b a)"
    unfolding reversed_def using assms
    by (intro reversed_fold) (auto simp: graph_ok_def Graph_new_def btree_ok_distinct)
  ultimately show ?thesis by (cases "edge g a b") (auto simp: Graph_new_def edge_def [of "[]"])
qed

theorem edge_reversed_witness:
  "edge (reversed (link_set (0 :: nat) 1 ''e'' (link_set 0 2 ''f'' Graph_new))) 2 0 = Some ''f''"
proof -
  have "graph_ok (link_set (0 :: nat) 1 ''e'' (link_set 0 2 ''f'' Graph_new))" by code_simp
  from edge_reversed [OF this] show ?thesis by code_simp
qed

section \<open>Paths\<close>

lemma scan_children_None: "scan_children t ps seen stack = None \<longleftrightarrow> t \<in> set ps"
  by (induction t ps seen stack rule: scan_children.induct) auto

lemma scan_children_Some:
  "scan_children t ps seen stack = Some (seen', stack') \<Longrightarrow>
     set seen' = set seen \<union> set ps \<and> set stack \<subseteq> set stack' \<and> set stack' \<subseteq> set stack \<union> set ps
       \<and> set seen' - set stack' \<subseteq> set seen - set stack"
  by (induction t ps seen stack rule: scan_children.induct) (auto split: if_splits)

lemma path_loop_sound:
  "path_loop g t seen stack \<Longrightarrow> \<exists>p \<in> set stack. (p, t) \<in> (edge_rel g)\<^sup>+"
proof (induction g t seen stack rule: path_loop.induct)
  case (2 g t seen p stack)
  obtain cs where cs: "map_of g p = Some cs" using "2.prems" by (auto split: option.splits)
  note ch = edge_rel_children [OF cs]
  show ?case
  proof (cases "scan_children t (map fst cs) seen stack")
    case None
    then have "(p, t) \<in> edge_rel g" by (simp add: scan_children_None ch)
    then show ?thesis by auto
  next
    case (Some st)
    then obtain seen' stack' where st: "scan_children t (map fst cs) seen stack = Some (seen', stack')" by (cases st) auto
    then obtain q where q: "q \<in> set stack'" "(q, t) \<in> (edge_rel g)\<^sup>+"
      using "2.IH" [OF cs st refl] "2.prems" cs by auto
    then have "q \<in> set stack \<or> (p, q) \<in> edge_rel g" using scan_children_Some [OF st] ch [of q] by blast
    with q(2) show ?thesis by (auto intro: trancl_into_trancl2)
  qed
qed simp

lemma path_loop_complete:
  assumes "closed g"
  shows "\<not> path_loop g t seen stack \<Longrightarrow> set stack \<subseteq> set seen \<Longrightarrow> set seen \<subseteq> fst ` set g \<Longrightarrow>
     edge_rel g `` (set seen - set stack) \<subseteq> set seen - {t} \<Longrightarrow>
     \<exists>S. set seen \<subseteq> S \<and> edge_rel g `` S \<subseteq> S - {t}"
  using assms
proof (induction g t seen stack rule: path_loop.induct)
  case (1 g t seen)
  then show ?case by auto
next
  case (2 g t seen p stack)
  obtain cs where cs: "map_of g p = Some cs" using "2.prems"(2,3) by (metis contains_def contains_keys list.set_intros(1) not_None_eq subsetD)
  note ch = edge_rel_children [OF cs]
  have t: "t \<notin> set (map fst cs)"
  proof
    assume "t \<in> set (map fst cs)"
    then have "scan_children t (map fst cs) seen stack = None" by (simp only: scan_children_None)
    with "2.prems"(1) cs show False by simp
  qed
  then obtain seen' stack' where st: "scan_children t (map fst cs) seen stack = Some (seen', stack')"
    by (metis not_None_eq scan_children_None surj_pair)
  note sc = scan_children_Some [OF st]
  have "edge_rel g `` {p} \<subseteq> set seen' - {t}" using sc ch t by auto
  moreover have "edge_rel g `` (set seen' - set stack') \<subseteq> edge_rel g `` (set seen - set (p # stack)) \<union> edge_rel g `` {p}"
  proof -
    have "set seen' - set stack' \<subseteq> (set seen - set (p # stack)) \<union> {p}" using sc by auto
    then show ?thesis by blast
  qed
  ultimately have im: "edge_rel g `` (set seen' - set stack') \<subseteq> set seen' - {t}"
    using "2.prems"(4) sc by blast
  have sub: "set stack' \<subseteq> set seen'" "set seen' \<subseteq> fst ` set g"
    using sc "2.prems"(2,3) closedD [OF "2.prems"(5) cs] by auto
  have "\<not> path_loop g t seen' stack'" using "2.prems"(1) cs st by simp
  from "2.IH" [OF cs st refl this sub im "2.prems"(5)]
  obtain S where "set seen' \<subseteq> S" "edge_rel g `` S \<subseteq> S - {t}" by blast
  moreover have "set seen \<subseteq> set seen'" using sc by simp
  ultimately show ?case by (meson order_trans)
qed

lemma trancl_stays: "(a, b) \<in> E\<^sup>+ \<Longrightarrow> a \<in> S \<Longrightarrow> E `` S \<subseteq> S - {t} \<Longrightarrow> b \<in> S - {t}"
  by (induction rule: trancl_induct) blast+

text \<open>
  C37. In a graph where every child is a node, the search finds a path from \<open>a\<close> to \<open>b\<close>
  exactly when there is one with at least one edge.
\<close>

theorem is_path_iff:
  assumes "closed g" and "contains g a"
  shows "is_path_from_to g a b \<longleftrightarrow> (a, b) \<in> (edge_rel g)\<^sup>+"
proof
  show "is_path_from_to g a b \<Longrightarrow> (a, b) \<in> (edge_rel g)\<^sup>+"
    using path_loop_sound [of g b "[a]" "[a]"] by (simp add: is_path_from_to_def)
  assume path: "(a, b) \<in> (edge_rel g)\<^sup>+"
  show "is_path_from_to g a b"
  proof (rule ccontr)
    assume "\<not> is_path_from_to g a b"
    then obtain S where "a \<in> S" "edge_rel g `` S \<subseteq> S - {b}"
      using path_loop_complete [OF assms(1), of b "[a]" "[a]"] assms(2) by (auto simp: is_path_from_to_def contains_keys)
    from trancl_stays [OF path this] show False by simp
  qed
qed

text \<open>Where a child has no entry, popping it ends the search while other nodes wait on the stack.\<close>

lemma is_path_missed:
  "\<not> is_path_from_to (link () (1 :: nat) 3 (link () 0 2 (link () 0 1 Graph_new))) 0 3
     \<and> (0, 3) \<in> (edge_rel (link () (1 :: nat) 3 (link () 0 2 (link () 0 1 Graph_new))))\<^sup>+"
proof
  let ?g = "link () (1 :: nat) 3 (link () 0 2 (link () 0 1 Graph_new))"
  show "\<not> is_path_from_to ?g 0 3" by code_simp
  have "edge ?g 0 1 = Some ()" "edge ?g 1 3 = Some ()" by code_simp+
  then have "(0, 1) \<in> edge_rel ?g" "(1, 3) \<in> edge_rel ?g" by (simp_all add: edge_rel_def)
  then show "(0, 3) \<in> (edge_rel ?g)\<^sup>+" by (rule trancl_into_trancl2 [OF _ r_into_trancl])
qed

theorem is_path_iff_witness:
  "(3, 1) \<in> (edge_rel (sorter_of [Dep (1 :: nat) 2, Dep 2 3]))\<^sup>+"
proof -
  have c: "closed (sorter_of [Dep (1 :: nat) 2, Dep 2 3])" "contains (sorter_of [Dep (1 :: nat) 2, Dep 2 3]) 3"
    "is_path_from_to (sorter_of [Dep (1 :: nat) 2, Dep 2 3]) 3 1" by code_simp+
  show ?thesis by (rule iffD1 [OF is_path_iff [OF c(1,2)] c(3)])
qed

end
