(* ===== verification/Variant.thy ===== *)
theory Variant
  imports Btree "HOL-Library.Code_Target_Nat"
begin

text \<open>
  The values that flow between nodes (\<^verbatim>\<open>crates/core/src/runtime/model/variant\<close>): the type
  \<^verbatim>\<open>Variant\<close>, its accessors, navigation by property expressions, assignment and removal, and
  the methods of object maps (\<^verbatim>\<open>map.rs\<close>).

  Parameters: the numbers of \<^verbatim>\<open>serde_json\<close> with the operations \<open>num_ops\<close>, the types of dates
  and compiled regular expressions, and the parser of property expressions (\<open>parse\<close>, which
  is built from \<^verbatim>\<open>nom\<close> combinators). A mutable reference returned by a \<^verbatim>\<open>_mut\<close> method is used once,
  so the method takes what is done with the value behind the reference as a function; its
  result is \<open>None\<close> when there is no such value. A method that may change the value before it
  fails returns the value together with the outcome. The texts that \<^verbatim>\<open>with_context\<close> adds
  to an error are dropped.
\<close>

section \<open>Values\<close>

datatype ('n, 't, 'r) Variant =
  Null
| Number 'n
| String string
| Bool bool
| Date 't
| Regexp 'r
| Bytes "u8 list"
| Array "('n, 't, 'r) Variant list"
| Object "(string \<times> ('n, 't, 'r) Variant) list"

type_synonym ('n, 't, 'r) VariantObjectMap = "(string, ('n, 't, 'r) Variant) btree"

record 'n num_ops =
  num_as_i64 :: "'n \<Rightarrow> int option"
  num_as_u64 :: "'n \<Rightarrow> u64 option"
  num_is_i64 :: "'n \<Rightarrow> bool"
  num_is_u64 :: "'n \<Rightarrow> bool"
  num_to_string :: "'n \<Rightarrow> string"
  num_from_u64 :: "u64 \<Rightarrow> 'n"

datatype RustRedError =
  PermissionDenied
| BadFlowsJson string
| UnsupportedFlowsJsonFormat string
| NotSupported string
| BadArgument string
| TaskCancelled
| InvalidOperation string
| OutOfRange
| Configuration
| Timeout
| Io string
| Other string

definition empty_object :: "('n, 't, 'r) Variant" where
  "empty_object = Object []"

definition empty_array :: "('n, 't, 'r) Variant" where
  "empty_array = Array []"

text \<open>The accessors.\<close>

fun as_number :: "('n, 't, 'r) Variant \<Rightarrow> 'n option" where
  "as_number (Number n) = Some n"
| "as_number _ = None"

fun as_i64 :: "'n num_ops \<Rightarrow> ('n, 't, 'r) Variant \<Rightarrow> int option" where
  "as_i64 N (Number n) = num_as_i64 N n"
| "as_i64 N _ = None"

fun as_u64 :: "'n num_ops \<Rightarrow> ('n, 't, 'r) Variant \<Rightarrow> u64 option" where
  "as_u64 N (Number n) = num_as_u64 N n"
| "as_u64 N _ = None"

fun as_u8 :: "'n num_ops \<Rightarrow> ('n, 't, 'r) Variant \<Rightarrow> u8 option" where
  "as_u8 N (Number n) = map_option ucast (num_as_u64 N n)"
| "as_u8 N _ = None"

fun as_str :: "('n, 't, 'r) Variant \<Rightarrow> string option" where
  "as_str (String s) = Some s"
| "as_str _ = None"

fun as_bool :: "('n, 't, 'r) Variant \<Rightarrow> bool option" where
  "as_bool (Bool b) = Some b"
| "as_bool _ = None"

fun as_array :: "('n, 't, 'r) Variant \<Rightarrow> ('n, 't, 'r) Variant list option" where
  "as_array (Array xs) = Some xs"
| "as_array _ = None"

fun as_object :: "('n, 't, 'r) Variant \<Rightarrow> ('n, 't, 'r) VariantObjectMap option" where
  "as_object (Object m) = Some m"
| "as_object _ = None"

fun Variant_as_bytes :: "('n, 't, 'r) Variant \<Rightarrow> u8 list option" where
  "Variant_as_bytes (Bytes bs) = Some bs"
| "Variant_as_bytes (String s) = Some (as_bytes s)"
| "Variant_as_bytes _ = None"

fun all_some :: "'a option list \<Rightarrow> 'a list option" where
  "all_some [] = Some []"
| "all_some (None # xs) = None"
| "all_some (Some x # xs) = map_option ((#) x) (all_some xs)"

fun to_bytes :: "'n num_ops \<Rightarrow> ('n, 't, 'r) Variant \<Rightarrow> u8 list option" where
  "to_bytes N (Bytes bs) = Some bs"
| "to_bytes N (String s) = Some (as_bytes s)"
| "to_bytes N (Array xs) = all_some (map (as_u8 N) xs)"
| "to_bytes N (Number n) = Some (as_bytes (num_to_string N n))"
| "to_bytes N _ = None"

fun show_bool :: "bool \<Rightarrow> string" where
  "show_bool True = ''true''"
| "show_bool False = ''false''"

fun to_string :: "'n num_ops \<Rightarrow> ('n, 't, 'r) Variant \<Rightarrow> (string, RustRedError) outcome" where
  "to_string N (String s) = Ok s"
| "to_string N (Number n) = Ok (num_to_string N n)"
| "to_string N (Bool b) = Ok (show_bool b)"
| "to_string N _ = Err (InvalidOperation ''Bad type'')"

fun Variant_len :: "('n, 't, 'r) Variant \<Rightarrow> nat" where
  "Variant_len Null = 0"
| "Variant_len (Object m) = length m"
| "Variant_len (Array xs) = length xs"
| "Variant_len (Bytes bs) = length bs"
| "Variant_len (String s) = length s"
| "Variant_len _ = 1"

section \<open>Property expressions\<close>

datatype PropexSegment = Index nat | Property string | Nested "PropexSegment list"

datatype ('n, 't, 'r) PropexEnv = ThisRef string | ExtRef string "('n, 't, 'r) Variant"

type_synonym propex_parser = "string \<Rightarrow> PropexSegment list option"

fun get_array_item :: "nat \<Rightarrow> ('n, 't, 'r) Variant \<Rightarrow> ('n, 't, 'r) Variant option" where
  "get_array_item i (Array xs) = (if i < length xs then Some (xs ! i) else None)"
| "get_array_item i _ = None"

fun get_seg :: "PropexSegment \<Rightarrow> ('n, 't, 'r) Variant \<Rightarrow> ('n, 't, 'r) Variant option" where
  "get_seg (Index i) v = get_array_item i v"
| "get_seg (Property p) v = Option.bind (as_object v) (\<lambda>m. map_of m p)"
| "get_seg (Nested _) v = None"

fun get_segs :: "PropexSegment list \<Rightarrow> ('n, 't, 'r) Variant \<Rightarrow> ('n, 't, 'r) Variant option" where
  "get_segs [] v = Some v"
| "get_segs (s # ss) v = Option.bind (get_seg s v) (get_segs ss)"

text \<open>
  Access through a mutable reference: \<open>f\<close> maps the value behind the reference to its new
  content and a result.
\<close>

fun get_array_item_mut ::
    "nat \<Rightarrow> (('n, 't, 'r) Variant \<Rightarrow> ('n, 't, 'r) Variant \<times> 'a) \<Rightarrow> ('n, 't, 'r) Variant
      \<Rightarrow> (('n, 't, 'r) Variant \<times> 'a) option" where
  "get_array_item_mut i f (Array xs) =
     (if i < length xs then (case f (xs ! i) of (x, r) \<Rightarrow> Some (Array (xs[i := x]), r)) else None)"
| "get_array_item_mut i f _ = None"

fun get_property_mut ::
    "string \<Rightarrow> (('n, 't, 'r) Variant \<Rightarrow> ('n, 't, 'r) Variant \<times> 'a) \<Rightarrow> ('n, 't, 'r) VariantObjectMap
      \<Rightarrow> (('n, 't, 'r) VariantObjectMap \<times> 'a) option" where
  "get_property_mut p f m =
     (case map_of m p of Some x \<Rightarrow> (case f x of (y, r) \<Rightarrow> Some (btree_insert p y m, r)) | None \<Rightarrow> None)"

fun get_seg_mut ::
    "PropexSegment \<Rightarrow> (('n, 't, 'r) Variant \<Rightarrow> ('n, 't, 'r) Variant \<times> 'a) \<Rightarrow> ('n, 't, 'r) Variant
      \<Rightarrow> (('n, 't, 'r) Variant \<times> 'a) option" where
  "get_seg_mut (Index i) f v = get_array_item_mut i f v"
| "get_seg_mut (Property p) f v =
     (case as_object v of Some m \<Rightarrow> map_option (\<lambda>(m', r). (Object m', r)) (get_property_mut p f m) | None \<Rightarrow> None)"
| "get_seg_mut (Nested _) f v = None"

text \<open>A chain of references: the value at its end is replaced, and each one above it.\<close>

fun get_segs_mut ::
    "PropexSegment list \<Rightarrow> (('n, 't, 'r) Variant \<Rightarrow> ('n, 't, 'r) Variant \<times> 'a) \<Rightarrow> ('n, 't, 'r) Variant
      \<Rightarrow> (('n, 't, 'r) Variant \<times> 'a) option" where
  "get_segs_mut [] f v = Some (f v)"
| "get_segs_mut (s # ss) f v =
     Option.bind (get_seg s v) (\<lambda>x. Option.bind (get_segs_mut ss f x) (\<lambda>w. get_seg_mut s (\<lambda>_. w) v))"

section \<open>Nested expressions\<close>

fun env_find :: "('n, 't, 'r) PropexEnv list \<Rightarrow> string \<Rightarrow> ('n, 't, 'r) Variant \<Rightarrow> ('n, 't, 'r) Variant option" where
  "env_find [] seg this = None"
| "env_find (ThisRef n # es) seg this = (if n = seg then Some this else env_find es seg this)"
| "env_find (ExtRef n v # es) seg this = (if n = seg then Some v else env_find es seg this)"

fun find_ext :: "('n, 't, 'r) PropexEnv list \<Rightarrow> string \<Rightarrow> ('n, 't, 'r) Variant option" where
  "find_ext [] seg = None"
| "find_ext (ThisRef n # es) seg = None"
| "find_ext (ExtRef n v # es) seg = (if n = seg then Some v else find_ext es seg)"

fun find_seg :: "('n, 't, 'r) PropexEnv list \<Rightarrow> string \<Rightarrow> ('n, 't, 'r) PropexEnv option" where
  "find_seg [] seg = None"
| "find_seg (ThisRef n # es) seg = (if n = seg then Some (ThisRef n) else find_seg es seg)"
| "find_seg (ExtRef n v # es) seg = (if n = seg then Some (ExtRef n v) else find_seg es seg)"

fun omap :: "('a \<Rightarrow> ('b, 'e) outcome) \<Rightarrow> 'a list \<Rightarrow> ('b list, 'e) outcome" where
  "omap f [] = Ok []"
| "omap f (x # xs) = obind (f x) (\<lambda>y. obind (omap f xs) (\<lambda>ys. Ok (y # ys)))"

text \<open>The segment a nested value stands for: a name, or a non-negative integer.\<close>

fun index_segment :: "'n num_ops \<Rightarrow> ('n, 't, 'r) Variant option \<Rightarrow> (PropexSegment, RustRedError) outcome" where
  "index_segment N (Some (String s)) = Ok (Property s)"
| "index_segment N (Some (Number n)) =
     (case num_as_u64 N n of
        Some u \<Rightarrow> if num_is_u64 N n \<or> num_is_i64 N n then Ok (Index (unat u)) else Err OutOfRange
      | None \<Rightarrow> Err OutOfRange)"
| "index_segment N _ = Err OutOfRange"

fun expand_seg ::
    "'n num_ops \<Rightarrow> (string \<Rightarrow> 'v option) \<Rightarrow> (PropexSegment list \<Rightarrow> 'v \<Rightarrow> ('n, 't, 'r) Variant option)
      \<Rightarrow> PropexSegment \<Rightarrow> (PropexSegment, RustRedError) outcome" where
  "expand_seg N look get (Nested (Property s # rest)) =
     (case look s of Some nested_var \<Rightarrow> index_segment N (get rest nested_var) | None \<Rightarrow> Err OutOfRange)"
| "expand_seg N look get (Nested _) = Err OutOfRange"
| "expand_seg N look get seg = Ok seg"

definition expand_sesg_property ::
    "'n num_ops \<Rightarrow> ('n, 't, 'r) PropexEnv list \<Rightarrow> ('n, 't, 'r) Variant \<Rightarrow> PropexSegment list
      \<Rightarrow> (PropexSegment list, RustRedError) outcome" where
  "expand_sesg_property N eval_env this segs = omap (expand_seg N (\<lambda>s. env_find eval_env s this) get_segs) segs"

definition expand_propex_segments ::
    "'n num_ops \<Rightarrow> ('n, 't, 'r) PropexEnv list \<Rightarrow> PropexSegment list \<Rightarrow> (PropexSegment list, RustRedError) outcome" where
  "expand_propex_segments N eval_env segs = omap (expand_seg N (find_ext eval_env) get_segs) segs"

definition get_nav ::
    "'n num_ops \<Rightarrow> propex_parser \<Rightarrow> string \<Rightarrow> ('n, 't, 'r) PropexEnv list \<Rightarrow> ('n, 't, 'r) Variant
      \<Rightarrow> ('n, 't, 'r) Variant option" where
  "get_nav N parse expr eval_env v =
     (case parse expr of
        None \<Rightarrow> None
      | Some segs \<Rightarrow>
          (case expand_sesg_property N eval_env v segs of Ok segs' \<Rightarrow> get_segs segs' v | _ \<Rightarrow> None))"

definition get_nav_mut ::
    "'n num_ops \<Rightarrow> propex_parser \<Rightarrow> string \<Rightarrow> ('n, 't, 'r) PropexEnv list
      \<Rightarrow> (('n, 't, 'r) Variant \<Rightarrow> ('n, 't, 'r) Variant \<times> 'a) \<Rightarrow> ('n, 't, 'r) Variant
      \<Rightarrow> (('n, 't, 'r) Variant \<times> 'a) option" where
  "get_nav_mut N parse expr eval_env f v =
     (case parse expr of
        None \<Rightarrow> None
      | Some segs \<Rightarrow>
          (case expand_sesg_property N eval_env v segs of Ok segs' \<Rightarrow> get_segs_mut segs' f v | _ \<Rightarrow> None))"

section \<open>Assignment\<close>

fun set_array_item ::
    "'n num_ops \<Rightarrow> nat \<Rightarrow> ('n, 't, 'r) Variant \<Rightarrow> ('n, 't, 'r) Variant
      \<Rightarrow> ('n, 't, 'r) Variant \<times> (unit, RustRedError) outcome" where
  "set_array_item N i val (Array xs) =
     (if i < length xs then (Array (xs[i := val]), Ok ())
      else if i = length xs then (Array (xs @ [val]), Ok ())
      else (Array xs, Err (InvalidOperation ''Bad array'')))"
| "set_array_item N i val (Bytes bs) =
     (if i \<le> length bs then
        (case as_u8 N val of
           None \<Rightarrow> (Bytes bs, Err (InvalidOperation ''Bad casting''))
         | Some b \<Rightarrow> (Bytes (if i < length bs then bs[i := b] else bs @ [b]), Ok ()))
      else (Bytes bs, Err OutOfRange))"
| "set_array_item N i val v = (v, Err (InvalidOperation ''Bad type''))"

fun set_seg_property ::
    "'n num_ops \<Rightarrow> PropexSegment \<Rightarrow> ('n, 't, 'r) Variant \<Rightarrow> ('n, 't, 'r) Variant
      \<Rightarrow> ('n, 't, 'r) Variant \<times> (unit, RustRedError) outcome" where
  "set_seg_property N (Index i) val v = set_array_item N i val v"
| "set_seg_property N (Property p) val v =
     (case v of
        Object m \<Rightarrow> (Object (btree_insert p val m), Ok ())
      | _ \<Rightarrow> (v, Err (InvalidOperation ''Failed to convert'')))"
| "set_seg_property N (Nested _) val v = (v, Panic)"

text \<open>The container that is created for a missing property, by the segment that follows it.\<close>

fun missing_container :: "PropexSegment \<Rightarrow> ('n, 't, 'r) Variant option" where
  "missing_container (Property _) = Some empty_object"
| "missing_container (Index _) = Some empty_array"
| "missing_container (Nested _) = None"

fun set_segs_property ::
    "'n num_ops \<Rightarrow> propex_parser \<Rightarrow> PropexSegment list \<Rightarrow> ('n, 't, 'r) Variant \<Rightarrow> bool \<Rightarrow> ('n, 't, 'r) Variant
      \<Rightarrow> ('n, 't, 'r) Variant \<times> (unit, RustRedError) outcome" where
  "set_segs_property N parse [] val create_missing v = (v, Err (BadArgument ''path''))"
| "set_segs_property N parse [seg] val create_missing v = set_seg_property N seg val v"
| "set_segs_property N parse (Property first_prop_name # seg # segs) val create_missing v =
     (let below = (\<lambda>first_prop.
            case get_segs_mut (seg # segs) (\<lambda>_. (val, ())) first_prop of
              Some (first_prop', _) \<Rightarrow> (first_prop', Ok ())
            | None \<Rightarrow>
                if create_missing then set_segs_property N parse (seg # segs) val True first_prop
                else (first_prop, Err (InvalidOperation ''Unable to set property: missing intermediate segments''))) in
      case get_nav_mut N parse first_prop_name [] below v of
        Some r \<Rightarrow> r
      | None \<Rightarrow>
          if create_missing then
            (case missing_container seg of
               None \<Rightarrow> (v, Err (BadArgument ''segs''))
             | Some var \<Rightarrow>
                 (case v of
                    Object m \<Rightarrow>
                      let v1 = Object (btree_insert first_prop_name var m) in
                      (case get_nav_mut N parse first_prop_name [] below v1 of
                         Some r \<Rightarrow> r
                       | None \<Rightarrow> (v1, Err (InvalidOperation ''Failed to create the property'')))
                  | _ \<Rightarrow> (v, Err (InvalidOperation ''Cannot create the property beneath a non-object value''))))
          else (v, Err (BadArgument ''segs'')))"
| "set_segs_property N parse (_ # seg # segs) val create_missing v = (v, Err (BadArgument ''path''))"

definition set_nav ::
    "'n num_ops \<Rightarrow> propex_parser \<Rightarrow> string \<Rightarrow> ('n, 't, 'r) Variant \<Rightarrow> bool \<Rightarrow> ('n, 't, 'r) PropexEnv list
      \<Rightarrow> ('n, 't, 'r) Variant \<Rightarrow> ('n, 't, 'r) Variant \<times> (unit, RustRedError option) outcome" where
  "set_nav N parse expr val create_missing eval_env v =
     (case parse expr of
        None \<Rightarrow> (v, Err None)
      | Some segs \<Rightarrow>
          (case expand_sesg_property N eval_env v segs of
             Ok segs' \<Rightarrow>
               (case set_segs_property N parse segs' val create_missing v of
                  (v', r) \<Rightarrow> (v', map_outcome (\<lambda>x. x) Some r))
           | Err e \<Rightarrow> (v, Err (Some e))
           | Panic \<Rightarrow> (v, Panic)
           | Diverge \<Rightarrow> (v, Diverge)))"

section \<open>Object maps\<close>

fun get_segs_property :: "PropexSegment list \<Rightarrow> ('n, 't, 'r) VariantObjectMap \<Rightarrow> ('n, 't, 'r) Variant option" where
  "get_segs_property [Property p] m = map_of m p"
| "get_segs_property (Property p # rest) m = Option.bind (map_of m p) (get_segs rest)"
| "get_segs_property _ m = None"

fun this_only :: "('n, 't, 'r) PropexEnv option \<Rightarrow> 'm \<Rightarrow> 'm option" where
  "this_only (Some (ThisRef _)) m = Some m"
| "this_only _ m = None"

definition expand_segs_property ::
    "'n num_ops \<Rightarrow> ('n, 't, 'r) PropexEnv list \<Rightarrow> ('n, 't, 'r) VariantObjectMap \<Rightarrow> PropexSegment list
      \<Rightarrow> (PropexSegment list, RustRedError) outcome" where
  "expand_segs_property N eval_env m segs =
     omap (expand_seg N (\<lambda>s. this_only (find_seg eval_env s) m) get_segs_property) segs"

definition get_nav_property ::
    "'n num_ops \<Rightarrow> propex_parser \<Rightarrow> string \<Rightarrow> ('n, 't, 'r) PropexEnv list \<Rightarrow> ('n, 't, 'r) VariantObjectMap
      \<Rightarrow> ('n, 't, 'r) Variant option" where
  "get_nav_property N parse expr eval_env m =
     (case parse expr of
        None \<Rightarrow> None
      | Some segs \<Rightarrow>
          (case expand_segs_property N eval_env m segs of Ok segs' \<Rightarrow> get_segs_property segs' m | _ \<Rightarrow> None))"

definition set_nav_property ::
    "'n num_ops \<Rightarrow> propex_parser \<Rightarrow> string \<Rightarrow> ('n, 't, 'r) Variant \<Rightarrow> ('n, 't, 'r) PropexEnv list \<Rightarrow> bool
      \<Rightarrow> ('n, 't, 'r) VariantObjectMap \<Rightarrow> ('n, 't, 'r) VariantObjectMap \<times> (unit, RustRedError) outcome" where
  "set_nav_property N parse expr val eval_env create_missing m =
     (if expr = [] then (m, Err (BadArgument ''expr''))
      else
        case parse expr of
          None \<Rightarrow> (m, Err (BadArgument ''expr''))
        | Some segs0 \<Rightarrow>
            (case expand_segs_property N eval_env m segs0 of
               Ok (Property first_prop_name # segs) \<Rightarrow>
                 let below = (\<lambda>first_prop.
                        if segs = [] then (val, Ok ())
                        else
                          case get_segs_mut segs (\<lambda>_. (val, ())) first_prop of
                            Some (first_prop', _) \<Rightarrow> (first_prop', Ok ())
                          | None \<Rightarrow>
                              if create_missing then set_segs_property N parse segs val True first_prop
                              else (first_prop, Err (InvalidOperation ''Unable to set property: missing intermediate segments''))) in
                 (case get_property_mut first_prop_name below m of
                    Some r \<Rightarrow> r
                  | None \<Rightarrow>
                      if \<not> create_missing then (m, Err (BadArgument ''expr''))
                      else if segs = [] then (btree_insert expr val m, Ok ())
                      else
                        case missing_container (hd segs) of
                          None \<Rightarrow> (m, Err (BadArgument ''expr''))
                        | Some var \<Rightarrow>
                            let m1 = btree_insert first_prop_name var m in
                            (case get_property_mut first_prop_name below m1 of Some r \<Rightarrow> r | None \<Rightarrow> (m1, Panic)))
             | Ok _ \<Rightarrow> (m, Err (BadArgument ''expr''))
             | Err e \<Rightarrow> (m, Err e)
             | Panic \<Rightarrow> (m, Panic)
             | Diverge \<Rightarrow> (m, Diverge)))"

text \<open>
  Removal from the container at the end of the path; \<^verbatim>\<open>Vec::remove\<close> panics when the index is
  out of range.
\<close>

fun remove_tail ::
    "PropexSegment \<Rightarrow> ('n, 't, 'r) Variant \<Rightarrow> ('n, 't, 'r) Variant \<times> (('n, 't, 'r) Variant option, RustRedError) outcome" where
  "remove_tail (Property p) (Object m) = (Object (AList.delete p m), Ok (map_of m p))"
| "remove_tail (Index i) (Array xs) =
     (if i < length xs then (Array (take i xs @ drop (Suc i) xs), Ok (Some (xs ! i))) else (Array xs, Panic))"
| "remove_tail _ v = (v, Ok None)"

fun remove_segs_property ::
    "PropexSegment list \<Rightarrow> ('n, 't, 'r) VariantObjectMap
      \<Rightarrow> ('n, 't, 'r) VariantObjectMap \<times> (('n, 't, 'r) Variant option, RustRedError) outcome" where
  "remove_segs_property [Property p] m = (AList.delete p m, Ok (map_of m p))"
| "remove_segs_property (Property p # seg # segs) m =
     (case map_of m p of
        None \<Rightarrow> (m, Ok None)
      | Some x \<Rightarrow>
          (case get_segs_mut (butlast (seg # segs)) (remove_tail (last (seg # segs))) x of
             None \<Rightarrow> (m, Ok None)
           | Some (x', r) \<Rightarrow> (btree_insert p x' m, r)))"
| "remove_segs_property _ m = (m, Ok None)"

definition remove_nav_property ::
    "'n num_ops \<Rightarrow> propex_parser \<Rightarrow> string \<Rightarrow> ('n, 't, 'r) PropexEnv list \<Rightarrow> ('n, 't, 'r) VariantObjectMap
      \<Rightarrow> ('n, 't, 'r) VariantObjectMap \<times> (('n, 't, 'r) Variant option, RustRedError) outcome" where
  "remove_nav_property N parse expr eval_env m =
     (if expr = [] then (m, Ok None)
      else
        case parse expr of
          None \<Rightarrow> (m, Ok None)
        | Some segs \<Rightarrow>
            (case expand_segs_property N eval_env m segs of Ok segs' \<Rightarrow> remove_segs_property segs' m | _ \<Rightarrow> (m, Ok None)))"

end
