(* ===== verification/Msg.thy ===== *)
theory Msg
  imports Variant Rust_Text
begin

text \<open>
  Element identifiers (\<^verbatim>\<open>model/eid.rs\<close>) and messages (\<^verbatim>\<open>model/msg.rs\<close>) of the core crate. A
  message is a variant, normally an object, and the stack of link calls it went through; the
  methods that unwrap the object panic on any other body. The hash of an identifier
  that is not hexadecimal (\<^verbatim>\<open>DefaultHasher\<close>) is a parameter.
\<close>

section \<open>Element identifiers\<close>

type_synonym ElementId = u64

text \<open>\<^verbatim>\<open>{:016x}\<close>: the digits of a number below \<open>16 ^ k\<close> with leading zeros.\<close>

fun hex_fixed :: "nat \<Rightarrow> nat \<Rightarrow> string" where
  "hex_fixed 0 n = []"
| "hex_fixed (Suc k) n = hex_fixed k (n div 16) @ [digit_char (n mod 16)]"

definition ElementId_to_string :: "ElementId \<Rightarrow> string" where
  "ElementId_to_string i = hex_fixed 16 (unat i)"

definition hex_digit :: "char \<Rightarrow> nat option" where
  "hex_digit c =
     (let n = of_char c :: nat in
      if 48 \<le> n \<and> n \<le> 57 then Some (n - 48)
      else if 97 \<le> n \<and> n \<le> 102 then Some (n - 87)
      else if 65 \<le> n \<and> n \<le> 70 then Some (n - 55)
      else None)"

fun parse_hex_digits :: "nat \<Rightarrow> string \<Rightarrow> nat option" where
  "parse_hex_digits acc [] = Some acc"
| "parse_hex_digits acc (c # cs) =
     (case hex_digit c of
        Some d \<Rightarrow> if acc * 16 + d < 2 ^ 64 then parse_hex_digits (acc * 16 + d) cs else None
      | None \<Rightarrow> None)"

text \<open>\<^verbatim>\<open>u64::from_str_radix(s, 16)\<close>: at least one digit, after an optional plus sign.\<close>

definition ElementId_from_str :: "string \<Rightarrow> ElementId option" where
  "ElementId_from_str s =
     (let ds = (case s of c # cs \<Rightarrow> if c = CHR ''+'' \<and> cs \<noteq> [] then cs else s | [] \<Rightarrow> s) in
      if ds = [] then None else map_option of_nat (parse_hex_digits 0 ds))"

definition ElementId_combine :: "ElementId \<Rightarrow> ElementId \<Rightarrow> (ElementId, RustRedError) outcome" where
  "ElementId_combine lhs rhs =
     (if rhs = 0 then Err (BadArgument ''rhs'') else if lhs = 0 then Err (BadArgument ''lhs'') else Ok (lhs XOR rhs))"

definition parse_red_id_str :: "(string \<Rightarrow> u64) \<Rightarrow> string \<Rightarrow> ElementId option" where
  "parse_red_id_str hash id_str =
     (if id_str = [] then None
      else case ElementId_from_str id_str of Some i \<Rightarrow> Some i | None \<Rightarrow> Some (hash id_str))"

section \<open>Messages\<close>

record LinkCallStackEntry =
  lc_id :: ElementId
  lc_link_call_node_id :: ElementId

record ('n, 't, 'r) Msg =
  msg_body :: "('n, 't, 'r) Variant"
  link_call_stack :: "LinkCallStackEntry list option"

definition Msg_default :: "('n, 't, 'r) Msg" where
  "Msg_default = \<lparr>msg_body = empty_object, link_call_stack = None\<rparr>"

definition Msg_object :: "('n, 't, 'r) Msg \<Rightarrow> (('n, 't, 'r) VariantObjectMap, RustRedError) outcome" where
  "Msg_object m = or_panic (as_object (msg_body m))"

definition Msg_id :: "(string \<Rightarrow> u64) \<Rightarrow> ('n, 't, 'r) Msg \<Rightarrow> (ElementId option, RustRedError) outcome" where
  "Msg_id hash m =
     obind (Msg_object m) (\<lambda>o1.
       Ok (Option.bind (Option.bind (map_of o1 ''_msgid'') as_str) (parse_red_id_str hash)))"

definition Msg_set :: "string \<Rightarrow> ('n, 't, 'r) Variant \<Rightarrow> ('n, 't, 'r) Msg \<Rightarrow> (('n, 't, 'r) Msg, RustRedError) outcome" where
  "Msg_set p val m = obind (Msg_object m) (\<lambda>o1. Ok (m\<lparr>msg_body := Object (btree_insert p val o1)\<rparr>))"

definition set_id :: "ElementId \<Rightarrow> ('n, 't, 'r) Msg \<Rightarrow> (('n, 't, 'r) Msg, RustRedError) outcome" where
  "set_id i m = Msg_set ''_msgid'' (String (ElementId_to_string i)) m"

definition parts :: "('n, 't, 'r) Msg \<Rightarrow> ('n, 't, 'r) VariantObjectMap option" where
  "parts m = Option.bind (Option.bind (as_object (msg_body m)) (\<lambda>o1. map_of o1 ''parts'')) as_object"

definition has_parts :: "('n, 't, 'r) Msg \<Rightarrow> bool" where
  "has_parts m =
     (case parts m of Some ps \<Rightarrow> map_of ps ''id'' \<noteq> None \<and> map_of ps ''index'' \<noteq> None | None \<Rightarrow> False)"

definition Msg_get :: "string \<Rightarrow> ('n, 't, 'r) Msg \<Rightarrow> ('n, 't, 'r) Variant option" where
  "Msg_get p m = Option.bind (as_object (msg_body m)) (\<lambda>o1. map_of o1 p)"

definition Msg_contains :: "string \<Rightarrow> ('n, 't, 'r) Msg \<Rightarrow> bool" where
  "Msg_contains p m = (case as_object (msg_body m) of Some o1 \<Rightarrow> map_of o1 p \<noteq> None | None \<Rightarrow> False)"

definition Msg_get_nav ::
    "'n num_ops \<Rightarrow> propex_parser \<Rightarrow> string \<Rightarrow> ('n, 't, 'r) Msg \<Rightarrow> (('n, 't, 'r) Variant option, RustRedError) outcome" where
  "Msg_get_nav N parse expr m = obind (Msg_object m) (\<lambda>o1. Ok (get_nav_property N parse expr [ThisRef ''msg''] o1))"

definition Msg_set_nav ::
    "'n num_ops \<Rightarrow> propex_parser \<Rightarrow> string \<Rightarrow> ('n, 't, 'r) Variant \<Rightarrow> bool \<Rightarrow> ('n, 't, 'r) Msg
      \<Rightarrow> ('n, 't, 'r) Msg \<times> (unit, RustRedError option) outcome" where
  "Msg_set_nav N parse expr val create_missing m =
     (case set_nav N parse expr val create_missing [ThisRef ''msg''] (msg_body m) of (b, r) \<Rightarrow> (m\<lparr>msg_body := b\<rparr>, r))"

definition ascii_space :: "char \<Rightarrow> bool" where
  "ascii_space c \<longleftrightarrow> (of_char c :: nat) \<in> {9, 10, 12, 13, 32}"

definition trim_ascii :: "string \<Rightarrow> string" where
  "trim_ascii s = rev (dropWhile ascii_space (rev (dropWhile ascii_space s)))"

definition strip_msg :: "string \<Rightarrow> string" where
  "strip_msg expr = (let e = trim_ascii expr in if take 4 e = ''msg.'' then drop 4 e else e)"

definition get_nav_stripped ::
    "'n num_ops \<Rightarrow> propex_parser \<Rightarrow> string \<Rightarrow> ('n, 't, 'r) Msg \<Rightarrow> (('n, 't, 'r) Variant option, RustRedError) outcome" where
  "get_nav_stripped N parse expr m = Msg_get_nav N parse (strip_msg expr) m"

definition set_nav_stripped ::
    "'n num_ops \<Rightarrow> propex_parser \<Rightarrow> string \<Rightarrow> ('n, 't, 'r) Variant \<Rightarrow> bool \<Rightarrow> ('n, 't, 'r) Msg
      \<Rightarrow> ('n, 't, 'r) Msg \<times> (unit, RustRedError option) outcome" where
  "set_nav_stripped N parse expr val create_missing m = Msg_set_nav N parse (strip_msg expr) val create_missing m"

definition Msg_remove ::
    "string \<Rightarrow> ('n, 't, 'r) Msg \<Rightarrow> (('n, 't, 'r) Msg \<times> ('n, 't, 'r) Variant option, RustRedError) outcome" where
  "Msg_remove p m =
     obind (Msg_object m) (\<lambda>o1. Ok (m\<lparr>msg_body := Object (AList.delete p o1)\<rparr>, map_of o1 p))"

definition remove_nav ::
    "'n num_ops \<Rightarrow> propex_parser \<Rightarrow> string \<Rightarrow> ('n, 't, 'r) Msg
      \<Rightarrow> ('n, 't, 'r) Msg \<times> (('n, 't, 'r) Variant option, RustRedError) outcome" where
  "remove_nav N parse expr m =
     (case as_object (msg_body m) of
        None \<Rightarrow> (m, Panic)
      | Some o1 \<Rightarrow>
          (case remove_nav_property N parse expr [ThisRef ''msg''] o1 of (o2, r) \<Rightarrow> (m\<lparr>msg_body := Object o2\<rparr>, r)))"

definition push_link_source :: "LinkCallStackEntry \<Rightarrow> ('n, 't, 'r) Msg \<Rightarrow> ('n, 't, 'r) Msg" where
  "push_link_source lse m =
     m\<lparr>link_call_stack := Some (case link_call_stack m of Some ls \<Rightarrow> ls @ [lse] | None \<Rightarrow> [lse])\<rparr>"

definition pop_link_source :: "('n, 't, 'r) Msg \<Rightarrow> ('n, 't, 'r) Msg \<times> LinkCallStackEntry option" where
  "pop_link_source m =
     (case link_call_stack m of
        Some ls \<Rightarrow>
          (m\<lparr>link_call_stack := (if butlast ls = [] then None else Some (butlast ls))\<rparr>,
           if ls = [] then None else Some (last ls))
      | None \<Rightarrow> (m, None))"

section \<open>Identifiers are read back\<close>

lemma hex_digit_char: "d < 16 \<Longrightarrow> hex_digit (digit_char d) = Some d"
  by (auto simp: hex_digit_def digit_char_def Let_def)

lemma parse_hex_append:
  "parse_hex_digits acc (xs @ ys) = Option.bind (parse_hex_digits acc xs) (\<lambda>a. parse_hex_digits a ys)"
  by (induction acc xs rule: parse_hex_digits.induct) (auto split: option.splits)

lemma parse_hex_fixed: "n < 16 ^ k \<Longrightarrow> n < 2 ^ 64 \<Longrightarrow> parse_hex_digits 0 (hex_fixed k n) = Some n"
proof (induction k arbitrary: n)
  case (Suc k)
  have "n div 16 < 16 ^ k" using Suc.prems(1) by (simp add: less_mult_imp_div_less mult.commute)
  moreover have "n div 16 < 2 ^ 64" using Suc.prems(2) by (meson div_le_dividend le_less_trans)
  ultimately have "parse_hex_digits 0 (hex_fixed k (n div 16)) = Some (n div 16)" by (rule Suc.IH)
  moreover have "n div 16 * 16 + n mod 16 = n" by simp
  ultimately show ?case using Suc.prems(2) by (simp add: parse_hex_append hex_digit_char)
qed simp

lemma length_hex_fixed [simp]: "length (hex_fixed k n) = k"
  by (induction k arbitrary: n) auto

lemma set_hex_fixed: "c \<in> set (hex_fixed k n) \<Longrightarrow> hex_digit c \<noteq> None"
  by (induction k arbitrary: n) (auto simp: hex_digit_char)

lemma hex_digit_plus: "hex_digit CHR ''+'' = None"
  by code_simp

lemma from_str_to_string: "ElementId_from_str (ElementId_to_string i) = Some i"
proof -
  obtain c cs where s: "hex_fixed 16 (unat i) = c # cs"
    by (metis length_hex_fixed length_greater_0_conv list.exhaust zero_less_numeral)
  then have "c \<noteq> CHR ''+''" using set_hex_fixed [of c 16 "unat i"] hex_digit_plus by auto
  moreover have "unat i < 16 ^ 16" "unat i < 2 ^ 64" using unsigned_less [of i] by simp_all
  from parse_hex_fixed [OF this] have "parse_hex_digits 0 (c # cs) = Some (unat i)" by (simp only: s)
  ultimately show ?thesis
    unfolding ElementId_from_str_def ElementId_to_string_def s by (simp del: parse_hex_digits.simps)
qed

text \<open>
  C31. The identifier that is stored in a message is the one read from it, for every 64-bit
  identifier; setting it changes no other property of the message, and only a message whose body is not an
  object panics.
\<close>

theorem msg_id_roundtrip:
  assumes "msg_body m = Object o1" and "btree_ok o1"
  shows "\<exists>m'. set_id i m = Ok m' \<and> Msg_id hash m' = Ok (Some i)
    \<and> (\<forall>p. p \<noteq> ''_msgid'' \<longrightarrow> Msg_get p m' = Msg_get p m)"
proof -
  have "ElementId_to_string i \<noteq> []"
    using from_str_to_string [of i] by (auto simp: ElementId_from_str_def)
  then show ?thesis
    using assms by (simp add: set_id_def Msg_set_def Msg_object_def Msg_id_def Msg_get_def parse_red_id_str_def from_str_to_string)
qed

theorem msg_id_roundtrip_witness:
  "\<exists>m'. set_id 0xABC (Msg_default :: (nat, nat, nat) Msg) = Ok m' \<and> Msg_id (\<lambda>_. 0) m' = Ok (Some 0xABC)"
  using msg_id_roundtrip [of "Msg_default :: (nat, nat, nat) Msg" "[]" "0xABC" "\<lambda>_. 0"]
  by (auto simp: Msg_default_def empty_object_def)

end
