(* ===== verification/Variant_Correct.thy ===== *)
theory Variant_Correct
  imports Variant
begin

text \<open>
  Navigation and assignment on variants: objects stay sorted maps, a value that was set is
  read back, everything off the path is unchanged, missing objects are created on the way,
  and the cases in which removal panics or a quoted name is not reachable.
\<close>

section \<open>Well-formed values\<close>

fun variant_ok :: "('n, 't, 'r) Variant \<Rightarrow> bool" where
  "variant_ok (Array xs) = list_all variant_ok xs"
| "variant_ok (Object m) = (btree_ok m \<and> list_all (\<lambda>(_, x). variant_ok x) m)"
| "variant_ok _ = True"

definition map_ok :: "('n, 't, 'r) VariantObjectMap \<Rightarrow> bool" where
  "map_ok m \<longleftrightarrow> variant_ok (Object m)"

lemma map_ok_btree: "map_ok m \<Longrightarrow> btree_ok m"
  by (simp add: map_ok_def)

lemma map_ok_get: "map_ok m \<Longrightarrow> map_of m p = Some x \<Longrightarrow> variant_ok x"
  by (auto simp: map_ok_def list_all_iff dest!: map_of_SomeD)

lemma map_ok_insert: "map_ok m \<Longrightarrow> variant_ok x \<Longrightarrow> map_ok (btree_insert p x m)"
  using set_btree_insert [of p x m] by (fastforce simp: map_ok_def list_all_iff)

lemma map_ok_delete: "map_ok m \<Longrightarrow> map_ok (AList.delete p m)"
  using btree_ok_delete [of m p] by (auto simp: map_ok_def list_all_iff AList.delete_eq)

lemma list_all_update: "list_all P xs \<Longrightarrow> P x \<Longrightarrow> list_all P (xs[i := x])"
  unfolding list_all_iff using set_update_subset_insert [of xs i x] by blast

lemmas variant_rules = map_ok_btree map_ok_get map_ok_insert map_ok_delete list_all_update

lemma get_seg_ok: "variant_ok v \<Longrightarrow> get_seg s v = Some x \<Longrightarrow> variant_ok x"
proof (cases s)
  case (Index i)
  assume "variant_ok v" "get_seg s v = Some x"
  with Index show ?thesis by (cases v) (auto simp: list_all_length split: if_splits)
next
  case (Property p)
  assume "variant_ok v" "get_seg s v = Some x"
  with Property show ?thesis by (cases v) (auto simp: map_ok_def [symmetric] simp del: variant_ok.simps(2) intro: map_ok_get)
qed simp

lemma get_seg_mut_ok:
  "variant_ok v \<Longrightarrow> (\<And>x. variant_ok x \<Longrightarrow> variant_ok (fst (f x))) \<Longrightarrow> get_seg_mut s f v = Some (v', r) \<Longrightarrow> variant_ok v'"
proof (cases s)
  case (Index i)
  assume a: "variant_ok v" "\<And>x. variant_ok x \<Longrightarrow> variant_ok (fst (f x))" "get_seg_mut s f v = Some (v', r)"
  obtain xs where v: "v = Array xs" "i < length xs" "v' = Array (xs[i := fst (f (xs ! i))])"
    using a(3) Index by (cases v) (auto split: if_splits prod.splits)
  then have "variant_ok (xs ! i)" using a(1) by (simp add: list_all_length)
  then show ?thesis using v a(1) by (simp add: list_all_update a(2))
next
  case (Property p)
  assume a: "variant_ok v" "\<And>x. variant_ok x \<Longrightarrow> variant_ok (fst (f x))" "get_seg_mut s f v = Some (v', r)"
  obtain m x where v: "v = Object m" "map_of m p = Some x" "v' = Object (btree_insert p (fst (f x)) m)"
    using a(3) Property by (cases v) (auto split: if_splits prod.splits option.splits)
  then have "map_ok m" using a(1) by (simp add: map_ok_def)
  then show ?thesis using v a(2) by (simp add: map_ok_def [symmetric] map_ok_insert map_ok_get del: variant_ok.simps(2))
qed simp

lemma get_segs_mut_ok:
  "variant_ok v \<Longrightarrow> (\<And>x. variant_ok x \<Longrightarrow> variant_ok (fst (f x))) \<Longrightarrow> get_segs_mut ss f v = Some (v', r) \<Longrightarrow> variant_ok v'"
proof (induction ss arbitrary: v v' r)
  case Nil
  then show ?case by (metis fst_conv get_segs_mut.simps(1) option.inject)
next
  case (Cons s ss)
  then obtain x w where x: "get_seg s v = Some x" "get_segs_mut ss f x = Some w" "get_seg_mut s (\<lambda>_. w) v = Some (v', r)"
    by (auto simp: bind_eq_Some_conv)
  have "variant_ok x" by (rule get_seg_ok [OF Cons.prems(1) x(1)])
  then have "variant_ok (fst w)"
    using Cons.IH [of x "fst w" "snd w"] Cons.prems x(2) by simp
  then show ?case using get_seg_mut_ok [of v "\<lambda>_. w", OF Cons.prems(1) _ x(3)] by simp
qed

lemma get_nav_mut_ok:
  "variant_ok v \<Longrightarrow> (\<And>x. variant_ok x \<Longrightarrow> variant_ok (fst (f x))) \<Longrightarrow> get_nav_mut N parse e env f v = Some (v', r)
     \<Longrightarrow> variant_ok v'"
  by (auto simp: get_nav_mut_def split: option.splits outcome.splits intro: get_segs_mut_ok)

lemma set_seg_property_ok:
  "variant_ok v \<Longrightarrow> variant_ok val \<Longrightarrow> variant_ok (fst (set_seg_property N s val v))"
proof (cases s)
  case (Index i)
  then show "variant_ok v \<Longrightarrow> variant_ok val \<Longrightarrow> variant_ok (fst (set_seg_property N s val v))"
    by (cases v) (auto simp: list_all_update split: option.splits)
next
  case (Property p)
  then show "variant_ok v \<Longrightarrow> variant_ok val \<Longrightarrow> variant_ok (fst (set_seg_property N s val v))"
    by (cases v) (simp_all add: map_ok_def [symmetric] map_ok_insert del: variant_ok.simps(2))
qed simp

lemma missing_container_ok: "missing_container s = Some c \<Longrightarrow> variant_ok c"
  by (cases s) (auto simp: empty_object_def empty_array_def)

lemma set_segs_property_ok:
  "variant_ok v \<Longrightarrow> variant_ok val \<Longrightarrow> variant_ok (fst (set_segs_property N parse segs val create v))"
proof (induction N parse segs val create v rule: set_segs_property.induct)
  case (3 N parse name seg segs val create v)
  let ?below = "\<lambda>fp. case get_segs_mut (seg # segs) (\<lambda>_. (val, ())) fp of
      Some (fp', _) \<Rightarrow> (fp', Ok ())
    | None \<Rightarrow>
        if create then set_segs_property N parse (seg # segs) val True fp
        else (fp, Err (InvalidOperation ''Unable to set property: missing intermediate segments''))"
  have below: "variant_ok (fst (?below fp))" if "variant_ok fp" for fp
    using that 3 get_segs_mut_ok [OF that, of "\<lambda>_. (val, ())"]
    by (auto split: option.splits simp del: get_segs_mut.simps)
  have nav: "variant_ok (fst r)" if "get_nav_mut N parse name [] ?below w = Some r" "variant_ok w" for r w
    using get_nav_mut_ok [where f = ?below and v' = "fst r" and r = "snd r", OF that(2)] below that(1) by simp
  have ins: "variant_ok (Object (btree_insert name c m))" if "v = Object m" "missing_container seg = Some c" for m c
    using that 3(2) map_ok_insert missing_container_ok by (metis map_ok_def)
  show ?case
    unfolding set_segs_property.simps Let_def
    using nav 3(2) ins by (auto split: option.splits Variant.Variant.splits simp del: get_segs_mut.simps)
qed (auto intro: set_seg_property_ok)

section \<open>Reading what was written\<close>

lemma get_seg_mut_get:
  assumes "variant_ok v" "get_seg_mut s f v = Some (v', r)"
  shows "\<exists>x y. get_seg s v = Some x \<and> f x = (y, r) \<and> get_seg s v' = Some y"
proof (cases s)
  case (Index i)
  with assms show ?thesis by (cases v) (auto split: if_splits prod.splits)
next
  case (Property p)
  with assms show ?thesis by (cases v) (auto split: option.splits prod.splits)
qed (use assms in simp)

lemma get_seg_mut_fst:
  "variant_ok v \<Longrightarrow> get_seg_mut s f v = Some (v', r) \<Longrightarrow> get_seg s v = Some x \<Longrightarrow> get_seg s v' = Some (fst (f x))"
  using get_seg_mut_get [of v s f v' r] by auto

lemma get_seg_mut_other:
  assumes "variant_ok v" "get_seg_mut s f v = Some (v', r)" "t \<noteq> s"
  shows "get_seg t v' = get_seg t v"
proof (cases s)
  case (Index i)
  with assms show ?thesis by (cases v; cases t) (auto split: if_splits prod.splits)
next
  case (Property p)
  with assms show ?thesis by (cases v; cases t) (auto split: option.splits prod.splits)
qed (use assms in simp)

lemma get_seg_mut_exists: "get_seg s v = Some x \<Longrightarrow> \<exists>v' r. get_seg_mut s f v = Some (v', r)"
proof (cases s)
  case (Index i)
  then show "get_seg s v = Some x \<Longrightarrow> ?thesis" by (cases v; cases "f x") (auto split: if_splits)
next
  case (Property p)
  then show "get_seg s v = Some x \<Longrightarrow> ?thesis" by (cases v; cases "f x") auto
qed simp

lemma get_segs_mut_get:
  "variant_ok v \<Longrightarrow> get_segs_mut ss f v = Some (v', r) \<Longrightarrow>
     \<exists>x y. get_segs ss v = Some x \<and> f x = (y, r) \<and> get_segs ss v' = Some y"
proof (induction ss arbitrary: v v' r)
  case Nil
  then show ?case by (cases "f v") auto
next
  case (Cons s ss)
  obtain x w where x: "get_seg s v = Some x" "get_segs_mut ss f x = Some w" "get_seg_mut s (\<lambda>_. w) v = Some (v', r)"
    using Cons.prems by (auto simp: bind_eq_Some_conv)
  obtain y where "w = (y, r)" "get_seg s v' = Some y" using get_seg_mut_get [OF Cons.prems(1) x(3)] by auto
  then show ?case using x Cons.IH [of x y r] get_seg_ok [OF Cons.prems(1) x(1)] by auto
qed

text \<open>Paths that part at some segment.\<close>

fun diverge :: "PropexSegment list \<Rightarrow> PropexSegment list \<Rightarrow> bool" where
  "diverge (a # p) (b # q) = (if a = b then diverge p q else True)"
| "diverge _ _ = False"

lemma get_segs_mut_other:
  "variant_ok v \<Longrightarrow> get_segs_mut ss f v = Some (v', r) \<Longrightarrow> diverge ss q \<Longrightarrow> get_segs q v' = get_segs q v"
proof (induction ss q arbitrary: v v' r rule: diverge.induct)
  case (1 a p b q)
  obtain x w where x: "get_seg a v = Some x" "get_segs_mut p f x = Some w" "get_seg_mut a (\<lambda>_. w) v = Some (v', r)"
    using "1.prems" by (auto simp: bind_eq_Some_conv)
  show ?case
  proof (cases "a = b")
    case True
    obtain y where "w = (y, r)" "get_seg a v' = Some y" using get_seg_mut_get [OF "1.prems"(1) x(3)] by auto
    then show ?thesis using True x "1.IH" [of x y r] "1.prems" get_seg_ok [OF "1.prems"(1) x(1)] by auto
  next
    case False
    then show ?thesis using get_seg_mut_other [OF "1.prems"(1) x(3), of b] by auto
  qed
qed auto

text \<open>
  A name is plain if the parser reads it as that name; \<^verbatim>\<open>set_segs_property\<close> hands each name
  but the last to the parser again.
\<close>

definition plain_path :: "propex_parser \<Rightarrow> PropexSegment list \<Rightarrow> bool" where
  "plain_path parse segs \<longleftrightarrow> list_all (\<lambda>s. case s of Property p \<Rightarrow> parse p = Some [Property p] | _ \<Rightarrow> True) (butlast segs)"

lemma plain_Cons: "plain_path parse (Property p # s # ss) \<longleftrightarrow> parse p = Some [Property p] \<and> plain_path parse (s # ss)"
  by (simp add: plain_path_def)

lemma get_nav_mut_plain:
  "parse p = Some [Property p] \<Longrightarrow> get_nav_mut N parse p env f v = get_seg_mut (Property p) f v"
  by (cases v) (auto simp: get_nav_mut_def expand_sesg_property_def split: option.splits prod.splits)

abbreviation set_below ::
    "'n num_ops \<Rightarrow> propex_parser \<Rightarrow> PropexSegment list \<Rightarrow> ('n, 't, 'r) Variant \<Rightarrow> bool
      \<Rightarrow> ('n, 't, 'r) Variant \<Rightarrow> ('n, 't, 'r) Variant \<times> (unit, RustRedError) outcome" where
  "set_below N parse segs val create \<equiv> \<lambda>fp.
     case get_segs_mut segs (\<lambda>_. (val, ())) fp of
       Some (fp', _) \<Rightarrow> (fp', Ok ())
     | None \<Rightarrow>
         if create then set_segs_property N parse segs val True fp
         else (fp, Err (InvalidOperation ''Unable to set property: missing intermediate segments''))"

text \<open>The step on a plain name, as the cases of its result.\<close>

lemma set_segs_step:
  assumes "plain_path parse (Property p # s # ss)"
  shows "set_segs_property N parse (Property p # s # ss) val create v =
    (case get_seg_mut (Property p) (set_below N parse (s # ss) val create) v of
       Some r \<Rightarrow> r
     | None \<Rightarrow>
         if create then
           (case missing_container s of
              None \<Rightarrow> (v, Err (BadArgument ''segs''))
            | Some c \<Rightarrow>
                (case v of
                   Object m \<Rightarrow>
                     (case get_seg_mut (Property p) (set_below N parse (s # ss) val create) (Object (btree_insert p c m)) of
                        Some r \<Rightarrow> r
                      | None \<Rightarrow> (Object (btree_insert p c m), Err (InvalidOperation ''Failed to create the property'')))
                 | _ \<Rightarrow> (v, Err (InvalidOperation ''Cannot create the property beneath a non-object value''))))
         else (v, Err (BadArgument ''segs'')))"
proof -
  have p: "parse p = Some [Property p]" using assms by (simp add: plain_Cons)
  show ?thesis unfolding set_segs_property.simps Let_def get_nav_mut_plain [of parse, OF p] by (rule refl)
qed

definition written :: "PropexSegment list \<Rightarrow> ('n, 't, 'r) Variant \<Rightarrow> ('n, 't, 'r) Variant \<Rightarrow> bool" where
  "written segs val v \<longleftrightarrow> get_segs segs v = Some val \<or> (\<exists>bs. get_segs (butlast segs) v = Some (Bytes bs))"

lemma written_seg:
  "variant_ok v \<Longrightarrow> set_seg_property N s val v = (v', Ok ()) \<Longrightarrow> written [s] val v'"
  by (cases s; cases v) (auto simp: written_def nth_append split: if_splits option.splits)

lemma written_Cons: "get_seg (Property p) v = Some x \<Longrightarrow> written (s # ss) val x \<Longrightarrow> written (Property p # s # ss) val v"
  by (auto simp: written_def)

lemma set_segs_written:
  "variant_ok v \<Longrightarrow> variant_ok val \<Longrightarrow> plain_path parse segs \<Longrightarrow>
     set_segs_property N parse segs val create v = (v', Ok ()) \<Longrightarrow> written segs val v'"
proof (induction segs arbitrary: v v' create rule: induct_list012)
  case (3 s1 s2 ss)
  obtain p where p: "s1 = Property p" using "3.prems"(4) by (cases s1) auto
  have pl: "plain_path parse (s2 # ss)" using "3.prems"(3) by (simp add: p plain_Cons)
  have below: "written (s2 # ss) val fp'" if "set_below N parse (s2 # ss) val create fp = (fp', Ok ())" "variant_ok fp" for fp fp'
  proof (cases "get_segs_mut (s2 # ss) (\<lambda>_. (val, ())) fp")
    case None
    then have "set_segs_property N parse (s2 # ss) val True fp = (fp', Ok ())"
      using that(1) by (simp del: get_segs_mut.simps split: if_splits)
    then show ?thesis by (rule "3.IH"(2) [OF that(2) "3.prems"(2) pl])
  next
    case (Some w)
    then show ?thesis
      using that(1) get_segs_mut_get [OF that(2), of "s2 # ss" "\<lambda>_. (val, ())" "fst w" "snd w"]
      by (auto simp: written_def simp del: get_segs_mut.simps get_segs.simps split: prod.splits)
  qed
  have seg: "written (Property p # s2 # ss) val v'"
    if w: "get_seg_mut (Property p) (set_below N parse (s2 # ss) val create) w = Some (v', Ok ())" "variant_ok w" for w
  proof -
    obtain x y where xy: "get_seg (Property p) w = Some x" "set_below N parse (s2 # ss) val create x = (y, Ok ())"
        "get_seg (Property p) v' = Some y"
      using get_seg_mut_get [OF w(2,1)] by blast
    show ?thesis by (rule written_Cons [OF xy(3) below [OF xy(2) get_seg_ok [OF w(2) xy(1)]]])
  qed
  have ins: "variant_ok (Object (btree_insert p c m))" if "v = Object m" "missing_container s2 = Some c" for m c
    using that "3.prems"(1) map_ok_insert missing_container_ok by (metis map_ok_def)
  show ?case
    using "3.prems"(1,4) seg ins unfolding p set_segs_step [OF "3.prems"(3) [unfolded p]]
    by (auto split: option.splits if_splits Variant.Variant.splits simp del: get_seg_mut.simps get_segs_mut.simps)
qed (use written_seg in auto)

lemma set_seg_other:
  "variant_ok v \<Longrightarrow> t \<noteq> s \<Longrightarrow> get_seg t v = Some x \<Longrightarrow> get_seg t (fst (set_seg_property N s val v)) = Some x"
  by (cases s; cases v; cases t) (auto simp: nth_append split: if_splits option.splits)

lemma set_segs_frame:
  "variant_ok v \<Longrightarrow> variant_ok val \<Longrightarrow> plain_path parse segs \<Longrightarrow> diverge segs q \<Longrightarrow> get_segs q v = Some x \<Longrightarrow>
     get_segs q (fst (set_segs_property N parse segs val create v)) = Some x"
proof (induction segs arbitrary: v q x create rule: induct_list012)
  case (2 s)
  then obtain b q' where q: "q = b # q'" "b \<noteq> s" by (cases q) (auto split: if_splits)
  with 2 show ?case using set_seg_other by (fastforce simp: bind_eq_Some_conv)
next
  case (3 s1 s2 ss)
  show ?case
  proof (cases s1)
    case (Property p)
    obtain b q' y where q: "q = b # q'" "get_seg b v = Some y" "get_segs q' y = Some x"
      using "3.prems"(4,5) by (cases q) (auto simp: bind_eq_Some_conv)
    let ?b = "set_below N parse (s2 # ss) val create"
    note step = set_segs_step [OF "3.prems"(3) [unfolded Property]]
    have pl: "plain_path parse (s2 # ss)" using "3.prems"(3) by (simp add: Property plain_Cons)
    show ?thesis
    proof (cases "b = Property p")
      case True
      have y: "variant_ok y" by (rule get_seg_ok [OF "3.prems"(1) q(2)])
      have d: "diverge (s2 # ss) q'" using "3.prems"(4) by (simp add: q True Property)
      have "get_segs q' (fst (?b y)) = Some x"
        using "3.IH"(2) [OF y "3.prems"(2) pl d q(3)] q(3) get_segs_mut_other [OF y _ d, of "\<lambda>_. (val, ())"]
        by (auto split: option.splits simp del: get_segs_mut.simps)
      moreover obtain v' r where g: "get_seg_mut (Property p) ?b v = Some (v', r)"
        using get_seg_mut_exists [of "Property p" v y ?b] q(2) unfolding True by blast
      moreover have "get_seg (Property p) v' = Some (fst (?b y))"
        by (rule get_seg_mut_fst [OF "3.prems"(1) g q(2) [unfolded True]])
      ultimately show ?thesis using True q unfolding Property step by (simp del: get_seg_mut.simps get_seg.simps)
    next
      case False
      have other: "get_seg b v' = get_seg b w" if "get_seg_mut (Property p) ?b w = Some (v', r)" "variant_ok w" for v' r w
        by (rule get_seg_mut_other [OF that(2,1) False])
      have ins: "variant_ok (Object (btree_insert p c m)) \<and> get_seg b (Object (btree_insert p c m)) = Some y"
        if "v = Object m" "missing_container s2 = Some c" for m c
        using that "3.prems"(1) q(2) False map_ok_insert [of m c p] missing_container_ok [of s2 c]
        by (cases b) (auto simp: map_ok_def)
      have "get_seg b (fst (set_segs_property N parse (Property p # s2 # ss) val create v)) = Some y"
        unfolding step using other "3.prems"(1) ins q(2)
        by (auto split: option.splits Variant.Variant.splits simp del: get_seg_mut.simps get_segs_mut.simps get_seg.simps)
      then show ?thesis by (simp add: q Property del: set_segs_property.simps)
    qed
  qed (use "3.prems" in auto)
qed (auto)

text \<open>A path through objects, whose missing part consists of names.\<close>

fun is_name :: "PropexSegment \<Rightarrow> bool" where
  "is_name (Property _) = True"
| "is_name _ = False"

fun open_path :: "PropexSegment list \<Rightarrow> ('n, 't, 'r) Variant \<Rightarrow> bool" where
  "open_path [Property p] (Object m) = True"
| "open_path (Property p # s # ss) (Object m) =
     (case map_of m p of None \<Rightarrow> list_all is_name (s # ss) | Some x \<Rightarrow> open_path (s # ss) x)"
| "open_path _ _ = False"

lemma open_path_empty: "list_all is_name (s # ss) \<Longrightarrow> open_path (s # ss) (Object [])"
  by (cases s; cases ss) auto

lemma open_path_ok:
  "variant_ok v \<Longrightarrow> plain_path parse segs \<Longrightarrow> open_path segs v \<Longrightarrow>
     \<exists>v'. set_segs_property N parse segs val True v = (v', Ok ()) \<and> get_segs segs v' = Some val"
proof (induction segs arbitrary: v rule: induct_list012)
  case (2 s)
  then show ?case by (cases s; cases v) auto
next
  case (3 s1 s2 ss)
  obtain p m where p: "s1 = Property p" "v = Object m" using "3.prems"(3) by (cases s1; cases v) auto
  let ?b = "set_below N parse (s2 # ss) val True"
  note step = set_segs_step [OF "3.prems"(2) [unfolded p]]
  have pl: "plain_path parse (s2 # ss)" using "3.prems"(2) by (simp add: p plain_Cons)
  have below: "\<exists>y'. ?b y = (y', Ok ()) \<and> get_segs (s2 # ss) y' = Some val" if y: "variant_ok y" "open_path (s2 # ss) y" for y
    using "3.IH"(2) [OF y(1) pl y(2)] get_segs_mut_get [OF y(1), of "s2 # ss" "\<lambda>_. (val, ())"]
    by (fastforce split: option.splits simp del: get_segs_mut.simps get_segs.simps)
  have main: "\<exists>v'. get_seg_mut (Property p) ?b w = Some (v', Ok ()) \<and> get_segs (Property p # s2 # ss) v' = Some val"
    if w: "variant_ok w" "get_seg (Property p) w = Some y" "open_path (s2 # ss) y" for w y
  proof -
    obtain y' where y': "?b y = (y', Ok ())" "get_segs (s2 # ss) y' = Some val"
      using below [OF get_seg_ok [OF w(1,2)] w(3)] by blast
    obtain v' r where g: "get_seg_mut (Property p) ?b w = Some (v', r)"
      using get_seg_mut_exists [OF w(2), of ?b] by blast
    with get_seg_mut_get [OF w(1) g] w(2) y' show ?thesis
      by (auto simp del: get_seg_mut.simps get_seg.simps get_segs_mut.simps)
  qed
  show ?case
  proof (cases "map_of m p")
    case None
    then have l: "list_all is_name (s2 # ss)" using "3.prems"(3) by (simp add: p)
    then have c: "missing_container s2 = Some empty_object" by (cases s2) auto
    let ?w = "Object (btree_insert p empty_object m)"
    have ok: "variant_ok ?w" "get_seg (Property p) ?w = Some empty_object"
      using "3.prems"(1) map_ok_insert [of m empty_object p] by (auto simp: p map_ok_def empty_object_def)
    obtain v' where v': "get_seg_mut (Property p) ?b ?w = Some (v', Ok ())" "get_segs (Property p # s2 # ss) v' = Some val"
      using main [OF ok] open_path_empty [OF l] by (auto simp: empty_object_def)
    have "get_seg_mut (Property p) ?b v = None" using None by (simp add: p)
    then have "set_segs_property N parse (Property p # s2 # ss) val True v = (v', Ok ())"
      unfolding step by (simp add: c v'(1) p del: get_seg_mut.simps get_segs_mut.simps)
    with v'(2) show ?thesis by (simp only: p(1)) blast
  next
    case (Some x)
    then show ?thesis
      using main [OF "3.prems"(1), of x] "3.prems"(3) unfolding p step
      by (auto simp del: get_seg_mut.simps get_segs_mut.simps get_segs.simps)
  qed
qed simp

section \<open>Removal\<close>

lemma remove_tail_ok: "variant_ok v \<Longrightarrow> variant_ok (fst (remove_tail s v))"
proof (induction s v rule: remove_tail.induct)
  case (1 p m)
  then show ?case by (simp add: map_ok_def [symmetric] map_ok_delete del: variant_ok.simps(2))
next
  case (2 i xs)
  then show ?case by (auto simp: list_all_iff dest: in_set_takeD in_set_dropD)
qed auto

lemma remove_segs_property_ok: "map_ok m \<Longrightarrow> map_ok (fst (remove_segs_property segs m))"
proof (induction segs m rule: remove_segs_property.induct)
  case (2 p seg segs m)
  let ?g = "get_segs_mut (butlast (seg # segs)) (remove_tail (last (seg # segs)))"
  have "map_ok (btree_insert p x' m)" if "map_of m p = Some x" "?g x = Some (x', r)" for x x' r
    by (rule map_ok_insert [OF 2 get_segs_mut_ok [OF map_ok_get [OF 2 that(1)] remove_tail_ok that(2)]])
  then show ?case using 2 by (simp del: get_segs_mut.simps butlast.simps last.simps split: option.splits prod.splits)
qed (auto intro: map_ok_delete)

lemma get_segs_append: "get_segs (xs @ ys) v = Option.bind (get_segs xs v) (get_segs ys)"
proof (induction xs arbitrary: v)
  case (Cons x xs)
  then show ?case by (cases "get_seg x v") auto
qed simp

lemma get_segs_single: "get_segs [s] = get_seg s"
proof
  fix v :: "('n, 't, 'r) Variant"
  show "get_segs [s] v = get_seg s v" by (cases "get_seg s v") auto
qed

lemma get_segs_snoc: "get_segs (xs @ [s]) v = Option.bind (get_segs xs v) (get_seg s)"
  by (simp only: get_segs_append get_segs_single)

lemma get_segs_property_eq: "get_segs_property (Property p # ss) m = get_segs (Property p # ss) (Object m)"
  by (cases ss; cases "map_of m p") auto

lemma get_segs_mut_None: "get_segs_mut ss f v = None \<longleftrightarrow> get_segs ss v = None"
proof (induction ss arbitrary: v)
  case (Cons s ss)
  show ?case
  proof (cases "get_seg s v")
    case (Some x)
    show ?thesis
    proof (cases "get_segs_mut ss f x")
      case None
      then show ?thesis using Some Cons [of x] by simp
    next
      case (Some w)
      obtain v' r where "get_seg_mut s (\<lambda>_. w) v = Some (v', r)"
        using get_seg_mut_exists [OF \<open>get_seg s v = Some x\<close>, of "\<lambda>_. w"] by blast
      then show ?thesis using Some Cons [of x] \<open>get_seg s v = Some x\<close> by auto
    qed
  qed simp
qed simp

lemma remove_tail_name:
  "remove_tail (Property k) x = (x', r) \<Longrightarrow> r = Ok (get_seg (Property k) x) \<and> get_seg (Property k) x' = None"
  by (cases x) (auto simp: hmap_simps)

lemma remove_segs_clears:
  assumes "map_ok m" and "remove_segs_property (Property p # ss) m = (m', r)" and "is_name (last (Property p # ss))"
  shows "r = Ok (get_segs_property (Property p # ss) m) \<and> get_segs_property (Property p # ss) m' = None"
proof (cases ss)
  case Nil
  then show ?thesis using assms(1,2) by (auto simp: hmap_simps)
next
  case (Cons s0 ss0)
  obtain k where l: "last ss = Property k" using assms(3) Cons by (cases "last ss") auto
  then have k: "ss = butlast ss @ [Property k]" using Cons by (metis append_butlast_last_id list.distinct(1))
  let ?g = "get_segs_mut (butlast ss) (remove_tail (Property k))"
  have split: "get_segs ss y = Option.bind (get_segs (butlast ss) y) (get_seg (Property k))" for y
    by (subst k) (rule get_segs_snoc)
  show ?thesis
  proof (cases "map_of m p")
    case (Some x)
    have x: "variant_ok x" by (rule map_ok_get [OF assms(1) Some])
    have r: "(m', r) = (case ?g x of None \<Rightarrow> (m, Ok None) | Some (x', r) \<Rightarrow> (btree_insert p x' m, r))"
      using assms(2) Some l by (simp add: Cons del: butlast.simps last.simps get_segs_mut.simps)
    show ?thesis
    proof (cases "?g x")
      case None
      moreover from this have "get_segs (butlast ss) x = None" by (simp only: get_segs_mut_None)
      ultimately show ?thesis using r Some split [of x] by (simp add: get_segs_property_eq)
    next
      case (Some w)
      obtain t y where t: "get_segs (butlast ss) x = Some t" "remove_tail (Property k) t = (y, snd w)"
          "get_segs (butlast ss) (fst w) = Some y"
        using get_segs_mut_get [OF x, of "butlast ss" "remove_tail (Property k)" "fst w" "snd w"] Some by auto
      have "m' = btree_insert p (fst w) m" "r = snd w" using r Some by (auto split: prod.splits)
      moreover note remove_tail_name [OF t(2)] split [of x] split [of "fst w"] t \<open>map_of m p = Some x\<close> map_ok_btree [OF assms(1)]
      ultimately show ?thesis by (simp add: get_segs_property_eq)
    qed
  qed (use assms(2) Cons in \<open>simp add: get_segs_property_eq\<close>)
qed

section \<open>Properties\<close>

definition int_num :: "int num_ops" where
  "int_num =
     \<lparr>num_as_i64 = Some, num_as_u64 = (\<lambda>n. if n < 0 then None else Some (of_int n)), num_is_i64 = (\<lambda>_. True),
      num_is_u64 = (\<lambda>n. 0 \<le> n), num_to_string = (\<lambda>n. show_bool (n = 0)),
      num_from_u64 = uint\<rparr>"

text \<open>A parser for the witnesses: a name without separators is that name.\<close>

abbreviation name_parser :: propex_parser where
  "name_parser \<equiv> \<lambda>e. if e = [] then None else Some [Property e]"

abbreviation demo_obj :: "(int, nat, nat) Variant" where
  "demo_obj \<equiv> Object [(''payload'', Object [(''a'', Number 1)]), (''topic'', String ''t'')]"

text \<open>
  C4. When an assignment succeeds on a path of plain names, the value is found at the
  path, unless the last step wrote an octet of a byte buffer, which navigation cannot read;
  and whatever was found on a path that parts from it is still found there, also when
  the assignment fails.
\<close>

theorem set_reads_back:
  assumes "variant_ok v" and "variant_ok val" and "plain_path parse segs"
    and "set_segs_property N parse segs val create v = (v', r)"
  shows "(r = Ok () \<longrightarrow> get_segs segs v' = Some val \<or> (\<exists>bs. get_segs (butlast segs) v' = Some (Bytes bs)))
    \<and> (\<forall>q x. diverge segs q \<longrightarrow> get_segs q v = Some x \<longrightarrow> get_segs q v' = Some x)"
proof (intro conjI impI allI)
  assume "r = Ok ()"
  with assms(4) have "set_segs_property N parse segs val create v = (v', Ok ())" by simp
  from set_segs_written [OF assms(1-3) this]
  show "get_segs segs v' = Some val \<or> (\<exists>bs. get_segs (butlast segs) v' = Some (Bytes bs))" by (simp add: written_def)
next
  fix q x
  assume "diverge segs q" "get_segs q v = Some x"
  from set_segs_frame [OF assms(1-3) this, of N create] show "get_segs q v' = Some x" by (simp add: assms(4))
qed

theorem set_reads_back_witness:
  "get_segs [Property ''topic''] (fst (set_segs_property int_num name_parser [Property ''payload'', Property ''b''] (Number 3) True demo_obj))
     = Some (String ''t'')"
proof -
  let ?p = "[Property ''payload'', Property ''b'']"
  have ok: "variant_ok demo_obj" "variant_ok (Number 3 :: (int, nat, nat) Variant)" by code_simp+
  have "plain_path name_parser ?p" by (simp add: plain_path_def)
  from set_reads_back [OF ok this prod.collapse [symmetric], THEN conjunct2, rule_format, of "[Property ''topic'']" "String ''t''"]
  show ?thesis by simp
qed

text \<open>
  With creation of missing properties, an assignment along plain names through
  objects always succeeds, creates the missing objects, and the value is then found at the path.
\<close>

theorem set_creates:
  assumes "variant_ok v" and "plain_path parse segs" and "open_path segs v"
  shows "\<exists>v'. set_segs_property N parse segs val True v = (v', Ok ()) \<and> get_segs segs v' = Some val"
  using open_path_ok [OF assms] .

theorem set_creates_witness:
  "\<exists>v'. set_segs_property int_num name_parser [Property ''x'', Property ''y'', Property ''z''] (Bool True) True demo_obj = (v', Ok ())"
proof -
  let ?p = "[Property ''x'', Property ''y'', Property ''z'']"
  have "variant_ok demo_obj" "open_path ?p demo_obj" by code_simp+
  moreover have "plain_path name_parser ?p" by (simp add: plain_path_def)
  ultimately show ?thesis using set_creates by fast
qed

text \<open>
  Removal of a path that ends in a name returns the value that was there, if any, and
  afterwards the path leads nowhere.
\<close>

theorem remove_clears:
  assumes "map_ok m" and "remove_segs_property (Property p # ss) m = (m', r)" and "is_name (last (Property p # ss))"
  shows "r = Ok (get_segs_property (Property p # ss) m) \<and> get_segs_property (Property p # ss) m' = None"
  using remove_segs_clears [OF assms] .

theorem remove_clears_witness:
  "remove_segs_property [Property ''payload'', Property ''a''] [(''payload'', Object [(''a'', Number (1 :: int))])]
     = ([(''payload'', Object [])], Ok (Some (Number 1 :: (int, nat, nat) Variant)))"
proof -
  let ?m = "[(''payload'', Object [(''a'', Number (1 :: int) :: (int, nat, nat) Variant)])]"
  have "map_ok ?m" by code_simp
  from remove_clears [OF this prod.collapse [symmetric], of "''payload''" "[Property ''a'']"]
  show ?thesis by simp
qed

text \<open>
  Removal of an array element by an index beyond the end of the array panics instead
  of returning nothing.
\<close>

theorem remove_index_panics:
  assumes "map_of m p = Some x" and "get_segs ss x = Some (Array xs)" and "length xs \<le> i"
  shows "snd (remove_segs_property (Property p # ss @ [Index i]) m) = Panic"
proof -
  have "\<exists>x' r. get_segs_mut ss (remove_tail (Index i)) x = Some (x', r) \<and> r = Panic"
    using assms(2,3)
  proof (induction ss arbitrary: x)
    case (Cons s ss)
    then obtain y where y: "get_seg s x = Some y" "get_segs ss y = Some (Array xs)" by (auto simp: bind_eq_Some_conv)
    with Cons obtain y' where y': "get_segs_mut ss (remove_tail (Index i)) y = Some (y', Panic)" by blast
    from y(1) have "\<exists>x'. get_seg_mut s (\<lambda>_. (y', Panic :: (('a, 'b, 'c) Variant option, RustRedError) outcome)) x = Some (x', Panic)"
      by (cases s; cases x) (auto split: if_splits)
    with y y' show ?case by auto
  qed simp
  then obtain x' where "get_segs_mut ss (remove_tail (Index i)) x = Some (x', Panic)" by blast
  with assms(1) show ?thesis by (cases ss) auto
qed

theorem remove_index_panics_witness:
  "snd (remove_segs_property [Property ''payload'', Index 3] [(''payload'', Array [Null :: (int, nat, nat) Variant])]) = Panic"
  using remove_index_panics [of "[(''payload'', Array [Null :: (int, nat, nat) Variant])]" "''payload''" _ "[]" "[Null]" 3] by simp

text \<open>
  A first name that the parser does not read as itself cannot be assigned through: the
  property is created as an empty container and the assignment then fails.
\<close>

theorem unparsable_name_fails:
  assumes "parse p = None" and "missing_container s = Some c"
  shows "set_segs_property N parse (Property p # s # ss) val True (Object m) =
    (Object (btree_insert p c m), Err (InvalidOperation ''Failed to create the property''))"
  using assms by (simp add: get_nav_mut_def Let_def)

theorem unparsable_name_fails_witness:
  "set_segs_property int_num (\<lambda>_. None) [Property ''my key'', Property ''x''] (Bool True) True (Object [] :: (int, nat, nat) Variant)
     = (Object [(''my key'', Object [])], Err (InvalidOperation ''Failed to create the property''))"
  by (subst unparsable_name_fails) (simp_all add: empty_object_def)

end
