(* ===== verification/Context_Store.thy ===== *)
theory Context_Store
  imports Msg Variant_Correct
begin

text \<open>
  Flow, node and global context (\<^verbatim>\<open>crates/core/src/runtime/context\<close>): the interface of a
  context store, the store in memory, the manager with its named stores and the context
  that nodes use to read and write properties.

  The stores of a manager are shared handles and the default store is one of them, so the
  manager is the table of the stores' contents and the name of the default one. The
  operations hold the store's lock throughout, so each is one step. \<open>None\<close> as manager is a
  context whose manager is gone.
\<close>

section \<open>The store interface\<close>

record ('s, 'n, 't, 'r) store_ops =
  store_get_one :: "string \<Rightarrow> PropexSegment list \<Rightarrow> 's \<Rightarrow> (('n, 't, 'r) Variant, RustRedError) outcome"
  store_set_one :: "string \<Rightarrow> PropexSegment list \<Rightarrow> ('n, 't, 'r) Variant \<Rightarrow> 's \<Rightarrow> 's \<times> (unit, RustRedError) outcome"
  store_remove_one :: "string \<Rightarrow> PropexSegment list \<Rightarrow> 's \<Rightarrow> 's \<times> (('n, 't, 'r) Variant, RustRedError) outcome"

section \<open>The store in memory\<close>

type_synonym ('n, 't, 'r) scopes = "(string, ('n, 't, 'r) Variant) hmap"

definition get_one :: "string \<Rightarrow> PropexSegment list \<Rightarrow> ('n, 't, 'r) scopes \<Rightarrow> (('n, 't, 'r) Variant, RustRedError) outcome" where
  "get_one scope path scopes =
     (case map_of scopes scope of
        Some scope_map \<Rightarrow> ok_or (get_segs path scope_map) OutOfRange
      | None \<Rightarrow> Err OutOfRange)"

definition get_many ::
    "'n num_ops \<Rightarrow> propex_parser \<Rightarrow> string \<Rightarrow> string list \<Rightarrow> ('n, 't, 'r) scopes
      \<Rightarrow> (('n, 't, 'r) Variant list, RustRedError) outcome" where
  "get_many N parse scope keys scopes =
     (case map_of scopes scope of
        Some scope_map \<Rightarrow> Ok (List.map_filter (\<lambda>key. get_nav N parse key [] scope_map) keys)
      | None \<Rightarrow> Err OutOfRange)"

definition get_keys :: "string \<Rightarrow> ('n, 't, 'r) scopes \<Rightarrow> (string list, RustRedError) outcome" where
  "get_keys scope scopes =
     (case map_of scopes scope of
        Some scope_map \<Rightarrow> obind (or_panic (as_object scope_map)) (\<lambda>m. Ok (map fst m))
      | None \<Rightarrow> Err OutOfRange)"

definition get_all :: "string \<Rightarrow> ('n, 't, 'r) scopes \<Rightarrow> (string, ('n, 't, 'r) Variant) hmap" where
  "get_all scope scopes =
     (case Option.bind (map_of scopes scope) as_object of Some m \<Rightarrow> m | None \<Rightarrow> [])"

text \<open>\<^verbatim>\<open>scopes.entry(scope).or_insert_with(Variant::empty_object)\<close>.\<close>

definition scope_entry :: "string \<Rightarrow> ('n, 't, 'r) scopes \<Rightarrow> ('n, 't, 'r) Variant" where
  "scope_entry scope scopes = (case map_of scopes scope of Some v \<Rightarrow> v | None \<Rightarrow> empty_object)"

definition set_one ::
    "'n num_ops \<Rightarrow> propex_parser \<Rightarrow> string \<Rightarrow> PropexSegment list \<Rightarrow> ('n, 't, 'r) Variant \<Rightarrow> ('n, 't, 'r) scopes
      \<Rightarrow> ('n, 't, 'r) scopes \<times> (unit, RustRedError) outcome" where
  "set_one N parse scope path val scopes =
     (case set_segs_property N parse path val True (scope_entry scope scopes) of
        (scope_map, r) \<Rightarrow> (AList.update scope scope_map scopes, r))"

definition set_many ::
    "string \<Rightarrow> (string \<times> ('n, 't, 'r) Variant) list \<Rightarrow> ('n, 't, 'r) scopes \<Rightarrow> (('n, 't, 'r) scopes, RustRedError) outcome" where
  "set_many scope pairs scopes =
     (case scope_entry scope scopes of
        Object m \<Rightarrow> Ok (AList.update scope (Object (fold (\<lambda>(k, v). btree_insert k v) pairs m)) scopes)
      | v \<Rightarrow> if pairs = [] then Ok (AList.update scope v scopes) else Panic)"

definition remove_one ::
    "string \<Rightarrow> PropexSegment list \<Rightarrow> ('n, 't, 'r) scopes
      \<Rightarrow> ('n, 't, 'r) scopes \<times> (('n, 't, 'r) Variant, RustRedError) outcome" where
  "remove_one scope path scopes =
     (case map_of scopes scope of
        None \<Rightarrow> (scopes, Err OutOfRange)
      | Some scope_map \<Rightarrow>
          (case as_object scope_map of
             None \<Rightarrow> (scopes, Panic)
           | Some m \<Rightarrow>
               (case remove_segs_property path m of
                  (m', r) \<Rightarrow> (AList.update scope (Object m') scopes, obind r (\<lambda>v. ok_or v OutOfRange)))))"

definition delete :: "string \<Rightarrow> ('n, 't, 'r) scopes \<Rightarrow> ('n, 't, 'r) scopes" where
  "delete scope scopes = AList.delete scope scopes"

definition MemoryContextStore :: "'n num_ops \<Rightarrow> propex_parser \<Rightarrow> (('n, 't, 'r) scopes, 'n, 't, 'r) store_ops" where
  "MemoryContextStore N parse =
     \<lparr>store_get_one = get_one, store_set_one = set_one N parse, store_remove_one = remove_one\<rparr>"

section \<open>The manager and contexts\<close>

record 's ContextManager =
  cm_default_store :: string
  cm_stores :: "(string, 's) hmap"

record Context =
  ctx_scope :: string

text \<open>The name under which a store is found.\<close>

definition get_context_store :: "string \<Rightarrow> 's ContextManager \<Rightarrow> string option" where
  "get_context_store store_name mgr =
     (if store_name \<in> {''default'', ''_'', []} then Some (cm_default_store mgr)
      else if map_of (cm_stores mgr) store_name = None then None
      else Some store_name)"

definition new_context :: "string \<Rightarrow> Context" where
  "new_context scope = \<lparr>ctx_scope = scope\<rparr>"

definition new_global_context :: Context where
  "new_global_context = \<lparr>ctx_scope = ''global''\<rparr>"

definition pick_store :: "string option \<Rightarrow> 's ContextManager \<Rightarrow> string option" where
  "pick_store storage mgr =
     (case storage of Some s \<Rightarrow> get_context_store s mgr | None \<Rightarrow> Some (cm_default_store mgr))"

definition Context_get_one ::
    "('s, 'n, 't, 'r) store_ops \<Rightarrow> 'n num_ops \<Rightarrow> propex_parser \<Rightarrow> Context \<Rightarrow> string option \<Rightarrow> string
      \<Rightarrow> ('n, 't, 'r) PropexEnv list \<Rightarrow> 's ContextManager option \<Rightarrow> ('n, 't, 'r) Variant option" where
  "Context_get_one ST N parse ctx storage key eval_env manager =
     Option.bind manager (\<lambda>mgr.
     Option.bind (pick_store storage mgr) (\<lambda>name.
     Option.bind (map_of (cm_stores mgr) name) (\<lambda>store.
     Option.bind (parse key) (\<lambda>path.
     case expand_propex_segments N eval_env path of
       Ok path' \<Rightarrow> (case store_get_one ST (ctx_scope ctx) path' store of Ok v \<Rightarrow> Some v | _ \<Rightarrow> None)
     | _ \<Rightarrow> None))))"

text \<open>An error without a value is the parser's.\<close>

definition Context_set_one ::
    "('s, 'n, 't, 'r) store_ops \<Rightarrow> 'n num_ops \<Rightarrow> propex_parser \<Rightarrow> Context \<Rightarrow> string option \<Rightarrow> string
      \<Rightarrow> ('n, 't, 'r) Variant option \<Rightarrow> ('n, 't, 'r) PropexEnv list \<Rightarrow> 's ContextManager option
      \<Rightarrow> 's ContextManager option \<times> (unit, RustRedError option) outcome" where
  "Context_set_one ST N parse ctx storage key val eval_env manager =
     (case manager of
        None \<Rightarrow> (None, Panic)
      | Some mgr \<Rightarrow>
          (case Option.bind (pick_store storage mgr) (\<lambda>name. map_option (Pair name) (map_of (cm_stores mgr) name)) of
             None \<Rightarrow> (manager, Err (Some (BadArgument ''storage'')))
           | Some (name, store) \<Rightarrow>
               (case parse key of
                  None \<Rightarrow> (manager, Err None)
                | Some path \<Rightarrow>
                    (case expand_propex_segments N eval_env path of
                       Ok path' \<Rightarrow>
                         (case (case val of
                                  Some v \<Rightarrow> store_set_one ST (ctx_scope ctx) path' v store
                                | None \<Rightarrow>
                                    (case store_remove_one ST (ctx_scope ctx) path' store of
                                       (s, r) \<Rightarrow> (s, map_outcome (\<lambda>_. ()) (\<lambda>e. e) r))) of
                            (store', r) \<Rightarrow>
                              (Some (mgr\<lparr>cm_stores := AList.update name store' (cm_stores mgr)\<rparr>),
                               map_outcome (\<lambda>x. x) Some r))
                     | Err e \<Rightarrow> (manager, Err (Some e))
                     | Panic \<Rightarrow> (manager, Panic)
                     | Diverge \<Rightarrow> (manager, Diverge)))))"

end
