(* ===== verification/Context_Correct.thy ===== *)
theory Context_Correct
  imports Context_Store
begin

text \<open>
  What a context promises to the nodes that use it, proved once from the laws of a context
  store (locale \<open>context_store\<close>) and instantiated with the store in memory.
\<close>

definition mgr_ok :: "('s \<Rightarrow> bool) \<Rightarrow> 's ContextManager \<Rightarrow> bool" where
  "mgr_ok store_ok mgr \<longleftrightarrow> list_all (\<lambda>(_, s). store_ok s) (cm_stores mgr)"

lemma mgr_ok_get: "mgr_ok P mgr \<Longrightarrow> map_of (cm_stores mgr) name = Some s \<Longrightarrow> P s"
  by (auto simp: mgr_ok_def list_all_iff dest!: map_of_SomeD)

section \<open>The laws of a store\<close>

locale context_store =
  fixes ST :: "('s, 'n, 't, 'r) store_ops" and parse :: propex_parser and store_ok :: "'s \<Rightarrow> bool"
  assumes set_ok: "store_ok s \<Longrightarrow> variant_ok v \<Longrightarrow> store_ok (fst (store_set_one ST scope path v s))"
    and remove_ok: "store_ok s \<Longrightarrow> store_ok (fst (store_remove_one ST scope path s))"
    and set_get: "store_ok s \<Longrightarrow> variant_ok v \<Longrightarrow> plain_path parse path \<Longrightarrow>
      store_set_one ST scope path v s = (s', Ok ()) \<Longrightarrow>
      store_get_one ST scope path s' = Ok v \<or> (\<exists>bs. store_get_one ST scope (butlast path) s' = Ok (Bytes bs))"
    and set_other: "scope' \<noteq> scope \<Longrightarrow>
      store_get_one ST scope' q (fst (store_set_one ST scope path v s)) = store_get_one ST scope' q s"
    and remove_gone: "store_ok s \<Longrightarrow> path \<noteq> [] \<Longrightarrow> is_name (last path) \<Longrightarrow>
      store_remove_one ST scope path s = (s', Ok v) \<Longrightarrow>
      store_get_one ST scope path s = Ok v \<and> store_get_one ST scope path s' \<noteq> Ok w"
    and remove_other: "scope' \<noteq> scope \<Longrightarrow>
      store_get_one ST scope' q (fst (store_remove_one ST scope path s)) = store_get_one ST scope' q s"
begin

text \<open>A successful write went to a store that exists, at the expanded path.\<close>

lemma set_one_cases:
  assumes "Context_set_one ST N parse ctx storage key val env (Some mgr) = (mgr', Ok ())"
  obtains name store path path' store' where "pick_store storage mgr = Some name" "map_of (cm_stores mgr) name = Some store"
    "parse key = Some path" "expand_propex_segments N env path = Ok path'"
    "mgr' = Some (mgr\<lparr>cm_stores := AList.update name store' (cm_stores mgr)\<rparr>)"
    "case val of
       Some v \<Rightarrow> store_set_one ST (ctx_scope ctx) path' v store = (store', Ok ())
     | None \<Rightarrow> \<exists>v. store_remove_one ST (ctx_scope ctx) path' store = (store', Ok v)"
  using assms
  by (auto simp: Context_set_one_def bind_eq_Some_conv map_outcome_eq_Ok
      split: option.splits outcome.splits prod.splits)

lemma pick_store_update: "pick_store storage (mgr\<lparr>cm_stores := AList.update name s (cm_stores mgr)\<rparr>) = Some n \<longleftrightarrow>
     pick_store storage mgr = Some n \<or>
       (pick_store storage mgr = None \<and> n = name \<and> storage = Some name \<and> map_of (cm_stores mgr) name = None)"
  by (auto simp: pick_store_def get_context_store_def hmap_simps split: option.splits if_splits)

lemma context_set_get:
  assumes "mgr_ok store_ok mgr" "variant_ok v"
    and set: "Context_set_one ST N parse ctx storage key (Some v) env (Some mgr) = (mgr', Ok ())"
    and path: "parse key = Some path" "expand_propex_segments N env path = Ok path'" "plain_path parse path'"
  shows "Context_get_one ST N parse ctx storage key env mgr' = Some v \<or>
    (\<exists>m name s bs. mgr' = Some m \<and> map_of (cm_stores m) name = Some s
       \<and> store_get_one ST (ctx_scope ctx) (butlast path') s = Ok (Bytes bs))"
proof -
  obtain name store store' where s: "pick_store storage mgr = Some name" "map_of (cm_stores mgr) name = Some store"
      "mgr' = Some (mgr\<lparr>cm_stores := AList.update name store' (cm_stores mgr)\<rparr>)"
      "store_set_one ST (ctx_scope ctx) path' v store = (store', Ok ())"
    by (rule set_one_cases [OF set]) (use path in auto)
  have p: "pick_store storage (mgr\<lparr>cm_stores := AList.update name store' (cm_stores mgr)\<rparr>) = Some name"
    using s(1) by (simp add: pick_store_update)
  from set_get [OF mgr_ok_get [OF assms(1) s(2)] assms(2) path(3) s(4)]
  show ?thesis
  proof
    assume "store_get_one ST (ctx_scope ctx) path' store' = Ok v"
    then show ?thesis using s(3) p path by (simp add: Context_get_one_def hmap_simps)
  next
    assume "\<exists>bs. store_get_one ST (ctx_scope ctx) (butlast path') store' = Ok (Bytes bs)"
    then show ?thesis using s(3) by (auto simp: hmap_simps)
  qed
qed

lemma context_removed:
  assumes "mgr_ok store_ok mgr"
    and set: "Context_set_one ST N parse ctx storage key None env (Some mgr) = (mgr', Ok ())"
    and path: "parse key = Some path" "expand_propex_segments N env path = Ok path'" "path' \<noteq> []" "is_name (last path')"
  shows "Context_get_one ST N parse ctx storage key env mgr' = None"
proof -
  obtain name store store' v where s: "pick_store storage mgr = Some name" "map_of (cm_stores mgr) name = Some store"
      "mgr' = Some (mgr\<lparr>cm_stores := AList.update name store' (cm_stores mgr)\<rparr>)"
      "store_remove_one ST (ctx_scope ctx) path' store = (store', Ok v)"
    by (rule set_one_cases [OF set]) (use path in auto)
  have "pick_store storage (mgr\<lparr>cm_stores := AList.update name store' (cm_stores mgr)\<rparr>) = Some name"
    using s(1) by (simp add: pick_store_update)
  moreover have "store_get_one ST (ctx_scope ctx) path' store' \<noteq> Ok w" for w
    using remove_gone [OF mgr_ok_get [OF assms(1) s(2)] path(3,4) s(4)] by simp
  ultimately show ?thesis
    using s(3) path(1,2) by (auto simp: Context_get_one_def hmap_simps split: outcome.splits)
qed

lemma context_other_scope:
  assumes set: "Context_set_one ST N parse ctx storage key val env (Some mgr) = (mgr', Ok ())"
    and "ctx_scope ctx' \<noteq> ctx_scope ctx"
  shows "Context_get_one ST N parse ctx' storage' key' env' mgr' = Context_get_one ST N parse ctx' storage' key' env' (Some mgr)"
proof -
  obtain name store path' store' where s: "map_of (cm_stores mgr) name = Some store"
      "mgr' = Some (mgr\<lparr>cm_stores := AList.update name store' (cm_stores mgr)\<rparr>)"
      "case val of
         Some v \<Rightarrow> store_set_one ST (ctx_scope ctx) path' v store = (store', Ok ())
       | None \<Rightarrow> \<exists>v. store_remove_one ST (ctx_scope ctx) path' store = (store', Ok v)"
    by (rule set_one_cases [OF set])
  have get: "store_get_one ST (ctx_scope ctx') q store' = store_get_one ST (ctx_scope ctx') q store" for q
    using s(3) set_other [OF assms(2), of q path' _ store] remove_other [OF assms(2), of q path' store]
    by (auto split: option.splits) (metis fst_conv)+
  have "pick_store storage' (mgr\<lparr>cm_stores := AList.update name store' (cm_stores mgr)\<rparr>) = pick_store storage' mgr"
    using s(1) by (auto simp: pick_store_def get_context_store_def hmap_simps split: option.splits)
  then show ?thesis using s(1,2)
    by (cases "pick_store storage' mgr") (auto simp: Context_get_one_def hmap_simps get cong: outcome.case_cong)
qed

end

section \<open>The store in memory\<close>

definition scopes_ok :: "('n, 't, 'r) scopes \<Rightarrow> bool" where
  "scopes_ok scopes \<longleftrightarrow> list_all (\<lambda>(_, v). variant_ok v) scopes"

lemma scopes_ok_get: "scopes_ok ss \<Longrightarrow> map_of ss k = Some v \<Longrightarrow> variant_ok v"
  by (auto simp: scopes_ok_def list_all_iff dest!: map_of_SomeD)

lemma scopes_ok_update: "scopes_ok ss \<Longrightarrow> variant_ok v \<Longrightarrow> scopes_ok (AList.update k v ss)"
  unfolding scopes_ok_def list_all_iff by (induction ss) auto

lemma scope_entry_ok: "scopes_ok ss \<Longrightarrow> variant_ok (scope_entry k ss)"
  using scopes_ok_get [of ss k] by (auto simp: scope_entry_def empty_object_def split: option.splits)

lemma remove_one_gone:
  assumes "scopes_ok ss" "path \<noteq> []" "is_name (last path)" "remove_one scope path ss = (ss', Ok v)"
  shows "get_one scope path ss = Ok v \<and> get_one scope path ss' \<noteq> Ok w"
proof -
  obtain m m' where m: "map_of ss scope = Some (Object m)" "remove_segs_property path m = (m', Ok (Some v))"
      "ss' = AList.update scope (Object m') ss"
  proof -
    obtain sm where "map_of ss scope = Some sm" using assms(4) by (auto simp: remove_one_def split: option.splits)
    moreover from this assms(4) obtain m where "sm = Object m" by (cases sm) (auto simp: remove_one_def)
    ultimately show thesis using assms(4) that by (auto simp: remove_one_def obind_eq_Ok split: prod.splits)
  qed
  obtain p ps where path: "path = Property p # ps"
    using m(2) assms(2) by (cases path; cases "hd path") auto
  have "map_ok m" using scopes_ok_get [OF assms(1) m(1)] by (simp add: map_ok_def)
  from remove_segs_clears [OF this m(2) [unfolded path]] assms(3)
  have "get_segs path (Object m) = Some v" "get_segs path (Object m') = None"
    by (simp_all add: path get_segs_property_eq del: get_segs.simps)
  then show ?thesis by (simp add: get_one_def m hmap_simps)
qed

lemma set_one_ok: "scopes_ok ss \<Longrightarrow> variant_ok v \<Longrightarrow> scopes_ok (fst (set_one N parse scope path v ss))"
  using set_segs_property_ok [OF scope_entry_ok, of ss v N parse path True scope]
  by (auto simp: set_one_def scopes_ok_update split: prod.splits)

lemma remove_one_ok: "scopes_ok ss \<Longrightarrow> scopes_ok (fst (remove_one scope path ss))"
proof -
  assume ok: "scopes_ok ss"
  have "scopes_ok (AList.update scope (Object m') ss)"
    if "map_of ss scope = Some (Object m)" "remove_segs_property path m = (m', r)" for m m' r
  proof -
    have "map_ok m" using scopes_ok_get [OF ok that(1)] by (simp add: map_ok_def)
    then have "map_ok m'" using remove_segs_property_ok [of m path] that(2) by simp
    then show ?thesis using scopes_ok_update [OF ok] by (simp add: map_ok_def)
  qed
  then show ?thesis
    using ok by (auto simp: remove_one_def split: option.splits prod.splits Variant.Variant.splits elim!: as_object.elims)
qed

lemma set_one_get:
  assumes "scopes_ok ss" "variant_ok v" "plain_path parse path" "set_one N parse scope path v ss = (ss', Ok ())"
  shows "get_one scope path ss' = Ok v \<or> (\<exists>bs. get_one scope (butlast path) ss' = Ok (Bytes bs))"
proof -
  obtain sm where "set_segs_property N parse path v True (scope_entry scope ss) = (sm, Ok ())" "ss' = AList.update scope sm ss"
    using assms(4) by (auto simp: set_one_def split: prod.splits)
  with set_segs_written [OF scope_entry_ok [OF assms(1)] assms(2,3)] have "written path v sm" by blast
  then show ?thesis using \<open>ss' = AList.update scope sm ss\<close> by (auto simp: written_def get_one_def hmap_simps)
qed

lemma set_one_other: "scope' \<noteq> scope \<Longrightarrow> get_one scope' q (fst (set_one N parse scope path v ss)) = get_one scope' q ss"
  by (simp add: get_one_def set_one_def hmap_simps split: prod.splits)

lemma remove_one_other: "scope' \<noteq> scope \<Longrightarrow> get_one scope' q (fst (remove_one scope path ss)) = get_one scope' q ss"
  by (auto simp: get_one_def remove_one_def hmap_simps split: prod.splits option.splits)

interpretation memory: context_store "MemoryContextStore N parse" parse scopes_ok
  by unfold_locales
    (simp_all add: MemoryContextStore_def set_one_ok remove_one_ok set_one_other remove_one_other set_one_get remove_one_gone)

section \<open>Properties of contexts\<close>

text \<open>
  C29. On the store in memory, a value that a node set in a context under a path of plain names
  and indices is what it reads back under the same key, unless the key names an octet of a byte
  buffer; contexts of other scopes read what they read before.
\<close>

theorem context_reads_back:
  assumes "mgr_ok scopes_ok mgr" and "variant_ok v"
    and "Context_set_one (MemoryContextStore N parse) N parse ctx storage key (Some v) env (Some mgr) = (mgr', Ok ())"
    and "parse key = Some path" and "expand_propex_segments N env path = Ok path'" and "plain_path parse path'"
  shows "(Context_get_one (MemoryContextStore N parse) N parse ctx storage key env mgr' = Some v
      \<or> (\<exists>m name s bs. mgr' = Some m \<and> map_of (cm_stores m) name = Some s
            \<and> get_one (ctx_scope ctx) (butlast path') s = Ok (Bytes bs)))
    \<and> (ctx_scope ctx' \<noteq> ctx_scope ctx \<longrightarrow>
        Context_get_one (MemoryContextStore N parse) N parse ctx' storage' key' env' mgr'
          = Context_get_one (MemoryContextStore N parse) N parse ctx' storage' key' env' (Some mgr))"
  using memory.context_set_get [OF assms] memory.context_other_scope [OF assms(3)]
  by (simp add: MemoryContextStore_def)

abbreviation demo_mgr :: "(int, nat, nat) scopes ContextManager" where
  "demo_mgr \<equiv> \<lparr>cm_default_store = ''memory'', cm_stores = [(''memory'', [])]\<rparr>"

theorem context_reads_back_witness:
  "Context_get_one (MemoryContextStore int_num name_parser) int_num name_parser (new_context ''flow1'') None ''foo'' []
     (fst (Context_set_one (MemoryContextStore int_num name_parser) int_num name_parser (new_context ''flow1'') None ''foo''
       (Some (Bool True)) [] (Some demo_mgr))) = Some (Bool True)"
proof -
  let ?set = "Context_set_one (MemoryContextStore int_num name_parser) int_num name_parser (new_context ''flow1'') None ''foo''
       (Some (Bool True)) [] (Some demo_mgr)"
  have r: "?set = (Some \<lparr>cm_default_store = ''memory'', cm_stores = [(''memory'', [(''flow1'', Object [(''foo'', Bool True)])])]\<rparr>, Ok ())"
    by code_simp
  have ok: "mgr_ok scopes_ok demo_mgr" "variant_ok (Bool True :: (int, nat, nat) Variant)" by code_simp+
  have path: "name_parser ''foo'' = Some [Property ''foo'']" "plain_path name_parser [Property ''foo'']"
    "expand_propex_segments int_num ([] :: (int, nat, nat) PropexEnv list) [Property ''foo''] = Ok [Property ''foo'']"
    by (simp_all add: plain_path_def expand_propex_segments_def)
  from context_reads_back [OF ok r path(1,3,2), THEN conjunct1]
  show ?thesis unfolding r by (auto simp: get_one_def new_context_def split: if_splits)
qed

end
