(* ===== verification/Split_Node.thy ===== *)
theory Split_Node
  imports Msg
begin

text \<open>
  The split node (\<^verbatim>\<open>runtime/nodes/sequence_nodes/split.rs\<close>): its configuration, the state it keeps
  between messages and the handler that turns one message into a sequence.

  Parameters: the numbers (\<open>num_ops\<close>), the parser of property expressions, the JSON reader of
  the binary delimiter, and the clock and random readings behind \<^verbatim>\<open>generate_id\<close>: \<open>gen k\<close> are those of
  the call with number \<open>k\<close> within one message. Log output is dropped.
\<close>

section \<open>Configuration and state\<close>

datatype SplitType = SplitString | SplitBinary | SplitLength

record SplitNodeConfig =
  sp_stream :: bool
  sp_split_type :: SplitType
  sp_split :: string
  sp_array_split :: nat
  sp_property :: string
  sp_add_name :: string

record SplitNodeState =
  ss_counter :: u64
  ss_buffer :: "u8 list"
  ss_remainder :: string
  ss_has_pending :: bool

definition SplitNodeState_default :: SplitNodeState where
  "SplitNodeState_default = \<lparr>ss_counter = 0, ss_buffer = [], ss_remainder = [], ss_has_pending = False\<rparr>"

datatype SplitDelimiter = DelimString string | DelimBinary "u8 list" | DelimLength nat

record SplitNode =
  sn_config :: SplitNodeConfig
  sn_split_delimiter :: SplitDelimiter
  sn_state :: SplitNodeState

text \<open>The escape sequences a text delimiter may be written with.\<close>

definition unescape :: "string \<Rightarrow> string" where
  "unescape s =
     replace_str [CHR 0x5C, CHR ''0''] [CHR 0x00]
       (replace_str [CHR 0x5C, CHR ''f''] [CHR 0x0C]
         (replace_str [CHR 0x5C, CHR ''e''] [CHR 0x1B]
           (replace_str [CHR 0x5C, CHR ''t''] [CHR 0x09]
             (replace_str [CHR 0x5C, CHR ''r''] [CHR 0x0D]
               (replace_str [CHR 0x5C, CHR ''n''] [CHR 0x0A] s)))))"

definition split_delimiter_of ::
    "(string \<Rightarrow> u8 list option) \<Rightarrow> SplitNodeConfig \<Rightarrow> (SplitDelimiter, RustRedError) outcome" where
  "split_delimiter_of from_json cfg =
     (case sp_split_type cfg of
        SplitString \<Rightarrow> Ok (DelimString (unescape (sp_split cfg)))
      | SplitBinary \<Rightarrow>
          (case from_json (sp_split cfg) of
             Some bs \<Rightarrow> Ok (DelimBinary bs)
           | None \<Rightarrow> Err (InvalidOperation ''Invalid binary array for split''))
      | SplitLength \<Rightarrow>
          (case parse_unsigned (2 ^ 64) (sp_split cfg) of
             None \<Rightarrow> Err (InvalidOperation ''Invalid length for split'')
           | Some len \<Rightarrow>
               if len < 1 then Err (InvalidOperation ''Split length must be >= 1'') else Ok (DelimLength len)))"

definition split_build ::
    "(string \<Rightarrow> u8 list option) \<Rightarrow> SplitNodeConfig \<Rightarrow> (SplitNode, RustRedError) outcome" where
  "split_build from_json cfg =
     obind (split_delimiter_of from_json cfg) (\<lambda>d.
       if sp_array_split cfg < 1 then Err (InvalidOperation ''Array split length must be >= 1'')
       else Ok \<lparr>sn_config = cfg, sn_split_delimiter = d, sn_state = SplitNodeState_default\<rparr>)"

section \<open>The parts of a sequence\<close>

text \<open>\<^verbatim>\<open>{:x}\<close>\<close>

fun show_hex :: "nat \<Rightarrow> string" where
  "show_hex n = (if n < 16 then [digit_char n] else show_hex (n div 16) @ [digit_char (n mod 16)])"

declare show_hex.simps [simp del]

type_synonym id_source = "nat \<Rightarrow> u64 \<times> u64"

definition generate_id :: "u64 \<times> u64 \<Rightarrow> string" where
  "generate_id r = (case r of (timestamp, random_part) \<Rightarrow> show_hex (unat timestamp) @ ''.'' @ show_hex (unat random_part))"

definition btree_of :: "('k :: linorder \<times> 'v) list \<Rightarrow> ('k, 'v) btree" where
  "btree_of kvs = foldl (\<lambda>m (k, v). btree_insert k v m) [] kvs"

definition usize_number :: "'n num_ops \<Rightarrow> nat \<Rightarrow> ('n, 't, 'r) Variant" where
  "usize_number N n = Number (num_from_u64 N (of_nat n))"

definition property_entry :: "SplitNodeConfig \<Rightarrow> (string \<times> ('n, 't, 'r) Variant) list" where
  "property_entry cfg =
     (if sp_property cfg \<noteq> ''payload'' then [(''property'', String (sp_property cfg))] else [])"

abbreviation some_err :: "('a, RustRedError) outcome \<Rightarrow> ('a, RustRedError option) outcome" where
  "some_err \<equiv> map_outcome (\<lambda>x. x) Some"

text \<open>A message of the sequence: a copy that carries one piece and its place.\<close>

definition seal_part ::
    "('n, 't, 'r) VariantObjectMap \<Rightarrow> ('n, 't, 'r) Msg \<Rightarrow> (('n, 't, 'r) Msg, RustRedError option) outcome" where
  "seal_part parts_map m =
     some_err (obind (Msg_set ''parts'' (Object parts_map) m) (\<lambda>m1.
       obind (Msg_remove ''_msgid'' m1) (\<lambda>r. Ok (fst r))))"

definition set_nav_copy ::
    "'n num_ops \<Rightarrow> propex_parser \<Rightarrow> string \<Rightarrow> ('n, 't, 'r) Variant \<Rightarrow> ('n, 't, 'r) Msg
      \<Rightarrow> (('n, 't, 'r) Msg, RustRedError option) outcome" where
  "set_nav_copy N parse expr val m =
     (case Msg_set_nav N parse expr val True m of (m', r) \<Rightarrow> obind r (\<lambda>_. Ok m'))"

definition make_part ::
    "'n num_ops \<Rightarrow> propex_parser \<Rightarrow> SplitNodeConfig \<Rightarrow> ('n, 't, 'r) Msg \<Rightarrow> ('n, 't, 'r) Variant
      \<Rightarrow> ('n, 't, 'r) VariantObjectMap \<Rightarrow> (('n, 't, 'r) Msg, RustRedError option) outcome" where
  "make_part N parse cfg m val parts_map =
     obind (set_nav_copy N parse (sp_property cfg) val m) (seal_part parts_map)"

text \<open>The loops that number their messages by the counter of the node.\<close>

fun emit_parts ::
    "(nat \<Rightarrow> u64 \<Rightarrow> 'p \<Rightarrow> ('m, 'e) outcome) \<Rightarrow> nat \<Rightarrow> 'p list \<Rightarrow> SplitNodeState
      \<Rightarrow> SplitNodeState \<times> ('m list, 'e) outcome" where
  "emit_parts mk k [] st = (st, Ok [])"
| "emit_parts mk k (p # ps) st =
     (case mk k (ss_counter st) p of
        Ok m \<Rightarrow>
          (case emit_parts mk (Suc k) ps (st\<lparr>ss_counter := ss_counter st + 1\<rparr>) of
             (st', r) \<Rightarrow> (st', map_outcome ((#) m) (\<lambda>e. e) r))
      | Err e \<Rightarrow> (st, Err e)
      | Panic \<Rightarrow> (st, Panic)
      | Diverge \<Rightarrow> (st, Diverge))"

text \<open>What is done with the state once every message of the loop has been made.\<close>

fun after_parts ::
    "(SplitNodeState \<Rightarrow> SplitNodeState) \<Rightarrow> SplitNodeState \<times> ('m list, 'e) outcome
      \<Rightarrow> SplitNodeState \<times> ('m list, 'e) outcome" where
  "after_parts f (st, Ok ms) = (f st, Ok ms)"
| "after_parts f (st, r) = (st, r)"

section \<open>Splitting texts\<close>

definition string_parts ::
    "'n num_ops \<Rightarrow> SplitNodeConfig \<Rightarrow> nat \<Rightarrow> string \<Rightarrow> string \<Rightarrow> u64 \<Rightarrow> ('n, 't, 'r) VariantObjectMap" where
  "string_parts N cfg n_parts d parts_id c =
     btree_of ([(''index'', Number (num_from_u64 N c))]
       @ (if sp_stream cfg then [] else [(''count'', usize_number N n_parts)])
       @ [(''type'', String ''string''), (''ch'', String d), (''id'', String parts_id)] @ property_entry cfg)"

definition string_len_parts ::
    "'n num_ops \<Rightarrow> SplitNodeConfig \<Rightarrow> nat \<Rightarrow> nat \<Rightarrow> string \<Rightarrow> u64 \<Rightarrow> ('n, 't, 'r) VariantObjectMap" where
  "string_len_parts N cfg n_parts len parts_id c =
     btree_of ([(''index'', Number (num_from_u64 N c))]
       @ (if sp_stream cfg then [] else [(''count'', usize_number N n_parts)])
       @ [(''type'', String ''string''), (''len'', usize_number N len), (''ch'', String ''''), (''id'', String parts_id)]
       @ property_entry cfg)"

definition split_string ::
    "'n num_ops \<Rightarrow> propex_parser \<Rightarrow> SplitNodeConfig \<Rightarrow> SplitDelimiter \<Rightarrow> id_source \<Rightarrow> ('n, 't, 'r) Msg \<Rightarrow> string
      \<Rightarrow> SplitNodeState \<Rightarrow> SplitNodeState \<times> (('n, 't, 'r) Msg list, RustRedError option) outcome" where
  "split_string N parse cfg delim gen m value st =
     (let full_value = (if sp_stream cfg then ss_remainder st @ value else value);
          parts_id = generate_id (gen 0) in
      case delim of
        DelimString d \<Rightarrow>
          let ps = split_str d full_value;
              mk = (\<lambda>_ c p. make_part N parse cfg m (String p) (string_parts N cfg (length ps) d parts_id c)) in
          if sp_stream cfg
          then after_parts (\<lambda>s. s\<lparr>ss_remainder := last ps\<rparr>) (emit_parts mk 0 (butlast ps) st)
          else after_parts (\<lambda>s. s\<lparr>ss_counter := 0, ss_remainder := []\<rparr>) (emit_parts mk 0 ps st)
      | DelimLength len \<Rightarrow>
          let ps = slices len (utf8_chars full_value);
              mk = (\<lambda>_ c p. make_part N parse cfg m (String (concat p)) (string_len_parts N cfg (length ps) len parts_id c));
              st0 = (if sp_stream cfg then st else st\<lparr>ss_counter := 0\<rparr>) in
          if sp_stream cfg
          then if ps \<noteq> [] \<and> length (last ps) < len
               then after_parts (\<lambda>s. s\<lparr>ss_remainder := concat (last ps)\<rparr>) (emit_parts mk 0 (butlast ps) st0)
               else emit_parts mk 0 ps st0
          else after_parts (\<lambda>s. s\<lparr>ss_remainder := []\<rparr>) (emit_parts mk 0 ps st0)
      | DelimBinary _ \<Rightarrow> (st, Err (Some (InvalidOperation ''Invalid delimiter type for string''))))"

section \<open>Splitting arrays and objects\<close>

definition array_parts ::
    "'n num_ops \<Rightarrow> SplitNodeConfig \<Rightarrow> nat \<Rightarrow> string \<Rightarrow> nat \<Rightarrow> ('n, 't, 'r) VariantObjectMap" where
  "array_parts N cfg n_parts parts_id i =
     btree_of ([(''index'', usize_number N i), (''count'', usize_number N n_parts), (''type'', String ''array''),
       (''len'', usize_number N (sp_array_split cfg)), (''id'', String parts_id)] @ property_entry cfg)"

definition chunk_value :: "nat \<Rightarrow> ('n, 't, 'r) Variant list \<Rightarrow> ('n, 't, 'r) Variant" where
  "chunk_value chunk_size chunk = (if chunk_size = 1 \<and> chunk \<noteq> [] then hd chunk else Array chunk)"

definition split_array ::
    "'n num_ops \<Rightarrow> propex_parser \<Rightarrow> SplitNodeConfig \<Rightarrow> id_source \<Rightarrow> ('n, 't, 'r) Msg \<Rightarrow> ('n, 't, 'r) Variant list
      \<Rightarrow> (('n, 't, 'r) Msg list, RustRedError option) outcome" where
  "split_array N parse cfg gen m value =
     (let chunks = slices (sp_array_split cfg) value; parts_id = generate_id (gen 0) in
      omap (\<lambda>(i, chunk). make_part N parse cfg m (chunk_value (sp_array_split cfg) chunk)
             (array_parts N cfg (length chunks) parts_id i)) (enumerate 0 chunks))"

definition object_parts ::
    "'n num_ops \<Rightarrow> SplitNodeConfig \<Rightarrow> nat \<Rightarrow> string \<Rightarrow> string \<Rightarrow> nat \<Rightarrow> ('n, 't, 'r) VariantObjectMap" where
  "object_parts N cfg n_parts key parts_id i =
     btree_of ([(''index'', usize_number N i), (''count'', usize_number N n_parts), (''type'', String ''object''),
       (''key'', String key), (''id'', String parts_id)] @ property_entry cfg)"

definition split_object ::
    "'n num_ops \<Rightarrow> propex_parser \<Rightarrow> SplitNodeConfig \<Rightarrow> id_source \<Rightarrow> ('n, 't, 'r) Msg \<Rightarrow> ('n, 't, 'r) VariantObjectMap
      \<Rightarrow> (('n, 't, 'r) Msg list, RustRedError option) outcome" where
  "split_object N parse cfg gen m value =
     omap (\<lambda>(index, key, val).
       obind (set_nav_copy N parse (sp_property cfg) val m) (\<lambda>m1.
         obind (if sp_add_name cfg \<noteq> [] then set_nav_copy N parse (sp_add_name cfg) (String key) m1 else Ok m1)
           (seal_part (object_parts N cfg (length value) key (generate_id (gen index)) index))))
       (enumerate 0 value)"

section \<open>Splitting buffers\<close>

definition buffer_parts ::
    "'n num_ops \<Rightarrow> SplitNodeConfig \<Rightarrow> u8 list \<Rightarrow> string \<Rightarrow> u64 \<Rightarrow> ('n, 't, 'r) VariantObjectMap" where
  "buffer_parts N cfg d parts_id c =
     btree_of ([(''index'', Number (num_from_u64 N c)), (''type'', String ''buffer''),
       (''ch'', Array (map (\<lambda>b. Number (num_from_u64 N (ucast b))) d)), (''id'', String parts_id)] @ property_entry cfg)"

definition buffer_len_parts ::
    "'n num_ops \<Rightarrow> SplitNodeConfig \<Rightarrow> nat \<Rightarrow> nat \<Rightarrow> string \<Rightarrow> u64 \<Rightarrow> ('n, 't, 'r) VariantObjectMap" where
  "buffer_len_parts N cfg n_parts len parts_id c =
     btree_of ([(''index'', Number (num_from_u64 N c))]
       @ (if sp_stream cfg then [] else [(''count'', usize_number N n_parts)])
       @ [(''type'', String ''buffer''), (''len'', usize_number N len), (''id'', String parts_id)] @ property_entry cfg)"

text \<open>
  \<^verbatim>\<open>windows(0)\<close> panics. Outside streaming, what follows the last delimiter is sent as well
  when there is any.
\<close>

fun send_rest ::
    "(u64 \<Rightarrow> u8 list \<Rightarrow> ('m, 'e) outcome) \<Rightarrow> SplitNodeState \<times> ('m list, 'e) outcome
      \<Rightarrow> SplitNodeState \<times> ('m list, 'e) outcome" where
  "send_rest mk (st, Ok ms) =
     (if ss_buffer st = [] then (st, Ok ms)
      else case mk (ss_counter st) (ss_buffer st) of
             Ok m \<Rightarrow> (st\<lparr>ss_buffer := [], ss_counter := 0\<rparr>, Ok (ms @ [m]))
           | Err e \<Rightarrow> (st, Err e)
           | Panic \<Rightarrow> (st, Panic)
           | Diverge \<Rightarrow> (st, Diverge))"
| "send_rest mk (st, r) = (st, r)"

definition split_buffer ::
    "'n num_ops \<Rightarrow> propex_parser \<Rightarrow> SplitNodeConfig \<Rightarrow> SplitDelimiter \<Rightarrow> id_source \<Rightarrow> ('n, 't, 'r) Msg \<Rightarrow> u8 list
      \<Rightarrow> SplitNodeState \<Rightarrow> SplitNodeState \<times> (('n, 't, 'r) Msg list, RustRedError option) outcome" where
  "split_buffer N parse cfg delim gen m value st =
     (let full_buffer = ss_buffer st @ value in
      case delim of
        DelimBinary d \<Rightarrow>
          if d = [] then (st, Panic)
          else
            let (ps, rest) = cut_parts d full_buffer;
                mk = (\<lambda>k c p. make_part N parse cfg m (Bytes p) (buffer_parts N cfg d (generate_id (gen k)) c));
                r = after_parts (\<lambda>s. s\<lparr>ss_buffer := rest\<rparr>) (emit_parts mk 0 ps st) in
            if sp_stream cfg then r else send_rest (mk (length ps)) r
      | DelimLength len \<Rightarrow>
          let ps = slices len full_buffer;
              mk = (\<lambda>k c p. make_part N parse cfg m (Bytes p) (buffer_len_parts N cfg (length ps) len (generate_id (gen k)) c));
              st0 = (if sp_stream cfg then st else st\<lparr>ss_counter := 0\<rparr>) in
          if sp_stream cfg
          then if ps \<noteq> [] \<and> length (last ps) < len
               then after_parts (\<lambda>s. s\<lparr>ss_buffer := last ps\<rparr>) (emit_parts mk 0 (butlast ps) st0)
               else emit_parts mk 0 ps st0
          else after_parts (\<lambda>s. s\<lparr>ss_buffer := []\<rparr>) (emit_parts mk 0 ps st0)
      | DelimString _ \<Rightarrow> (st, Err (Some (InvalidOperation ''Invalid delimiter type for buffer''))))"

section \<open>The handler\<close>

definition nested_parts :: "('n, 't, 'r) Msg \<Rightarrow> ('n, 't, 'r) Variant" where
  "nested_parts m =
     (case Msg_get ''parts'' m of
        Some existing_parts \<Rightarrow> Object (btree_insert ''parts'' existing_parts [])
      | None \<Rightarrow> Object [])"

fun split_value ::
    "'n num_ops \<Rightarrow> propex_parser \<Rightarrow> SplitNodeConfig \<Rightarrow> SplitDelimiter \<Rightarrow> id_source \<Rightarrow> ('n, 't, 'r) Variant
      \<Rightarrow> ('n, 't, 'r) Msg \<Rightarrow> SplitNodeState \<Rightarrow> SplitNodeState \<times> (('n, 't, 'r) Msg list, RustRedError option) outcome" where
  "split_value N parse cfg delim gen (String s) m st = split_string N parse cfg delim gen m s st"
| "split_value N parse cfg delim gen (Array xs) m st = (st, split_array N parse cfg gen m xs)"
| "split_value N parse cfg delim gen (Object kvs) m st = (st, split_object N parse cfg gen m kvs)"
| "split_value N parse cfg delim gen (Bytes bs) m st =
     (case delim of
        DelimString _ \<Rightarrow> split_string N parse cfg delim gen m (from_utf8_lossy bs) st
      | _ \<Rightarrow> split_buffer N parse cfg delim gen m bs st)"
| "split_value N parse cfg delim gen _ m st = (st, Ok [])"

definition split_process_message ::
    "'n num_ops \<Rightarrow> propex_parser \<Rightarrow> SplitNodeConfig \<Rightarrow> SplitDelimiter \<Rightarrow> id_source \<Rightarrow> ('n, 't, 'r) Msg \<Rightarrow> SplitNodeState
      \<Rightarrow> ('n, 't, 'r) Msg \<times> SplitNodeState \<times> (('n, 't, 'r) Msg list, RustRedError option) outcome" where
  "split_process_message N parse cfg delim gen m st =
     (case Msg_get_nav N parse (sp_property cfg) m of
        Ok None \<Rightarrow> (m, st, Ok [])
      | Ok (Some value) \<Rightarrow>
          (case Msg_set ''parts'' (nested_parts m) m of
             Ok m1 \<Rightarrow> (m1, split_value N parse cfg delim gen value m1 st)
           | Err e \<Rightarrow> (m, st, Err (Some e))
           | Panic \<Rightarrow> (m, st, Panic)
           | Diverge \<Rightarrow> (m, st, Diverge))
      | Err e \<Rightarrow> (m, st, Err (Some e))
      | Panic \<Rightarrow> (m, st, Panic)
      | Diverge \<Rightarrow> (m, st, Diverge))"

text \<open>
  One round of the node's loop: the message as it leaves the handler, the new state and the
  messages handed to the output. An error is logged.
\<close>

definition split_round ::
    "'n num_ops \<Rightarrow> propex_parser \<Rightarrow> SplitNodeConfig \<Rightarrow> SplitDelimiter \<Rightarrow> id_source \<Rightarrow> ('n, 't, 'r) Msg \<Rightarrow> SplitNodeState
      \<Rightarrow> ('n, 't, 'r) Msg \<times> SplitNodeState \<times> (('n, 't, 'r) Msg list, RustRedError option) outcome" where
  "split_round N parse cfg delim gen m st =
     (if Msg_get ''reset'' m \<noteq> None
      then (m, st\<lparr>ss_buffer := [], ss_remainder := [], ss_counter := 0, ss_has_pending := False\<rparr>, Ok [])
      else case split_process_message N parse cfg delim gen m st of
             (m', st', Err _) \<Rightarrow> (m', st', Ok [])
           | r \<Rightarrow> r)"

end
