(* ===== verification/Join_Node.thy ===== *)
theory Join_Node
  imports Msg
begin

text \<open>
  The join node (\<^verbatim>\<open>runtime/nodes/sequence_nodes/join.rs\<close>): groups of messages keyed by the
  identifier in \<^verbatim>\<open>msg.parts\<close>, filled in order of arrival or of index, and joined when they are
  complete.

  Parameters: the numbers and the parser of property expressions. The field
  \<^verbatim>\<open>timeout_deadline\<close>, which is always \<^verbatim>\<open>None\<close>, and the settings \<^verbatim>\<open>timeout\<close> and \<^verbatim>\<open>accumulate\<close>, which no
  code reads, are dropped.
\<close>

section \<open>Configuration and state\<close>

datatype JoinMode = JoinAuto | JoinCustom | JoinModeArray | JoinModeObject | JoinModeString | JoinModeBuffer

datatype JoinBuild = BuildArray | BuildObject | BuildString | BuildBuffer | BuildMerged

record JoinNodeConfig =
  jc_mode :: JoinMode
  jc_property :: string
  jc_count :: "nat option"
  jc_join_char :: "string option"
  jc_key_property :: "string option"
  jc_build :: JoinBuild

datatype ('n, 't, 'r) GroupPayload =
  GroupArray "('n, 't, 'r) Variant option list"
| GroupObject "('n, 't, 'r) VariantObjectMap"
| GroupString "string list"
| GroupBuffer "u8 list list"

record ('n, 't, 'r) JoinGroup =
  jg_msgs :: "('n, 't, 'r) Msg list"
  jg_count :: "nat option"
  jg_current_count :: nat
  jg_payload :: "('n, 't, 'r) GroupPayload"
  jg_group_type :: string
  jg_join_char :: "string option"
  jg_property :: "string option"

type_synonym ('n, 't, 'r) JoinNodeState = "(string, ('n, 't, 'r) JoinGroup) hmap"

section \<open>Joining a group\<close>

definition group_property :: "JoinNodeConfig \<Rightarrow> ('n, 't, 'r) JoinGroup \<Rightarrow> string" where
  "group_property cfg g = (case jg_property g of Some p \<Rightarrow> p | None \<Rightarrow> jc_property cfg)"

fun join_buffers :: "u8 list \<Rightarrow> u8 list list \<Rightarrow> u8 list" where
  "join_buffers sep [] = []"
| "join_buffers sep [b] = b"
| "join_buffers sep (b # c # bs) = b @ sep @ join_buffers sep (c # bs)"

fun joined_value :: "string option \<Rightarrow> ('n, 't, 'r) GroupPayload \<Rightarrow> ('n, 't, 'r) Variant" where
  "joined_value jc (GroupArray arr) = Array (map (\<lambda>slot. case slot of Some v \<Rightarrow> v | None \<Rightarrow> Null) arr)"
| "joined_value jc (GroupObject obj) = Object obj"
| "joined_value jc (GroupString ps) = String (join_with (case jc of Some c \<Rightarrow> c | None \<Rightarrow> []) ps)"
| "joined_value jc (GroupBuffer bs) = Bytes (case jc of Some c \<Rightarrow> join_buffers (as_bytes c) bs | None \<Rightarrow> concat bs)"

definition restore_parts :: "('n, 't, 'r) Msg \<Rightarrow> (('n, 't, 'r) Msg, RustRedError) outcome" where
  "restore_parts out =
     (case Msg_get ''parts'' out of
        Some (Object ps) \<Rightarrow>
          (case map_of ps ''parts'' of
             Some nested \<Rightarrow> Msg_set ''parts'' nested out
           | None \<Rightarrow> obind (Msg_remove ''parts'' out) (\<lambda>r. Ok (fst r)))
      | _ \<Rightarrow> obind (Msg_remove ''parts'' out) (\<lambda>r. Ok (fst r)))"

definition join_msgs ::
    "'n num_ops \<Rightarrow> propex_parser \<Rightarrow> JoinNodeConfig \<Rightarrow> ('n, 't, 'r) JoinGroup
      \<Rightarrow> (('n, 't, 'r) Msg option, RustRedError) outcome" where
  "join_msgs N parse cfg g =
     (case jg_msgs g of
        [] \<Rightarrow> Ok None
      | first # _ \<Rightarrow>
          (case Msg_set_nav N parse (group_property cfg g) (joined_value (jg_join_char g) (jg_payload g)) True first of
             (out, Ok _) \<Rightarrow>
               obind (restore_parts out) (\<lambda>out1. obind (Msg_remove ''complete'' out1) (\<lambda>r. Ok (Some (fst r))))
           | (_, Err _) \<Rightarrow> Ok None
           | (_, Panic) \<Rightarrow> Panic
           | (_, Diverge) \<Rightarrow> Diverge))"

section \<open>Adding a message to its group\<close>

fun build_name :: "JoinBuild \<Rightarrow> string" where
  "build_name BuildArray = ''array''"
| "build_name BuildObject = ''object''"
| "build_name BuildString = ''string''"
| "build_name BuildBuffer = ''buffer''"
| "build_name BuildMerged = ''merged''"

fun build_payload :: "JoinBuild \<Rightarrow> ('n, 't, 'r) GroupPayload" where
  "build_payload BuildObject = GroupObject []"
| "build_payload BuildMerged = GroupObject []"
| "build_payload BuildString = GroupString []"
| "build_payload BuildBuffer = GroupBuffer []"
| "build_payload BuildArray = GroupArray []"

definition auto_payload :: "string \<Rightarrow> ('n, 't, 'r) GroupPayload" where
  "auto_payload t =
     (if t = ''object'' \<or> t = ''merged'' then GroupObject []
      else if t = ''string'' then GroupString []
      else if t = ''buffer'' then GroupBuffer []
      else GroupArray [])"

fun joiner_text :: "'n num_ops \<Rightarrow> ('n, 't, 'r) Variant \<Rightarrow> string" where
  "joiner_text N (String s) = s"
| "joiner_text N (Number n) = num_to_string N n"
| "joiner_text N (Bool b) = show_bool b"
| "joiner_text N _ = []"

definition new_group ::
    "'n num_ops \<Rightarrow> JoinNodeConfig \<Rightarrow> ('n, 't, 'r) VariantObjectMap option \<Rightarrow> ('n, 't, 'r) JoinGroup" where
  "new_group N cfg ps =
     (let part = (\<lambda>k. Option.bind ps (\<lambda>p. map_of p k));
          part_str = (\<lambda>k. Option.bind (part k) as_str);
          auto = (jc_mode cfg = JoinAuto);
          t = (case part_str ''type'' of Some t \<Rightarrow> t | None \<Rightarrow> ''array'') in
      \<lparr>jg_msgs = [], jg_count = None, jg_current_count = 0,
       jg_payload = (if auto then auto_payload t else build_payload (jc_build cfg)),
       jg_group_type = (if auto then t else build_name (jc_build cfg)),
       jg_join_char = (if auto then map_option (joiner_text N) (part ''ch'') else jc_join_char cfg),
       jg_property = (if auto then part_str ''property'' else Some (jc_property cfg))\<rparr>)"

definition positive :: "nat \<Rightarrow> nat option" where
  "positive n = (if n > 0 then Some n else None)"

definition number_usize :: "'n num_ops \<Rightarrow> 'n \<Rightarrow> nat" where
  "number_usize N n = (case num_as_u64 N n of Some w \<Rightarrow> unat w | None \<Rightarrow> 0)"

definition update_count ::
    "'n num_ops \<Rightarrow> JoinNodeConfig \<Rightarrow> ('n, 't, 'r) VariantObjectMap option \<Rightarrow> ('n, 't, 'r) JoinGroup
      \<Rightarrow> ('n, 't, 'r) JoinGroup" where
  "update_count N cfg ps g =
     (if jc_mode cfg = JoinAuto then
        (case Option.bind ps (\<lambda>p. map_of p ''count'') of
           Some (Number n) \<Rightarrow> g\<lparr>jg_count := positive (number_usize N n)\<rparr>
         | _ \<Rightarrow> g)
      else case jc_count cfg of Some n \<Rightarrow> g\<lparr>jg_count := positive n\<rparr> | None \<Rightarrow> g)"

definition part_index ::
    "'n num_ops \<Rightarrow> JoinNodeConfig \<Rightarrow> ('n, 't, 'r) VariantObjectMap option \<Rightarrow> nat option" where
  "part_index N cfg ps =
     (if jc_mode cfg = JoinAuto then
        (case Option.bind ps (\<lambda>p. map_of p ''index'') of Some (Number n) \<Rightarrow> Some (number_usize N n) | _ \<Rightarrow> None)
      else None)"

text \<open>The slots are extended up to the index; without one the value goes to the end.\<close>

definition put_slot :: "'a \<Rightarrow> nat option \<Rightarrow> 'a \<Rightarrow> 'a list \<Rightarrow> 'a list" where
  "put_slot blank index v xs =
     (case index of
        Some idx \<Rightarrow> (xs @ replicate (Suc idx - length xs) blank)[idx := v]
      | None \<Rightarrow> xs @ [v])"

definition slot_free :: "nat option \<Rightarrow> 'a option list \<Rightarrow> bool" where
  "slot_free index xs = (case index of Some idx \<Rightarrow> length xs \<le> idx \<or> xs ! idx = None | None \<Rightarrow> True)"

definition filled :: "'a list list \<Rightarrow> nat" where
  "filled xs = length (filter (\<lambda>s. s \<noteq> []) xs)"

fun buffer_data :: "('n, 't, 'r) Variant \<Rightarrow> u8 list" where
  "buffer_data (Bytes bs) = bs"
| "buffer_data (String s) = as_bytes s"
| "buffer_data _ = []"

definition object_key ::
    "'n num_ops \<Rightarrow> propex_parser \<Rightarrow> JoinNodeConfig \<Rightarrow> ('n, 't, 'r) VariantObjectMap option \<Rightarrow> ('n, 't, 'r) Msg
      \<Rightarrow> (string, RustRedError) outcome" where
  "object_key N parse cfg ps m =
     (let text = (\<lambda>v. case Option.bind v as_str of Some s \<Rightarrow> s | None \<Rightarrow> []) in
      case ps of
        Some p \<Rightarrow> Ok (text (map_of p ''key''))
      | None \<Rightarrow>
          obind (Msg_get_nav N parse (case jc_key_property cfg of Some k \<Rightarrow> k | None \<Rightarrow> ''topic'') m) (\<lambda>v. Ok (text v)))"

definition add_payload ::
    "'n num_ops \<Rightarrow> propex_parser \<Rightarrow> JoinNodeConfig \<Rightarrow> ('n, 't, 'r) VariantObjectMap option \<Rightarrow> ('n, 't, 'r) Msg
      \<Rightarrow> ('n, 't, 'r) Variant \<Rightarrow> ('n, 't, 'r) JoinGroup \<Rightarrow> (('n, 't, 'r) JoinGroup, RustRedError) outcome" where
  "add_payload N parse cfg ps m value g =
     (let index = part_index N cfg ps in
      case jg_payload g of
        GroupArray arr \<Rightarrow>
          Ok (g\<lparr>jg_payload := GroupArray (put_slot None index (Some value) arr),
                jg_current_count := (if slot_free index arr then Suc (jg_current_count g) else jg_current_count g)\<rparr>)
      | GroupObject obj \<Rightarrow>
          obind (object_key N parse cfg ps m) (\<lambda>key.
            if key = [] then Ok g
            else Ok (g\<lparr>jg_payload := GroupObject (btree_insert key value obj),
                       jg_current_count := (if map_of obj key = None then Suc (jg_current_count g) else jg_current_count g)\<rparr>))
      | GroupString xs \<Rightarrow>
          let xs' = put_slot [] index (case as_str value of Some s \<Rightarrow> s | None \<Rightarrow> []) xs in
          Ok (g\<lparr>jg_payload := GroupString xs', jg_current_count := filled xs'\<rparr>)
      | GroupBuffer xs \<Rightarrow>
          let xs' = put_slot [] index (buffer_data value) xs in
          Ok (g\<lparr>jg_payload := GroupBuffer xs', jg_current_count := filled xs'\<rparr>))"

section \<open>The handler\<close>

definition group_id_of :: "JoinNodeConfig \<Rightarrow> ('n, 't, 'r) VariantObjectMap option \<Rightarrow> string option" where
  "group_id_of cfg ps =
     (case ps of
        Some p \<Rightarrow> Some (case Option.bind (map_of p ''id'') as_str of Some i \<Rightarrow> i | None \<Rightarrow> ''_'')
      | None \<Rightarrow> if jc_mode cfg = JoinAuto then None else Some ''_'')"

definition enter_group ::
    "'n num_ops \<Rightarrow> JoinNodeConfig \<Rightarrow> ('n, 't, 'r) Msg \<Rightarrow> ('n, 't, 'r) VariantObjectMap option
      \<Rightarrow> ('n, 't, 'r) JoinGroup \<Rightarrow> ('n, 't, 'r) JoinGroup" where
  "enter_group N cfg m ps g0 = (let g = update_count N cfg ps g0 in g\<lparr>jg_msgs := jg_msgs g @ [m]\<rparr>)"

text \<open>The group after the payload has been added, and whether it is complete.\<close>

definition join_add ::
    "'n num_ops \<Rightarrow> propex_parser \<Rightarrow> JoinNodeConfig \<Rightarrow> ('n, 't, 'r) Msg \<Rightarrow> ('n, 't, 'r) VariantObjectMap option
      \<Rightarrow> ('n, 't, 'r) JoinGroup \<Rightarrow> (('n, 't, 'r) JoinGroup \<times> bool, RustRedError) outcome" where
  "join_add N parse cfg m ps g1 =
     (obind (Msg_get_nav N parse (group_property cfg g1) m) (\<lambda>msg_value.
        let value = (case msg_value of Some v \<Rightarrow> v | None \<Rightarrow> Null);
            explicit_complete = (Msg_get ''complete'' m \<noteq> None) in
        obind (if explicit_complete \<and> msg_value = None then Ok g1 else add_payload N parse cfg ps m value g1) (\<lambda>g2.
          Ok (g2, explicit_complete \<or>
            (case jg_count g2 of Some n \<Rightarrow> jg_current_count g2 \<ge> n | None \<Rightarrow> False)))))"

definition join_process_message ::
    "'n num_ops \<Rightarrow> propex_parser \<Rightarrow> JoinNodeConfig \<Rightarrow> ('n, 't, 'r) Msg \<Rightarrow> ('n, 't, 'r) JoinNodeState
      \<Rightarrow> ('n, 't, 'r) JoinNodeState \<times> (('n, 't, 'r) Msg option, RustRedError) outcome" where
  "join_process_message N parse cfg m groups =
     (if Msg_get ''reset'' m \<noteq> None then ([], Ok None)
      else
        let ps = (case Msg_get ''parts'' m of Some (Object p) \<Rightarrow> Some p | _ \<Rightarrow> None) in
        case group_id_of cfg ps of
          None \<Rightarrow> (groups, Ok None)
        | Some gid \<Rightarrow>
            (let g0 = (case map_of groups gid of Some g \<Rightarrow> g | None \<Rightarrow> new_group N cfg ps);
                 g1 = enter_group N cfg m ps g0 in
             case join_add N parse cfg m ps g1 of
               Ok (g, complete) \<Rightarrow>
                 if complete then (AList.delete gid groups, join_msgs N parse cfg g)
                 else (AList.update gid g groups, Ok None)
             | Err e \<Rightarrow> (AList.update gid g1 groups, Err e)
             | Panic \<Rightarrow> (AList.update gid g1 groups, Panic)
             | Diverge \<Rightarrow> (AList.update gid g1 groups, Diverge)))"

text \<open>
  The node fed with a sequence of messages: the groups it is left with and the messages it
  sent, as long as none makes it panic. An error is logged and its message dropped.
\<close>

fun join_rounds ::
    "'n num_ops \<Rightarrow> propex_parser \<Rightarrow> JoinNodeConfig \<Rightarrow> ('n, 't, 'r) Msg list \<Rightarrow> ('n, 't, 'r) JoinNodeState
      \<Rightarrow> ('n, 't, 'r) JoinNodeState \<times> ('n, 't, 'r) Msg list option" where
  "join_rounds N parse cfg [] groups = (groups, Some [])"
| "join_rounds N parse cfg (m # ms) groups =
     (case join_process_message N parse cfg m groups of
        (groups', Ok out) \<Rightarrow>
          (case join_rounds N parse cfg ms groups' of
             (groups'', outs) \<Rightarrow> (groups'', map_option (\<lambda>os. (case out of Some m' \<Rightarrow> m' # os | None \<Rightarrow> os)) outs))
      | (groups', Err _) \<Rightarrow> join_rounds N parse cfg ms groups'
      | (groups', _) \<Rightarrow> (groups', None))"

end
