(* ===== verification/Split_Join.thy ===== *)
theory Split_Join
  imports Split_Node Join_Node Variant_Correct
begin

text \<open>
  What the split and join nodes do together: the messages a split produces, however they are
  reordered on their way, are joined to the value that was split; the sequences for which this
  fails; and the state the split node keeps between messages.

  The locale \<open>indexed_group\<close> is the contract of a payload that is filled by index; it is
  interpreted for the array and the text payloads of the join node.
\<close>

section \<open>Messages of a sequence\<close>

lemma btree_of_snoc: "btree_of (kvs @ [(k, v)]) = btree_insert k v (btree_of kvs)"
  by (simp add: btree_of_def)

lemma btree_of_ok [simp]: "btree_ok (btree_of kvs)"
proof (induction kvs rule: rev_induct)
  case (snoc kv kvs)
  then show ?case by (cases kv) (simp add: btree_of_snoc)
qed (simp add: btree_of_def)

lemma map_of_btree_of [simp]: "map_of (btree_of kvs) = map_of (rev kvs)"
proof (induction kvs rule: rev_induct)
  case (snoc kv kvs)
  then show ?case by (cases kv) (simp add: btree_of_snoc)
qed (simp add: btree_of_def)

lemma get_nav_name:
  "parse p = Some [Property p] \<Longrightarrow> msg_body m = Object o1 \<Longrightarrow> Msg_get_nav N parse p m = Ok (map_of o1 p)"
  by (simp add: Msg_get_nav_def Msg_object_def get_nav_property_def expand_segs_property_def)

lemma set_nav_name:
  "parse p = Some [Property p] \<Longrightarrow> msg_body m = Object o1
    \<Longrightarrow> Msg_set_nav N parse p v c m = (m\<lparr>msg_body := Object (btree_insert p v o1)\<rparr>, Ok ())"
  by (simp add: Msg_set_nav_def set_nav_def expand_sesg_property_def)

definition part_msg ::
    "string \<Rightarrow> ('n, 't, 'r) Variant \<Rightarrow> ('n, 't, 'r) VariantObjectMap \<Rightarrow> ('n, 't, 'r) VariantObjectMap
      \<Rightarrow> ('n, 't, 'r) Msg \<Rightarrow> ('n, 't, 'r) Msg" where
  "part_msg p v pm o1 m =
     m\<lparr>msg_body := Object (AList.delete ''_msgid'' (btree_insert ''parts'' (Object pm) (btree_insert p v o1)))\<rparr>"

lemma make_part_name:
  "parse (sp_property cfg) = Some [Property (sp_property cfg)] \<Longrightarrow> msg_body m = Object o1
    \<Longrightarrow> make_part N parse cfg m v pm = Ok (part_msg (sp_property cfg) v pm o1 m)"
  by (simp add: make_part_def set_nav_copy_def set_nav_name seal_part_def Msg_set_def Msg_remove_def Msg_object_def part_msg_def)

lemma emit_parts_Ok:
  assumes "\<And>k c p. p \<in> set ps \<Longrightarrow> mk k c p = Ok (f k c p)"
  shows "emit_parts mk k ps st =
    (st\<lparr>ss_counter := ss_counter st + of_nat (length ps)\<rparr>,
     Ok (map (\<lambda>j. f (k + j) (ss_counter st + of_nat j) (ps ! j)) [0..<length ps]))"
  using assms
proof (induction ps arbitrary: k st)
  case (Cons p ps)
  show ?case
    by (simp add: Cons.IH Cons.prems upt_conv_Cons map_Suc_upt [symmetric] add.assoc del: upt_Suc)
qed simp

section \<open>Filling slots by index\<close>

definition slots :: "'a \<Rightarrow> (nat \<times> 'a) list \<Rightarrow> 'a list" where
  "slots blank ivs = foldl (\<lambda>xs (i, v). put_slot blank (Some i) v xs) [] ivs"

definition nonblank :: "'a \<Rightarrow> 'a list \<Rightarrow> nat" where
  "nonblank blank xs = length (filter (\<lambda>x. x \<noteq> blank) xs)"

lemma slots_snoc: "slots blank (ivs @ [(i, v)]) = put_slot blank (Some i) v (slots blank ivs)"
  by (simp add: slots_def)

lemma put_slot_nth:
  "j < length (put_slot blank (Some i) v xs) \<Longrightarrow>
    put_slot blank (Some i) v xs ! j = (if j = i then v else if j < length xs then xs ! j else blank)"
  by (auto simp: put_slot_def nth_append nth_list_update)

lemma length_put_slot [simp]: "length (put_slot blank (Some i) v xs) = max (Suc i) (length xs)"
  by (auto simp: put_slot_def)

lemma nonblank_put:
  assumes "v \<noteq> blank" and "length xs \<le> i \<or> xs ! i = blank"
  shows "nonblank blank (put_slot blank (Some i) v xs) = Suc (nonblank blank xs)"
proof -
  let ?ys = "xs @ replicate (Suc i - length xs) blank"
  have i: "i < length ?ys" "?ys ! i = blank" using assms(2) by (auto simp: nth_append)
  have "length (filter P xs) = size (filter_mset P (mset xs))" for P and xs :: "'a list"
    by (metis mset_filter size_mset)
  then have *: "nonblank blank zs = size (filter_mset (\<lambda>x. x \<noteq> blank) (mset zs))" for zs
    by (simp add: nonblank_def)
  have "mset (?ys[i := v]) = add_mset v (mset ?ys - {#blank#})" using mset_update [OF i(1)] i(2) by simp
  then have "nonblank blank (?ys[i := v]) = Suc (nonblank blank ?ys)"
    using assms(1) by (simp add: * filter_diff_mset)
  then show ?thesis by (simp add: put_slot_def nonblank_def)
qed

lemma nonblank_refill:
  assumes "i < length xs" "xs ! i \<noteq> blank" "v \<noteq> blank"
  shows "nonblank blank (put_slot blank (Some i) v xs) = nonblank blank xs"
proof -
  have "nonblank blank (xs[i := v]) = nonblank blank (take i xs @ xs ! i # drop (Suc i) xs)"
    using assms by (simp add: upd_conv_take_nth_drop nonblank_def)
  then show ?thesis using assms(1) by (simp add: put_slot_def id_take_nth_drop [symmetric])
qed

lemma slots_bound: "(j, x) \<in> set ivs \<Longrightarrow> j < length (slots blank ivs)"
proof (induction ivs rule: rev_induct)
  case (snoc iv ivs)
  then show ?case by (cases iv) (auto simp: slots_snoc)
qed simp

lemma slots_nth:
  "distinct (map fst ivs) \<Longrightarrow> j < length (slots blank ivs) \<Longrightarrow>
    slots blank ivs ! j = (case map_of ivs j of Some v \<Rightarrow> v | None \<Rightarrow> blank)"
proof (induction ivs arbitrary: j rule: rev_induct)
  case (snoc iv ivs)
  obtain i v where "iv = (i, v)" by fastforce
  with snoc show ?case
    by (auto simp: slots_snoc put_slot_nth map_add_def map_of_eq_None_iff image_iff split: option.splits
        dest: map_of_SomeD slots_bound [where blank = blank])
qed (simp add: slots_def)

lemma nonblank_slots:
  "distinct (map fst ivs) \<Longrightarrow> \<forall>(i, v) \<in> set ivs. v \<noteq> blank \<Longrightarrow> nonblank blank (slots blank ivs) = length ivs"
proof (induction ivs rule: rev_induct)
  case (snoc iv ivs)
  obtain i v where iv: "iv = (i, v)" by fastforce
  have "length (slots blank ivs) \<le> i \<or> slots blank ivs ! i = blank"
  proof (cases "i < length (slots blank ivs)")
    case True
    have "map_of ivs i = None" using snoc.prems(1) iv by (simp add: map_of_eq_None_iff)
    then show ?thesis using slots_nth [OF _ True] snoc.prems(1) by simp
  qed simp
  then show ?case using snoc iv by (simp add: slots_snoc nonblank_put)
qed (simp add: slots_def nonblank_def)

lemma length_slots_full: "set (map fst ivs) = {..<n} \<Longrightarrow> length (slots blank ivs) = n"
proof -
  have "length (slots blank ivs) = (if ivs = [] then 0 else Suc (Max (set (map fst ivs))))"
  proof (induction ivs rule: rev_induct)
    case (snoc iv ivs)
    then show ?case by (cases iv) (auto simp: slots_snoc max_def)
  qed (simp add: slots_def)
  moreover assume "set (map fst ivs) = {..<n}"
  moreover have "Max {..<n} = n - 1" if "n \<noteq> 0"
    by (rule Max_eqI) (use that in auto)
  ultimately show ?thesis by (cases n) auto
qed

lemma slots_full:
  assumes "distinct is" "set is = {..<n}"
  shows "slots blank (map (\<lambda>i. (i, v i)) is) = map v [0..<n]"
proof (rule nth_equalityI)
  show len: "length (slots blank (map (\<lambda>i. (i, v i)) is)) = length (map v [0..<n])"
    using assms(2) by (simp add: length_slots_full comp_def)
  fix j assume "j < length (slots blank (map (\<lambda>i. (i, v i)) is))"
  then show "slots blank (map (\<lambda>i. (i, v i)) is) ! j = map v [0..<n] ! j"
    using assms len by (subst slots_nth) (auto simp: comp_def map_of_map_restrict)
qed

section \<open>Groups that are filled by index\<close>

lemma join_rounds_append:
  "join_rounds N parse cfg ms groups = (groups', Some os) \<Longrightarrow>
    join_rounds N parse cfg (ms @ ms') groups =
      (case join_rounds N parse cfg ms' groups' of (groups'', r) \<Rightarrow> (groups'', map_option ((@) os) r))"
proof (induction N parse cfg ms groups arbitrary: os rule: join_rounds.induct)
  case (1 N parse cfg groups)
  then show ?case by (simp add: option.map_ident split: prod.splits)
next
  case (2 N parse cfg m ms groups)
  obtain g1 r where p: "join_process_message N parse cfg m groups = (g1, r)" by fastforce
  show ?case
  proof (cases r)
    case (Ok out)
    obtain g2 r2 where j: "join_rounds N parse cfg ms g1 = (g2, r2)" by fastforce
    with "2.prems" p Ok obtain os' where "r2 = Some os'" "g2 = groups'"
      and os: "os = (case out of Some m' \<Rightarrow> m' # os' | None \<Rightarrow> os')" by auto
    with "2.IH"(1) [OF p [symmetric] Ok] j
    have "join_rounds N parse cfg (ms @ ms') g1 =
      (case join_rounds N parse cfg ms' groups' of (groups'', r) \<Rightarrow> (groups'', map_option ((@) os') r))" by simp
    then show ?thesis using p Ok os by (auto simp: option.map_comp comp_def intro!: option.map_cong0 split: prod.splits option.splits)
  next
    case (Err e)
    then show ?thesis using "2.IH"(2) [OF p [symmetric] Err] "2.prems" p by simp
  qed (use "2.prems" p in auto)
qed

text \<open>
  The messages \<open>f 0, \<dots>, f (n - 1)\<close> are one sequence: they name the same group, their number
  and their place, and carry the values \<open>v 0, \<dots>, v (n - 1)\<close>.
\<close>

definition is_sequence ::
    "'n num_ops \<Rightarrow> propex_parser \<Rightarrow> JoinNodeConfig \<Rightarrow> string \<Rightarrow> ('n, 't, 'r) JoinGroup \<Rightarrow> nat
      \<Rightarrow> (nat \<Rightarrow> ('n, 't, 'r) VariantObjectMap) \<Rightarrow> (nat \<Rightarrow> ('n, 't, 'r) Variant) \<Rightarrow> (nat \<Rightarrow> ('n, 't, 'r) Msg) \<Rightarrow> bool" where
  "is_sequence N parse cfg gid G n pm v f \<longleftrightarrow>
     jc_mode cfg = JoinAuto \<and> jg_msgs G = [] \<and> jg_current_count G = 0 \<and>
     (\<forall>i < n. Msg_get ''reset'' (f i) = None \<and> Msg_get ''complete'' (f i) = None
       \<and> Msg_get ''parts'' (f i) = Some (Object (pm i)) \<and> map_of (pm i) ''id'' = Some (String gid)
       \<and> part_index N cfg (Some (pm i)) = Some i
       \<and> update_count N cfg (Some (pm i)) = jg_count_update (\<lambda>_. Some n)
       \<and> new_group N cfg (Some (pm i)) = G
       \<and> Msg_get_nav N parse (group_property cfg G) (f i) = Ok (Some (v i)))"

locale indexed_group =
  fixes blank :: 's
    and wrap :: "'s list \<Rightarrow> ('n, 't, 'r) GroupPayload"
    and enc :: "('n, 't, 'r) Variant \<Rightarrow> 's"
    and fits :: "('n, 't, 'r) Variant \<Rightarrow> bool"
  assumes enc_fits: "fits v \<Longrightarrow> enc v \<noteq> blank"
    and add_indexed: "jg_payload g = wrap xs \<Longrightarrow> jg_current_count g = nonblank blank xs
      \<Longrightarrow> part_index N cfg ps = Some i \<Longrightarrow> fits v \<Longrightarrow>
      add_payload N parse cfg ps m v g =
        Ok (g\<lparr>jg_payload := wrap (put_slot blank (Some i) (enc v) xs),
              jg_current_count := nonblank blank (put_slot blank (Some i) (enc v) xs)\<rparr>)"
begin

definition group_after ::
    "('n, 't, 'r) JoinGroup \<Rightarrow> nat \<Rightarrow> (nat \<Rightarrow> ('n, 't, 'r) Variant) \<Rightarrow> (nat \<Rightarrow> ('n, 't, 'r) Msg) \<Rightarrow> nat list
      \<Rightarrow> ('n, 't, 'r) JoinGroup" where
  "group_after G n v f is =
     G\<lparr>jg_msgs := map f is, jg_count := Some n, jg_current_count := length is,
       jg_payload := wrap (slots blank (map (\<lambda>i. (i, enc (v i))) is))\<rparr>"

lemma group_property_after: "group_property cfg (group_after G n v f is) = group_property cfg G"
  by (simp add: group_after_def group_property_def)

lemma nonblank_values:
  "distinct is \<Longrightarrow> \<forall>i \<in> set is. fits (v i) \<Longrightarrow> nonblank blank (slots blank (map (\<lambda>i. (i, enc (v i))) is)) = length is"
  by (subst nonblank_slots) (auto simp: comp_def enc_fits)

lemma join_step:
  assumes q: "is_sequence N parse cfg gid G n pm v f" and G: "jg_payload G = wrap []"
    and new: "distinct (is @ [i])" "i < n" and fits: "\<forall>j \<in> set (is @ [i]). fits (v j)"
    and state: "map_of groups gid = (if is = [] then None else Some (group_after G n v f is))"
  shows "join_process_message N parse cfg (f i) groups =
    (if Suc (length is) \<ge> n then (AList.delete gid groups, join_msgs N parse cfg (group_after G n v f (is @ [i])))
     else (AList.update gid (group_after G n v f (is @ [i])) groups, Ok None))"
proof -
  note qi = q [unfolded is_sequence_def, THEN conjunct2, THEN conjunct2, THEN conjunct2, rule_format, OF new(2)]
  have q0: "jg_msgs G = []" "jg_current_count G = 0" using q by (simp_all add: is_sequence_def)
  let ?g0 = "case map_of groups gid of Some g \<Rightarrow> g | None \<Rightarrow> new_group N cfg (Some (pm i))"
  let ?g1 = "group_after G n v f is\<lparr>jg_msgs := map f (is @ [i])\<rparr>"
  have enter: "enter_group N cfg (f i) (Some (pm i)) ?g0 = ?g1"
    using qi q0 G by (cases "is = []") (simp_all add: state enter_group_def group_after_def slots_def)
  have add: "add_payload N parse cfg (Some (pm i)) (f i) (v i) ?g1 = Ok (group_after G n v f (is @ [i]))"
    using add_indexed [of ?g1 "slots blank (map (\<lambda>i. (i, enc (v i))) is)" N cfg "Some (pm i)" i "v i" parse "f i"]
      nonblank_values [of "is" v] nonblank_values [of "is @ [i]" v] new fits qi
    by (simp add: group_after_def slots_snoc)
  have "group_property cfg ?g1 = group_property cfg G" by (simp add: group_after_def group_property_def)
  then have "join_add N parse cfg (f i) (Some (pm i)) ?g1 =
      Ok (group_after G n v f (is @ [i]), Suc (length is) \<ge> n)"
    using qi add by (simp add: join_add_def) (simp add: group_after_def)
  then show ?thesis
    using qi enter by (simp add: join_process_message_def group_id_of_def)
qed

lemma join_prefix:
  assumes q: "is_sequence N parse cfg gid G n pm v f" and G: "jg_payload G = wrap []"
    and "distinct is" "set is \<subseteq> {..<n}" "length is < n" and fits: "\<forall>i < n. fits (v i)" and "map_of groups gid = None"
  shows "\<exists>groups'. join_rounds N parse cfg (map f is) groups = (groups', Some [])
    \<and> map_of groups' gid = (if is = [] then None else Some (group_after G n v f is))
    \<and> (\<forall>k. k \<noteq> gid \<longrightarrow> map_of groups' k = map_of groups k)"
  using assms(3-5)
proof (induction "is" rule: rev_induct)
  case Nil
  then show ?case using assms(7) by simp
next
  case (snoc i "is")
  then obtain groups' where g: "join_rounds N parse cfg (map f is) groups = (groups', Some [])"
    "map_of groups' gid = (if is = [] then None else Some (group_after G n v f is))"
    "\<forall>k. k \<noteq> gid \<longrightarrow> map_of groups' k = map_of groups k" by fastforce
  have "\<forall>j \<in> set (is @ [i]). fits (v j)" using snoc.prems(2) fits by auto
  from join_step [OF q G snoc.prems(1) _ this g(2)] snoc.prems
  have "join_process_message N parse cfg (f i) groups' = (AList.update gid (group_after G n v f (is @ [i])) groups', Ok None)"
    by auto
  then show ?case
    using g join_rounds_append [OF g(1), of "[f i]"] by (simp add: hmap_simps)
qed

text \<open>The whole sequence in any order: one message, made from the values in their order.\<close>

lemma join_sequence:
  assumes q: "is_sequence N parse cfg gid G n pm v f" and G: "jg_payload G = wrap []"
    and "mset is = mset [0..<n]" and fits: "\<forall>i < n. fits (v i)" and "map_of groups gid = None" and "0 < n"
    and out: "join_msgs N parse cfg (group_after G n v f is\<lparr>jg_payload := wrap (map (enc \<circ> v) [0..<n])\<rparr>) = Ok (Some out)"
  shows "\<exists>groups'. join_rounds N parse cfg (map f is) groups = (groups', Some [out])
    \<and> (\<forall>k. map_of groups' k = map_of groups k)"
proof -
  have d: "distinct is" "set is = {..<n}" "length is = n"
    using assms(3) mset_eq_imp_distinct_iff mset_eq_setD mset_eq_length by fastforce+
  then obtain is0 i where s: "is = is0 @ [i]" using assms(6) by (cases "is" rule: rev_cases) auto
  have p: "distinct is0" "set is0 \<subseteq> {..<n}" "length is0 < n" "i < n" using d s by auto
  from join_prefix [OF q G p(1-3) fits assms(5)] obtain groups' where
    g: "join_rounds N parse cfg (map f is0) groups = (groups', Some [])"
    "map_of groups' gid = (if is0 = [] then None else Some (group_after G n v f is0))"
    "\<forall>k. k \<noteq> gid \<longrightarrow> map_of groups' k = map_of groups k" by blast
  have "\<forall>j \<in> set (is0 @ [i]). fits (v j)" using d fits s by auto
  from join_step [OF q G _ p(4) this g(2)] d s
  have "join_process_message N parse cfg (f i) groups' = (AList.delete gid groups', join_msgs N parse cfg (group_after G n v f is))"
    by auto
  moreover have "group_after G n v f is = group_after G n v f is\<lparr>jg_payload := wrap (map (enc \<circ> v) [0..<n])\<rparr>"
    using slots_full [OF d(1,2), of blank "enc \<circ> v"] by (simp add: group_after_def)
  ultimately have "join_process_message N parse cfg (f i) groups' = (AList.delete gid groups', Ok (Some out))"
    using out by simp
  then show ?thesis
    using g assms(5) s join_rounds_append [OF g(1), of "[f i]"] by (auto simp: hmap_simps)
qed

end

lemma nonblank_array:
  "nonblank None (put_slot None (Some i) (Some v) xs) =
    (if slot_free (Some i) xs then Suc (nonblank None xs) else nonblank None xs)"
  using nonblank_put [of "Some v" None xs i] nonblank_refill [of i xs None "Some v"] by (auto simp: slot_free_def)

interpretation array_group: indexed_group None GroupArray Some "\<lambda>_. True"
  by unfold_locales (simp_all add: add_payload_def nonblank_array)

definition text_of :: "('n, 't, 'r) Variant \<Rightarrow> string" where
  "text_of v = (case as_str v of Some s \<Rightarrow> s | None \<Rightarrow> [])"

interpretation text_group: indexed_group "[]" GroupString text_of "\<lambda>v. text_of v \<noteq> []"
  by unfold_locales (auto simp: add_payload_def text_of_def nonblank_def filled_def Let_def)

section \<open>Splits seen by the join node\<close>

lemma number_usize_of_nat:
  "\<forall>w. num_as_u64 N (num_from_u64 N w) = Some w \<Longrightarrow> n < 2 ^ 64 \<Longrightarrow> number_usize N (num_from_u64 N (of_nat n)) = n"
  by (simp add: number_usize_def unat_of_nat)

text \<open>A name that the messages of a sequence do not use for themselves.\<close>

definition free_name :: "string \<Rightarrow> bool" where
  "free_name p \<longleftrightarrow> p \<notin> {''parts'', ''_msgid'', ''reset'', ''complete''}"

lemma get_part_msg:
  "btree_ok o1 \<Longrightarrow> Msg_get k (part_msg p v pm o1 m) =
    (if k = ''_msgid'' then None else if k = ''parts'' then Some (Object pm) else if k = p then Some v else map_of o1 k)"
  by (simp add: Msg_get_def part_msg_def hmap_simps)

lemma nav_part_msg:
  "btree_ok o1 \<Longrightarrow> parse p = Some [Property p] \<Longrightarrow> free_name p \<Longrightarrow> Msg_get_nav N parse p (part_msg p v pm o1 m) = Ok (Some v)"
  by (subst get_nav_name) (auto simp: part_msg_def hmap_simps free_name_def)

lemma parts_sequence:
  assumes "\<forall>w. num_as_u64 N (num_from_u64 N w) = Some w" "jc_mode jcfg = JoinAuto" "parse p = Some [Property p]" "free_name p"
    and "btree_ok o1" "map_of o1 ''reset'' = None" "map_of o1 ''complete'' = None" "0 < n" "n < 2 ^ 64"
    and pm: "\<And>i. i < n \<Longrightarrow> map_of (pm i) ''id'' = Some (String gid) \<and> map_of (pm i) ''count'' = Some (usize_number N n)
      \<and> map_of (pm i) ''index'' = Some (usize_number N i) \<and> new_group N jcfg (Some (pm i)) = G"
    and G: "jg_msgs G = []" "jg_current_count G = 0" "group_property jcfg G = p"
  shows "is_sequence N parse jcfg gid G n pm v (\<lambda>i. part_msg p (v i) (pm i) o1 m)"
  unfolding is_sequence_def
proof (intro conjI allI impI)
  fix i assume i: "i < n"
  note facts = pm [OF i] assms(1-9) number_usize_of_nat [OF assms(1)]
  show "part_index N jcfg (Some (pm i)) = Some i"
    using facts i by (simp add: part_index_def usize_number_def)
  show "update_count N jcfg (Some (pm i)) = jg_count_update (\<lambda>_. Some n)"
    using facts by (simp add: fun_eq_iff update_count_def usize_number_def positive_def)
  show "Msg_get_nav N parse (group_property jcfg G) (part_msg p (v i) (pm i) o1 m) = Ok (Some (v i))"
    using facts G by (simp add: nav_part_msg)
qed (use assms pm in \<open>auto simp: get_part_msg free_name_def\<close>)

lemma joined_message:
  assumes "jg_msgs g = part_msg p v pm o1 m # ms" "group_property jcfg g = p" "parse p = Some [Property p]" "free_name p"
    and "btree_ok o1" "map_of pm ''parts'' = None"
  shows "\<exists>out. join_msgs N parse jcfg g = Ok (Some out)
    \<and> (\<forall>k. Msg_get k out =
         (if k = p then Some (joined_value (jg_join_char g) (jg_payload g))
          else if k \<in> {''parts'', ''_msgid'', ''complete''} then None else map_of o1 k))"
proof -
  have ne: "''parts'' \<noteq> p" "''_msgid'' \<noteq> p" "''complete'' \<noteq> p" using assms(4) by (auto simp: free_name_def)
  let ?val = "joined_value (jg_join_char g) (jg_payload g)"
  let ?o = "AList.delete ''_msgid'' (btree_insert ''parts'' (Object pm) (btree_insert p v o1))"
  have "Msg_set_nav N parse p ?val True (part_msg p v pm o1 m) =
      (part_msg p v pm o1 m\<lparr>msg_body := Object (btree_insert p ?val ?o)\<rparr>, Ok ())"
    using assms by (subst set_nav_name) (simp_all add: part_msg_def)
  then have "join_msgs N parse jcfg g =
      Ok (Some (part_msg p v pm o1 m\<lparr>msg_body := Object (AList.delete ''complete'' (AList.delete ''parts'' (btree_insert p ?val ?o)))\<rparr>))"
    using assms by (simp add: join_msgs_def restore_parts_def Msg_get_def Msg_remove_def Msg_object_def ne hmap_simps)
  then show ?thesis
    using assms by (simp add: Msg_get_def hmap_simps free_name_def)
qed

lemma permuted_indices:
  "mset w = mset (map f xs) \<Longrightarrow> \<exists>is. mset is = mset xs \<and> w = map f is"
proof (induction w arbitrary: xs)
  case (Cons x w)
  then have "image_mset f (mset xs) = add_mset x (mset w)" by simp
  then obtain M i where "mset xs = add_mset i M" "f i = x" "image_mset f M = mset w" by (meson msed_map_invR)
  moreover obtain ys where "mset ys = M" using ex_mset by blast
  ultimately show ?case using Cons.IH [of ys] by (metis (no_types, opaque_lifting) list.simps(9) mset.simps(2) mset_map)
qed simp

text \<open>
  The messages \<open>w\<close> are joined to one, which has \<open>val\<close> under \<open>p\<close> and otherwise the properties
  \<open>o1\<close> without those that describe a part; the groups of the node are as before.
\<close>

definition joins_to ::
    "'n num_ops \<Rightarrow> propex_parser \<Rightarrow> JoinNodeConfig \<Rightarrow> ('n, 't, 'r) Msg list \<Rightarrow> ('n, 't, 'r) JoinNodeState
      \<Rightarrow> string \<Rightarrow> ('n, 't, 'r) Variant \<Rightarrow> ('n, 't, 'r) VariantObjectMap \<Rightarrow> bool" where
  "joins_to N parse jcfg w groups p val o1 \<longleftrightarrow>
     (\<exists>groups' out. join_rounds N parse jcfg w groups = (groups', Some [out])
       \<and> (\<forall>k. map_of groups' k = map_of groups k)
       \<and> (\<forall>k. Msg_get k out = (if k = p then Some val
              else if k \<in> {''parts'', ''_msgid'', ''complete''} then None else map_of o1 k)))"

lemma joins_to_parts:
  assumes "btree_ok o1"
  shows "joins_to N parse jcfg w groups p val (btree_insert ''parts'' x o1) = joins_to N parse jcfg w groups p val o1"
proof -
  have "(if k \<in> {''parts'', ''_msgid'', ''complete''} then None else map_of (btree_insert ''parts'' x o1) k) =
      (if k \<in> {''parts'', ''_msgid'', ''complete''} then None else map_of o1 k)" for k
    using assms by simp
  then show ?thesis by (simp only: joins_to_def)
qed

context indexed_group
begin

lemma join_parts:
  assumes "\<forall>w. num_as_u64 N (num_from_u64 N w) = Some w" "jc_mode jcfg = JoinAuto"
    and p: "parse p = Some [Property p]" "free_name p"
    and o1: "btree_ok o1" "map_of o1 ''reset'' = None" "map_of o1 ''complete'' = None"
    and n: "0 < n" "n < 2 ^ 64"
    and pm: "\<And>i. i < n \<Longrightarrow> map_of (pm i) ''id'' = Some (String gid) \<and> map_of (pm i) ''count'' = Some (usize_number N n)
      \<and> map_of (pm i) ''index'' = Some (usize_number N i) \<and> new_group N jcfg (Some (pm i)) = G"
    and nested: "\<And>i. map_of (pm i) ''parts'' = None"
    and G: "jg_msgs G = []" "jg_current_count G = 0" "group_property jcfg G = p" "jg_payload G = wrap []"
    and val: "joined_value (jg_join_char G) (wrap (map (enc \<circ> v) [0..<n])) = val"
    and fits: "\<forall>i < n. fits (v i)"
    and w: "mset w = mset (map (\<lambda>i. part_msg p (v i) (pm i) o1 m) [0..<n])"
    and "map_of groups gid = None"
  shows "joins_to N parse jcfg w groups p val o1"
proof -
  let ?f = "\<lambda>i. part_msg p (v i) (pm i) o1 m"
  have q: "is_sequence N parse jcfg gid G n pm v ?f"
    by (rule parts_sequence) (use assms in simp_all)
  obtain "is" where i: "mset is = mset [0..<n]" "w = map ?f is" using permuted_indices [OF w] by blast
  then obtain i0 is0 where i0: "is = i0 # is0" using n(1) mset_eq_length [OF i(1)] by (cases "is") auto
  let ?g = "group_after G n v ?f is\<lparr>jg_payload := wrap (map (enc \<circ> v) [0..<n])\<rparr>"
  have g: "jg_msgs ?g = ?f i0 # map ?f is0" "group_property jcfg ?g = p"
    "joined_value (jg_join_char ?g) (jg_payload ?g) = val"
    using i0 G(3) val by (simp_all add: group_after_def group_property_def)
  obtain out where "join_msgs N parse jcfg ?g = Ok (Some out)"
    "\<forall>k. Msg_get k out = (if k = p then Some val
          else if k \<in> {''parts'', ''_msgid'', ''complete''} then None else map_of o1 k)"
    using joined_message [of ?g p "v i0" "pm i0" o1 m "map ?f is0" jcfg parse N, OF g(1,2) p o1(1) nested] unfolding g(3) by blast
  with join_sequence [OF q G(4) i(1) fits _ n(1)] assms(19) i(2) show ?thesis unfolding joins_to_def by blast
qed

end

section \<open>Texts\<close>

definition text_pieces :: "SplitDelimiter \<Rightarrow> string \<Rightarrow> string list" where
  "text_pieces delim s =
     (case delim of
        DelimString d \<Rightarrow> split_str d s
      | DelimLength n \<Rightarrow> map concat (slices n (utf8_chars s))
      | DelimBinary _ \<Rightarrow> [])"

definition text_parts ::
    "'n num_ops \<Rightarrow> SplitNodeConfig \<Rightarrow> SplitDelimiter \<Rightarrow> string \<Rightarrow> nat \<Rightarrow> nat \<Rightarrow> ('n, 't, 'r) VariantObjectMap" where
  "text_parts N cfg delim parts_id n i =
     (case delim of
        DelimString d \<Rightarrow> string_parts N cfg n d parts_id (of_nat i)
      | DelimLength len \<Rightarrow> string_len_parts N cfg n len parts_id (of_nat i)
      | DelimBinary _ \<Rightarrow> [])"

text \<open>The delimiters under which a text is cut into pieces none of which is empty.\<close>

definition cuts_text :: "SplitDelimiter \<Rightarrow> string \<Rightarrow> bool" where
  "cuts_text delim s \<longleftrightarrow>
     (case delim of
        DelimString d \<Rightarrow> d \<noteq> [] \<and> [] \<notin> set (split_str d s)
      | DelimLength n \<Rightarrow> 0 < n \<and> s \<noteq> []
      | DelimBinary _ \<Rightarrow> False)"

fun delim_text :: "SplitDelimiter \<Rightarrow> string" where
  "delim_text (DelimString d) = d"
| "delim_text _ = []"

lemma concat_nonempty_concat: "(\<And>x. x \<in> set xs \<Longrightarrow> x \<noteq> []) \<Longrightarrow> xs \<noteq> [] \<Longrightarrow> concat xs \<noteq> []"
  by (cases xs) auto

lemma pieces_nonempty: "cuts_text delim s \<Longrightarrow> q \<in> set (text_pieces delim s) \<Longrightarrow> q \<noteq> []"
proof (cases delim)
  case (DelimLength n)
  assume "cuts_text delim s" "q \<in> set (text_pieces delim s)"
  with DelimLength obtain c where "c \<in> set (slices n (utf8_chars s))" "q = concat c" "0 < n"
    by (auto simp: text_pieces_def cuts_text_def)
  moreover from this have "c \<noteq> []" by (auto dest: slices_nonempty)
  moreover have "x \<in> set (utf8_chars s)" if "x \<in> set c" for x
    using \<open>c \<in> set (slices n (utf8_chars s))\<close> that \<open>0 < n\<close> by (metis concat_slices UN_I set_concat)
  ultimately show ?thesis using utf8_chars_nonempty by (metis concat_nonempty_concat)
qed (auto simp: cuts_text_def text_pieces_def)

lemma concat_map_concat: "concat (map concat xss) = concat (concat xss)"
  by (induction xss) auto

lemma join_pieces: "cuts_text delim s \<Longrightarrow> join_with (delim_text delim) (text_pieces delim s) = s"
  by (cases delim) (auto simp: cuts_text_def text_pieces_def join_split_str concat_map_concat)

lemma length_join_with: "(\<And>q. q \<in> set qs \<Longrightarrow> q \<noteq> []) \<Longrightarrow> length qs \<le> length (join_with sep qs)"
proof (induction sep qs rule: join_with.induct)
  case (2 sep s)
  then show ?case by (cases s) auto
next
  case (3 sep s t ss)
  then show ?case by (cases s) fastforce+
qed simp

lemma pieces_bound: "cuts_text delim s \<Longrightarrow> length (text_pieces delim s) \<le> length s"
  using length_join_with [of "text_pieces delim s" "delim_text delim"] by (simp add: pieces_nonempty join_pieces)

lemma pieces_not_Nil: "cuts_text delim s \<Longrightarrow> text_pieces delim s \<noteq> []"
  using join_pieces [of delim s] by (cases delim) (auto simp: cuts_text_def text_pieces_def)

lemma split_text:
  assumes "parse (sp_property cfg) = Some [Property (sp_property cfg)]" "msg_body m = Object o1" "\<not> sp_stream cfg"
    and "cuts_text delim s" "ss_counter st = 0"
  shows "\<exists>st'. split_string N parse cfg delim gen m s st =
    (st', Ok (map (\<lambda>i. part_msg (sp_property cfg) (String (text_pieces delim s ! i))
        (text_parts N cfg delim (generate_id (gen 0)) (length (text_pieces delim s)) i) o1 m)
      [0..<length (text_pieces delim s)]))"
  using assms
  by (cases delim) (simp_all add: split_string_def Let_def emit_parts_Ok make_part_name text_pieces_def text_parts_def cuts_text_def)

text \<open>The keys that the parts of a text carry.\<close>

lemma text_parts_keys:
  assumes "cuts_text delim s" "\<not> sp_stream cfg"
  shows "map_of (text_parts N cfg delim gid n i) ''id'' = Some (String gid)"
    and "map_of (text_parts N cfg delim gid n i) ''count'' = Some (usize_number N n)"
    and "map_of (text_parts N cfg delim gid n i) ''index'' = Some (usize_number N i)"
    and "map_of (text_parts N cfg delim gid n i) ''type'' = Some (String ''string'')"
    and "map_of (text_parts N cfg delim gid n i) ''ch'' = Some (String (delim_text delim))"
    and "map_of (text_parts N cfg delim gid n i) ''property'' =
      (if sp_property cfg = ''payload'' then None else Some (String (sp_property cfg)))"
    and "map_of (text_parts N cfg delim gid n i) ''parts'' = None"
  using assms
  by (cases delim; simp add: text_parts_def string_parts_def string_len_parts_def property_entry_def usize_number_def cuts_text_def)+

definition text_template :: "SplitNodeConfig \<Rightarrow> SplitDelimiter \<Rightarrow> ('n, 't, 'r) JoinGroup" where
  "text_template cfg delim =
     \<lparr>jg_msgs = [], jg_count = None, jg_current_count = 0, jg_payload = GroupString [], jg_group_type = ''string'',
      jg_join_char = Some (delim_text delim),
      jg_property = (if sp_property cfg = ''payload'' then None else Some (sp_property cfg))\<rparr>"

lemma text_new_group:
  "cuts_text delim s \<Longrightarrow> \<not> sp_stream cfg \<Longrightarrow> jc_mode jcfg = JoinAuto \<Longrightarrow>
    new_group N jcfg (Some (text_parts N cfg delim gid n i)) = text_template cfg delim"
  by (simp add: new_group_def text_parts_keys text_template_def auto_payload_def Let_def)

lemma text_template_simps [simp]:
  "jg_msgs (text_template cfg delim) = []" "jg_current_count (text_template cfg delim) = 0"
  "jg_payload (text_template cfg delim) = GroupString []" "jg_join_char (text_template cfg delim) = Some (delim_text delim)"
  "jc_property jcfg = ''payload'' \<Longrightarrow> group_property jcfg (text_template cfg delim) = sp_property cfg"
  by (simp_all add: text_template_def group_property_def)

lemma join_text_parts:
  fixes m :: "('n, 't, 'r) Msg"
  assumes "\<forall>w. num_as_u64 N (num_from_u64 N w) = Some w"
    and j: "jc_mode jcfg = JoinAuto" "jc_property jcfg = ''payload''"
    and p: "parse (sp_property cfg) = Some [Property (sp_property cfg)]" "free_name (sp_property cfg)" "\<not> sp_stream cfg"
    and "btree_ok o1" "map_of o1 ''reset'' = None" "map_of o1 ''complete'' = None"
    and s: "cuts_text delim s" "length s < 2 ^ 64"
    and "mset w = mset (map (\<lambda>i. part_msg (sp_property cfg) (String (text_pieces delim s ! i))
        (text_parts N cfg delim gid (length (text_pieces delim s)) i) o1 m) [0..<length (text_pieces delim s)])"
    and "map_of groups gid = None"
  shows "joins_to N parse jcfg w groups (sp_property cfg) (String s) o1"
proof (rule text_group.join_parts)
  show "0 < length (text_pieces delim s)" "length (text_pieces delim s) < 2 ^ 64"
    using pieces_not_Nil [OF s(1)] pieces_bound [OF s(1)] s(2) by auto
  show "joined_value (jg_join_char (text_template cfg delim :: ('n, 't, 'r) JoinGroup))
      (GroupString (map (text_of \<circ> (\<lambda>i. String (text_pieces delim s ! i))) [0..<length (text_pieces delim s)]))
    = (String s :: ('n, 't, 'r) Variant)"
    using join_pieces [OF s(1)] by (simp add: text_of_def comp_def map_nth)
  show "\<forall>i < length (text_pieces delim s). text_of (String (text_pieces delim s ! i)) \<noteq> []"
    using pieces_nonempty [OF s(1)] by (auto simp: text_of_def)
qed (use assms in \<open>simp_all add: text_parts_keys [OF s(1) p(3)] text_new_group [OF s(1) p(3) j(1)]\<close>)

section \<open>Arrays\<close>

lemma omap_Ok: "(\<And>x. x \<in> set xs \<Longrightarrow> f x = Ok (g x)) \<Longrightarrow> omap f xs = Ok (map g xs)"
  by (induction xs) auto

lemma map_enumerate: "map f (enumerate 0 xs) = map (\<lambda>i. f (i, xs ! i)) [0..<length xs]"
  by (rule nth_equalityI) (simp_all add: nth_enumerate_eq)

lemma slices_one: "slices (Suc 0) xs = map (\<lambda>x. [x]) xs"
  by (rule nth_equalityI) (auto simp: slices_def div_ceil_def take_Suc hd_drop_conv_nth)

lemma split_array_single:
  assumes "parse (sp_property cfg) = Some [Property (sp_property cfg)]" "msg_body m = Object o1" "sp_array_split cfg = 1"
  shows "split_array N parse cfg gen m xs =
    Ok (map (\<lambda>i. part_msg (sp_property cfg) (xs ! i) (array_parts N cfg (length xs) (generate_id (gen 0)) i) o1 m) [0..<length xs])"
  unfolding split_array_def Let_def using assms
  by (subst omap_Ok [where g = "\<lambda>(i, c). part_msg (sp_property cfg) (chunk_value 1 c)
        (array_parts N cfg (length xs) (generate_id (gen 0)) i) o1 m"])
    (auto simp: make_part_name slices_one map_enumerate chunk_value_def)

lemma array_parts_keys:
  "map_of (array_parts N cfg n gid i) ''id'' = Some (String gid)"
  "map_of (array_parts N cfg n gid i) ''count'' = Some (usize_number N n)"
  "map_of (array_parts N cfg n gid i) ''index'' = Some (usize_number N i)"
  "map_of (array_parts N cfg n gid i) ''type'' = Some (String ''array'')"
  "map_of (array_parts N cfg n gid i) ''ch'' = None"
  "map_of (array_parts N cfg n gid i) ''property'' =
    (if sp_property cfg = ''payload'' then None else Some (String (sp_property cfg)))"
  "map_of (array_parts N cfg n gid i) ''parts'' = None"
  by (simp_all add: array_parts_def property_entry_def)

definition array_template :: "SplitNodeConfig \<Rightarrow> ('n, 't, 'r) JoinGroup" where
  "array_template cfg =
     \<lparr>jg_msgs = [], jg_count = None, jg_current_count = 0, jg_payload = GroupArray [], jg_group_type = ''array'',
      jg_join_char = None, jg_property = (if sp_property cfg = ''payload'' then None else Some (sp_property cfg))\<rparr>"

lemma array_new_group:
  "jc_mode jcfg = JoinAuto \<Longrightarrow> new_group N jcfg (Some (array_parts N cfg n gid i)) = array_template cfg"
  by (simp add: new_group_def array_parts_keys array_template_def auto_payload_def Let_def)

lemma join_array_parts:
  fixes m :: "('n, 't, 'r) Msg"
  assumes "\<forall>w. num_as_u64 N (num_from_u64 N w) = Some w"
    and j: "jc_mode jcfg = JoinAuto" "jc_property jcfg = ''payload''"
    and p: "parse (sp_property cfg) = Some [Property (sp_property cfg)]" "free_name (sp_property cfg)"
    and "btree_ok o1" "map_of o1 ''reset'' = None" "map_of o1 ''complete'' = None"
    and "xs \<noteq> []" "length xs < 2 ^ 64"
    and "mset w = mset (map (\<lambda>i. part_msg (sp_property cfg) (xs ! i) (array_parts N cfg (length xs) gid i) o1 m) [0..<length xs])"
    and "map_of groups gid = None"
  shows "joins_to N parse jcfg w groups (sp_property cfg) (Array xs) o1"
proof (rule array_group.join_parts [where G = "array_template cfg"])
  show "joined_value (jg_join_char (array_template cfg :: ('n, 't, 'r) JoinGroup)) (GroupArray (map (Some \<circ> (!) xs) [0..<length xs]))
    = (Array xs :: ('n, 't, 'r) Variant)"
    by (simp add: comp_def map_nth)
qed (use assms in \<open>simp_all add: array_parts_keys array_new_group array_template_def group_property_def\<close>)

section \<open>Instances\<close>

definition demo_split :: "bool \<Rightarrow> SplitNodeConfig" where
  "demo_split stream = \<lparr>sp_stream = stream, sp_split_type = SplitString, sp_split = '','', sp_array_split = 1,
     sp_property = ''payload'', sp_add_name = []\<rparr>"

definition demo_join :: JoinNodeConfig where
  "demo_join = \<lparr>jc_mode = JoinAuto, jc_property = ''payload'', jc_count = None, jc_join_char = None,
     jc_key_property = None, jc_build = BuildArray\<rparr>"

definition demo_msg :: "(int, nat, nat) Variant \<Rightarrow> (int, nat, nat) Msg" where
  "demo_msg v = \<lparr>msg_body = Object [(''payload'', v)], link_call_stack = None\<rparr>"

definition demo_ids :: id_source where
  "demo_ids i = (0, of_nat i)"

lemma demo_simps [simp]:
  "sp_stream (demo_split b) = b" "sp_property (demo_split b) = ''payload''" "sp_array_split (demo_split b) = 1"
  "sp_add_name (demo_split b) = []" "jc_mode demo_join = JoinAuto" "jc_property demo_join = ''payload''"
  "msg_body (demo_msg v) = Object [(''payload'', v)]" "free_name ''payload''" "ss_counter SplitNodeState_default = 0"
  "ss_remainder SplitNodeState_default = []"
  by (simp_all add: demo_split_def demo_join_def demo_msg_def free_name_def SplitNodeState_default_def)

lemma demo_numbers: "\<forall>w. num_as_u64 int_num (num_from_u64 int_num w) = Some w"
  by (simp add: int_num_def)

section \<open>Round trips\<close>

text \<open>
  The message as it enters the split: the property is taken from it, and its parts are set
  aside.
\<close>

lemma split_round_value:
  assumes "parse (sp_property cfg) = Some [Property (sp_property cfg)]"
    and "msg_body m = Object o1" "map_of o1 (sp_property cfg) = Some value" "map_of o1 ''reset'' = None"
    and "split_value N parse cfg delim gen value (m\<lparr>msg_body := Object (btree_insert ''parts'' (nested_parts m) o1)\<rparr>) st = (st', Ok ms)"
  shows "split_round N parse cfg delim gen m st =
    (m\<lparr>msg_body := Object (btree_insert ''parts'' (nested_parts m) o1)\<rparr>, st', Ok ms)"
  using assms by (simp add: split_round_def split_process_message_def get_nav_name Msg_get_def Msg_set_def Msg_object_def)

lemma part_msg_body [simp]: "part_msg p v pm o1 (m\<lparr>msg_body := b\<rparr>) = part_msg p v pm o1 m"
  by (simp add: part_msg_def)

text \<open>
  C17. Splitting a text and joining the pieces gives the text back. Outside streaming, for every
  delimiter under which no piece is empty and every property that has a plain name, the
  messages the split node sends are joined, in whatever order they arrive, to one message
  that has the text again and all other properties of the original; the join node is left as
  it was.
\<close>

theorem split_join_text:
  fixes m :: "('n, 't, 'r) Msg"
  assumes numbers: "\<forall>w. num_as_u64 N (num_from_u64 N w) = Some w"
    and join_cfg: "jc_mode jcfg = JoinAuto" "jc_property jcfg = ''payload''"
    and name: "parse (sp_property cfg) = Some [Property (sp_property cfg)]" "free_name (sp_property cfg)"
    and "\<not> sp_stream cfg" "ss_counter st = 0"
    and msg: "msg_body m = Object o1" "btree_ok o1" "map_of o1 ''reset'' = None" "map_of o1 ''complete'' = None"
    and content: "map_of o1 (sp_property cfg) = Some (String s)" "cuts_text delim s" "length s < 2 ^ 64"
  shows "\<exists>m' st' ms. split_round N parse cfg delim gen m st = (m', st', Ok ms)
    \<and> (\<forall>w groups. mset w = mset ms \<and> map_of groups (generate_id (gen 0)) = None \<longrightarrow>
         joins_to N parse jcfg w groups (sp_property cfg) (String s) o1)"
proof -
  let ?o = "btree_insert ''parts'' (nested_parts m) o1"
  let ?m1 = "m\<lparr>msg_body := Object ?o\<rparr>"
  obtain st' where "split_value N parse cfg delim gen (String s) ?m1 st =
    (st', Ok (map (\<lambda>i. part_msg (sp_property cfg) (String (text_pieces delim s ! i))
        (text_parts N cfg delim (generate_id (gen 0)) (length (text_pieces delim s)) i) ?o m)
      [0..<length (text_pieces delim s)]))"
    using split_text [of parse cfg ?m1 ?o, OF name(1) _ assms(6) content(2) assms(7)] by auto
  from split_round_value [OF name(1) msg(1) content(1) msg(3) this]
  show ?thesis
  proof (intro exI conjI allI impI)
    fix w :: "('n, 't, 'r) Msg list" and groups :: "('n, 't, 'r) JoinNodeState"
    assume "mset w = mset (map (\<lambda>i. part_msg (sp_property cfg) (String (text_pieces delim s ! i))
        (text_parts N cfg delim (generate_id (gen 0)) (length (text_pieces delim s)) i) ?o m)
      [0..<length (text_pieces delim s)]) \<and> map_of groups (generate_id (gen 0)) = None"
    then have "joins_to N parse jcfg w groups (sp_property cfg) (String s) ?o"
      by (intro join_text_parts) (use assms in auto)
    then show "joins_to N parse jcfg w groups (sp_property cfg) (String s) o1"
      by (simp only: joins_to_parts [OF msg(2)])
  qed
qed

theorem split_join_text_witness:
  "\<exists>m' st' ms. split_round int_num name_parser (demo_split False) (DelimString '','') demo_ids
      (demo_msg (String ''a,b'')) SplitNodeState_default = (m', st', Ok ms)
    \<and> joins_to int_num name_parser demo_join (rev ms) [] ''payload'' (String ''a,b'') [(''payload'', String ''a,b'')]"
proof -
  have "cuts_text (DelimString '','') ''a,b''" by code_simp
  then show ?thesis
    using split_join_text [of int_num demo_join name_parser "demo_split False" SplitNodeState_default
        "demo_msg (String ''a,b'')" "[(''payload'', String ''a,b'')]" "''a,b''" "DelimString '',''" demo_ids] demo_numbers
    by fastforce
qed

text \<open>
  C19. Splitting an array into its elements and joining them gives the array back, in whatever
  order the elements arrive.
\<close>

theorem split_join_array:
  fixes m :: "('n, 't, 'r) Msg"
  assumes numbers: "\<forall>w. num_as_u64 N (num_from_u64 N w) = Some w"
    and join_cfg: "jc_mode jcfg = JoinAuto" "jc_property jcfg = ''payload''"
    and name: "parse (sp_property cfg) = Some [Property (sp_property cfg)]" "free_name (sp_property cfg)"
    and "sp_array_split cfg = 1"
    and msg: "msg_body m = Object o1" "btree_ok o1" "map_of o1 ''reset'' = None" "map_of o1 ''complete'' = None"
    and content: "map_of o1 (sp_property cfg) = Some (Array xs)" "xs \<noteq> []" "length xs < 2 ^ 64"
  shows "\<exists>m' ms. split_round N parse cfg delim gen m st = (m', st, Ok ms)
    \<and> (\<forall>w groups. mset w = mset ms \<and> map_of groups (generate_id (gen 0)) = None \<longrightarrow>
         joins_to N parse jcfg w groups (sp_property cfg) (Array xs) o1)"
proof -
  let ?o = "btree_insert ''parts'' (nested_parts m) o1"
  let ?ms = "map (\<lambda>i. part_msg (sp_property cfg) (xs ! i) (array_parts N cfg (length xs) (generate_id (gen 0)) i) ?o m) [0..<length xs]"
  have "split_value N parse cfg delim gen (Array xs) (m\<lparr>msg_body := Object ?o\<rparr>) st = (st, Ok ?ms)"
    using split_array_single [of parse cfg "m\<lparr>msg_body := Object ?o\<rparr>" ?o] name(1) assms(6) by simp
  from split_round_value [OF name(1) msg(1) content(1) msg(3) this]
  show ?thesis
  proof (intro exI conjI allI impI)
    fix w :: "('n, 't, 'r) Msg list" and groups :: "('n, 't, 'r) JoinNodeState"
    assume "mset w = mset ?ms \<and> map_of groups (generate_id (gen 0)) = None"
    then have "joins_to N parse jcfg w groups (sp_property cfg) (Array xs) ?o"
      by (intro join_array_parts) (use assms in auto)
    then show "joins_to N parse jcfg w groups (sp_property cfg) (Array xs) o1"
      by (simp only: joins_to_parts [OF msg(2)])
  qed
qed

theorem split_join_array_witness:
  "\<exists>m' ms. split_round int_num name_parser (demo_split False) (DelimString '','') demo_ids
      (demo_msg (Array [Number 1, Null])) SplitNodeState_default = (m', SplitNodeState_default, Ok ms)
    \<and> joins_to int_num name_parser demo_join (rev ms) [] ''payload'' (Array [Number 1, Null]) [(''payload'', Array [Number 1, Null])]"
  using split_join_array [of int_num demo_join name_parser "demo_split False"
      "demo_msg (Array [Number 1, Null])" "[(''payload'', Array [Number 1, Null])]" "[Number 1, Null]" "DelimString '',''" demo_ids
      SplitNodeState_default] demo_numbers
  by fastforce

end
