(* ===== verification/Split_Join_Cases.thy ===== *)
theory Split_Join_Cases
  imports Split_Join
begin

text \<open>
  The split node over a stream of texts, and the cases in which a sequence is not joined again:
  texts with empty pieces, objects, parts of parts, and streams cut by length.
\<close>

section \<open>Streams of texts\<close>

lemma find_sub_append: "find_sub d xs = Some n \<Longrightarrow> find_sub d (xs @ ys) = Some n"
proof (induction xs arbitrary: n)
  case Nil
  then show ?case by (cases ys) (auto split: if_splits)
next
  case (Cons x xs)
  show ?case
  proof (cases "take (length d) (x # xs) = d")
    case True
    then have "length d \<le> length (x # xs)" by (metis length_take min.absorb_iff2 nat_le_linear)
    then have "take (length d) (x # xs @ ys) = take (length d) (x # xs)" by (metis append_Cons append_Nil2 diff_is_0_eq take0 take_append)
    with True Cons.prems show ?thesis by simp
  next
    case False
    with Cons.prems obtain k where k: "find_sub d xs = Some k" "n = Suc k" by auto
    have len: "length d \<le> length xs" using find_sub_Some [OF k(1)] by (metis add.commute le_add1 length_append trans_le_add2 add.assoc)
    then have "take (length d) (x # xs @ ys) = take (length d) (x # xs)" by (cases "length d") auto
    with False Cons.IH [OF k(1)] k(2) show ?thesis by simp
  qed
qed

lemma cut_parts_append:
  "d \<noteq> [] \<Longrightarrow> cut_parts d xs = (ps, r) \<Longrightarrow> cut_parts d (xs @ ys) = (case cut_parts d (r @ ys) of (qs, r') \<Rightarrow> (ps @ qs, r'))"
proof (induction d xs arbitrary: ps r rule: cut_parts.induct)
  case (1 d xs)
  show ?case
  proof (cases "find_sub d xs")
    case None
    with "1.prems" show ?thesis by (simp add: cut_parts.simps [of d xs])
  next
    case (Some n)
    obtain ps' r' where c: "cut_parts d (drop (n + length d) xs) = (ps', r')" by fastforce
    with "1.prems" Some have p: "ps = take n xs # ps'" "r = r'" by (simp_all add: cut_parts.simps [of d xs])
    have n: "n + length d \<le> length xs"
      using arg_cong [OF find_sub_Some [OF Some], of length] "1.prems"(1) by (cases d) (auto simp: min_def split: if_splits)
    have "cut_parts d (drop (n + length d) xs @ ys) = (case cut_parts d (r @ ys) of (qs, r') \<Rightarrow> (ps' @ qs, r'))"
      using "1.IH" [OF _ Some] "1.prems"(1) c p(2) by simp
    then show ?thesis
      using find_sub_append [OF Some, of ys] "1.prems"(1) n p
      by (simp add: cut_parts.simps [of d "xs @ ys"] split: prod.splits)
  qed
qed

lemma split_str_append:
  "d \<noteq> [] \<Longrightarrow> split_str d (s @ t) = butlast (split_str d s) @ split_str d (last (split_str d s) @ t)"
  by (cases "cut_parts d s") (simp add: split_str_def cut_parts_append split: prod.splits)

lemma cut_parts_rest: "d \<noteq> [] \<Longrightarrow> cut_parts d xs = (ps, r) \<Longrightarrow> cut_parts d r = ([], r)"
proof (induction d xs arbitrary: ps r rule: cut_parts.induct)
  case (1 d xs)
  show ?case
  proof (cases "find_sub d xs")
    case None
    with "1.prems" show ?thesis by (auto simp: cut_parts.simps [of d xs] cut_parts.simps [of d r])
  next
    case (Some n)
    then show ?thesis
      using "1.IH" [OF _ Some] "1.prems" by (auto simp: cut_parts.simps [of d xs] split: prod.splits)
  qed
qed

lemma split_str_last: "d \<noteq> [] \<Longrightarrow> split_str d (last (split_str d s)) = [last (split_str d s)]"
  by (cases "cut_parts d s") (simp add: split_str_def cut_parts_rest)

text \<open>
  The node fed with a sequence of messages; \<open>gens j\<close> are the identifier readings of the message
  with number \<open>j\<close>.
\<close>

fun split_rounds ::
    "'n num_ops \<Rightarrow> propex_parser \<Rightarrow> SplitNodeConfig \<Rightarrow> SplitDelimiter \<Rightarrow> (nat \<Rightarrow> id_source) \<Rightarrow> nat \<Rightarrow> ('n, 't, 'r) Msg list
      \<Rightarrow> SplitNodeState \<Rightarrow> SplitNodeState \<times> ('n, 't, 'r) Msg list option" where
  "split_rounds N parse cfg delim gens j [] st = (st, Some [])"
| "split_rounds N parse cfg delim gens j (m # ms) st =
     (case split_round N parse cfg delim (gens j) m st of
        (_, st', Ok outs) \<Rightarrow>
          (case split_rounds N parse cfg delim gens (Suc j) ms st' of (st'', r) \<Rightarrow> (st'', map_option ((@) outs) r))
      | (_, st', _) \<Rightarrow> (st', None))"

definition text_message :: "string \<Rightarrow> string \<Rightarrow> ('n, 't, 'r) Msg \<Rightarrow> bool" where
  "text_message p s m \<longleftrightarrow>
     (case msg_body m of
        Object o1 \<Rightarrow> btree_ok o1 \<and> map_of o1 p = Some (String s) \<and> map_of o1 ''reset'' = None
      | _ \<Rightarrow> False)"

text \<open>A message that carries one piece and its number.\<close>

definition carries :: "'n num_ops \<Rightarrow> string \<Rightarrow> u64 \<Rightarrow> string \<Rightarrow> ('n, 't, 'r) Msg \<Rightarrow> bool" where
  "carries N p c s m \<longleftrightarrow>
     Msg_get p m = Some (String s)
     \<and> Option.bind (parts m) (\<lambda>pm. map_of pm ''index'') = Some (Number (num_from_u64 N c))"

lemma parts_part_msg: "btree_ok o1 \<Longrightarrow> parts (part_msg p v pm o1 m) = Some pm"
  by (simp add: parts_def part_msg_def hmap_simps)

lemma string_parts_index: "map_of (string_parts N cfg n d i c) ''index'' = Some (Number (num_from_u64 N c))"
  by (simp add: string_parts_def property_entry_def)

lemma stream_round:
  assumes "parse (sp_property cfg) = Some [Property (sp_property cfg)]" "free_name (sp_property cfg)" "sp_stream cfg"
    and m: "text_message (sp_property cfg) s m" and ps: "ps = split_str d (ss_remainder st @ s)"
  shows "\<exists>m' outs. split_round N parse cfg (DelimString d) gen m st =
      (m', st\<lparr>ss_counter := ss_counter st + of_nat (length ps - 1), ss_remainder := last ps\<rparr>, Ok outs)
    \<and> length outs = length ps - 1
    \<and> (\<forall>i < length ps - 1. carries N (sp_property cfg) (ss_counter st + of_nat i) (ps ! i) (outs ! i))"
proof -
  obtain o1 where o1: "msg_body m = Object o1" "btree_ok o1" "map_of o1 (sp_property cfg) = Some (String s)" "map_of o1 ''reset'' = None"
    using m by (auto simp: text_message_def split: Variant.Variant.splits)
  let ?o = "btree_insert ''parts'' (nested_parts m) o1"
  let ?outs = "map (\<lambda>i. part_msg (sp_property cfg) (String (butlast ps ! i))
      (string_parts N cfg (length ps) d (generate_id (gen 0)) (ss_counter st + of_nat i)) ?o m) [0..<length ps - 1]"
  have "split_value N parse cfg (DelimString d) gen (String s) (m\<lparr>msg_body := Object ?o\<rparr>) st =
      (st\<lparr>ss_counter := ss_counter st + of_nat (length ps - 1), ss_remainder := last ps\<rparr>, Ok ?outs)"
    using assms(1,3) by (simp add: ps split_string_def Let_def emit_parts_Ok make_part_name)
  note split_round_value [OF assms(1) o1(1,3,4) this]
  moreover have "carries N (sp_property cfg) (ss_counter st + of_nat i) (ps ! i) (?outs ! i)" if "i < length ps - 1" for i
    using that assms(2) o1(2)
    by (simp add: carries_def get_part_msg parts_part_msg string_parts_index free_name_def nth_butlast)
  moreover have "length ?outs = length ps - 1" by simp
  ultimately show ?thesis by blast
qed

text \<open>
  C18. Cutting a stream of texts at a non-empty text delimiter does not depend on where the stream is divided into messages: the
  node sends the pieces of the concatenated text but the last, numbered one after the other,
  and keeps the last, whose end may still be to come.
\<close>

theorem stream_split_text:
  assumes "parse (sp_property cfg) = Some [Property (sp_property cfg)]" "free_name (sp_property cfg)" "sp_stream cfg"
    and "d \<noteq> []" "list_all2 (text_message (sp_property cfg)) ss ms"
    and "split_str d (ss_remainder st) = [ss_remainder st]"
  shows "\<exists>st' outs. split_rounds N parse cfg (DelimString d) gens j ms st = (st', Some outs)
    \<and> (let ps = split_str d (ss_remainder st @ concat ss) in
       length outs = length ps - 1 \<and> ss_remainder st' = last ps
       \<and> (\<forall>i < length outs. carries N (sp_property cfg) (ss_counter st + of_nat i) (ps ! i) (outs ! i)))"
  using assms(5,6)
proof (induction ss ms arbitrary: st j rule: list_all2_induct)
  case Nil
  then show ?case by simp
next
  case (Cons s ss m ms)
  define ps where "ps = split_str d (ss_remainder st @ s)"
  let ?st = "st\<lparr>ss_counter := ss_counter st + of_nat (length ps - 1), ss_remainder := last ps\<rparr>"
  obtain m' outs where r: "split_round N parse cfg (DelimString d) (gens j) m st = (m', ?st, Ok outs)"
    and outs: "length outs = length ps - 1"
      "\<forall>i < length ps - 1. carries N (sp_property cfg) (ss_counter st + of_nat i) (ps ! i) (outs ! i)"
    using stream_round [of parse cfg s m ps d st N "gens j"] assms(1-3) Cons.hyps(1) ps_def by blast
  have last: "split_str d (last ps) = [last ps]"
    using split_str_last [OF assms(4)] by (simp add: ps_def)
  obtain st' outs' where r': "split_rounds N parse cfg (DelimString d) gens (Suc j) ms ?st = (st', Some outs')"
    and outs': "length outs' = length (split_str d (last ps @ concat ss)) - 1"
      "ss_remainder st' = last (split_str d (last ps @ concat ss))"
      "\<forall>i < length outs'. carries N (sp_property cfg) (ss_counter st + of_nat (length ps - 1) + of_nat i)
          (split_str d (last ps @ concat ss) ! i) (outs' ! i)"
    using Cons.IH [of ?st "Suc j"] last by (auto simp: Let_def)
  have *: "split_str d (ss_remainder st @ concat (s # ss)) = butlast ps @ split_str d (last ps @ concat ss)"
    using split_str_append [OF assms(4), of "ss_remainder st @ s" "concat ss"] by (simp add: ps_def)
  have "split_rounds N parse cfg (DelimString d) gens j (m # ms) st = (st', Some (outs @ outs'))"
    using r r' by simp
  moreover have "length (outs @ outs') = length (split_str d (ss_remainder st @ concat (s # ss))) - 1"
    using outs(1) outs'(1) unfolding * by (simp add: Suc_leI)
  moreover have "ss_remainder st' = last (split_str d (ss_remainder st @ concat (s # ss)))"
    using outs'(2) unfolding * by simp
  moreover have "carries N (sp_property cfg) (ss_counter st + of_nat i)
      (split_str d (ss_remainder st @ concat (s # ss)) ! i) ((outs @ outs') ! i)" if "i < length (outs @ outs')" for i
    using that outs outs'(1) outs'(3) [rule_format, of "i - length outs"] unfolding *
    by (auto simp: nth_append nth_butlast add.assoc simp flip: of_nat_add)
  ultimately show ?case by (auto simp: Let_def)
qed

lemma demo_text: "text_message ''payload'' s (demo_msg (String s))"
  by (simp add: text_message_def)

theorem stream_split_text_witness:
  "\<exists>st' outs. split_rounds int_num name_parser (demo_split True) (DelimString '','') (\<lambda>_. demo_ids) 0
      [demo_msg (String ''a,b''), demo_msg (String ''c,d'')] SplitNodeState_default = (st', Some outs)
    \<and> length outs = 2 \<and> ss_remainder st' = ''d'' \<and> carries int_num ''payload'' 1 ''bc'' (outs ! 1)"
proof -
  have "split_str '','' [] = [[]]" "split_str '','' ''a,bc,d'' = [''a'', ''bc'', ''d'']" by code_simp+
  then show ?thesis
    using stream_split_text [of name_parser "demo_split True" "'',''" "[''a,b'', ''c,d'']"
        "[demo_msg (String ''a,b''), demo_msg (String ''c,d'')]" SplitNodeState_default int_num "\<lambda>_. demo_ids" 0]
    by (fastforce simp: demo_text Let_def numeral_2_eq_2)
qed

text \<open>
  Cut by length, the remainder of a stream is not cleared when the text comes out even: the
  characters that were kept have been sent, and are put in front of the next message all the
  same.
\<close>

lemma last_slice_full: "0 < n \<Longrightarrow> n dvd length xs \<Longrightarrow> slices n xs \<noteq> [] \<Longrightarrow> length (last (slices n xs)) = n"
proof -
  assume n: "0 < n" "n dvd length xs" "slices n xs \<noteq> []"
  then obtain k where k: "length xs = n * k" by (elim dvdE)
  with n have "div_ceil (length xs) n = k" by (simp add: div_ceil_def)
  then have "slices n xs = map (\<lambda>i. take n (drop (i * n) xs)) [0..<k]" "0 < k" using n(3) by (simp_all add: slices_def)
  then have "last (slices n xs) = take n (drop ((k - 1) * n) xs)" by (cases k) simp_all
  moreover have "length xs - (k - 1) * n = n" using k \<open>0 < k\<close> by (cases k) (simp_all add: mult.commute)
  ultimately show ?thesis by simp
qed

theorem stream_length_repeats:
  assumes "parse (sp_property cfg) = Some [Property (sp_property cfg)]" "free_name (sp_property cfg)" "sp_stream cfg"
    and m: "text_message (sp_property cfg) s m" and "0 < len" "len dvd length (utf8_chars (ss_remainder st @ s))"
  shows "\<exists>m' st' outs. split_round N parse cfg (DelimLength len) gen m st = (m', st', Ok outs)
    \<and> ss_remainder st' = ss_remainder st
    \<and> concat (map (\<lambda>x. case Msg_get (sp_property cfg) x of Some (String t) \<Rightarrow> t | _ \<Rightarrow> []) outs) = ss_remainder st @ s"
proof -
  obtain o1 where o1: "msg_body m = Object o1" "btree_ok o1" "map_of o1 (sp_property cfg) = Some (String s)" "map_of o1 ''reset'' = None"
    using m by (auto simp: text_message_def split: Variant.Variant.splits)
  let ?o = "btree_insert ''parts'' (nested_parts m) o1" and ?ps = "slices len (utf8_chars (ss_remainder st @ s))"
  let ?outs = "map (\<lambda>i. part_msg (sp_property cfg) (String (concat (?ps ! i)))
      (string_len_parts N cfg (length ?ps) len (generate_id (gen 0)) (ss_counter st + of_nat i)) ?o m) [0..<length ?ps]"
  have "\<not> (?ps \<noteq> [] \<and> length (last ?ps) < len)" using last_slice_full [OF assms(5,6)] by auto
  then have "split_value N parse cfg (DelimLength len) gen (String s) (m\<lparr>msg_body := Object ?o\<rparr>) st =
      (st\<lparr>ss_counter := ss_counter st + of_nat (length ?ps)\<rparr>, Ok ?outs)"
    using assms(1,3) by (auto simp: split_string_def Let_def emit_parts_Ok make_part_name)
  note split_round_value [OF assms(1) o1(1,3,4) this]
  moreover have "map (\<lambda>x. case Msg_get (sp_property cfg) x of Some (String t) \<Rightarrow> t | _ \<Rightarrow> []) ?outs = map concat ?ps"
    using assms(2) o1(2) by (intro nth_equalityI) (simp_all add: get_part_msg free_name_def)
  then have "concat (map (\<lambda>x. case Msg_get (sp_property cfg) x of Some (String t) \<Rightarrow> t | _ \<Rightarrow> []) ?outs) = ss_remainder st @ s"
    using assms(5) by (simp only: concat_map_concat concat_slices concat_utf8_chars)
  ultimately show ?thesis by (intro exI conjI) (assumption, simp_all)
qed

theorem stream_length_repeats_witness:
  "\<exists>m' st' outs. split_round int_num name_parser (demo_split True) (DelimLength 2) demo_ids
      (demo_msg (String ''b'')) (SplitNodeState_default\<lparr>ss_remainder := ''a''\<rparr>) = (m', st', Ok outs)
    \<and> ss_remainder st' = ''a''"
proof -
  have "2 dvd length (utf8_chars ''ab'')" by code_simp
  then show ?thesis
    using stream_length_repeats [of name_parser "demo_split True" "''b''" "demo_msg (String ''b'')" 2
        "SplitNodeState_default\<lparr>ss_remainder := ''a''\<rparr>" int_num demo_ids] by (auto simp: demo_text)
qed

section \<open>Parts of parts\<close>

lemma map_of_btree_insert_same: "map_of (btree_insert k v m) k = Some v"
  by (induction k v m rule: btree_insert.induct) auto

definition flat_part :: "('n, 't, 'r) Msg \<Rightarrow> bool" where
  "flat_part x \<longleftrightarrow> (case parts x of Some pm \<Rightarrow> map_of pm ''parts'' = None | None \<Rightarrow> False)"

lemma seal_part_flat:
  "seal_part pm m = Ok x \<Longrightarrow> map_of pm ''parts'' = None \<Longrightarrow> flat_part x"
  by (cases "msg_body m")
    (auto simp: seal_part_def Msg_set_def Msg_remove_def Msg_object_def flat_part_def parts_def hmap_simps map_of_btree_insert_same)

lemma make_part_flat: "make_part N parse cfg m v pm = Ok x \<Longrightarrow> map_of pm ''parts'' = None \<Longrightarrow> flat_part x"
  by (auto simp: make_part_def obind_eq_Ok intro: seal_part_flat)

lemma parts_maps_flat [simp]:
  "map_of (string_parts N cfg n d i c) ''parts'' = None" "map_of (string_len_parts N cfg n l i c) ''parts'' = None"
  "map_of (array_parts N cfg n i k) ''parts'' = None" "map_of (object_parts N cfg n key i k) ''parts'' = None"
  "map_of (buffer_parts N cfg bs i c) ''parts'' = None" "map_of (buffer_len_parts N cfg n l i c) ''parts'' = None"
  by (simp_all add: string_parts_def string_len_parts_def array_parts_def object_parts_def buffer_parts_def
      buffer_len_parts_def property_entry_def)

lemma emit_parts_all:
  "(\<And>k c q x. mk k c q = Ok x \<Longrightarrow> P x) \<Longrightarrow> emit_parts mk k ps st = (st', Ok ms) \<Longrightarrow> x \<in> set ms \<Longrightarrow> P x"
proof (induction mk k ps st arbitrary: st' ms rule: emit_parts.induct)
  case (2 mk k p ps st)
  from "2.prems"(2) obtain y ms' where "mk k (ss_counter st) p = Ok y" "ms = y # ms'"
    "emit_parts mk (Suc k) ps (st\<lparr>ss_counter := ss_counter st + 1\<rparr>) = (st', Ok ms')"
    by (auto simp: map_outcome_eq_Ok split: outcome.splits prod.splits)
  with 2 show ?case by auto
qed auto

lemma after_parts_Ok: "after_parts f r = (st', Ok ms) \<longleftrightarrow> (\<exists>st. r = (st, Ok ms) \<and> st' = f st)"
  by (cases "(f, r)" rule: after_parts.cases) auto

lemma omap_all: "(\<And>y x. f y = Ok x \<Longrightarrow> P x) \<Longrightarrow> omap f ys = Ok ms \<Longrightarrow> x \<in> set ms \<Longrightarrow> P x"
  by (induction ys arbitrary: ms) (auto simp: obind_eq_Ok)

lemma send_rest_all:
  "(\<And>c q x. mk c q = Ok x \<Longrightarrow> P x) \<Longrightarrow> send_rest mk r = (st', Ok ms) \<Longrightarrow> \<forall>st ms. r = (st, Ok ms) \<longrightarrow> (\<forall>x \<in> set ms. P x)
    \<Longrightarrow> x \<in> set ms \<Longrightarrow> P x"
  by (cases "(mk, r)" rule: send_rest.cases) (auto split: if_splits outcome.splits)

lemma split_string_flat:
  assumes "split_string N parse cfg delim gen m s st = (st', Ok ms)" "x \<in> set ms"
  shows "flat_part x"
proof -
  have mk: "\<And>k c p y. make_part N parse cfg m (g p) (string_parts N cfg n d i c) = Ok y \<Longrightarrow> flat_part y"
    "\<And>k c p y. make_part N parse cfg m (h p) (string_len_parts N cfg n l i c) = Ok y \<Longrightarrow> flat_part y" for g h n d l i
    by (auto intro: make_part_flat)
  show ?thesis
    using assms unfolding split_string_def Let_def
    by (auto simp: after_parts_Ok split: SplitDelimiter.splits if_splits
        dest: emit_parts_all [rotated, where P = flat_part, OF _ _ mk(1)] emit_parts_all [rotated, where P = flat_part, OF _ _ mk(2)])
qed

lemma split_buffer_flat:
  assumes "split_buffer N parse cfg delim gen m bs st = (st', Ok ms)" "x \<in> set ms"
  shows "flat_part x"
proof -
  have mk: "\<And>k c p y. make_part N parse cfg m (Bytes p) (buffer_parts N cfg d (generate_id (gen k)) c) = Ok y \<Longrightarrow> flat_part y"
    "\<And>k c p y. make_part N parse cfg m (Bytes p) (buffer_len_parts N cfg n l (generate_id (gen k)) c) = Ok y \<Longrightarrow> flat_part y"
    for d n l by (auto intro: make_part_flat)
  show ?thesis
  proof (cases delim)
    case (DelimBinary d)
    then show ?thesis
      using assms unfolding split_buffer_def Let_def
      by (auto simp: after_parts_Ok split: prod.splits if_splits
          elim!: send_rest_all [where P = flat_part, rotated] intro: mk(1)
          dest: emit_parts_all [rotated, where P = flat_part, OF _ _ mk(1)])
  next
    case (DelimLength l)
    then show ?thesis
      using assms unfolding split_buffer_def Let_def
      by (auto simp: after_parts_Ok split: if_splits dest: emit_parts_all [rotated, where P = flat_part, OF _ _ mk(2)])
  qed (use assms in \<open>simp add: split_buffer_def\<close>)
qed

lemma split_value_flat:
  "split_value N parse cfg delim gen v m st = (st', Ok ms) \<Longrightarrow> x \<in> set ms \<Longrightarrow> flat_part x"
proof (cases v)
  case (Array xs)
  assume "split_value N parse cfg delim gen v m st = (st', Ok ms)" "x \<in> set ms"
  with Array show ?thesis
    by (auto simp: split_array_def Let_def elim!: omap_all [where P = flat_part, rotated] intro: make_part_flat)
next
  case (Object kvs)
  assume "split_value N parse cfg delim gen v m st = (st', Ok ms)" "x \<in> set ms"
  with Object show ?thesis
    by (auto simp: split_object_def obind_eq_Ok elim!: omap_all [where P = flat_part, rotated] dest!: seal_part_flat)
qed (auto split: SplitDelimiter.splits dest: split_string_flat split_buffer_flat)

text \<open>
  The parts a message had before it was split are set aside in \<^verbatim>\<open>parts.parts\<close>, where the join
  node looks for them, but no message that leaves the split node has them: a sequence within a
  sequence loses the place it had in the outer one.
\<close>

theorem nested_parts_lost:
  assumes "split_round N parse cfg delim gen m st = (m', st', Ok ms)" "x \<in> set ms"
  shows "\<exists>pm. parts x = Some pm \<and> map_of pm ''parts'' = None"
proof -
  have "flat_part x"
    using assms unfolding split_round_def split_process_message_def
    by (auto split: if_splits outcome.splits option.splits prod.splits dest: split_value_flat)
  then show ?thesis by (auto simp: flat_part_def split: option.splits)
qed

theorem nested_parts_lost_witness:
  "\<exists>m' st' ms. split_round int_num name_parser (demo_split False) (DelimString '','') demo_ids
      (demo_msg (String ''a'')) SplitNodeState_default = (m', st', Ok ms)
    \<and> ms \<noteq> [] \<and> (\<exists>pm. parts (hd ms) = Some pm \<and> map_of pm ''parts'' = None)"
proof -
  have "case split_round int_num name_parser (demo_split False) (DelimString '','') demo_ids
      (demo_msg (String ''a'')) SplitNodeState_default of (m', st', Ok ms) \<Rightarrow> ms \<noteq> [] | _ \<Rightarrow> False"
    by code_simp
  then obtain m' st' ms where r: "split_round int_num name_parser (demo_split False) (DelimString '','') demo_ids
      (demo_msg (String ''a'')) SplitNodeState_default = (m', st', Ok ms)" "ms \<noteq> []"
    by (auto split: prod.splits outcome.splits)
  with nested_parts_lost [OF r(1), of "hd ms"] show ?thesis by auto
qed

section \<open>Objects\<close>

lemma object_parts_keys:
  "map_of (object_parts N cfg n key gid i) ''id'' = Some (String gid)"
  "map_of (object_parts N cfg n key gid i) ''count'' = Some (usize_number N n)"
  "map_of (object_parts N cfg n key gid i) ''type'' = Some (String ''object'')"
  "map_of (object_parts N cfg n key gid i) ''key'' = Some (String key)"
  "map_of (object_parts N cfg n key gid i) ''property'' =
    (if sp_property cfg = ''payload'' then None else Some (String (sp_property cfg)))"
  by (simp_all add: object_parts_def property_entry_def)

lemma split_object_parts:
  assumes "parse (sp_property cfg) = Some [Property (sp_property cfg)]" "msg_body m = Object o1" "sp_add_name cfg = []"
  shows "split_object N parse cfg gen m kvs =
    Ok (map (\<lambda>i. part_msg (sp_property cfg) (snd (kvs ! i))
        (object_parts N cfg (length kvs) (fst (kvs ! i)) (generate_id (gen i)) i) o1 m) [0..<length kvs])"
  unfolding split_object_def using assms
  by (subst omap_Ok [where g = "\<lambda>(i, key, v). part_msg (sp_property cfg) v
        (object_parts N cfg (length kvs) key (generate_id (gen i)) i) o1 m"])
    (auto simp: make_part_name [unfolded make_part_def] map_enumerate split_beta)

lemma part_flags:
  assumes "free_name p" "btree_ok o1" "map_of o1 ''reset'' = None" "map_of o1 ''complete'' = None"
  shows "Msg_get ''reset'' (part_msg p v pm o1 m) = None" "Msg_get ''complete'' (part_msg p v pm o1 m) = None"
    "Msg_get ''parts'' (part_msg p v pm o1 m) = Some (Object pm)"
  using assms by (auto simp: get_part_msg free_name_def)

lemma lone_object_part:
  assumes "\<forall>w. num_as_u64 N (num_from_u64 N w) = Some w" "jc_mode jcfg = JoinAuto" "jc_property jcfg = ''payload''"
    and "parse (sp_property cfg) = Some [Property (sp_property cfg)]" "free_name (sp_property cfg)"
    and "btree_ok o1" "map_of o1 ''reset'' = None" "map_of o1 ''complete'' = None"
    and "2 \<le> n" "n < 2 ^ 64" "map_of groups gid = None"
  shows "\<exists>g. join_process_message N parse jcfg (part_msg (sp_property cfg) v (object_parts N cfg n key gid i) o1 m) groups =
    (AList.update gid g groups, Ok None)"
proof -
  let ?x = "part_msg (sp_property cfg) v (object_parts N cfg n key gid i) o1 m" and ?pm = "object_parts N cfg n key gid i"
  define g where "g = enter_group N jcfg ?x (Some ?pm) (new_group N jcfg (Some ?pm))"
  have g: "jg_payload g = GroupObject []" "jg_count g = Some n" "jg_current_count g = 0" "group_property jcfg g = sp_property cfg"
    using assms number_usize_of_nat [OF assms(1,10)]
    by (simp_all add: g_def enter_group_def update_count_def new_group_def object_parts_keys auto_payload_def positive_def
        usize_number_def group_property_def Let_def)
  note flags = part_flags [OF assms(5-8)]
  have "\<exists>g'. join_add N parse jcfg ?x (Some ?pm) g = Ok (g', False)"
    using assms(9) g flags nav_part_msg [of o1 parse "sp_property cfg" N v ?pm m, OF assms(6,4,5)]
    by (simp add: join_add_def add_payload_def object_key_def object_parts_keys Let_def)
  then show ?thesis
    using assms(11) flags by (auto simp: join_process_message_def group_id_of_def object_parts_keys g_def Let_def)
qed

lemma lone_object_parts:
  assumes "\<forall>w. num_as_u64 N (num_from_u64 N w) = Some w" "jc_mode jcfg = JoinAuto" "jc_property jcfg = ''payload''"
    and "parse (sp_property cfg) = Some [Property (sp_property cfg)]" "free_name (sp_property cfg)"
    and "btree_ok o1" "map_of o1 ''reset'' = None" "map_of o1 ''complete'' = None" "2 \<le> n" "n < 2 ^ 64"
    and "distinct (map ids is)" "\<forall>i \<in> set is. map_of groups (ids i) = None"
  shows "snd (join_rounds N parse jcfg
    (map (\<lambda>i. part_msg (sp_property cfg) (v i) (object_parts N cfg n (key i) (ids i) i) o1 m) is) groups) = Some []"
  using assms(11,12)
proof (induction "is" arbitrary: groups)
  case (Cons i "is")
  obtain g where "join_process_message N parse jcfg
      (part_msg (sp_property cfg) (v i) (object_parts N cfg n (key i) (ids i) i) o1 m) groups = (AList.update (ids i) g groups, Ok None)"
    using lone_object_part [of N jcfg parse cfg o1 n groups "ids i" "v i" "key i" i m, OF assms(1-10)] Cons.prems(2) by auto
  moreover have "\<forall>j \<in> set is. map_of (AList.update (ids i) g groups) (ids j) = None"
    using Cons.prems by (auto simp: hmap_simps) (metis imageI)
  from Cons.IH [OF _ this] have "snd (join_rounds N parse jcfg
      (map (\<lambda>i. part_msg (sp_property cfg) (v i) (object_parts N cfg n (key i) (ids i) i) o1 m) is)
      (AList.update (ids i) g groups)) = Some []"
    using Cons.prems(1) by simp
  ultimately show ?case by (auto split: prod.splits)
qed simp

text \<open>
  An object with two or more properties is split into messages that each get an identifier of
  their own; the join node puts every one of them into a group of its own, and as long as the
  identifiers differ no group is ever complete.
\<close>

theorem objects_not_rejoined:
  assumes "\<forall>w. num_as_u64 N (num_from_u64 N w) = Some w" "jc_mode jcfg = JoinAuto" "jc_property jcfg = ''payload''"
    and "parse (sp_property cfg) = Some [Property (sp_property cfg)]" "free_name (sp_property cfg)" "sp_add_name cfg = []"
    and "msg_body m = Object o1" "btree_ok o1" "map_of o1 ''reset'' = None" "map_of o1 ''complete'' = None"
    and "map_of o1 (sp_property cfg) = Some (Object kvs)" "2 \<le> length kvs" "length kvs < 2 ^ 64"
    and ids: "inj_on (\<lambda>i. generate_id (gen i)) {..<length kvs}"
  shows "\<exists>m' ms. split_round N parse cfg delim gen m st = (m', st, Ok ms) \<and> length ms = length kvs
    \<and> (\<forall>w. mset w = mset ms \<longrightarrow> snd (join_rounds N parse jcfg w []) = Some [])"
proof -
  let ?o = "btree_insert ''parts'' (nested_parts m) o1"
  let ?f = "\<lambda>i. part_msg (sp_property cfg) (snd (kvs ! i))
        (object_parts N cfg (length kvs) (fst (kvs ! i)) (generate_id (gen i)) i) ?o m"
  have "split_value N parse cfg delim gen (Object kvs) (m\<lparr>msg_body := Object ?o\<rparr>) st = (st, Ok (map ?f [0..<length kvs]))"
    using split_object_parts [of parse cfg "m\<lparr>msg_body := Object ?o\<rparr>" ?o N gen kvs] assms(4,6) by simp
  note split_round_value [OF assms(4,7,11,9) this]
  moreover have "snd (join_rounds N parse jcfg w []) = Some []" if w: "mset w = mset (map ?f [0..<length kvs])" for w
  proof -
    obtain "is" where i: "mset is = mset [0..<length kvs]" "w = map ?f is" using permuted_indices [OF w] by blast
    from i(1) have "distinct is" "set is = {..<length kvs}"
      using mset_eq_imp_distinct_iff mset_eq_setD by fastforce+
    then have "distinct (map (\<lambda>i. generate_id (gen i)) is)" using ids by (simp add: distinct_map)
    then show ?thesis unfolding i(2)
      by (intro lone_object_parts) (use assms in auto)
  qed
  ultimately show ?thesis by (intro exI conjI) auto
qed

theorem objects_not_rejoined_witness:
  "\<exists>m' ms. split_round int_num name_parser (demo_split False) (DelimString '','') demo_ids
      (demo_msg (Object [(''a'', Null), (''b'', Null)])) SplitNodeState_default = (m', SplitNodeState_default, Ok ms)
    \<and> length ms = 2 \<and> snd (join_rounds int_num name_parser demo_join ms []) = Some []"
proof -
  have "generate_id (demo_ids 0) \<noteq> generate_id (demo_ids 1)" by code_simp
  then have "inj_on (\<lambda>i. generate_id (demo_ids i)) {..<length [(''a'', Null), (''b'', Null :: (int, nat, nat) Variant)]}"
    by (auto simp: inj_on_def less_Suc_eq numeral_2_eq_2)
  then show ?thesis
    using objects_not_rejoined [of int_num demo_join name_parser "demo_split False" "demo_msg (Object [(''a'', Null), (''b'', Null)])"
        "[(''payload'', Object [(''a'', Null), (''b'', Null)])]" "[(''a'', Null), (''b'', Null)]" demo_ids
        "DelimString '',''" SplitNodeState_default] demo_numbers
    by fastforce
qed

section \<open>Texts with empty pieces\<close>

text \<open>The slots of a group that the pieces \<open>ps\<close> have been written to, some of them perhaps more than once.\<close>

definition sparse :: "JoinNodeConfig \<Rightarrow> string \<Rightarrow> string list \<Rightarrow> ('n, 't, 'r) JoinGroup \<Rightarrow> bool" where
  "sparse jcfg p ps g \<longleftrightarrow>
     group_property jcfg g = p
     \<and> (case jg_payload g of
          GroupString xs \<Rightarrow> (\<forall>j < length xs. xs ! j \<noteq> [] \<longrightarrow> j < length ps \<and> ps ! j \<noteq> [])
        | _ \<Rightarrow> False)"

lemma sparse_filled:
  assumes "\<forall>j < length xs. xs ! j \<noteq> [] \<longrightarrow> j < length ps \<and> ps ! j \<noteq> []" "[] \<in> set ps"
  shows "filled xs < length ps"
proof -
  obtain k where k: "k < length ps" "ps ! k = []" using assms(2) by (meson in_set_conv_nth)
  have "filled xs = card {j. j < length xs \<and> xs ! j \<noteq> []}" by (simp add: filled_def length_filter_conv_card)
  also have "\<dots> \<le> card ({..<length ps} - {k})" using assms(1) k by (intro card_mono) auto
  also have "\<dots> < length ps" using k(1) by simp
  finally show ?thesis .
qed

lemma sparse_step:
  fixes m :: "('n, 't, 'r) Msg"
  assumes N: "\<forall>w. num_as_u64 N (num_from_u64 N w) = Some w"
    and j: "jc_mode jcfg = JoinAuto" "jc_property jcfg = ''payload''"
    and p: "parse (sp_property cfg) = Some [Property (sp_property cfg)]" "free_name (sp_property cfg)" "\<not> sp_stream cfg"
    and o1: "btree_ok o1" "map_of o1 ''reset'' = None" "map_of o1 ''complete'' = None"
    and ps: "[] \<in> set ps" "length ps < 2 ^ 64" "i < length ps"
    and inv: "case map_of groups gid of None \<Rightarrow> True | Some g \<Rightarrow> sparse jcfg (sp_property cfg) ps g"
  shows "\<exists>g. join_process_message N parse jcfg
      (part_msg (sp_property cfg) (String (ps ! i)) (string_parts N cfg (length ps) d gid (of_nat i)) o1 m) groups
    = (AList.update gid g groups, Ok None) \<and> sparse jcfg (sp_property cfg) ps g"
proof -
  let ?pm = "string_parts N cfg (length ps) d gid (of_nat i) :: ('n, 't, 'r) VariantObjectMap"
  let ?x = "part_msg (sp_property cfg) (String (ps ! i)) ?pm o1 m"
  define g0 where "g0 = (case map_of groups gid of Some g \<Rightarrow> g | None \<Rightarrow> new_group N jcfg (Some ?pm))"
  have keys: "map_of ?pm ''id'' = Some (String gid)" "map_of ?pm ''count'' = Some (usize_number N (length ps))"
    "map_of ?pm ''index'' = Some (usize_number N i)" "map_of ?pm ''type'' = Some (String ''string'')"
    "map_of ?pm ''property'' = (if sp_property cfg = ''payload'' then None else Some (String (sp_property cfg)))"
    using p(3) by (simp_all add: string_parts_def property_entry_def usize_number_def)
  have idx: "part_index N jcfg (Some ?pm) = Some i"
    using j(1) keys number_usize_of_nat [OF N, of i] ps by (simp add: part_index_def usize_number_def)
  have "sparse jcfg (sp_property cfg) ps g0"
    using inv j keys by (auto simp: g0_def sparse_def new_group_def auto_payload_def group_property_def Let_def split: option.splits)
  then obtain xs where g0: "jg_payload g0 = GroupString xs" "group_property jcfg g0 = sp_property cfg"
    and xs: "\<forall>j < length xs. xs ! j \<noteq> [] \<longrightarrow> j < length ps \<and> ps ! j \<noteq> []"
    by (auto simp: sparse_def split: GroupPayload.splits)
  define g1 where "g1 = enter_group N jcfg ?x (Some ?pm) g0"
  have g1: "jg_payload g1 = GroupString xs" "group_property jcfg g1 = sp_property cfg" "jg_count g1 = Some (length ps)"
    using g0 j keys ps number_usize_of_nat [OF N ps(2)]
    by (auto simp: g1_def enter_group_def update_count_def usize_number_def positive_def group_property_def)
  let ?ys = "put_slot [] (Some i) (ps ! i) xs"
  have ys: "\<forall>j < length ?ys. ?ys ! j \<noteq> [] \<longrightarrow> j < length ps \<and> ps ! j \<noteq> []" using xs ps(3) by (auto simp: put_slot_nth)
  have "join_add N parse jcfg ?x (Some ?pm) g1 =
      Ok (g1\<lparr>jg_payload := GroupString ?ys, jg_current_count := filled ?ys\<rparr>, False)"
    using g1 idx part_flags [OF p(2) o1] sparse_filled [OF ys ps(1)] nav_part_msg [of o1 parse "sp_property cfg" N "String (ps ! i)" ?pm m, OF o1(1) p(1,2)]
    by (simp add: join_add_def add_payload_def Let_def)
  then have "join_process_message N parse jcfg ?x groups =
      (AList.update gid (g1\<lparr>jg_payload := GroupString ?ys, jg_current_count := filled ?ys\<rparr>) groups, Ok None)"
    using part_flags [OF p(2) o1] keys by (simp add: join_process_message_def group_id_of_def g1_def g0_def Let_def)
  moreover have "sparse jcfg (sp_property cfg) ps (g1\<lparr>jg_payload := GroupString ?ys, jg_current_count := filled ?ys\<rparr>)"
    using ys g1(2) by (simp add: sparse_def group_property_def)
  ultimately show ?thesis by blast
qed

text \<open>
  A text with an empty piece, such as one with two delimiters in a row or one at its end, is
  never joined again: the join node takes the number of pieces for complete only if none is
  empty. However often and in whatever order the messages of the split arrive, nothing is
  sent.
\<close>

theorem empty_pieces_not_joined:
  assumes N: "\<forall>w. num_as_u64 N (num_from_u64 N w) = Some w"
    and j: "jc_mode jcfg = JoinAuto" "jc_property jcfg = ''payload''"
    and p: "parse (sp_property cfg) = Some [Property (sp_property cfg)]" "free_name (sp_property cfg)" "\<not> sp_stream cfg"
    and "ss_counter st = 0"
    and msg: "msg_body m = Object o1" "btree_ok o1" "map_of o1 ''reset'' = None" "map_of o1 ''complete'' = None"
    and content: "map_of o1 (sp_property cfg) = Some (String s)" "[] \<in> set (split_str d s)" "length (split_str d s) < 2 ^ 64"
  shows "\<exists>m' st' ms. split_round N parse cfg (DelimString d) gen m st = (m', st', Ok ms) \<and> length ms = length (split_str d s)
    \<and> (\<forall>w. set w \<subseteq> set ms \<longrightarrow> snd (join_rounds N parse jcfg w []) = Some [])"
proof -
  let ?o = "btree_insert ''parts'' (nested_parts m) o1" and ?ps = "split_str d s" and ?id = "generate_id (gen 0)"
  let ?f = "\<lambda>i. part_msg (sp_property cfg) (String (?ps ! i)) (string_parts N cfg (length ?ps) d ?id (of_nat i)) ?o m"
  obtain st' where "split_value N parse cfg (DelimString d) gen (String s) (m\<lparr>msg_body := Object ?o\<rparr>) st = (st', Ok (map ?f [0..<length ?ps]))"
    using p assms(7) by (simp add: split_string_def Let_def emit_parts_Ok make_part_name)
  note split_round_value [OF p(1) msg(1) content(1) msg(3) this]
  moreover have "snd (join_rounds N parse jcfg w groups) = Some []"
    if "set w \<subseteq> set (map ?f [0..<length ?ps])"
      "case map_of groups ?id of None \<Rightarrow> True | Some g \<Rightarrow> sparse jcfg (sp_property cfg) ?ps g" for w groups
    using that
  proof (induction w arbitrary: groups)
    case (Cons x w)
    then obtain i where i: "i < length ?ps" "x = ?f i" by auto
    have o2: "btree_ok ?o" "map_of ?o ''reset'' = None" "map_of ?o ''complete'' = None" using msg by simp_all
    obtain g where "join_process_message N parse jcfg x groups = (AList.update ?id g groups, Ok None)"
      "sparse jcfg (sp_property cfg) ?ps g"
      using sparse_step [of N jcfg parse cfg ?o ?ps i groups ?id d m, OF N j p o2 content(2,3) i(1) Cons.prems(2)] i(2) by auto
    moreover from this have "snd (join_rounds N parse jcfg w (AList.update ?id g groups)) = Some []"
      using Cons.prems(1) by (intro Cons.IH) (auto simp: hmap_simps)
    ultimately show ?case by (auto split: prod.splits)
  qed simp
  ultimately show ?thesis by (intro exI conjI) auto
qed

theorem empty_pieces_not_joined_witness:
  "\<exists>m' st' ms. split_round int_num name_parser (demo_split False) (DelimString '','') demo_ids
      (demo_msg (String ''a,,b'')) SplitNodeState_default = (m', st', Ok ms)
    \<and> length ms = 3 \<and> snd (join_rounds int_num name_parser demo_join ms []) = Some []"
proof -
  have "split_str '','' ''a,,b'' = [''a'', [], ''b'']" by code_simp
  then show ?thesis
    using empty_pieces_not_joined [of int_num demo_join name_parser "demo_split False" SplitNodeState_default
        "demo_msg (String ''a,,b'')" "[(''payload'', String ''a,,b'')]" "''a,,b''" "'',''" demo_ids] demo_numbers
    by fastforce
qed

end
