(* ===== verification/Csv_Node.thy ===== *)
theory Csv_Node
  imports Msg
begin

text \<open>
  The CSV node (\<^verbatim>\<open>runtime/nodes/parser_nodes/csv.rs\<close>): texts to objects and back, with templates of
  column names, headers and sequences of messages.

  Parameters: the numbers, \<^verbatim>\<open>Number::from\<close> for an \<^verbatim>\<open>i64\<close>, the conversion of a text to a floating-point
  number, the JSON form of a value that is neither text, number nor truth value, and the hash of a
  message identifier that is not hexadecimal. Log output is dropped, and so are \<^verbatim>\<open>quo\<close> and
  \<^verbatim>\<open>line_count\<close>, which no code reads.
\<close>

section \<open>Configuration and state\<close>

datatype CsvOutputMode = CsvOne | CsvMult
datatype CsvHeaderMode = HeaderNone | HeaderOnce | HeaderAll
datatype CsvSpecMode = CsvLegacy | CsvRfc

record CsvNodeConfig =
  csv_temp :: string
  csv_sep :: string
  csv_ret :: string
  csv_multi :: CsvOutputMode
  csv_hdrin :: bool
  csv_hdrout :: CsvHeaderMode
  csv_skip :: "nat option"
  csv_strings :: bool
  csv_include_empty_strings :: "bool option"
  csv_include_null_values :: "bool option"
  csv_spec :: CsvSpecMode

record ('n, 't, 'r) CsvParseState =
  cs_store :: "('n, 't, 'r) Variant list"
  cs_hdr_sent :: bool

definition CsvParseState_default :: "('n, 't, 'r) CsvParseState" where
  "CsvParseState_default = \<lparr>cs_store = [], cs_hdr_sent = False\<rparr>"

type_synonym csv_template = "string option list"

record CsvNode =
  cn_config :: CsvNodeConfig
  cn_template :: csv_template

record ('n, 't, 'r) csv_ops =
  csv_from_i64 :: "int \<Rightarrow> 'n"
  csv_parse_f64 :: "string \<Rightarrow> 'n option"
  csv_to_json :: "('n, 't, 'r) Variant \<Rightarrow> string option"

abbreviation quote :: string where "quote \<equiv> [CHR 0x22]"
abbreviation newline :: char where "newline \<equiv> CHR 0x0A"
abbreviation carriage_return :: char where "carriage_return \<equiv> CHR 0x0D"

section \<open>Templates\<close>

definition trim_quotes :: "string \<Rightarrow> string" where
  "trim_quotes s = rev (dropWhile ((=) CHR 0x22) (rev (dropWhile ((=) CHR 0x22) s)))"

definition column_name :: "string \<Rightarrow> string option" where
  "column_name current = (let trimmed = trim_quotes (trim current) in if trimmed = [] then None else Some trimmed)"

text \<open>Whether the separator stands at the front of the characters left.\<close>

definition at_separator :: "string \<Rightarrow> string list \<Rightarrow> bool" where
  "at_separator sep cs \<longleftrightarrow>
     (let sep_len = length (utf8_chars sep) in
      0 < sep_len \<and>
      (if sep_len = 1 then cs \<noteq> [] \<and> hd cs = sep else sep_len \<le> length cs \<and> concat (take sep_len cs) = sep))"

function template_loop :: "string \<Rightarrow> string list \<Rightarrow> bool \<Rightarrow> string \<Rightarrow> csv_template \<Rightarrow> csv_template" where
  "template_loop sep [] in_quotes current columns = columns @ [column_name current]"
| "template_loop sep (c # cs) in_quotes current columns =
     (if c = quote then
        (if in_quotes \<and> cs \<noteq> [] \<and> hd cs = quote then template_loop sep (tl cs) in_quotes (current @ quote) columns
         else template_loop sep cs (\<not> in_quotes) current columns)
      else if \<not> in_quotes \<and> at_separator sep (c # cs) then
        template_loop sep (drop (length (utf8_chars sep)) (c # cs)) in_quotes [] (columns @ [column_name current])
      else template_loop sep cs in_quotes (current @ c) columns)"
  by pat_completeness auto
termination
  by (relation "measure (\<lambda>(sep, cs, _). length cs)") (auto simp: at_separator_def Let_def)

definition parse_template_static :: "string \<Rightarrow> string \<Rightarrow> csv_template" where
  "parse_template_static template_str sep =
     (if trim template_str = [] then [] else template_loop sep (utf8_chars template_str) False [] [])"

definition csv_build :: "CsvNodeConfig \<Rightarrow> CsvNode" where
  "csv_build config =
     (let sep = replace_str [CHR 0x5C, CHR ''r''] [carriage_return] (replace_str [CHR 0x5C, CHR ''n''] [newline]
            (replace_str [CHR 0x5C, CHR ''t''] [CHR 0x09] (csv_sep config)));
          ret = replace_str [CHR 0x5C, CHR ''r''] [carriage_return] (replace_str [CHR 0x5C, CHR ''n''] [newline] (csv_ret config));
          ret1 = (if csv_spec config = CsvRfc \<and> ret = [newline] then [carriage_return, newline] else ret);
          config1 = config\<lparr>csv_sep := sep, csv_ret := ret1\<rparr> in
      \<lparr>cn_config = config1, cn_template = parse_template_static (csv_temp config1) sep\<rparr>)"

section \<open>Writing\<close>

text \<open>\<^verbatim>\<open>str::contains\<close>\<close>

definition contains_str :: "string \<Rightarrow> string \<Rightarrow> bool" where
  "contains_str s d \<longleftrightarrow> find_sub d s \<noteq> None"

fun csv_value_str :: "'n num_ops \<Rightarrow> ('n, 't, 'r) csv_ops \<Rightarrow> ('n, 't, 'r) Variant \<Rightarrow> string" where
  "csv_value_str N F Null = []"
| "csv_value_str N F (String s) = s"
| "csv_value_str N F (Number n) = num_to_string N n"
| "csv_value_str N F (Bool b) = show_bool b"
| "csv_value_str N F v = (case csv_to_json F v of Some s \<Rightarrow> s | None \<Rightarrow> [])"

definition quoted_field :: "string \<Rightarrow> string \<Rightarrow> string" where
  "quoted_field sep s =
     (if contains_str s sep \<or> contains_str s quote \<or> newline \<in> set s \<or> carriage_return \<in> set s
      then quote @ replace_str quote (quote @ quote) s @ quote else s)"

definition format_csv_field ::
    "'n num_ops \<Rightarrow> ('n, 't, 'r) csv_ops \<Rightarrow> CsvNodeConfig \<Rightarrow> ('n, 't, 'r) Variant \<Rightarrow> string" where
  "format_csv_field N F cfg v = quoted_field (csv_sep cfg) (csv_value_str N F v)"

definition format_csv_line ::
    "'n num_ops \<Rightarrow> ('n, 't, 'r) csv_ops \<Rightarrow> CsvNodeConfig \<Rightarrow> ('n, 't, 'r) Variant list \<Rightarrow> string" where
  "format_csv_line N F cfg values = join_with (csv_sep cfg) (map (format_csv_field N F cfg) values)"

definition object_template :: "('n, 't, 'r) VariantObjectMap \<Rightarrow> csv_template" where
  "object_template obj = map (\<lambda>(k, _). Some k) obj"

definition row_values :: "csv_template \<Rightarrow> ('n, 't, 'r) VariantObjectMap \<Rightarrow> ('n, 't, 'r) Variant list" where
  "row_values template obj =
     map (\<lambda>key_opt. case key_opt of
            Some key \<Rightarrow> (case map_of obj key of Some v \<Rightarrow> v | None \<Rightarrow> String [])
          | None \<Rightarrow> String []) template"

text \<open>The rows; the first object names the columns if nothing else has.\<close>

fun csv_rows ::
    "'n num_ops \<Rightarrow> ('n, 't, 'r) csv_ops \<Rightarrow> CsvNodeConfig \<Rightarrow> csv_template \<Rightarrow> ('n, 't, 'r) Variant list \<Rightarrow> string list" where
  "csv_rows N F cfg template [] = []"
| "csv_rows N F cfg template (item # items) =
     (case item of
        Array arr \<Rightarrow> format_csv_line N F cfg arr # csv_rows N F cfg template items
      | Object obj \<Rightarrow>
          let template1 = (if template = [] then object_template obj else template) in
          format_csv_line N F cfg (row_values template1 obj) # csv_rows N F cfg template1 items
      | _ \<Rightarrow> format_csv_line N F cfg [item] # csv_rows N F cfg template items)"

text \<open>The template, the header line if one is due and whether it counts as sent.\<close>

definition csv_header ::
    "'n num_ops \<Rightarrow> ('n, 't, 'r) csv_ops \<Rightarrow> CsvNodeConfig \<Rightarrow> csv_template \<Rightarrow> ('n, 't, 'r) Variant list
      \<Rightarrow> ('n, 't, 'r) CsvParseState \<Rightarrow> csv_template \<times> string list \<times> ('n, 't, 'r) CsvParseState" where
  "csv_header N F cfg template data_array st =
     (if csv_hdrout cfg \<noteq> HeaderNone \<and> \<not> cs_hdr_sent st then
        let template1 = (case data_array of
                           Object obj # _ \<Rightarrow> if template = [] then object_template obj else template
                         | _ \<Rightarrow> template) in
        if template1 = [] then (template1, [], st)
        else (template1,
              [format_csv_line N F cfg (map (\<lambda>s. String (case s of Some c \<Rightarrow> c | None \<Rightarrow> [])) template1)],
              if csv_hdrout cfg = HeaderOnce then st\<lparr>cs_hdr_sent := True\<rparr> else st)
      else (template, [], st))"

definition message_template :: "CsvNode \<Rightarrow> ('n, 't, 'r) Msg \<Rightarrow> csv_template" where
  "message_template node m =
     (if cn_template node = [] \<or> cn_template node = [None] then
        (case Option.bind (Msg_get ''columns'' m) as_str of
           Some columns \<Rightarrow> parse_template_static columns (csv_sep (cn_config node))
         | None \<Rightarrow> cn_template node)
      else cn_template node)"

definition objects_to_csv ::
    "'n num_ops \<Rightarrow> ('n, 't, 'r) csv_ops \<Rightarrow> CsvNode \<Rightarrow> ('n, 't, 'r) Msg \<Rightarrow> ('n, 't, 'r) CsvParseState
      \<Rightarrow> ('n, 't, 'r) CsvParseState \<times> (('n, 't, 'r) Variant, RustRedError) outcome" where
  "objects_to_csv N F node m st =
     (let rows = (\<lambda>data_array.
            case csv_header N F (cn_config node) (message_template node m) data_array st of
              (template, header, st1) \<Rightarrow>
                let csv_lines = header @ csv_rows N F (cn_config node) template data_array;
                    ret = csv_ret (cn_config node) in
                (st1, Ok (String (join_with ret csv_lines @ ret)))) in
      case Msg_get ''payload'' m of
        None \<Rightarrow> (st, Err (InvalidOperation ''No payload to convert''))
      | Some (Array arr) \<Rightarrow> rows arr
      | Some (Object obj) \<Rightarrow> rows [Object obj]
      | Some _ \<Rightarrow> (st, Err (InvalidOperation ''Payload must be object or array'')))"

section \<open>Reading\<close>

text \<open>
  \<^verbatim>\<open>str::lines\<close>: a carriage return before the end of a line belongs to that end, and the text
  after the last line feed is a line if there is any.
\<close>

definition strip_cr :: "string \<Rightarrow> string" where
  "strip_cr s = (if s \<noteq> [] \<and> last s = carriage_return then butlast s else s)"

definition str_lines :: "string \<Rightarrow> string list" where
  "str_lines s = (let ps = split_on newline s in map strip_cr (butlast ps) @ (if last ps = [] then [] else [last ps]))"

definition quote_count :: "string \<Rightarrow> nat" where
  "quote_count s = length (filter ((=) CHR 0x22) s)"

fun csv_lines_loop :: "string list \<Rightarrow> string \<Rightarrow> bool \<Rightarrow> string list" where
  "csv_lines_loop [] current_line in_quotes = (if current_line \<noteq> [] then [current_line] else [])"
| "csv_lines_loop (l # ls) current_line in_quotes =
     (let current_line1 = (if current_line \<noteq> [] then current_line @ [newline] else current_line) @ l;
          in_quotes1 = (if quote_count l mod 2 = 1 then \<not> in_quotes else in_quotes) in
      if \<not> in_quotes1 then current_line1 # csv_lines_loop ls [] in_quotes1
      else csv_lines_loop ls current_line1 in_quotes1)"

definition split_csv_lines :: "string \<Rightarrow> string list" where
  "split_csv_lines csv_string = csv_lines_loop (str_lines csv_string) [] False"

function csv_fields_loop :: "string \<Rightarrow> string list \<Rightarrow> bool \<Rightarrow> string \<Rightarrow> string list \<Rightarrow> string list" where
  "csv_fields_loop sep [] in_quotes current_field flds = flds @ [current_field]"
| "csv_fields_loop sep (c # cs) in_quotes current_field flds =
     (if c = quote then
        (if in_quotes \<and> cs \<noteq> [] \<and> hd cs = quote
         then csv_fields_loop sep (tl cs) in_quotes (current_field @ quote) flds
         else csv_fields_loop sep cs (\<not> in_quotes) current_field flds)
      else if c = sep \<and> \<not> in_quotes then csv_fields_loop sep cs in_quotes [] (flds @ [current_field])
      else csv_fields_loop sep cs in_quotes (current_field @ c) flds)"
  by pat_completeness auto
termination
  by (relation "measure (\<lambda>(sep, cs, _). length cs)") auto

definition parse_csv_line :: "CsvNodeConfig \<Rightarrow> string \<Rightarrow> string list" where
  "parse_csv_line cfg line = csv_fields_loop (csv_sep cfg) (utf8_chars line) False [] []"

text \<open>\<^verbatim>\<open>parse::<i64>\<close>\<close>

definition parse_i64 :: "string \<Rightarrow> int option" where
  "parse_i64 s =
     (case s of
        c # cs \<Rightarrow>
          if c = CHR ''-'' then
            (if cs = [] then None else map_option (\<lambda>n. - int n) (parse_digits (2 ^ 63 + 1) 0 cs))
          else map_option int (parse_unsigned (2 ^ 63) s)
      | [] \<Rightarrow> None)"

definition parse_field_value :: "('n, 't, 'r) csv_ops \<Rightarrow> CsvNodeConfig \<Rightarrow> string \<Rightarrow> ('n, 't, 'r) Variant" where
  "parse_field_value F cfg field =
     (let trimmed = trim field in
      if trimmed = [] then (if csv_include_empty_strings cfg = Some True then String [] else Null)
      else if csv_strings cfg then
        (case parse_i64 trimmed of
           Some i \<Rightarrow> Number (csv_from_i64 F i)
         | None \<Rightarrow> (case csv_parse_f64 F trimmed of Some n \<Rightarrow> Number n | None \<Rightarrow> String trimmed))
      else String trimmed)"

definition included :: "CsvNodeConfig \<Rightarrow> ('n, 't, 'r) Variant \<Rightarrow> bool" where
  "included cfg v =
     (case v of
        Null \<Rightarrow> csv_include_null_values cfg = Some True
      | String s \<Rightarrow> if s = [] then csv_include_empty_strings cfg = Some True else True
      | _ \<Rightarrow> True)"

fun row_object ::
    "('n, 't, 'r) csv_ops \<Rightarrow> CsvNodeConfig \<Rightarrow> csv_template \<Rightarrow> string list \<Rightarrow> ('n, 't, 'r) VariantObjectMap
      \<Rightarrow> ('n, 't, 'r) VariantObjectMap" where
  "row_object F cfg (col # template) (field_value # flds) obj =
     row_object F cfg template flds
       (case col of
          Some col_name \<Rightarrow>
            if col_name \<noteq> [] \<and> included cfg (parse_field_value F cfg field_value)
            then btree_insert col_name (parse_field_value F cfg field_value) obj else obj
        | None \<Rightarrow> obj)"
| "row_object F cfg _ _ obj = obj"

definition column_names :: "nat \<Rightarrow> csv_template" where
  "column_names n = map (\<lambda>i. Some (''col'' @ show_nat i)) [1..<Suc n]"

fun csv_objects ::
    "('n, 't, 'r) csv_ops \<Rightarrow> CsvNodeConfig \<Rightarrow> csv_template \<Rightarrow> string list \<Rightarrow> csv_template \<times> ('n, 't, 'r) Variant list" where
  "csv_objects F cfg template [] = (template, [])"
| "csv_objects F cfg template (line # lines) =
     (if trim line = [] then csv_objects F cfg template lines
      else
        let flds = parse_csv_line cfg line;
            template1 = (if template = [] then column_names (length flds) else template);
            obj = row_object F cfg template1 flds [] in
        case csv_objects F cfg template1 lines of
          (template2, objects) \<Rightarrow> (template2, if obj = [] then objects else Object obj # objects))"

text \<open>The lines that hold data, and the template the header gives.\<close>

definition csv_data_lines :: "CsvNode \<Rightarrow> string \<Rightarrow> csv_template \<times> string list" where
  "csv_data_lines node csv_string =
     (let cfg = cn_config node;
          lines = drop (case csv_skip cfg of Some n \<Rightarrow> n | None \<Rightarrow> 0) (split_csv_lines csv_string) in
      case lines of
        header_line # rest \<Rightarrow>
          if csv_hdrin cfg
          then (map (\<lambda>s. if s = [] then None else Some s) (parse_csv_line cfg header_line), rest)
          else (cn_template node, lines)
      | [] \<Rightarrow> (cn_template node, []))"

definition part_u64 :: "'n num_ops \<Rightarrow> ('n, 't, 'r) VariantObjectMap \<Rightarrow> string \<Rightarrow> u64 \<Rightarrow> u64" where
  "part_u64 N ps k dflt =
     (case Option.bind (Option.bind (map_of ps k) as_number) (num_as_u64 N) of Some w \<Rightarrow> w | None \<Rightarrow> dflt)"

text \<open>\<open>None\<close> stands for the null that tells the caller to wait for the rest of the sequence.\<close>

definition csv_collect ::
    "'n num_ops \<Rightarrow> ('n, 't, 'r) Msg \<Rightarrow> ('n, 't, 'r) Variant list \<Rightarrow> ('n, 't, 'r) CsvParseState
      \<Rightarrow> ('n, 't, 'r) CsvParseState \<times> ('n, 't, 'r) Variant list option" where
  "csv_collect N m objects st =
     (case (if has_parts m then parts m else None) of
        None \<Rightarrow> (st, Some objects)
      | Some ps \<Rightarrow>
          if part_u64 N ps ''index'' 0 + 1 < part_u64 N ps ''count'' 1
          then (st\<lparr>cs_store := cs_store st @ objects\<rparr>, None)
          else (st\<lparr>cs_store := []\<rparr>, Some (cs_store st @ objects)))"

definition csv_to_objects ::
    "'n num_ops \<Rightarrow> ('n, 't, 'r) csv_ops \<Rightarrow> CsvNode \<Rightarrow> ('n, 't, 'r) Msg \<Rightarrow> ('n, 't, 'r) CsvParseState
      \<Rightarrow> ('n, 't, 'r) CsvParseState \<times> (('n, 't, 'r) Variant \<times> string option, RustRedError) outcome" where
  "csv_to_objects N F node m st =
     (case Option.bind (Msg_get ''payload'' m) as_str of
        None \<Rightarrow> (st, Err (InvalidOperation ''Payload must be a string''))
      | Some csv_string \<Rightarrow>
          (case csv_data_lines node csv_string of (template0, lines) \<Rightarrow>
           case csv_objects F (cn_config node) template0 lines of (template, objects0) \<Rightarrow>
           case csv_collect N m objects0 st of
             (st1, None) \<Rightarrow> (st1, Ok (Null, None))
           | (st1, Some objects) \<Rightarrow>
               let columns_str = join_with '','' (map (\<lambda>c. case c of Some s \<Rightarrow> s | None \<Rightarrow> []) template);
                   result = (case csv_multi (cn_config node) of
                               CsvOne \<Rightarrow> (if length objects = 1 then hd objects else Array objects)
                             | CsvMult \<Rightarrow> Array objects) in
               (st1, Ok (result, if columns_str = [] then None else Some columns_str))))"

section \<open>The handler\<close>

definition set_columns ::
    "string option \<Rightarrow> ('n, 't, 'r) Msg \<Rightarrow> (('n, 't, 'r) Msg, RustRedError) outcome" where
  "set_columns columns m = (case columns of Some cols \<Rightarrow> Msg_set ''columns'' (String cols) m | None \<Rightarrow> Ok m)"

definition csv_sequence_parts ::
    "'n num_ops \<Rightarrow> string \<Rightarrow> nat \<Rightarrow> nat \<Rightarrow> ('n, 't, 'r) VariantObjectMap" where
  "csv_sequence_parts N msg_id n i =
     btree_insert ''count'' (Number (num_from_u64 N (of_nat n)))
       (btree_insert ''index'' (Number (num_from_u64 N (of_nat i)))
         (btree_insert ''id'' (String msg_id) []))"

definition csv_row_message ::
    "'n num_ops \<Rightarrow> string \<Rightarrow> string option \<Rightarrow> nat \<Rightarrow> ('n, 't, 'r) Msg \<Rightarrow> nat \<times> ('n, 't, 'r) Variant
      \<Rightarrow> (('n, 't, 'r) Msg, RustRedError) outcome" where
  "csv_row_message N msg_id columns n m row =
     (case row of (i, obj) \<Rightarrow>
        obind (Msg_set ''payload'' obj m) (\<lambda>m1.
          obind (set_columns columns m1) (\<lambda>m2.
            if has_parts m then Ok m2 else Msg_set ''parts'' (Object (csv_sequence_parts N msg_id n i)) m2)))"

definition csv_responses ::
    "'n num_ops \<Rightarrow> (string \<Rightarrow> u64) \<Rightarrow> CsvNodeConfig \<Rightarrow> ('n, 't, 'r) Msg \<Rightarrow> ('n, 't, 'r) Variant \<Rightarrow> string option
      \<Rightarrow> (('n, 't, 'r) Msg list, RustRedError) outcome" where
  "csv_responses N hash cfg m result columns =
     obind (Msg_id hash m) (\<lambda>mid.
       let msg_id = ElementId_to_string (case mid of Some i \<Rightarrow> i | None \<Rightarrow> 0);
           single = obind (Msg_set ''payload'' result m) (\<lambda>m1. obind (set_columns columns m1) (\<lambda>m2. Ok [m2])) in
       case result of
         Array objects \<Rightarrow>
           if csv_multi cfg = CsvOne
           then omap (csv_row_message N msg_id columns (length objects) m) (enumerate 0 objects)
           else single
       | _ \<Rightarrow> single)"

text \<open>One message: the new state and the messages handed to the output.\<close>

definition process_csv ::
    "'n num_ops \<Rightarrow> ('n, 't, 'r) csv_ops \<Rightarrow> (string \<Rightarrow> u64) \<Rightarrow> CsvNode \<Rightarrow> ('n, 't, 'r) Msg \<Rightarrow> ('n, 't, 'r) CsvParseState
      \<Rightarrow> ('n, 't, 'r) CsvParseState \<times> (('n, 't, 'r) Msg list, RustRedError) outcome" where
  "process_csv N F hash node m st =
     (if Msg_get ''reset'' m \<noteq> None then (st\<lparr>cs_hdr_sent := False, cs_store := []\<rparr>, Ok [m])
      else
        case Msg_get ''payload'' m of
          None \<Rightarrow> (st, Ok [m])
        | Some (String _) \<Rightarrow>
            (case csv_to_objects N F node m st of
               (st1, Ok (result, columns)) \<Rightarrow>
                 (st1, if result = Null then Ok [] else csv_responses N hash (cn_config node) m result columns)
             | (st1, Err e) \<Rightarrow> (st1, Ok [])
             | (st1, Panic) \<Rightarrow> (st1, Panic)
             | (st1, Diverge) \<Rightarrow> (st1, Diverge))
        | Some (Object _) \<Rightarrow>
            (case objects_to_csv N F node m st of
               (st1, r) \<Rightarrow> (st1, case r of Ok v \<Rightarrow> obind (Msg_set ''payload'' v m) (\<lambda>m1. Ok [m1]) | Err e \<Rightarrow> Ok [] | Panic \<Rightarrow> Panic | Diverge \<Rightarrow> Diverge))
        | Some (Array _) \<Rightarrow>
            (case objects_to_csv N F node m st of
               (st1, r) \<Rightarrow> (st1, case r of Ok v \<Rightarrow> obind (Msg_set ''payload'' v m) (\<lambda>m1. Ok [m1]) | Err e \<Rightarrow> Ok [] | Panic \<Rightarrow> Panic | Diverge \<Rightarrow> Diverge))
        | Some _ \<Rightarrow> (st, Ok []))"

end
