(* ===== verification/Utf8_Chars.thy ===== *)
theory Utf8_Chars
  imports Rust_Text "HOL-Library.Code_Target_Nat"
begin

text \<open>
  The characters of well-formed texts: they are found wherever the text is cut between two of
  them, and an ASCII byte is always a character of its own.
\<close>

section \<open>Characters of concatenated texts\<close>

text \<open>A text that does not begin in the middle of a character.\<close>

definition whole :: "string \<Rightarrow> bool" where
  "whole s \<longleftrightarrow> s = [] \<or> \<not> continues (hd s)"

lemma is_cont_bits: "(b :: u8) AND 192 = 128 \<longleftrightarrow> bit b 7 \<and> \<not> bit b 6"
proof
  assume "b AND 192 = 128"
  then have "bit (b AND 192) 7 = bit (128 :: u8) 7" "bit (b AND 192) 6 = bit (128 :: u8) 6" by simp_all
  then show "bit b 7 \<and> \<not> bit b 6" by (simp add: bit_simps)
next
  assume b: "bit b 7 \<and> \<not> bit b 6"
  show "b AND 192 = 128"
  proof (rule bit_word_eqI)
    fix n :: nat assume "n < LENGTH(8)"
    then have "n = 0 \<or> n = 1 \<or> n = 2 \<or> n = 3 \<or> n = 4 \<or> n = 5 \<or> n = 6 \<or> n = 7" by simp arith
    then show "bit (b AND 192) n = bit (128 :: u8) n" using b by (elim disjE) (simp_all add: bit_simps)
  qed
qed

lemma cont_bits_range: "bit (b :: u8) 7 \<and> \<not> bit b 6 \<longleftrightarrow> 128 \<le> unat b \<and> unat b < 192"
proof -
  have "bit b k \<longleftrightarrow> odd (unat b div 2 ^ k)" for k
  proof -
    have "bit (unat b) k \<longleftrightarrow> bit b k" by (simp add: bit_unsigned_iff)
    then show ?thesis by (simp add: bit_iff_odd [of "unat b"])
  qed
  from this [of 7] this [of 6] have "bit b 7 \<longleftrightarrow> odd (unat b div 128)" "bit b 6 \<longleftrightarrow> odd (unat b div 64)" by simp_all
  moreover have "unat b div 128 = unat b div 64 div 2" using div_mult2_eq [of "unat b" 64 2] by simp
  moreover have "unat b < 4 * 64" using unsigned_less [of b] by simp
  then have "unat b div 64 < 4" by (simp add: less_mult_imp_div_less)
  then have "unat b div 64 = 0 \<or> unat b div 64 = 1 \<or> unat b div 64 = 2 \<or> unat b div 64 = 3" by arith
  then have "odd (unat b div 64 div 2) \<and> even (unat b div 64) \<longleftrightarrow> unat b div 64 = 2" by auto
  moreover have "unat b div 64 = 2 \<longleftrightarrow> 128 \<le> unat b \<and> unat b < 192" by auto
  ultimately show ?thesis by simp
qed
lemma is_cont_continues: "is_cont (of_char c) \<longleftrightarrow> continues c"
  by (simp add: is_cont_def is_cont_bits cont_bits_range continues_def unat_of_char_u8)

lemma second_cont: "second3 b (of_char c) \<Longrightarrow> continues c" "second4 b (of_char c) \<Longrightarrow> continues c"
  by (auto simp: second3_def second4_def continues_def word_le_nat_alt unat_of_char_u8)

lemma byte_at_char: "byte_at (as_bytes cs) i = (if i < length cs then of_char (cs ! i) else 0)"
  by (simp add: byte_at_def as_bytes_def)

lemma second_zero [simp]: "\<not> is_cont 0" "\<not> second3 b 0" "\<not> second4 b 0"
  by (auto simp: is_cont_def second3_def second4_def)

text \<open>The first character of a well-formed text.\<close>

lemma utf8_scan_chars:
  assumes "utf8_scan (as_bytes (c # cs)) = (n, True)"
  shows "\<exists>ch rest. cs = ch @ rest \<and> n = Suc (length ch) \<and> list_all continues ch
    \<and> (ch = [] \<or> 0xC2 \<le> (of_char c :: nat)) \<and> \<not> continues c"
proof -
  let ?b = "of_char c :: u8" and ?bs = "as_bytes cs"
  have s: "utf8_scan (?b # ?bs) = (n, True)" using assms by (simp add: as_bytes_def)
  then have w: "utf8_char_width ?b \<noteq> 0" by (auto simp: Let_def split: if_splits)
  then have big: "?b < 128 \<or> 0xC2 \<le> ?b"
    by (auto simp: utf8_char_width_def word_le_nat_alt word_less_nat_alt split: if_splits)
  then have nc: "\<not> continues c" and c2: "\<not> ?b < 128 \<longrightarrow> 0xC2 \<le> (of_char c :: nat)"
    by (auto simp: continues_def word_le_nat_alt word_less_nat_alt unat_of_char_u8)
  have one: "?b < 128 \<longleftrightarrow> utf8_char_width ?b = 1" by (auto simp: utf8_char_width_def word_le_nat_alt word_less_nat_alt)
  have "n = 1 \<or> n = 2 \<and> 0 < length cs \<and> continues (cs ! 0) \<and> \<not> ?b < 128
      \<or> n = 3 \<and> 1 < length cs \<and> continues (cs ! 0) \<and> continues (cs ! 1) \<and> \<not> ?b < 128
      \<or> n = 4 \<and> 2 < length cs \<and> continues (cs ! 0) \<and> continues (cs ! 1) \<and> continues (cs ! 2) \<and> \<not> ?b < 128"
    using s unfolding one
    by (auto simp: Let_def byte_at_char is_cont_continues split: if_splits dest: second_cont)
  then have "\<exists>ch rest. cs = ch @ rest \<and> n = Suc (length ch) \<and> list_all continues ch \<and> (ch = [] \<or> \<not> ?b < 128)"
  proof (elim disjE)
    assume "n = 1"
    then show ?thesis by - (rule exI [of _ "[]"], rule exI [of _ cs], simp)
  next
    assume a: "n = 2 \<and> 0 < length cs \<and> continues (cs ! 0) \<and> \<not> ?b < 128"
    then obtain x zs where "cs = x # zs" by (cases cs) auto
    with a show ?thesis by - (rule exI [of _ "[x]"], auto)
  next
    assume a: "n = 3 \<and> 1 < length cs \<and> continues (cs ! 0) \<and> continues (cs ! 1) \<and> \<not> ?b < 128"
    then obtain x y zs where "cs = x # y # zs" by (cases cs rule: remdups_adj.cases) auto
    with a show ?thesis by - (rule exI [of _ "[x, y]"], auto)
  next
    assume a: "n = 4 \<and> 2 < length cs \<and> continues (cs ! 0) \<and> continues (cs ! 1) \<and> continues (cs ! 2) \<and> \<not> ?b < 128"
    then obtain x y z zs where "cs = x # y # z # zs" by (auto simp: numeral_2_eq_2 Suc_less_eq2 length_Suc_conv dest!: less_imp_Suc_add)
    with a show ?thesis by - (rule exI [of _ "[x, y, z]"], auto)
  qed
  with c2 nc show ?thesis by auto
qed

lemma utf8_string_whole: "utf8_string s \<Longrightarrow> whole s"
proof (cases s)
  case (Cons c cs)
  assume "utf8_string s"
  then obtain n where "utf8_scan (as_bytes (c # cs)) = (n, True)"
    unfolding utf8_string_def using valid_utf8.simps [of "as_bytes s"] Cons by (auto simp: as_bytes_def simp del: utf8_scan.simps split: prod.splits)
  from utf8_scan_chars [OF this] Cons show ?thesis by (auto simp: whole_def)
qed (simp add: whole_def)

text \<open>Every character is one byte below 128, or has none.\<close>

definition ascii_alone :: "string list \<Rightarrow> bool" where
  "ascii_alone chs \<longleftrightarrow> (\<forall>ch \<in> set chs. (\<exists>c. ch = [c]) \<or> (\<forall>c \<in> set ch. 128 \<le> (of_char c :: nat)))"

lemma utf8_string_chars: "utf8_string s \<Longrightarrow> ascii_alone (utf8_chars s)"
proof (induction "length s" arbitrary: s rule: less_induct)
  case less
  show ?case
  proof (cases s)
    case Nil
    then show ?thesis by (simp add: ascii_alone_def)
  next
    case (Cons c cs)
    then obtain n where n: "utf8_scan (as_bytes (c # cs)) = (n, True)" "valid_utf8 (drop n (as_bytes s))"
      using less.prems unfolding utf8_string_def using valid_utf8.simps [of "as_bytes s"]
      by (auto simp: as_bytes_def simp del: utf8_scan.simps split: prod.splits)
    from utf8_scan_chars [OF n(1)] obtain ch rest where r: "cs = ch @ rest" "n = Suc (length ch)"
      "list_all continues ch" "ch = [] \<or> 0xC2 \<le> (of_char c :: nat)" "\<not> continues c" by blast
    have rest: "utf8_string rest" using n(2) Cons r by (simp add: utf8_string_def as_bytes_def)
    then have "whole rest" by (rule utf8_string_whole)
    then have *: "takeWhile continues (ch @ rest) = ch" "dropWhile continues (ch @ rest) = rest"
      using r(3) by (cases rest; auto simp: whole_def list_all_iff takeWhile_append2 dropWhile_append2)+
    have "ascii_alone (utf8_chars rest)" using less.hyps [of rest] rest Cons r by simp
    then show ?thesis
      using Cons r * by (auto simp: ascii_alone_def list_all_iff continues_def)
  qed
qed

lemma utf8_chars_append: "whole t \<Longrightarrow> utf8_chars (s @ t) = utf8_chars s @ utf8_chars t"
proof (induction s rule: utf8_chars.induct)
  case (2 c cs)
  have "takeWhile continues (cs @ t) = takeWhile continues cs \<and> dropWhile continues (cs @ t) = dropWhile continues cs @ t"
  proof (cases "\<forall>x \<in> set cs. continues x")
    case True
    then have "takeWhile continues cs = cs" "dropWhile continues cs = []" by (simp_all add: takeWhile_eq_all_conv)
    moreover have "takeWhile continues t = []" "dropWhile continues t = t"
      using "2.prems" by (cases t; simp add: whole_def)+
    ultimately show ?thesis using True by (simp add: takeWhile_append2 dropWhile_append2 del: takeWhile_eq_all_conv)
  next
    case False
    then obtain x where "x \<in> set cs" "\<not> continues x" by blast
    then show ?thesis by (simp add: takeWhile_append1 dropWhile_append1)
  qed
  with 2 show ?case by simp
qed simp

lemma utf8_chars_single: "\<not> continues c \<Longrightarrow> utf8_chars (c # s) = [c] # utf8_chars s \<longleftrightarrow> whole s"
  by (cases s) (auto simp: whole_def)

lemma whole_Nil [simp]: "whole []" "\<not> continues c \<Longrightarrow> whole (c # s)"
  by (simp_all add: whole_def)

lemma whole_append: "whole s \<Longrightarrow> whole t \<Longrightarrow> whole (s @ t)"
  by (cases s) (simp_all add: whole_def)

end
