(* ===== verification/Csv_Correct.thy ===== *)
theory Csv_Correct
  imports Csv_Node Utf8_Chars Variant_Correct
begin

text \<open>
  The CSV node writes what it reads: every field, whatever separators, quotes and line ends it
  contains, is parsed back from the line it was written to, and a text of several lines is
  divided into those lines again. The exceptions: carriage returns within a field and
  separators of more than one character.
\<close>

lemma quote_not_continues [simp]: "\<not> continues CHR 0x22"
  by code_simp

lemma newline_not_continues [simp]: "\<not> continues CHR 0x0A"
  by code_simp

section \<open>Quoting\<close>

lemma find_sub_single: "find_sub [c] s = None \<longleftrightarrow> c \<notin> set s"
  by (induction s) auto

text \<open>Doubling every quote.\<close>

fun double_quotes :: "string \<Rightarrow> string" where
  "double_quotes [] = []"
| "double_quotes (c # cs) = (if c = CHR 0x22 then [CHR 0x22, CHR 0x22] else [c]) @ double_quotes cs"

lemma cut_parts_single: "(case cut_parts [c] s of (ps, r) \<Rightarrow> ps @ [r]) = split_on c s"
proof (induction s)
  case Nil
  then show ?case by (simp add: cut_parts.simps)
next
  case (Cons x s)
  show ?case
  proof (cases "x = c")
    case True
    then show ?thesis using Cons by (simp add: cut_parts.simps [of "[c]" "c # s"] split: prod.splits)
  next
    case False
    show ?thesis
    proof (cases "find_sub [c] s")
      case None
      with False Cons show ?thesis by (simp add: cut_parts.simps [of "[c]" "x # s"] cut_parts.simps [of "[c]" s] split: list.splits) (metis list.distinct(1) list.sel(1) list.sel(3))
    next
      case (Some n)
      with False Cons show ?thesis
        by (auto simp: cut_parts.simps [of "[c]" "x # s"] cut_parts.simps [of "[c]" s] split: prod.splits list.splits)
    qed
  qed
qed

lemma replace_quotes: "replace_str quote [CHR 0x22, CHR 0x22] s = double_quotes s"
proof -
  have "join_with [CHR 0x22, CHR 0x22] (split_on (CHR 0x22) s) = double_quotes s"
  proof (induction s)
    case (Cons x xs)
    obtain y ys where "split_on (CHR 0x22) xs = y # ys" by (rule split_on_obtain)
    with Cons show ?case by (cases ys) auto
  qed simp
  then show ?thesis by (simp add: replace_str_def split_str_def cut_parts_single)
qed

lemma whole_double_quotes: "whole s \<Longrightarrow> whole (double_quotes s)"
  by (cases s) (auto simp: whole_def)

section \<open>Reading a line that was written\<close>

text \<open>The effect of doubling on the characters.\<close>

definition double_chars :: "string list \<Rightarrow> string list" where
  "double_chars chs = concat (map (\<lambda>ch. if ch = quote then [quote, quote] else [ch]) chs)"

lemma double_quotes_append: "double_quotes (s @ t) = double_quotes s @ double_quotes t"
  by (induction s) auto

lemma double_quotes_other: "CHR 0x22 \<notin> set s \<Longrightarrow> double_quotes s = s"
  by (induction s) auto

lemma double_quotes_concat: "ascii_alone chs \<Longrightarrow> double_quotes (concat chs) = concat (double_chars chs)"
proof (induction chs)
  case (Cons ch chs)
  then have "ch = quote \<or> CHR 0x22 \<notin> set ch" by (fastforce simp: ascii_alone_def)
  with Cons show ?case by (auto simp: double_chars_def double_quotes_append double_quotes_other ascii_alone_def)
qed (simp add: double_chars_def)

lemma dropWhile_takeWhile_Nil: "dropWhile P (takeWhile P xs) = []"
  by (auto simp: dropWhile_eq_Nil_conv dest: set_takeWhileD)

lemma whole_char: "ch \<in> set (utf8_chars s) \<Longrightarrow> whole s \<Longrightarrow> utf8_chars ch = [ch] \<and> whole ch"
proof (induction s rule: utf8_chars.induct)
  case (2 c cs)
  have "whole (dropWhile continues cs)" unfolding whole_def using hd_dropWhile [of continues cs] by auto
  moreover have "utf8_chars (c # takeWhile continues cs) = [c # takeWhile continues cs]"
    using dropWhile_takeWhile_Nil [of continues cs] by (simp add: takeWhile_idem del: dropWhile_eq_Nil_conv)
  ultimately show ?case using 2 by (auto simp: whole_def)
qed simp

lemma utf8_chars_concat:
  "(\<And>ch. ch \<in> set chs \<Longrightarrow> utf8_chars ch = [ch] \<and> whole ch) \<Longrightarrow> utf8_chars (concat chs) = chs \<and> whole (concat chs)"
  by (induction chs) (auto simp: utf8_chars_append whole_append)

lemma utf8_chars_double:
  assumes "utf8_string s"
  shows "utf8_chars (double_quotes s) = double_chars (utf8_chars s)" "whole (double_quotes s)"
proof -
  have "double_quotes s = concat (double_chars (utf8_chars s))"
    using double_quotes_concat [OF utf8_string_chars [OF assms]] by simp
  moreover have "utf8_chars ch = [ch] \<and> whole ch" if "ch \<in> set (double_chars (utf8_chars s))" for ch
    using that whole_char [OF _ utf8_string_whole [OF assms]] by (auto simp: double_chars_def split: if_splits)
  ultimately show "utf8_chars (double_quotes s) = double_chars (utf8_chars s)" "whole (double_quotes s)"
    using utf8_chars_concat [of "double_chars (utf8_chars s)"] by simp_all
qed

lemma loop_plain:
  "quote \<notin> set chs \<Longrightarrow> sep \<notin> set chs \<Longrightarrow>
    csv_fields_loop sep (chs @ rest) False cur fs = csv_fields_loop sep rest False (cur @ concat chs) fs"
  by (induction chs arbitrary: cur) auto

lemma loop_quoted:
  "rest = [] \<or> hd rest \<noteq> quote \<Longrightarrow>
    csv_fields_loop sep (double_chars chs @ quote # rest) True cur fs = csv_fields_loop sep rest False (cur @ concat chs) fs"
proof (induction chs arbitrary: cur)
  case Nil
  then show ?case by (cases rest) (auto simp: double_chars_def)
next
  case (Cons ch chs)
  then show ?case by (auto simp: double_chars_def)
qed

lemma find_sub_exists: "find_sub d (xs @ d @ ys) \<noteq> None"
proof (induction xs)
  case Nil
  then show ?case by (cases "d @ ys") (auto simp del: append_eq_Cons_conv, metis append_eq_conv_conj)
qed simp

lemma contains_char: "ch \<in> set (utf8_chars s) \<Longrightarrow> contains_str s ch"
proof -
  assume "ch \<in> set (utf8_chars s)"
  then obtain xs ys where "utf8_chars s = xs @ ch # ys" by (meson split_list)
  then have "s = concat xs @ ch @ concat ys" using concat_utf8_chars [of s] by (metis concat.simps(2) concat_append)
  then show ?thesis using find_sub_exists [of ch "concat xs" "concat ys"] by (simp add: contains_str_def)
qed

text \<open>A separator that can separate: one character, and not the quote.\<close>

definition single_sep :: "string \<Rightarrow> bool" where
  "single_sep sep \<longleftrightarrow> utf8_chars sep = [sep] \<and> utf8_string sep \<and> sep \<noteq> quote"

lemma loop_field:
  assumes "utf8_string f" "single_sep sep" "rest = [] \<or> hd rest \<noteq> quote"
  shows "csv_fields_loop sep (utf8_chars (quoted_field sep f) @ rest) False [] fs = csv_fields_loop sep rest False f fs"
proof (cases "contains_str f sep \<or> contains_str f quote \<or> newline \<in> set f \<or> carriage_return \<in> set f")
  case True
  then have "utf8_chars (quoted_field sep f) = quote # double_chars (utf8_chars f) @ [quote]"
    using utf8_chars_double [OF assms(1)] utf8_chars_append [of "double_quotes f @ quote" quote] utf8_chars_append [of quote "double_quotes f"]
    by (simp add: quoted_field_def replace_quotes utf8_chars_append whole_append)
  then show ?thesis using loop_quoted [OF assms(3)] by simp
next
  case False
  then have "quote \<notin> set (utf8_chars f)" "sep \<notin> set (utf8_chars f)" using contains_char by blast+
  with False show ?thesis using loop_plain [of "utf8_chars f" sep rest "[]" fs] by (simp add: quoted_field_def)
qed

lemma sep_not_quote: "single_sep sep \<Longrightarrow> rest \<noteq> [] \<Longrightarrow> hd rest = sep \<Longrightarrow> hd rest \<noteq> quote"
  by (simp add: single_sep_def)

lemma whole_quoted: "utf8_string f \<Longrightarrow> whole (quoted_field sep f)"
  using utf8_string_whole [of f] by (simp add: quoted_field_def)

lemma whole_join:
  assumes "whole sep" "\<forall>f \<in> set fs. whole f"
  shows "whole (join_with sep fs)"
  using assms by (induction sep fs rule: join_with.induct) (auto intro: whole_append)

lemma loop_fields:
  assumes "single_sep sep" "\<forall>f \<in> set fs. utf8_string f" "fs \<noteq> []"
  shows "csv_fields_loop sep (utf8_chars (join_with sep (map (quoted_field sep) fs))) False [] acc = acc @ fs"
  using assms(2,3)
proof (induction fs arbitrary: acc rule: induct_list012)
  case (2 f)
  then show ?case using loop_field [OF _ assms(1), of f "[]" acc] by simp
next
  case (3 f g fs)
  have w: "whole (join_with sep (map (quoted_field sep) (g # fs)))" "whole sep"
    using 3 assms(1) by (auto simp: single_sep_def whole_quoted utf8_string_whole intro!: whole_join)
  let ?rest = "utf8_chars (join_with sep (map (quoted_field sep) (g # fs)))"
  have "utf8_chars (join_with sep (map (quoted_field sep) (f # g # fs))) = utf8_chars (quoted_field sep f) @ sep # ?rest"
    using w assms(1) by (simp add: utf8_chars_append whole_append single_sep_def)
  moreover have "csv_fields_loop sep (utf8_chars (quoted_field sep f) @ sep # ?rest) False [] acc =
      csv_fields_loop sep (sep # ?rest) False f acc"
    using 3 assms(1) by (intro loop_field) (auto simp: single_sep_def)
  ultimately show ?case using 3 assms(1) by (simp add: single_sep_def)
qed simp

section \<open>Lines\<close>

text \<open>Quotes are closed at the end and every line feed is within quotes.\<close>

fun well_quoted :: "bool \<Rightarrow> string \<Rightarrow> bool" where
  "well_quoted q [] = (\<not> q)"
| "well_quoted q (c # cs) =
     (if c = CHR 0x22 then well_quoted (\<not> q) cs else if c = newline then q \<and> well_quoted q cs else well_quoted q cs)"

lemma well_quoted_plain:
  "CHR 0x22 \<notin> set s \<Longrightarrow> newline \<notin> set s \<Longrightarrow> well_quoted q (s @ t) = well_quoted q t"
  by (induction s) auto

lemma well_quoted_inside: "well_quoted True (double_quotes s @ t) = well_quoted True t"
  by (induction s) auto

lemma well_quoted_field: "well_quoted False (quoted_field sep f @ t) = well_quoted False t"
proof (cases "contains_str f sep \<or> contains_str f quote \<or> newline \<in> set f \<or> carriage_return \<in> set f")
  case True
  then show ?thesis by (simp add: quoted_field_def replace_quotes well_quoted_inside)
next
  case False
  then show ?thesis by (simp add: quoted_field_def contains_str_def find_sub_single well_quoted_plain)
qed

lemma quote_count_simps [simp]:
  "quote_count [] = 0" "quote_count (c # s) = (if c = CHR 0x22 then Suc (quote_count s) else quote_count s)"
  by (auto simp: quote_count_def)

lemma well_quoted_piece:
  "newline \<notin> set p \<Longrightarrow> well_quoted q (p @ t) = well_quoted (if quote_count p mod 2 = 1 then \<not> q else q) t"
  by (induction p arbitrary: q) (auto simp: mod_Suc split: if_splits)

lemma quote_count_pos: "quote_count p \<noteq> 0 \<Longrightarrow> p \<noteq> []"
  by (cases p) auto

lemma lines_loop_one:
  assumes "well_quoted q l" "cur \<noteq> [] \<longleftrightarrow> q"
  shows "csv_lines_loop (split_on newline l @ ls) cur q =
    ((if cur \<noteq> [] then cur @ [newline] else []) @ l) # csv_lines_loop ls [] False"
proof -
  have "csv_lines_loop (ps @ ls) cur q =
      ((if cur \<noteq> [] then cur @ [newline] else []) @ join_with [newline] ps) # csv_lines_loop ls [] False"
    if "well_quoted q (join_with [newline] ps)" "cur \<noteq> [] \<longleftrightarrow> q" "ps \<noteq> []" "\<forall>p \<in> set ps. newline \<notin> set p" for ps q cur
    using that
  proof (induction ps arbitrary: q cur rule: induct_list012)
    case (2 p)
    then have "\<not> (if quote_count p mod 2 = 1 then \<not> q else q)" using well_quoted_piece [of p q "[]"] by simp
    then show ?case by (auto simp: Let_def split: if_splits)
  next
    case (3 p p' ps)
    let ?q = "if quote_count p mod 2 = 1 then \<not> q else q"
    have q: "?q" "well_quoted ?q (join_with [newline] (p' # ps))"
      using 3 well_quoted_piece [of p q "newline # join_with [newline] (p' # ps)"] by (auto split: if_splits)
    let ?cur = "(if cur \<noteq> [] then cur @ [newline] else cur) @ p"
    have "?cur \<noteq> []" using q(1) "3.prems"(2) quote_count_pos [of p] by (auto split: if_splits)
    with "3.IH"(2) [of ?q ?cur] q "3.prems" show ?case by (auto simp: Let_def)
  qed simp
  from this [of q "split_on newline l" cur] show ?thesis
    using assms by (simp add: join_split_on split_on_sep_free)
qed

lemma lines_loop_all:
  "\<forall>l \<in> set ls. well_quoted False l \<Longrightarrow> csv_lines_loop (concat (map (split_on newline) ls)) [] False = ls"
  by (induction ls) (simp_all add: lines_loop_one)

lemma split_on_cut: "split_on c (a @ c # b) = split_on c a @ split_on c b"
proof (induction a)
  case (Cons x a)
  then show ?case by (cases "split_on c a") auto
qed simp

lemma split_on_snoc: "x \<noteq> c \<Longrightarrow> split_on c (a @ [x]) = butlast (split_on c a) @ [last (split_on c a) @ [x]]"
proof (induction a)
  case (Cons y a)
  obtain z zs where "split_on c a = z # zs" by (rule split_on_obtain)
  with Cons show ?case by (cases zs) auto
qed simp

lemma set_split_on: "p \<in> set (split_on c s) \<Longrightarrow> set p \<subseteq> set s"
proof (induction s arbitrary: p)
  case (Cons x s)
  obtain z zs where z: "split_on c s = z # zs" by (rule split_on_obtain)
  then have "set z \<subseteq> set s" "\<forall>p \<in> set zs. set p \<subseteq> set s" using Cons.IH by auto
  with Cons.prems z show ?case by (fastforce split: if_splits)
qed simp

definition line_end :: "string \<Rightarrow> bool" where
  "line_end ret \<longleftrightarrow> ret = [newline] \<or> ret = [carriage_return, newline]"

lemma strip_cr_free: "carriage_return \<notin> set s \<Longrightarrow> strip_cr s = s"
  by (metis last_in_set strip_cr_def)

lemma strip_pieces:
  assumes "carriage_return \<notin> set l" "e = [] \<or> e = [carriage_return]"
  shows "map strip_cr (split_on newline (l @ e)) = split_on newline l"
proof -
  have *: "map strip_cr ps = ps" if "set ps \<subseteq> set (split_on newline l)" for ps
    using that assms(1) set_split_on [of _ newline l] by (intro map_idI strip_cr_free) blast
  show ?thesis
  proof (cases "e = []")
    case True
    then show ?thesis by (simp add: *)
  next
    case False
    with assms(2) have e: "e = [carriage_return]" by simp
    have "map strip_cr (butlast (split_on newline l)) = butlast (split_on newline l)" by (intro * subsetI) (rule in_set_butlastD)
    moreover have "strip_cr (last (split_on newline l) @ [carriage_return]) = last (split_on newline l)" by (simp add: strip_cr_def)
    ultimately show ?thesis using e by (simp add: split_on_snoc)
  qed
qed

lemma str_lines_joined:
  assumes "line_end ret" "\<forall>l \<in> set ls. carriage_return \<notin> set l" "ls \<noteq> []"
  shows "str_lines (join_with ret ls @ ret) = concat (map (split_on newline) ls)"
proof -
  obtain e where e: "ret = e @ [newline]" "e = [] \<or> e = [carriage_return]" using assms(1) by (auto simp: line_end_def)
  have "split_on newline (join_with ret ls @ ret) = concat (map (\<lambda>l. split_on newline (l @ e)) ls) @ [[]]"
    using assms(3)
  proof (induction ls rule: induct_list012)
    case (2 l)
    then show ?case using split_on_cut [of newline "l @ e" "[]"] e(1) by simp
  next
    case (3 l l' ls)
    then show ?case using split_on_cut [of newline "l @ e" "join_with ret (l' # ls) @ ret"] e(1) by simp
  qed simp
  then have "str_lines (join_with ret ls @ ret) = concat (map (\<lambda>l. map strip_cr (split_on newline (l @ e))) ls)"
    by (simp add: str_lines_def map_concat comp_def)
  also have "\<dots> = concat (map (split_on newline) ls)"
    by (intro arg_cong [where f = concat] map_cong refl strip_pieces [OF _ e(2)]) (use assms(2) in blast)
  finally show ?thesis .
qed

section \<open>Documents\<close>

text \<open>What can be written and read again: texts without a carriage return.\<close>

definition csv_text :: "string \<Rightarrow> bool" where
  "csv_text f \<longleftrightarrow> utf8_string f \<and> carriage_return \<notin> set f"

definition csv_separator :: "string \<Rightarrow> bool" where
  "csv_separator sep \<longleftrightarrow> single_sep sep \<and> newline \<notin> set sep \<and> carriage_return \<notin> set sep \<and> CHR 0x22 \<notin> set sep"

lemma set_double_quotes: "set (double_quotes s) = set s"
  by (induction s) auto

lemma cr_field: "csv_text f \<Longrightarrow> carriage_return \<notin> set (quoted_field sep f)"
  by (simp add: quoted_field_def csv_text_def replace_quotes set_double_quotes)

lemma cr_line: "csv_separator sep \<Longrightarrow> \<forall>f \<in> set fs. csv_text f \<Longrightarrow> carriage_return \<notin> set (join_with sep (map (quoted_field sep) fs))"
  by (induction fs rule: induct_list012) (simp_all add: csv_separator_def cr_field)

lemma well_quoted_line:
  assumes "csv_separator sep"
  shows "well_quoted False (join_with sep (map (quoted_field sep) fs))"
proof (induction fs rule: induct_list012)
  case (2 f)
  show ?case using well_quoted_field [of sep f "[]"] by simp
next
  case (3 f g fs)
  then show ?case using assms by (simp add: well_quoted_field well_quoted_plain csv_separator_def)
qed simp

lemma format_texts: "format_csv_line N F cfg (map String fs) = join_with (csv_sep cfg) (map (quoted_field (csv_sep cfg)) fs)"
  by (simp add: format_csv_line_def format_csv_field_def comp_def)

lemma csv_rows_arrays: "csv_rows N F cfg template (map Array rows) = map (format_csv_line N F cfg) rows"
  by (induction rows) auto

text \<open>
  C16. A table of texts is written to a document from which exactly that table is read: every line
  is found again although fields may contain line feeds, and every field of every line although
  fields may contain separators and quotes, or be empty. The separator is one character, line
  ends are those of Unix or RFC 4180, and no field contains a carriage return.
\<close>

theorem csv_document_roundtrip:
  fixes m :: "('n, 't, 'r) Msg"
  assumes "csv_separator (csv_sep (cn_config node))" "line_end (csv_ret (cn_config node))" "csv_hdrout (cn_config node) = HeaderNone"
    and rows: "rows \<noteq> []" "\<forall>row \<in> set rows. row \<noteq> [] \<and> (\<forall>f \<in> set row. csv_text f)"
    and "Msg_get ''payload'' m = Some (Array (map (\<lambda>row. Array (map String row)) rows))"
  shows "\<exists>document. objects_to_csv N F node m st = (st, Ok (String document))
    \<and> map (parse_csv_line (cn_config node)) (split_csv_lines document) = rows"
proof -
  let ?cfg = "cn_config node" and ?sep = "csv_sep (cn_config node)" and ?ret = "csv_ret (cn_config node)"
  let ?line = "\<lambda>row. join_with ?sep (map (quoted_field ?sep) row)"
  have "csv_rows N F ?cfg template (map (\<lambda>row. Array (map String row)) rows) = map ?line rows" for template
    using csv_rows_arrays [of N F ?cfg template "map (map String) rows"] by (simp add: comp_def format_texts)
  then have "objects_to_csv N F node m st = (st, Ok (String (join_with ?ret (map ?line rows) @ ?ret)))"
    using assms(3,6) by (simp add: objects_to_csv_def csv_header_def Let_def)
  moreover have "str_lines (join_with ?ret (map ?line rows) @ ?ret) = concat (map (split_on newline) (map ?line rows))"
    using rows cr_line [OF assms(1)] by (intro str_lines_joined assms(2)) auto
  then have "split_csv_lines (join_with ?ret (map ?line rows) @ ?ret) = map ?line rows"
    using lines_loop_all [of "map ?line rows"] well_quoted_line [OF assms(1)] by (simp add: split_csv_lines_def)
  moreover have "parse_csv_line ?cfg (?line row) = row" if "row \<in> set rows" for row
    using loop_fields [of ?sep row "[]"] assms(1) rows that by (simp add: parse_csv_line_def csv_separator_def csv_text_def)
  ultimately show ?thesis by (simp add: map_idI)
qed

definition demo_csv :: CsvNode where
  "demo_csv = csv_build \<lparr>csv_temp = [], csv_sep = '','', csv_ret = [CHR 0x5C, CHR ''n''], csv_multi = CsvOne, csv_hdrin = False,
     csv_hdrout = HeaderNone, csv_skip = None, csv_strings = True, csv_include_empty_strings = None,
     csv_include_null_values = None, csv_spec = CsvRfc\<rparr>"

lemma demo_csv_config:
  "csv_sep (cn_config demo_csv) = '',''" "csv_ret (cn_config demo_csv) = [carriage_return, newline]"
  "csv_hdrout (cn_config demo_csv) = HeaderNone"
  by code_simp+

definition demo_csv_ops :: "(int, nat, nat) csv_ops" where
  "demo_csv_ops = \<lparr>csv_from_i64 = (\<lambda>i. i), csv_parse_f64 = (\<lambda>_. None), csv_to_json = (\<lambda>_. None)\<rparr>"

theorem csv_document_roundtrip_witness:
  "\<exists>document. objects_to_csv int_num demo_csv_ops demo_csv
      \<lparr>msg_body = Object [(''payload'', Array [Array [String ''a,b'', String []], Array [String [CHR 0x22, newline]]])],
        link_call_stack = None\<rparr> CsvParseState_default = (CsvParseState_default, Ok (String document))
    \<and> map (parse_csv_line (cn_config demo_csv)) (split_csv_lines document) = [[''a,b'', []], [[CHR 0x22, newline]]]"
proof -
  have t: "csv_text ''a,b''" "csv_text []" "csv_text [CHR 0x22, newline]" "csv_separator '',''" by code_simp+
  have "Msg_get ''payload'' \<lparr>msg_body = Object [(''payload'', Array [Array [String ''a,b'', String []], Array [String [CHR 0x22, newline]]])],
      link_call_stack = None\<rparr> = Some (Array (map (\<lambda>row. Array (map String row)) [[''a,b'', []], [[CHR 0x22, newline]]]))"
    by (simp add: Msg_get_def)
  from csv_document_roundtrip [OF _ _ demo_csv_config(3) _ _ this, of int_num demo_csv_ops CsvParseState_default] show ?thesis
    using t by (simp add: demo_csv_config line_end_def)
qed

lemma loop_no_separator:
  "sep \<notin> set chs \<Longrightarrow> length (csv_fields_loop sep chs q cur fs) = Suc (length fs)"
proof (induction sep chs q cur fs rule: csv_fields_loop.induct)
  case (2 sep c cs q cur fs)
  then have "sep \<notin> set cs" "sep \<notin> set (tl cs)" by (cases cs; simp)+
  with 2 show ?case by simp
qed simp

text \<open>
  A separator of more than one character is written between fields and recognised in
  templates, but a line is never divided at it: whatever it contains, it is one field.
\<close>

theorem long_separator_ignored:
  assumes "utf8_string line" "length (utf8_chars (csv_sep cfg)) \<noteq> 1"
  shows "length (parse_csv_line cfg line) = 1"
proof -
  have "csv_sep cfg \<notin> set (utf8_chars line)"
    using assms whole_char [OF _ utf8_string_whole [OF assms(1)], of "csv_sep cfg"] by auto
  then show ?thesis by (simp add: parse_csv_line_def loop_no_separator)
qed

theorem long_separator_ignored_witness:
  "length (parse_csv_line (cn_config (csv_build \<lparr>csv_temp = [], csv_sep = ''||'', csv_ret = [newline], csv_multi = CsvOne,
     csv_hdrin = False, csv_hdrout = HeaderNone, csv_skip = None, csv_strings = True, csv_include_empty_strings = None,
     csv_include_null_values = None, csv_spec = CsvLegacy\<rparr>)) ''a||b'') = 1"
  by (rule long_separator_ignored) code_simp+

end
