(* ===== verification/Propex.thy ===== *)
theory Propex
  imports Variant Rust_Text
begin

text \<open>
  Property expressions (\<^verbatim>\<open>runtime/model/propex.rs\<close> with \<^verbatim>\<open>text/nom_parsers.rs\<close>): the parser that
  turns \<^verbatim>\<open>payload.items[0]['name']\<close> into path segments, and their text form.

  A parser takes a text to a value and the rest of the text, or fails; the combinators are
  those of \<^verbatim>\<open>nom\<close>, with backtracking alternatives and greedy repetition. The nesting of square
  brackets is followed to the depth given as fuel; the length of the text is enough, and the
  result is the same for every greater depth.
\<close>

section \<open>Combinators\<close>

type_synonym 'a parser = "string \<Rightarrow> ('a \<times> string) option"

definition multispace0 :: "string \<Rightarrow> string" where
  "multispace0 s = dropWhile (\<lambda>c. c \<in> {CHR 0x20, CHR 0x09, CHR 0x0D, CHR 0x0A}) s"

fun pchar :: "char \<Rightarrow> unit parser" where
  "pchar c [] = None"
| "pchar c (x # xs) = (if x = c then Some ((), xs) else None)"

definition pthen :: "'a parser \<Rightarrow> ('a \<Rightarrow> 'b parser) \<Rightarrow> 'b parser" where
  "pthen p f s = Option.bind (p s) (\<lambda>(x, r). f x r)"

definition preturn :: "'a \<Rightarrow> 'a parser" where
  "preturn x s = Some (x, s)"

definition token :: "'a parser \<Rightarrow> 'a parser" where
  "token p s = map_option (\<lambda>(x, r). (x, multispace0 r)) (p (multispace0 s))"

fun alt :: "'a parser list \<Rightarrow> 'a parser" where
  "alt [] s = None"
| "alt (p # ps) s = (case p s of None \<Rightarrow> alt ps s | Some r \<Rightarrow> Some r)"

text \<open>
  \<^verbatim>\<open>many0\<close> collects values until its parser fails. A parser that succeeds without consuming, for
  which \<^verbatim>\<open>nom\<close> reports an error, does not occur here: every parser it is given consumes.
\<close>

function many0 :: "'a parser \<Rightarrow> string \<Rightarrow> 'a list \<times> string" where
  "many0 p s =
     (case p s of
        None \<Rightarrow> ([], s)
      | Some (x, r) \<Rightarrow> if length r < length s then (case many0 p r of (xs, r') \<Rightarrow> (x # xs, r')) else ([], s))"
  by pat_completeness auto
termination by (relation "measure (\<lambda>(p, s). length s)") auto

declare many0.simps [simp del]

section \<open>The grammar\<close>

definition ascii_alpha :: "char \<Rightarrow> bool" where
  "ascii_alpha c \<longleftrightarrow> (let n = of_char c :: nat in 65 \<le> n \<and> n \<le> 90 \<or> 97 \<le> n \<and> n \<le> 122)"

definition ident_char :: "char \<Rightarrow> bool" where
  "ident_char c \<longleftrightarrow> ascii_alpha c \<or> is_digit c \<or> c = CHR ''_''"

definition ident_start :: "char \<Rightarrow> bool" where
  "ident_start c \<longleftrightarrow> c = CHR ''$'' \<or> ascii_alpha c \<or> c = CHR ''_''"

fun js_identifier :: "string parser" where
  "js_identifier [] = None"
| "js_identifier (c # cs) = (if ident_start c then Some (c # takeWhile ident_char cs, dropWhile ident_char cs) else None)"

definition parse_usize :: "nat parser" where
  "parse_usize s =
     (if takeWhile is_digit s = [] then None
      else map_option (\<lambda>n. (n, dropWhile is_digit s)) (parse_unsigned (2 ^ 64) (takeWhile is_digit s)))"

fun string_literal :: "string parser" where
  "string_literal [] = None"
| "string_literal (q # s) =
     (if q \<noteq> CHR 0x22 \<and> q \<noteq> CHR 0x27 then None
      else if takeWhile (\<lambda>c. c \<noteq> q) s = [] then None
      else pthen (pchar q) (\<lambda>_. preturn (takeWhile (\<lambda>c. c \<noteq> q) s)) (dropWhile (\<lambda>c. c \<noteq> q) s))"

definition first_direct_property :: "PropexSegment parser" where
  "first_direct_property = pthen js_identifier (\<lambda>p. preturn (Property p))"

definition first_string_literal_property :: "PropexSegment parser" where
  "first_string_literal_property = pthen (token string_literal) (\<lambda>p. preturn (Property p))"

definition quoted_index_property :: "PropexSegment parser" where
  "quoted_index_property =
     pthen (token (pchar CHR ''['')) (\<lambda>_. pthen string_literal (\<lambda>p. pthen (token (pchar CHR '']'')) (\<lambda>_. preturn (Property p))))"

definition direct_identifier_property :: "PropexSegment parser" where
  "direct_identifier_property = pthen (pchar CHR ''.'') (\<lambda>_. pthen js_identifier (\<lambda>p. preturn (Property p)))"

definition direct_numbers_index :: "PropexSegment parser" where
  "direct_numbers_index = pthen (token (pchar CHR ''.'')) (\<lambda>_. pthen (token parse_usize) (\<lambda>i. preturn (Index i)))"

definition bracket_index :: "PropexSegment parser" where
  "bracket_index =
     pthen (token (pchar CHR ''['')) (\<lambda>_. pthen (token parse_usize) (\<lambda>i. pthen (token (pchar CHR '']'')) (\<lambda>_. preturn (Index i))))"

text \<open>\<^verbatim>\<open>nested\<close>, for the parser \<open>sub\<close> of the segments within.\<close>

definition nested :: "PropexSegment parser \<Rightarrow> PropexSegment parser" where
  "nested sub =
     pthen (token (pchar CHR ''['')) (\<lambda>_. pthen first_direct_property (\<lambda>first s.
       case many0 sub s of
         ([], _) \<Rightarrow> None
       | (rest, r) \<Rightarrow> pthen (token (pchar CHR '']'')) (\<lambda>_. preturn (Nested (first # rest))) r))"

fun subproperty :: "nat \<Rightarrow> PropexSegment parser" where
  "subproperty 0 s = None"
| "subproperty (Suc n) s =
     alt [direct_identifier_property, direct_numbers_index, quoted_index_property, bracket_index, nested (subproperty n)] s"

definition first_property :: "PropexSegment parser" where
  "first_property s =
     alt [first_direct_property, first_string_literal_property, quoted_index_property, nested (subproperty (length s))] s"

definition expression :: "string \<Rightarrow> PropexSegment list option" where
  "expression s =
     (case first_property s of
        None \<Rightarrow> None
      | Some (first, r) \<Rightarrow> (case many0 (subproperty (length r)) r of (rest, r') \<Rightarrow> if r' = [] then Some (first # rest) else None))"

definition propex_parse :: propex_parser where
  "propex_parse expr = (if expr = [] then None else expression expr)"

text \<open>\<^verbatim>\<open>Display\<close> of a segment.\<close>

fun show_segment :: "PropexSegment \<Rightarrow> string" where
  "show_segment (Index i) = ''['' @ show_nat i @ '']''"
| "show_segment (Property s) = [CHR ''['', CHR 0x22] @ s @ [CHR 0x22, CHR '']'']"
| "show_segment (Nested n) = ''['' @ concat (map show_segment n) @ '']''"

section \<open>The depth does not matter\<close>

text \<open>A parser that leaves less than it was given.\<close>

definition consumes :: "'a parser \<Rightarrow> bool" where
  "consumes p \<longleftrightarrow> (\<forall>s x r. p s = Some (x, r) \<longrightarrow> length r < length s)"

definition shrinks :: "'a parser \<Rightarrow> bool" where
  "shrinks p \<longleftrightarrow> (\<forall>s x r. p s = Some (x, r) \<longrightarrow> length r \<le> length s)"

lemma length_multispace0: "length (multispace0 s) \<le> length s"
  by (simp add: multispace0_def length_dropWhile_le)

lemma consumes_shrinks: "consumes p \<Longrightarrow> shrinks p"
  by (auto simp: consumes_def shrinks_def less_imp_le)

lemma shrinks_return [simp]: "shrinks (preturn x)"
  by (simp add: shrinks_def preturn_def)

lemma shrinks_then: "shrinks p \<Longrightarrow> (\<And>x. shrinks (f x)) \<Longrightarrow> shrinks (pthen p f)"
  unfolding shrinks_def pthen_def by (fastforce simp: bind_eq_Some_conv)

lemma consumes_then: "consumes p \<Longrightarrow> (\<And>x. shrinks (f x)) \<Longrightarrow> consumes (pthen p f)"
  unfolding shrinks_def consumes_def pthen_def by (fastforce simp: bind_eq_Some_conv)

lemma consumes_token: "consumes p \<Longrightarrow> consumes (token p)"
  unfolding consumes_def token_def
  by clarsimp (meson le_less_trans length_multispace0 less_le_trans)

lemma consumes_char: "consumes (pchar c)"
  by (auto simp: consumes_def elim!: pchar.elims split: if_splits)

lemma consumes_usize: "consumes parse_usize"
  unfolding consumes_def
proof (intro allI impI)
  fix s x r
  assume "parse_usize s = Some (x, r)"
  then have "takeWhile is_digit s \<noteq> []" "r = dropWhile is_digit s" by (auto simp: parse_usize_def split: if_splits)
  then show "length r < length s" by (metis length_append length_greater_0_conv less_add_same_cancel2 takeWhile_dropWhile_id)
qed

lemma consumes_identifier: "consumes js_identifier"
  unfolding consumes_def
proof (intro allI impI)
  fix s x r
  assume "js_identifier s = Some (x, r)"
  then show "length r < length s" by (cases s) (auto simp: less_Suc_eq_le length_dropWhile_le split: if_splits)
qed

lemmas consumption = consumes_then consumes_token consumes_char consumes_usize consumes_identifier shrinks_then consumes_shrinks

lemma consumes_literal: "consumes string_literal"
  unfolding consumes_def
proof (intro allI impI)
  fix s x r
  assume a: "string_literal s = Some (x, r)"
  then obtain q t where s: "s = q # t" by (cases s) auto
  define d where "d = dropWhile (\<lambda>c. c \<noteq> q) t"
  have "pthen (pchar q) (\<lambda>_. preturn (takeWhile (\<lambda>c. c \<noteq> q) t)) d = Some (x, r)"
    using a unfolding s d_def string_literal.simps by (simp only: option.distinct split: if_splits)
  then have "d = q # r" by (cases d) (simp_all add: pthen_def preturn_def split: if_splits)
  then show "length r < length s" using s length_dropWhile_le [of "\<lambda>c. c \<noteq> q" t] by (simp add: d_def)
qed

lemma many0_length: "many0 p s = (xs, r) \<Longrightarrow> length r \<le> length s"
proof (induction p s arbitrary: xs r rule: many0.induct)
  case (1 p s)
  show ?case
  proof (cases "p s")
    case None
    with "1.prems" show ?thesis by (simp add: many0.simps [of p s])
  next
    case (Some a)
    obtain x t where a: "a = (x, t)" by fastforce
    obtain ys r' where m: "many0 p t = (ys, r')" by fastforce
    show ?thesis
      using "1.prems" "1.IH" [OF Some a [symmetric] _ m] Some a m by (auto simp: many0.simps [of p s] split: if_splits)
  qed
qed

lemma many0_cong: "(\<And>t. length t \<le> length s \<Longrightarrow> p t = q t) \<Longrightarrow> many0 p s = many0 q s"
proof (induction p s arbitrary: q rule: many0.induct)
  case (1 p s)
  have "p s = q s" using "1.prems" by simp
  show ?case
  proof (cases "q s")
    case None
    with \<open>p s = q s\<close> show ?thesis by (simp add: many0.simps [of _ s])
  next
    case (Some a)
    obtain x t where a: "a = (x, t)" by fastforce
    show ?thesis
    proof (cases "length t < length s")
      case True
      have "many0 p t = many0 q t"
        by (rule "1.IH" [of a x t]) (use True Some a \<open>p s = q s\<close> in simp_all, rule "1.prems", simp)
      with True Some a \<open>p s = q s\<close> show ?thesis by (simp add: many0.simps [of _ s])
    next
      case False
      with Some a \<open>p s = q s\<close> show ?thesis by (simp add: many0.simps [of _ s])
    qed
  qed
qed

lemma nested_cong:
  assumes "\<And>t :: string. length t < length s \<Longrightarrow> p t = q t"
  shows "nested p s = nested q s"
proof -
  have "many0 p r' = many0 q r'" if "token (pchar CHR ''['') s = Some (u, r)" "first_direct_property r = Some (x, r')" for u r x r'
  proof (rule many0_cong)
    fix t :: string
    assume "length t \<le> length r'"
    moreover have "length r < length s" using that(1) consumes_token [OF consumes_char] unfolding consumes_def by blast
    moreover have "consumes first_direct_property" unfolding first_direct_property_def by (intro consumption shrinks_return)
    then have "length r' < length r" using that(2) unfolding consumes_def by blast
    ultimately show "p t = q t" by (intro assms) simp
  qed
  then show ?thesis unfolding nested_def pthen_def by (auto simp: Option.bind_eq_None_conv split: Option.bind_splits prod.splits)
qed

lemma subproperty_Nil: "subproperty n [] = None"
  by (cases n)
    (simp_all add: direct_identifier_property_def direct_numbers_index_def quoted_index_property_def bracket_index_def
      nested_def pthen_def token_def multispace0_def)

lemma subproperty_depth: "length s \<le> n \<Longrightarrow> length s \<le> m \<Longrightarrow> subproperty n s = subproperty m s"
proof (induction n arbitrary: m s)
  case 0
  then show ?case by (simp add: subproperty_Nil)
next
  case (Suc n)
  show ?case
  proof (cases m)
    case 0
    with Suc.prems show ?thesis by (simp add: subproperty_Nil del: subproperty.simps)
  next
    case (Suc k)
    have "nested (subproperty n) s = nested (subproperty k) s"
      using Suc.prems Suc by (intro nested_cong Suc.IH) auto
    with Suc show ?thesis by (simp del: alt.simps) (simp only: alt.simps)
  qed
qed

section \<open>Paths are read as they are written\<close>

definition js_name :: "string \<Rightarrow> bool" where
  "js_name p \<longleftrightarrow> p \<noteq> [] \<and> ident_start (hd p) \<and> list_all ident_char (tl p)"

text \<open>The ways to write a segment that is not the first.\<close>

fun writes :: "PropexSegment \<Rightarrow> string \<Rightarrow> bool" where
  "writes (Index i) t \<longleftrightarrow> i < 2 ^ 64 \<and> (t = show_segment (Index i) \<or> t = ''.'' @ show_nat i)"
| "writes (Property p) t \<longleftrightarrow>
     js_name p \<and> t = ''.'' @ p
     \<or> p \<noteq> [] \<and> CHR 0x22 \<notin> set p \<and> t = show_segment (Property p)
     \<or> p \<noteq> [] \<and> CHR 0x27 \<notin> set p \<and> t = [CHR ''['', CHR 0x27] @ p @ [CHR 0x27, CHR '']'']"
| "writes (Nested n) t \<longleftrightarrow> False"

definition boundary :: "string \<Rightarrow> bool" where
  "boundary r \<longleftrightarrow> r = [] \<or> hd r = CHR ''.'' \<or> hd r = CHR ''[''"

lemma multispace0_boundary [simp]: "boundary r \<Longrightarrow> multispace0 r = r"
  by (cases r) (auto simp: boundary_def multispace0_def)

lemma boundary_simps [simp]: "boundary []" "boundary (CHR ''.'' # r)" "boundary (CHR ''['' # r)"
  by (simp_all add: boundary_def)

lemma class_stops: "boundary r \<Longrightarrow> list_all P xs \<Longrightarrow> \<not> P CHR ''.'' \<Longrightarrow> \<not> P CHR ''['' \<Longrightarrow>
    takeWhile P (xs @ r) = xs \<and> dropWhile P (xs @ r) = r"
  by (cases r) (auto simp: boundary_def list_all_iff takeWhile_append dropWhile_append takeWhile_eq_all_conv [THEN iffD2])

lemma not_ident [simp]: "\<not> ident_char CHR ''.''" "\<not> ident_char CHR ''[''" "\<not> is_digit CHR ''.''" "\<not> is_digit CHR ''[''"
  "\<not> is_digit CHR '']''" "\<not> ident_start CHR ''.''" "\<not> ident_start CHR ''[''"
  by code_simp+

lemma js_identifier_name: "js_name p \<Longrightarrow> boundary r \<Longrightarrow> js_identifier (p @ r) = Some (p, r)"
  by (cases p) (simp_all add: js_name_def class_stops)

lemma list_all_show_nat: "list_all is_digit (show_nat n)"
  by (induction n rule: show_nat.induct) (subst show_nat.simps, simp add: is_digit_digit_char)

lemma parse_usize_shown:
  assumes "i < 2 ^ 64" "r = [] \<or> \<not> is_digit (hd r)"
  shows "parse_usize (show_nat i @ r) = Some (i, r)"
proof -
  have "\<forall>c \<in> set (show_nat i). is_digit c" using list_all_show_nat [of i] by (simp add: list_all_iff)
  then have "takeWhile is_digit (show_nat i @ r) = show_nat i" "dropWhile is_digit (show_nat i @ r) = r"
    using assms(2) by (cases r; simp add: takeWhile_append2 dropWhile_append2)+
  then show ?thesis using parse_show_nat [OF assms(1)] by (simp add: parse_usize_def)
qed

lemma string_literal_quoted:
  "q = CHR 0x22 \<or> q = CHR 0x27 \<Longrightarrow> p \<noteq> [] \<Longrightarrow> q \<notin> set p \<Longrightarrow> string_literal (q # p @ q # r) = Some (p, r)"
proof -
  assume a: "q = CHR 0x22 \<or> q = CHR 0x27" "p \<noteq> []" "q \<notin> set p"
  then have "\<forall>c \<in> set p. c \<noteq> q" by blast
  then have "takeWhile (\<lambda>c. c \<noteq> q) (p @ q # r) = p" "dropWhile (\<lambda>c. c \<noteq> q) (p @ q # r) = q # r"
    by (simp_all add: takeWhile_append2 dropWhile_append2)
  with a show ?thesis by (auto simp: pthen_def preturn_def)
qed

lemma spaces_skipped [simp]:
  "c \<notin> {CHR 0x20, CHR 0x09, CHR 0x0D, CHR 0x0A} \<Longrightarrow> multispace0 (c # s) = c # s"
  by (simp add: multispace0_def)

lemma multispace0_digits: "multispace0 (show_nat i @ r) = show_nat i @ r"
proof -
  obtain c cs where s: "show_nat i = c # cs" by (meson show_nat_nonempty neq_Nil_conv)
  then have "is_digit c" using hd_show_nat [of i] by simp
  then have "c \<notin> {CHR 0x20, CHR 0x09, CHR 0x0D, CHR 0x0A}" by (auto simp: is_digit_def)
  then show ?thesis by (simp add: s multispace0_def)
qed

lemma digits_no_start: "js_identifier (show_nat i @ r) = None" "string_literal (show_nat i @ r) = None"
proof -
  obtain c cs where s: "show_nat i = c # cs" by (meson show_nat_nonempty neq_Nil_conv)
  then have "is_digit c" using hd_show_nat [of i] by simp
  then have "\<not> ident_start c" "c \<noteq> CHR 0x22" "c \<noteq> CHR 0x27" by (auto simp: is_digit_def ident_start_def ascii_alpha_def Let_def)
  then show "js_identifier (show_nat i @ r) = None" "string_literal (show_nat i @ r) = None" by (simp_all add: s)
qed

lemmas segment_parsers =
  direct_identifier_property_def direct_numbers_index_def quoted_index_property_def bracket_index_def
  pthen_def preturn_def token_def

lemma subproperty_written:
  assumes "writes seg t" "boundary r"
  shows "subproperty (Suc n) (t @ r) = Some (seg, r)"
proof (cases seg)
  case (Index i)
  with assms(1) have i: "i < 2 ^ 64" and t: "t = show_segment (Index i) \<or> t = ''.'' @ show_nat i" by auto
  have "parse_usize (show_nat i @ CHR '']'' # r) = Some (i, CHR '']'' # r)" "parse_usize (show_nat i @ r) = Some (i, r)"
    using i assms(2) by (auto intro!: parse_usize_shown simp: boundary_def)
  with t show ?thesis
    using Index assms(2) by (auto simp: segment_parsers multispace0_digits digits_no_start)
next
  case (Property p)
  with assms(1) consider "js_name p" "t = ''.'' @ p"
    | "p \<noteq> []" "CHR 0x22 \<notin> set p" "t = show_segment (Property p)"
    | "p \<noteq> []" "CHR 0x27 \<notin> set p" "t = [CHR ''['', CHR 0x27] @ p @ [CHR 0x27, CHR '']'']"
    by auto
  then show ?thesis
  proof cases
    case 1
    then show ?thesis using Property assms(2) by (simp add: segment_parsers js_identifier_name)
  next
    case 2
    then show ?thesis using Property assms(2) string_literal_quoted [of "CHR 0x22" p "CHR '']'' # r"]
      by (simp add: segment_parsers del: string_literal.simps)
  next
    case 3
    then show ?thesis using Property assms(2) string_literal_quoted [of "CHR 0x27" p "CHR '']'' # r"]
      by (simp add: segment_parsers del: string_literal.simps)
  qed
qed (use assms in simp)

lemma writes_boundary: "writes seg t \<Longrightarrow> t \<noteq> [] \<and> boundary (t @ r)"
  by (cases seg) (auto simp: boundary_def)

lemma boundary_concat: "list_all2 writes segs ts \<Longrightarrow> boundary (concat ts)"
  by (cases segs; cases ts) (auto dest: writes_boundary)

lemma many0_written:
  "list_all2 writes segs ts \<Longrightarrow> length (concat ts) \<le> n \<Longrightarrow> many0 (subproperty n) (concat ts) = (segs, [])"
proof (induction segs ts rule: list_all2_induct)
  case Nil
  then show ?case by (simp add: many0.simps [of _ "[]"] subproperty_Nil)
next
  case (Cons seg segs t ts)
  have ne: "t \<noteq> []" using writes_boundary [OF Cons.hyps(1)] by simp
  then obtain k where "n = Suc k" using Cons.prems by (cases n) auto
  then have "subproperty n (t @ concat ts) = Some (seg, concat ts)"
    using subproperty_written [OF Cons.hyps(1) boundary_concat [OF Cons.hyps(2)]] by (simp del: subproperty.simps)
  with Cons ne show ?case by (simp add: many0.simps [of _ "t @ concat ts"])
qed

lemma propex_written:
  assumes "js_name first" "list_all2 writes segs ts"
  shows "propex_parse (first @ concat ts) = Some (Property first # segs)"
proof -
  have "js_identifier (first @ concat ts) = Some (first, concat ts)"
    using assms by (intro js_identifier_name boundary_concat)
  then have "first_property (first @ concat ts) = Some (Property first, concat ts)"
    by (simp add: first_property_def first_direct_property_def pthen_def preturn_def)
  moreover have "first \<noteq> []" using assms(1) by (simp add: js_name_def)
  ultimately show ?thesis
    using many0_written [OF assms(2)] by (simp add: propex_parse_def expression_def)
qed

text \<open>
  C33. A path is read as it is written. Whether a name that is an identifier follows a dot or stands
  between quotes in brackets, whether an index follows a dot or stands in brackets, the
  expression is parsed to the segments it was written from.
\<close>

theorem propex_roundtrip:
  assumes "js_name first" "list_all2 writes segs ts"
  shows "propex_parse (first @ concat ts) = Some (Property first # segs)"
  using assms by (rule propex_written)

theorem propex_roundtrip_witness:
  "propex_parse (''payload'' @ concat [''.items'', ''[0]'', ''.7'', [CHR ''['', CHR 0x22] @ ''my key'' @ [CHR 0x22, CHR '']'']])
    = Some [Property ''payload'', Property ''items'', Index 0, Index 7, Property ''my key'']"
proof (rule propex_roundtrip)
  have "show_nat 0 = ''0''" "show_nat 7 = ''7''" "js_name ''items''" by code_simp+
  then show "list_all2 writes [Property ''items'', Index 0, Index 7, Property ''my key'']
      [''.items'', ''[0]'', ''.7'', [CHR ''['', CHR 0x22] @ ''my key'' @ [CHR 0x22, CHR '']'']]"
    by simp
qed code_simp

text \<open>A name alone is its own path; this is what the theorems on plain names ask of a parser.\<close>

lemma propex_name: "js_name p \<Longrightarrow> propex_parse p = Some [Property p]"
proof -
  assume a: "js_name p"
  then have "first_property p = Some (Property p, [])"
    using js_identifier_name [OF a, of "[]"] by (simp add: first_property_def first_direct_property_def pthen_def preturn_def)
  with a show ?thesis by (simp add: propex_parse_def expression_def js_name_def many0.simps [of _ "[]"] subproperty_Nil)
qed

lemma join_dots: "join_with ''.'' (p # ps) = p @ concat (map (\<lambda>q. ''.'' @ q) ps)"
  by (induction ps arbitrary: p) auto

lemma parse_dotted:
  assumes "list_all js_name ps" "ps \<noteq> []"
  shows "propex_parse (join_with ''.'' ps) = Some (map Property ps)"
proof -
  obtain q qs where p: "ps = q # qs" using assms(2) by (cases ps) auto
  have "list_all2 writes (map Property qs) (map (\<lambda>r. ''.'' @ r) qs)"
    using assms(1) p by (simp add: list_all2_map1 list_all2_map2 list_all2_same list_all_iff)
  then show ?thesis using propex_written [of q] assms(1) p by (simp add: join_dots del: append.simps)
qed

end
