(* ===== verification/Change_Node.thy ===== *)
theory Change_Node
  imports Context_Correct Propex
begin

text \<open>
  The change node (\<^verbatim>\<open>runtime/nodes/function_nodes/change.rs\<close>) with the evaluation of typed
  properties it relies on (\<^verbatim>\<open>runtime/eval.rs\<close>) and the keys of context stores
  (\<^verbatim>\<open>evaluate_key\<close> of \<^verbatim>\<open>runtime/context/mod.rs\<close>). A rule reads and writes the message and the flow
  and global contexts, which share one manager; the state of the node is that pair.

  Parameters, collected in \<open>change_env\<close>: the numbers, the operations of the stores, the contexts
  of the flow and of the engine if the node is attached to them, the replacement of regular
  expressions, and the values of the property types that need JSON, regular expressions,
  the clock, JSONata or the environment. Log output is dropped. The migration of rules of old
  versions, which rewrites the JSON configuration, is left out.
\<close>

section \<open>Keys with a store name\<close>

record ContextKey =
  ck_store :: "string option"
  ck_key :: string

fun ptag :: "string \<Rightarrow> unit parser" where
  "ptag t s = (if take (length t) s = t then Some ((), drop (length t) s) else None)"

fun nom_identifier :: "string parser" where
  "nom_identifier [] = None"
| "nom_identifier (c # cs) =
     (if ascii_alpha c \<or> c = CHR ''_'' then Some (c # takeWhile ident_char cs, dropWhile ident_char cs) else None)"

definition parse_store_expr :: "string parser" where
  "parse_store_expr =
     pthen (ptag ''#:'') (\<lambda>_. pthen (pchar CHR ''('') (\<lambda>_. pthen (token nom_identifier) (\<lambda>store.
       pthen (pchar CHR '')'') (\<lambda>_. pthen (ptag ''::'') (\<lambda>_. preturn store)))))"

definition evaluate_key :: "string \<Rightarrow> ContextKey" where
  "evaluate_key key =
     (case parse_store_expr key of
        Some (store, rest) \<Rightarrow> \<lparr>ck_store = Some store, ck_key = rest\<rparr>
      | None \<Rightarrow> \<lparr>ck_store = None, ck_key = key\<rparr>)"

section \<open>Typed properties\<close>

datatype RedPropertyType =
  TStr | TNum | TJson | TRe | TDate | TBin | TMsg | TFlow | TGlobal | TBool | TJsonata | TEnv

type_synonym ('s, 'n, 't, 'r) change_state = "('n, 't, 'r) Msg \<times> 's ContextManager option"

record ('s, 'n, 't, 'r) change_env =
  ce_num :: "'n num_ops"
  ce_store :: "('s, 'n, 't, 'r) store_ops"
  ce_flow :: "Context option"
  ce_engine :: "Context option"
  ce_eval :: "RedPropertyType \<Rightarrow> string \<Rightarrow> ('n, 't, 'r) Msg \<Rightarrow> (('n, 't, 'r) Variant, RustRedError option) outcome"
  ce_replace :: "'r \<Rightarrow> string \<Rightarrow> string \<Rightarrow> string"
  ce_replace_all :: "'r \<Rightarrow> string \<Rightarrow> string \<Rightarrow> string"

definition msg_env :: "('n, 't, 'r) Msg \<Rightarrow> ('n, 't, 'r) PropexEnv list" where
  "msg_env m = [ExtRef ''msg'' (msg_body m)]"

definition read_context ::
    "('s, 'n, 't, 'r) change_env \<Rightarrow> Context option \<Rightarrow> string \<Rightarrow> ('s, 'n, 't, 'r) change_state
      \<Rightarrow> (('n, 't, 'r) Variant, RustRedError option) outcome" where
  "read_context E context_opt value st =
     (case context_opt of
        None \<Rightarrow> Err (Some (BadArgument ''flow,node''))
      | Some ctx \<Rightarrow>
          ok_or (Context_get_one (ce_store E) (ce_num E) propex_parse ctx (ck_store (evaluate_key value))
                   (ck_key (evaluate_key value)) (msg_env (fst st)) (snd st)) (Some (BadArgument ''value'')))"

definition parse_bool :: "string \<Rightarrow> bool option" where
  "parse_bool s = (if s = ''true'' then Some True else if s = ''false'' then Some False else None)"

fun evaluate_raw_node_property ::
    "('s, 'n, 't, 'r) change_env \<Rightarrow> string \<Rightarrow> RedPropertyType \<Rightarrow> ('s, 'n, 't, 'r) change_state
      \<Rightarrow> (('n, 't, 'r) Variant, RustRedError option) outcome" where
  "evaluate_raw_node_property E value TStr st = Ok (String value)"
| "evaluate_raw_node_property E value TMsg st =
     obind (map_outcome (\<lambda>x. x) Some (get_nav_stripped (ce_num E) propex_parse value (fst st)))
       (\<lambda>v. ok_or v (Some (BadArgument ''value'')))"
| "evaluate_raw_node_property E value TGlobal st = read_context E (ce_engine E) value st"
| "evaluate_raw_node_property E value TFlow st = read_context E (ce_flow E) value st"
| "evaluate_raw_node_property E value TBool st = ok_or (map_option Bool (parse_bool (trim_ascii value))) None"
| "evaluate_raw_node_property E value t st = ce_eval E t value (fst st)"

section \<open>Rules\<close>

datatype RuleKind = RuleSet | RuleChange | RuleDelete | RuleMove

record 'r Rule =
  rule_t :: RuleKind
  rule_p :: string
  rule_pt :: RedPropertyType
  rule_to :: "string option"
  rule_tot :: "RedPropertyType option"
  rule_from :: "string option"
  rule_fromt :: "RedPropertyType option"
  rule_from_regex :: "'r option"

datatype ReducedType = ReducedStr | ReducedNum | ReducedBool | ReducedRegex

definition typed_value ::
    "('s, 'n, 't, 'r) change_env \<Rightarrow> string option \<Rightarrow> RedPropertyType option \<Rightarrow> ('s, 'n, 't, 'r) change_state
      \<Rightarrow> (('n, 't, 'r) Variant, RustRedError option) outcome" where
  "typed_value E value t st =
     (case (t, value) of
        (Some t', Some v) \<Rightarrow> evaluate_raw_node_property E v t' st
      | _ \<Rightarrow> Err (Some (BadFlowsJson ''cannot be None'')))"

definition get_to_value ::
    "('s, 'n, 't, 'r) change_env \<Rightarrow> 'r Rule \<Rightarrow> ('s, 'n, 't, 'r) change_state \<Rightarrow> (('n, 't, 'r) Variant, RustRedError option) outcome" where
  "get_to_value E rule st = typed_value E (rule_to rule) (rule_tot rule) st"

definition get_from_value ::
    "('s, 'n, 't, 'r) change_env \<Rightarrow> 'r Rule \<Rightarrow> ('s, 'n, 't, 'r) change_state \<Rightarrow> (('n, 't, 'r) Variant, RustRedError option) outcome" where
  "get_from_value E rule st = typed_value E (rule_from rule) (rule_fromt rule) st"

definition reduce_from_value :: "'r Rule \<Rightarrow> ('n, 't, 'r) Variant \<Rightarrow> ReducedType option" where
  "reduce_from_value rule from_value =
     (case rule_fromt rule of
        None \<Rightarrow> None
      | Some t \<Rightarrow>
          (case from_value of
             String _ \<Rightarrow> Some ReducedStr
           | Bool _ \<Rightarrow> Some ReducedBool
           | Number _ \<Rightarrow> Some ReducedNum
           | _ \<Rightarrow> if t = TRe then Some ReducedRegex else None))"

fun get_context_by_property_type :: "('s, 'n, 't, 'r) change_env \<Rightarrow> RedPropertyType \<Rightarrow> Context option" where
  "get_context_by_property_type E TFlow = ce_flow E"
| "get_context_by_property_type E TGlobal = ce_engine E"
| "get_context_by_property_type E _ = None"

definition set_context ::
    "('s, 'n, 't, 'r) change_env \<Rightarrow> Context \<Rightarrow> string \<Rightarrow> ('n, 't, 'r) Variant option \<Rightarrow> ('s, 'n, 't, 'r) change_state
      \<Rightarrow> ('s, 'n, 't, 'r) change_state \<times> (unit, RustRedError option) outcome" where
  "set_context E ctx prop val st =
     (case Context_set_one (ce_store E) (ce_num E) propex_parse ctx (ck_store (evaluate_key prop)) (ck_key (evaluate_key prop))
             val (msg_env (fst st)) (snd st) of
        (mgr, r) \<Rightarrow> ((fst st, mgr), r))"

definition set_msg ::
    "('s, 'n, 't, 'r) change_env \<Rightarrow> string \<Rightarrow> ('n, 't, 'r) Variant \<Rightarrow> bool \<Rightarrow> ('s, 'n, 't, 'r) change_state
      \<Rightarrow> ('s, 'n, 't, 'r) change_state \<times> (unit, RustRedError option) outcome" where
  "set_msg E prop val create_missing st =
     (case set_nav_stripped (ce_num E) propex_parse prop val create_missing (fst st) of (m, r) \<Rightarrow> ((m, snd st), r))"

definition no_context :: RustRedError where
  "no_context = InvalidOperation ''Failed to get context''"

definition set_property ::
    "('s, 'n, 't, 'r) change_env \<Rightarrow> string \<Rightarrow> RedPropertyType \<Rightarrow> ('n, 't, 'r) Variant option \<Rightarrow> ('s, 'n, 't, 'r) change_state
      \<Rightarrow> ('s, 'n, 't, 'r) change_state \<times> (unit, RustRedError option) outcome" where
  "set_property E target_prop target_type to_value st =
     (if target_type = TMsg then
        (case to_value of
           Some v \<Rightarrow> set_msg E target_prop v True st
         | None \<Rightarrow>
             if Msg_contains target_prop (fst st) then
               (case Msg_remove target_prop (fst st) of
                  Ok (m, _) \<Rightarrow> ((m, snd st), Ok ())
                | _ \<Rightarrow> (st, Panic))
             else (st, Ok ()))
      else if target_type = TGlobal \<or> target_type = TFlow then
        (case get_context_by_property_type E target_type of
           None \<Rightarrow> (st, Err (Some no_context))
         | Some ctx \<Rightarrow>
             (case to_value of
                Some v \<Rightarrow> set_context E ctx target_prop (Some v) st
              | None \<Rightarrow> (st, Err (Some (BadArgument ''to_value'')))))
      else (st, Err (Some (NotSupported ''We only support to set message property and flow/global context variables''))))"

definition delete_property ::
    "('s, 'n, 't, 'r) change_env \<Rightarrow> string \<Rightarrow> RedPropertyType \<Rightarrow> ('s, 'n, 't, 'r) change_state
      \<Rightarrow> ('s, 'n, 't, 'r) change_state \<times> (unit, RustRedError option) outcome" where
  "delete_property E prop prop_type st =
     (if prop_type = TMsg then
        (case remove_nav (ce_num E) propex_parse prop (fst st) of
           (m, Ok (Some _)) \<Rightarrow> ((m, snd st), Ok ())
         | (m, Panic) \<Rightarrow> ((m, snd st), Panic)
         | (m, _) \<Rightarrow> ((m, snd st), Err (Some (NotSupported ''cannot remove the property in the msg''))))
      else if prop_type = TGlobal \<or> prop_type = TFlow then
        (case get_context_by_property_type E prop_type of
           None \<Rightarrow> (st, Err (Some no_context))
         | Some ctx \<Rightarrow> set_context E ctx prop None st)
      else (st, Err (Some (NotSupported ''the change node only allows deleting''))))"

section \<open>Applying rules\<close>

text \<open>
  The value a change rule puts in place of the current one, if it applies; \<open>replace\<close> is what is
  done for a regular expression.
\<close>

definition changed_value ::
    "('s, 'n, 't, 'r) change_env \<Rightarrow> ('r \<Rightarrow> string \<Rightarrow> string \<Rightarrow> string) \<Rightarrow> 'r Rule \<Rightarrow> ('n, 't, 'r) Variant \<Rightarrow> ('n, 't, 'r) Variant
      \<Rightarrow> ('n, 't, 'r) Variant \<Rightarrow> ReducedType \<Rightarrow> (('n, 't, 'r) Variant option, RustRedError) outcome" where
  "changed_value E replace rule to_value from_value current reduced =
     (case current of
        String cs \<Rightarrow>
          if reduced \<noteq> ReducedRegex \<and> current = from_value then Ok (Some to_value)
          else if reduced = ReducedRegex then
            obind (or_panic (rule_from_regex rule)) (\<lambda>re.
              obind (to_string (ce_num E) to_value) (\<lambda>t.
                let replaced = replace re cs t in
                Ok (Some (if rule_tot rule = Some TBool \<and> (replaced = ''true'' \<or> replaced = ''false'') then to_value
                          else String replaced))))
          else
            obind (to_string (ce_num E) from_value) (\<lambda>f.
              obind (to_string (ce_num E) to_value) (\<lambda>t. Ok (Some (String (replace_str f t cs)))))
      | Number _ \<Rightarrow> Ok (if reduced = ReducedNum \<and> from_value = current then Some to_value else None)
      | Bool _ \<Rightarrow> Ok (if reduced = ReducedBool \<and> from_value = current then Some to_value else None)
      | _ \<Rightarrow> Ok None)"

definition store_changed ::
    "('n, 't, 'r) Variant option \<Rightarrow> (('n, 't, 'r) Variant \<Rightarrow> 'st \<times> (unit, RustRedError option) outcome) \<Rightarrow> 'st
      \<Rightarrow> 'st \<times> (unit, RustRedError option) outcome" where
  "store_changed new_value put st = (case new_value of Some v \<Rightarrow> put v | None \<Rightarrow> (st, Ok ()))"

definition change_in_place ::
    "('s, 'n, 't, 'r) change_env \<Rightarrow> 'r Rule \<Rightarrow> ('n, 't, 'r) Variant \<Rightarrow> ('n, 't, 'r) Variant \<Rightarrow> ('n, 't, 'r) Variant \<Rightarrow> ReducedType
      \<Rightarrow> ('s, 'n, 't, 'r) change_state \<Rightarrow> ('s, 'n, 't, 'r) change_state \<times> (unit, RustRedError option) outcome" where
  "change_in_place E rule to_value from_value current reduced st =
     (let put = (\<lambda>replace write.
            case changed_value E replace rule to_value from_value current reduced of
              Ok new_value \<Rightarrow> store_changed new_value write st
            | Err e \<Rightarrow> (st, Err (Some e))
            | Panic \<Rightarrow> (st, Panic)
            | Diverge \<Rightarrow> (st, Diverge)) in
      if rule_pt rule = TMsg then put (ce_replace_all E) (\<lambda>v. set_msg E (rule_p rule) v False st)
      else if rule_pt rule = TFlow \<or> rule_pt rule = TGlobal then
        (case get_context_by_property_type E (rule_pt rule) of
           None \<Rightarrow> (st, Err (Some no_context))
         | Some ctx \<Rightarrow> put (ce_replace E) (\<lambda>v. set_context E ctx (rule_p rule) (Some v) st))
      else (st, Err (Some (InvalidOperation ''change'' ))))"

definition apply_rule_change ::
    "('s, 'n, 't, 'r) change_env \<Rightarrow> 'r Rule \<Rightarrow> ('n, 't, 'r) Variant option \<Rightarrow> ('s, 'n, 't, 'r) change_state
      \<Rightarrow> ('s, 'n, 't, 'r) change_state \<times> (unit, RustRedError option) outcome" where
  "apply_rule_change E rule to_value st =
     (case to_value of
        None \<Rightarrow> (st, Ok ())
      | Some to_v \<Rightarrow>
          (case get_from_value E rule st of
             Ok from_value \<Rightarrow>
               (case evaluate_raw_node_property E (rule_p rule) (rule_pt rule) st of
                  Ok current \<Rightarrow>
                    (case reduce_from_value rule from_value of
                       Some reduced \<Rightarrow> change_in_place E rule to_v from_value current reduced st
                     | None \<Rightarrow> (st, Ok ()))
                | Err _ \<Rightarrow> (st, Ok ())
                | Panic \<Rightarrow> (st, Panic)
                | Diverge \<Rightarrow> (st, Diverge))
           | Err _ \<Rightarrow> (st, Ok ())
           | Panic \<Rightarrow> (st, Panic)
           | Diverge \<Rightarrow> (st, Diverge)))"

definition movable :: "RedPropertyType \<Rightarrow> bool" where
  "movable t \<longleftrightarrow> t = TFlow \<or> t = TGlobal \<or> t = TMsg"

definition apply_rule_move ::
    "('s, 'n, 't, 'r) change_env \<Rightarrow> 'r Rule \<Rightarrow> ('s, 'n, 't, 'r) change_state
      \<Rightarrow> ('s, 'n, 't, 'r) change_state \<times> (unit, RustRedError option) outcome" where
  "apply_rule_move E rule st =
     (if \<not> movable (rule_pt rule) then (st, Err (Some (BadArgument ''rule'')))
      else
        case (rule_tot rule, rule_to rule) of
          (Some tot, Some dest) \<Rightarrow>
            if \<not> movable tot then (st, Err (Some (BadArgument ''rule'')))
            else
              (case evaluate_raw_node_property E (rule_p rule) (rule_pt rule) st of
                 Ok current \<Rightarrow>
                   (case set_property E (rule_p rule) (rule_pt rule) None st of
                      (st1, Ok _) \<Rightarrow> set_property E dest tot (Some current) st1
                    | r \<Rightarrow> r)
               | Err _ \<Rightarrow> (st, Ok ())
               | Panic \<Rightarrow> (st, Panic)
               | Diverge \<Rightarrow> (st, Diverge))
        | _ \<Rightarrow> (st, Err (Some (BadArgument ''rule''))))"

fun ok_value :: "('a, 'e) outcome \<Rightarrow> ('a option, 'e) outcome" where
  "ok_value (Ok v) = Ok (Some v)"
| "ok_value (Err e) = Ok None"
| "ok_value Panic = Panic"
| "ok_value Diverge = Diverge"

definition apply_rule ::
    "('s, 'n, 't, 'r) change_env \<Rightarrow> 'r Rule \<Rightarrow> ('s, 'n, 't, 'r) change_state
      \<Rightarrow> ('s, 'n, 't, 'r) change_state \<times> (unit, RustRedError option) outcome" where
  "apply_rule E rule st =
     (case ok_value (get_to_value E rule st) of
        Ok to_value \<Rightarrow>
          (case rule_t rule of
             RuleSet \<Rightarrow> set_property E (rule_p rule) (rule_pt rule) to_value st
           | RuleChange \<Rightarrow> apply_rule_change E rule to_value st
           | RuleDelete \<Rightarrow> delete_property E (rule_p rule) (rule_pt rule) st
           | RuleMove \<Rightarrow> apply_rule_move E rule st)
      | Err e \<Rightarrow> (st, Err e)
      | Panic \<Rightarrow> (st, Panic)
      | Diverge \<Rightarrow> (st, Diverge))"

text \<open>A rule that fails is logged and the next one applied; the message is sent on in any case.\<close>

fun apply_rules ::
    "('s, 'n, 't, 'r) change_env \<Rightarrow> 'r Rule list \<Rightarrow> ('s, 'n, 't, 'r) change_state
      \<Rightarrow> ('s, 'n, 't, 'r) change_state \<times> (unit, RustRedError option) outcome" where
  "apply_rules E [] st = (st, Ok ())"
| "apply_rules E (rule # rules) st =
     (case apply_rule E rule st of
        (st1, Panic) \<Rightarrow> (st1, Panic)
      | (st1, Diverge) \<Rightarrow> (st1, Diverge)
      | (st1, _) \<Rightarrow> apply_rules E rules st1)"

end
