(* ===== verification/Change_Correct.thy ===== *)
theory Change_Correct
  imports Change_Node
begin

text \<open>
  What the rules of the change node do to a message: a set rule is read back along dotted
  paths, a move rule takes a property to its new place; and the moves that lose a value, copy
  it or do nothing.
\<close>

section \<open>Dotted paths\<close>

lemma expand_names: "omap (expand_seg N look get) (map Property ps) = Ok (map Property ps)"
  by (induction ps) auto

lemma plain_names: "list_all js_name ps \<Longrightarrow> plain_path propex_parse (map Property ps)"
  by (auto simp: plain_path_def list_all_iff map_butlast [symmetric] propex_name dest: in_set_butlastD)

text \<open>An expression that names a path of the message, with or without the leading \<^verbatim>\<open>msg.\<close>.\<close>

definition names_path :: "string \<Rightarrow> string list \<Rightarrow> bool" where
  "names_path e ps \<longleftrightarrow> ps \<noteq> [] \<and> list_all js_name ps \<and> strip_msg e = join_with ''.'' ps"

lemma ident_not_space: "ident_char c \<or> ident_start c \<Longrightarrow> \<not> ascii_space c \<and> c \<noteq> CHR ''.''"
  by (auto simp: ident_char_def ident_start_def ascii_alpha_def is_digit_def ascii_space_def Let_def)

lemma strip_msg_name:
  assumes "js_name p"
  shows "strip_msg p = p"
proof -
  have c: "\<not> ascii_space c \<and> c \<noteq> CHR ''.''" if "c \<in> set p" for c
    using that assms ident_not_space by (cases p) (auto simp: js_name_def list_all_iff)
  then have "dropWhile ascii_space xs = xs" if "set xs \<subseteq> set p" for xs
    using that by (cases xs) auto
  then have t: "trim_ascii p = p" by (simp add: trim_ascii_def)
  have "take 4 p \<noteq> ''msg.''" using c by (metis in_set_takeD list.set_intros(1) list.set_intros(2))
  then show ?thesis by (simp add: strip_msg_def t)
qed

lemma names_path_name: "js_name p \<Longrightarrow> names_path p [p]"
  by (simp add: names_path_def strip_msg_name)

lemma get_dotted:
  assumes "names_path e ps" "msg_body m = Object o1"
  shows "get_nav_stripped N propex_parse e m = Ok (get_segs (map Property ps) (Object o1))"
proof -
  obtain q qs where q: "ps = q # qs" using assms(1) by (cases ps) (auto simp: names_path_def)
  have "propex_parse (strip_msg e) = Some (map Property ps)" using assms(1) by (simp add: names_path_def parse_dotted)
  then show ?thesis
    using assms(2) get_segs_property_eq [of q "map Property qs" o1]
    by (simp add: get_nav_stripped_def Msg_get_nav_def Msg_object_def get_nav_property_def expand_segs_property_def expand_names q
        del: get_segs_property.simps get_segs.simps)
qed

text \<open>Writing below one property leaves the others, and creates none.\<close>

lemma set_segs_untouched:
  assumes ok: "variant_ok (Object o1)" and pl: "plain_path parse (Property p # ss)" and "k \<noteq> p"
  shows "get_seg (Property k) (fst (set_segs_property N parse (Property p # ss) val create (Object o1)))
    = get_seg (Property k) (Object o1)"
proof (cases ss)
  case Nil
  then show ?thesis using ok assms(3) by (simp add: map_ok_def hmap_simps)
next
  case (Cons s ss')
  have other: "get_seg (Property k) v' = get_seg (Property k) w"
    if "get_seg_mut (Property p) f w = Some (v', r)" "variant_ok w" for f v' w and r :: "(unit, RustRedError) outcome"
    by (rule get_seg_mut_other [OF that(2,1)]) (simp add: assms(3))
  have ins: "variant_ok (Object (btree_insert p c o1)) \<and> get_seg (Property k) (Object (btree_insert p c o1)) = get_seg (Property k) (Object o1)"
    if "missing_container s = Some c" for c
    using that ok assms(3) map_ok_insert [of o1 c p] missing_container_ok [of s c] by (simp add: map_ok_def hmap_simps)
  show ?thesis
    unfolding Cons set_segs_step [OF pl [unfolded Cons]] using other [OF _ ok] other [OF _ conjunct1 [OF ins]] conjunct2 [OF ins]
    by (auto split: option.splits simp del: get_seg_mut.simps get_segs_mut.simps get_seg.simps)
qed

lemma set_dotted:
  assumes e: "names_path e ps" and m: "msg_body m = Object o1" "map_ok o1" and "variant_ok v"
    and "open_path (map Property ps) (Object o1)"
  shows "\<exists>o2. set_nav_stripped N propex_parse e v True m = (m\<lparr>msg_body := Object o2\<rparr>, Ok ())
    \<and> get_segs (map Property ps) (Object o2) = Some v
    \<and> (\<forall>q x. diverge (map Property ps) q \<longrightarrow> get_segs q (Object o1) = Some x \<longrightarrow> get_segs q (Object o2) = Some x)
    \<and> (\<forall>k. k \<noteq> hd ps \<longrightarrow> map_of o2 k = map_of o1 k)"
proof -
  have ok: "variant_ok (Object o1)" using m(2) by (simp add: map_ok_def)
  have pl: "plain_path propex_parse (map Property ps)" using e by (simp add: names_path_def plain_names)
  obtain w where w: "set_segs_property N propex_parse (map Property ps) v True (Object o1) = (w, Ok ())"
    "get_segs (map Property ps) w = Some v"
    using open_path_ok [OF ok pl assms(5)] by blast
  obtain q qs where q: "ps = q # qs" using e by (cases ps) (auto simp: names_path_def)
  then obtain o2 where o2: "w = Object o2" using w(2) by (cases w) auto
  have "set_nav_stripped N propex_parse e v True m = (m\<lparr>msg_body := Object o2\<rparr>, Ok ())"
    using e m(1) w(1) o2
    by (simp add: set_nav_stripped_def Msg_set_nav_def set_nav_def names_path_def parse_dotted expand_sesg_property_def expand_names)
  moreover have "get_segs q (Object o2) = Some x" if "diverge (map Property ps) q" "get_segs q (Object o1) = Some x" for q x
    using set_segs_frame [OF ok assms(4) pl that, of N True] w(1) o2 by simp
  moreover have "map_of o2 k = map_of o1 k" if "k \<noteq> hd ps" for k
    using set_segs_untouched [OF ok, of propex_parse q "map Property qs" k N v True] pl that w(1) q o2
    by (simp del: set_segs_property.simps)
  ultimately show ?thesis using w(2) o2 by blast
qed

section \<open>Sample rules\<close>

definition demo_env :: "((int, nat, nat) scopes, int, nat, nat) change_env" where
  "demo_env = \<lparr>ce_num = int_num, ce_store = MemoryContextStore int_num propex_parse,
     ce_flow = Some (new_context ''flow1''), ce_engine = None, ce_eval = (\<lambda>_ _ _. Err None),
     ce_replace = (\<lambda>_ _ s. s), ce_replace_all = (\<lambda>_ _ s. s)\<rparr>"

definition demo_rule :: "RuleKind \<Rightarrow> string \<Rightarrow> string \<Rightarrow> nat Rule" where
  "demo_rule t p dest = \<lparr>rule_t = t, rule_p = p, rule_pt = TMsg, rule_to = Some dest,
     rule_tot = Some (if t = RuleSet then TStr else TMsg), rule_from = None, rule_fromt = None, rule_from_regex = None\<rparr>"

definition demo_props :: "(int, nat, nat) VariantObjectMap" where
  "demo_props = [(''payload'', Object [(''a'', Number 1)]), (''topic'', Bool True)]"

definition demo_change_msg :: "(int, nat, nat) Msg" where
  "demo_change_msg = \<lparr>msg_body = Object demo_props, link_call_stack = None\<rparr>"

lemmas demo_change = demo_env_def demo_rule_def demo_props_def demo_change_msg_def

lemma demo_names: "names_path ''msg.payload.b'' [''payload'', ''b'']" "names_path ''payload.a'' [''payload'', ''a'']"
  "names_path ''label'' [''label'']" "js_name ''topic''"
  by code_simp+

lemma demo_props_ok: "map_ok demo_props"
  by code_simp

section \<open>Set\<close>

text \<open>
  C34. A set rule on the message: when the target is a dotted path through objects, missing ones
  included, and the value can be evaluated, the rule succeeds, the target evaluates to that
  value afterwards, and nothing on another path of the message nor any context has changed.
\<close>

theorem change_set_reads_back:
  assumes "rule_t rule = RuleSet" "rule_pt rule = TMsg" "names_path (rule_p rule) ps"
    and m: "msg_body m = Object o1" "map_ok o1" "open_path (map Property ps) (Object o1)"
    and v: "get_to_value E rule (m, mgr) = Ok v" "variant_ok v"
  shows "\<exists>m'. apply_rule E rule (m, mgr) = ((m', mgr), Ok ())
    \<and> evaluate_raw_node_property E (rule_p rule) TMsg (m', mgr) = Ok v
    \<and> (\<forall>q x. diverge (map Property ps) q \<longrightarrow> get_segs q (msg_body m) = Some x \<longrightarrow> get_segs q (msg_body m') = Some x)"
proof -
  obtain o2 where "set_nav_stripped (ce_num E) propex_parse (rule_p rule) v True m = (m\<lparr>msg_body := Object o2\<rparr>, Ok ())"
    and o2: "get_segs (map Property ps) (Object o2) = Some v"
      "\<forall>q x. diverge (map Property ps) q \<longrightarrow> get_segs q (Object o1) = Some x \<longrightarrow> get_segs q (Object o2) = Some x"
    using set_dotted [OF assms(3) m(1,2) v(2) m(3)] by blast
  then have "apply_rule E rule (m, mgr) = ((m\<lparr>msg_body := Object o2\<rparr>, mgr), Ok ())"
    using assms(1,2) v(1) by (simp add: apply_rule_def set_property_def set_msg_def)
  then show ?thesis
    using o2 m(1) get_dotted [OF assms(3), of "m\<lparr>msg_body := Object o2\<rparr>" o2 "ce_num E"] by simp
qed

theorem change_set_reads_back_witness:
  "\<exists>m'. apply_rule demo_env (demo_rule RuleSet ''msg.payload.b'' ''on'') (demo_change_msg, None) = ((m', None), Ok ())
    \<and> evaluate_raw_node_property demo_env ''msg.payload.b'' TMsg (m', None) = Ok (String ''on'')
    \<and> get_segs [Property ''payload'', Property ''a''] (msg_body m') = Some (Number 1)"
proof -
  have g: "get_segs [Property ''payload'', Property ''a''] (msg_body demo_change_msg) = Some (Number 1)" by code_simp
  show ?thesis
    using change_set_reads_back [of "demo_rule RuleSet ''msg.payload.b'' ''on''" "[''payload'', ''b'']" demo_change_msg demo_props
        demo_env None "String ''on''"] demo_names(1) demo_props_ok g
    by (fastforce simp: demo_rule_def demo_change_msg_def demo_props_def get_to_value_def typed_value_def simp del: get_segs.simps)
qed

section \<open>Move\<close>

lemma to_value_no_panic:
  assumes "rule_tot rule = Some TMsg" "msg_body m = Object o1"
  shows "\<exists>tv. ok_value (get_to_value E rule (m, mgr)) = Ok tv"
proof (cases "rule_to rule")
  case None
  then show ?thesis using assms(1) by (simp add: get_to_value_def typed_value_def)
next
  case (Some dest)
  obtain r where "get_nav_stripped (ce_num E) propex_parse dest m = Ok r"
    using assms(2) by (auto simp: get_nav_stripped_def Msg_get_nav_def Msg_object_def)
  then show ?thesis using assms(1) Some by (cases r) (simp_all add: get_to_value_def typed_value_def)
qed

lemma move_in_msg:
  assumes "rule_t rule = RuleMove" "rule_pt rule = TMsg" "rule_tot rule = Some TMsg" "rule_to rule = Some dest"
    and "msg_body m = Object o1" "evaluate_raw_node_property E (rule_p rule) TMsg (m, mgr) = Ok v"
  shows "apply_rule E rule (m, mgr) =
    (case set_property E (rule_p rule) TMsg None (m, mgr) of
       (st1, Ok _) \<Rightarrow> set_property E dest TMsg (Some v) st1
     | r \<Rightarrow> r)"
  using to_value_no_panic [OF assms(3,5), of E mgr] assms
  by (auto simp: apply_rule_def apply_rule_move_def movable_def simp del: evaluate_raw_node_property.simps)

lemma remove_source:
  assumes "msg_body m = Object o1" "map_of o1 p = Some v"
  shows "set_property E p TMsg None (m, mgr) = ((m\<lparr>msg_body := Object (AList.delete p o1)\<rparr>, mgr), Ok ())"
  using assms by (simp add: set_property_def Msg_contains_def Msg_remove_def Msg_object_def)

text \<open>
  C35. A move rule from a property of the message to another place in the message: the value is
  found at the target, the source is gone from the message unless the target lies below it, and
  the other properties, present or absent, are as before.
\<close>

theorem change_moves:
  assumes "rule_t rule = RuleMove" "rule_pt rule = TMsg" "rule_tot rule = Some TMsg" "rule_to rule = Some dest"
    and p: "js_name (rule_p rule)" and dest: "names_path dest ps"
    and m: "msg_body m = Object o1" "map_ok o1" "map_of o1 (rule_p rule) = Some v"
    and "open_path (map Property ps) (Object (AList.delete (rule_p rule) o1))"
  shows "\<exists>m'. apply_rule E rule (m, mgr) = ((m', mgr), Ok ())
    \<and> evaluate_raw_node_property E dest TMsg (m', mgr) = Ok v
    \<and> (rule_p rule \<noteq> hd ps \<longrightarrow> Msg_get (rule_p rule) m' = None)
    \<and> (\<forall>k. k \<noteq> hd ps \<and> k \<noteq> rule_p rule \<longrightarrow> Msg_get k m' = Msg_get k m)"
proof -
  let ?p = "rule_p rule"
  let ?o = "AList.delete ?p o1"
  let ?m1 = "m\<lparr>msg_body := Object ?o\<rparr>"
  have "evaluate_raw_node_property E ?p TMsg (m, mgr) = Ok v"
    using get_dotted [OF names_path_name [OF p] m(1), of "ce_num E"] m(3) by simp
  note move = move_in_msg [OF assms(1-4) m(1) this]
  have ok: "map_ok ?o" "variant_ok v" using m by (simp_all add: map_ok_delete map_ok_get)
  obtain o2 where "set_nav_stripped (ce_num E) propex_parse dest v True ?m1 = (?m1\<lparr>msg_body := Object o2\<rparr>, Ok ())"
    and o2: "get_segs (map Property ps) (Object o2) = Some v" "\<forall>k. k \<noteq> hd ps \<longrightarrow> map_of o2 k = map_of ?o k"
    using set_dotted [OF dest _ ok assms(10), of ?m1 "ce_num E"] by auto
  then have a: "apply_rule E rule (m, mgr) = ((m\<lparr>msg_body := Object o2\<rparr>, mgr), Ok ())"
    unfolding move remove_source [OF m(1,3)] by (simp add: set_property_def set_msg_def)
  have "evaluate_raw_node_property E dest TMsg (m\<lparr>msg_body := Object o2\<rparr>, mgr) = Ok v"
    using get_dotted [OF dest, of "m\<lparr>msg_body := Object o2\<rparr>" o2 "ce_num E"] o2(1) by simp
  moreover have "?p \<noteq> hd ps \<longrightarrow> Msg_get ?p (m\<lparr>msg_body := Object o2\<rparr>) = None"
    using o2(2) by (simp add: Msg_get_def delete_conv)
  moreover have "\<forall>k. k \<noteq> hd ps \<and> k \<noteq> ?p \<longrightarrow> Msg_get k (m\<lparr>msg_body := Object o2\<rparr>) = Msg_get k m"
    using o2(2) m(1) by (simp add: Msg_get_def hmap_simps)
  ultimately show ?thesis using a by blast
qed

theorem change_moves_witness:
  "\<exists>m'. apply_rule demo_env (demo_rule RuleMove ''topic'' ''label'') (demo_change_msg, None) = ((m', None), Ok ())
    \<and> evaluate_raw_node_property demo_env ''label'' TMsg (m', None) = Ok (Bool True)
    \<and> Msg_get ''topic'' m' = None \<and> Msg_get ''payload'' m' = Some (Object [(''a'', Number 1)])"
proof -
  have g: "Msg_get ''payload'' demo_change_msg = Some (Object [(''a'', Number 1)])" by code_simp
  show ?thesis
    using change_moves [of "demo_rule RuleMove ''topic'' ''label''" "''label''" "[''label'']" demo_change_msg demo_props "Bool True"
        demo_env None] demo_names(3,4) demo_props_ok g
    by (fastforce simp: demo_rule_def demo_change_msg_def demo_props_def)
qed

text \<open>
  C39. A move rule whose source lies deeper in the message copies: the node looks for a property
  that is called by the whole expression, does not find it and removes nothing, and the value
  stays where it was.
\<close>

theorem move_nested_copies:
  assumes "rule_t rule = RuleMove" "rule_pt rule = TMsg" "rule_tot rule = Some TMsg" "rule_to rule = Some dest"
    and src: "names_path (rule_p rule) qs" and dest: "names_path dest ps"
    and m: "msg_body m = Object o1" "map_ok o1" "map_of o1 (rule_p rule) = None"
    and v: "get_segs (map Property qs) (Object o1) = Some v" "variant_ok v"
    and "open_path (map Property ps) (Object o1)" "diverge (map Property ps) (map Property qs)"
  shows "\<exists>m'. apply_rule E rule (m, mgr) = ((m', mgr), Ok ())
    \<and> evaluate_raw_node_property E dest TMsg (m', mgr) = Ok v
    \<and> evaluate_raw_node_property E (rule_p rule) TMsg (m', mgr) = Ok v"
proof -
  have "evaluate_raw_node_property E (rule_p rule) TMsg (m, mgr) = Ok v"
    using get_dotted [OF src m(1), of "ce_num E"] v(1) by simp
  note move = move_in_msg [OF assms(1-4) m(1) this]
  obtain o2 where "set_nav_stripped (ce_num E) propex_parse dest v True m = (m\<lparr>msg_body := Object o2\<rparr>, Ok ())"
    and o2: "get_segs (map Property ps) (Object o2) = Some v" "get_segs (map Property qs) (Object o2) = Some v"
    using set_dotted [OF dest m(1,2) v(2) assms(12), of "ce_num E"] assms(13) v(1) by blast
  then have "apply_rule E rule (m, mgr) = ((m\<lparr>msg_body := Object o2\<rparr>, mgr), Ok ())"
    unfolding move using m by (simp add: set_property_def set_msg_def Msg_contains_def)
  then show ?thesis
    using o2 get_dotted [OF dest, of "m\<lparr>msg_body := Object o2\<rparr>" o2 "ce_num E"]
      get_dotted [OF src, of "m\<lparr>msg_body := Object o2\<rparr>" o2 "ce_num E"] by auto
qed

theorem move_nested_copies_witness:
  "\<exists>m'. apply_rule demo_env (demo_rule RuleMove ''payload.a'' ''label'') (demo_change_msg, None) = ((m', None), Ok ())
    \<and> evaluate_raw_node_property demo_env ''label'' TMsg (m', None) = Ok (Number 1)
    \<and> evaluate_raw_node_property demo_env ''payload.a'' TMsg (m', None) = Ok (Number 1)"
  using move_nested_copies [of "demo_rule RuleMove ''payload.a'' ''label''" "''label''" "[''payload'', ''a'']" "[''label'']"
      demo_change_msg demo_props "Number 1" demo_env None] demo_names(2,3) demo_props_ok
  by (simp add: demo_rule_def demo_change_msg_def demo_props_def del: evaluate_raw_node_property.simps)

text \<open>
  C40. A move rule removes its source before it writes the target: when the target is no property
  expression, the rule fails and the value is lost.
\<close>

theorem move_failing_loses_value:
  assumes "rule_t rule = RuleMove" "rule_pt rule = TMsg" "rule_tot rule = Some TMsg" "rule_to rule = Some dest"
    and p: "js_name (rule_p rule)" and m: "msg_body m = Object o1" "map_of o1 (rule_p rule) = Some v"
    and "propex_parse (strip_msg dest) = None"
  shows "apply_rule E rule (m, mgr) = ((m\<lparr>msg_body := Object (AList.delete (rule_p rule) o1)\<rparr>, mgr), Err None)"
proof -
  have "evaluate_raw_node_property E (rule_p rule) TMsg (m, mgr) = Ok v"
    using get_dotted [OF names_path_name [OF p] m(1), of "ce_num E"] m(2) by simp
  note move = move_in_msg [OF assms(1-4) m(1) this]
  show ?thesis
    unfolding move remove_source [OF m(1,2)]
    using assms(8) by (simp add: set_property_def set_msg_def set_nav_stripped_def Msg_set_nav_def set_nav_def)
qed

theorem move_failing_loses_value_witness:
  "apply_rule demo_env (demo_rule RuleMove ''topic'' ''a b'') (demo_change_msg, None)
    = ((demo_change_msg\<lparr>msg_body := Object [(''payload'', Object [(''a'', Number 1)])]\<rparr>, None), Err None)"
proof -
  have "propex_parse (strip_msg ''a b'') = None" by code_simp
  then show ?thesis
    using move_failing_loses_value [of "demo_rule RuleMove ''topic'' ''a b''" "''a b''" demo_change_msg demo_props "Bool True"
        demo_env None] demo_names(4)
    by (simp add: demo_rule_def demo_change_msg_def demo_props_def)
qed

text \<open>
  A move rule whose source is a flow or global context variable does nothing at all: the value
  is to be removed by setting it to nothing, which the node refuses for contexts, so that
  the target is never written.
\<close>

theorem move_from_context_does_nothing:
  assumes "rule_t rule = RuleMove" "rule_pt rule = TFlow \<or> rule_pt rule = TGlobal"
  shows "fst (apply_rule E rule st) = st"
proof -
  have "fst (apply_rule_move E rule st) = st"
    using assms(2) by (auto simp: apply_rule_move_def set_property_def split: option.splits outcome.splits)
  then show ?thesis using assms(1) by (auto simp: apply_rule_def split: outcome.splits)
qed

theorem move_from_context_does_nothing_witness:
  "fst (apply_rule demo_env ((demo_rule RuleMove ''topic'' ''label'')\<lparr>rule_pt := TFlow\<rparr>) (demo_change_msg, None)) = (demo_change_msg, None)"
  by (rule move_from_context_does_nothing) (simp_all add: demo_rule_def)

end
