(* ===== verification/Json.thy ===== *)
theory Json
  imports Variant
begin

text \<open>
  JSON values as \<^verbatim>\<open>serde_json\<close> represents them, with the accessors of \<^verbatim>\<open>text/json.rs\<close>. The
  numbers are a parameter; an object is a \<^verbatim>\<open>BTreeMap\<close>, the default of \<^verbatim>\<open>serde_json\<close>.
\<close>

datatype 'n Json =
  JNull
| JBool bool
| JNumber 'n
| JString string
| JArray "'n Json list"
| JObject "(string \<times> 'n Json) list"

type_synonym 'n JsonMap = "(string, 'n Json) btree"

named_theorems json_simps "accessors of JSON values"

fun jstr :: "'n Json \<Rightarrow> string option" where
  "jstr (JString s) = Some s"
| "jstr _ = None"

fun jarray :: "'n Json \<Rightarrow> 'n Json list option" where
  "jarray (JArray xs) = Some xs"
| "jarray _ = None"

fun jobject :: "'n Json \<Rightarrow> 'n JsonMap option" where
  "jobject (JObject m) = Some m"
| "jobject _ = None"

fun jget :: "string \<Rightarrow> 'n Json \<Rightarrow> 'n Json option" where
  "jget k (JObject m) = map_of m k"
| "jget k _ = None"

text \<open>The index operators: reading under a key gives null for a missing one, and assignment
  turns null into an object and panics on any other value that is not an object.\<close>

definition jindex :: "string \<Rightarrow> 'n Json \<Rightarrow> 'n Json" where
  "jindex k v = (case jget k v of Some x \<Rightarrow> x | None \<Rightarrow> JNull)"

fun jset :: "string \<Rightarrow> 'n Json \<Rightarrow> 'n Json \<Rightarrow> ('n Json, 'e) outcome" where
  "jset k x (JObject m) = Ok (JObject (btree_insert k x m))"
| "jset k x JNull = Ok (JObject [(k, x)])"
| "jset k x _ = Panic"

definition get_str :: "string \<Rightarrow> 'n Json \<Rightarrow> string option" where
  "get_str k v = Option.bind (jget k v) jstr"

definition value_equals_str :: "'n Json \<Rightarrow> string \<Rightarrow> bool" where
  "value_equals_str v target = (case jstr v of Some s \<Rightarrow> s = target | None \<Rightarrow> False)"

definition option_value_equals_str :: "'n Json option \<Rightarrow> string \<Rightarrow> bool" where
  "option_value_equals_str v target = (case v of Some x \<Rightarrow> value_equals_str x target | None \<Rightarrow> False)"

definition jarray_or_empty :: "'n Json option \<Rightarrow> 'n Json list" where
  "jarray_or_empty v = (case Option.bind v jarray of Some xs \<Rightarrow> xs | None \<Rightarrow> [])"

text \<open>A change in place of the value under a key, if it is there.\<close>

definition jupdate :: "string \<Rightarrow> ('n Json \<Rightarrow> 'n Json) \<Rightarrow> 'n JsonMap \<Rightarrow> 'n JsonMap" where
  "jupdate k f m = map (\<lambda>(j, v). (j, if j = k then f v else v)) m"

lemma map_of_jupdate [json_simps]: "map_of (jupdate k f m) j = (if j = k then map_option f (map_of m j) else map_of m j)"
  by (induction m) (auto simp: jupdate_def)

lemma keys_jupdate [json_simps]: "map fst (jupdate k f m) = map fst m"
  by (induction m) (auto simp: jupdate_def)

lemma btree_ok_jupdate [simp]: "btree_ok (jupdate k f m) = btree_ok m"
  by (simp add: btree_ok_def keys_jupdate)

text \<open>\<^verbatim>\<open>str::split_once\<close> with a character.\<close>

definition split_once :: "char \<Rightarrow> string \<Rightarrow> (string \<times> string) option" where
  "split_once c s = (if c \<in> set s then Some (takeWhile (\<lambda>x. x \<noteq> c) s, tl (dropWhile (\<lambda>x. x \<noteq> c) s)) else None)"

lemma split_once_eq: "split_once c s = Some (a, b) \<longleftrightarrow> s = a @ c # b \<and> c \<notin> set a"
proof
  assume "split_once c s = Some (a, b)"
  then have c: "c \<in> set s" "a = takeWhile (\<lambda>x. x \<noteq> c) s" "b = tl (dropWhile (\<lambda>x. x \<noteq> c) s)"
    by (simp_all add: split_once_def split: if_splits)
  then have "dropWhile (\<lambda>x. x \<noteq> c) s \<noteq> []" by (simp add: dropWhile_eq_Nil_conv)
  then have "dropWhile (\<lambda>x. x \<noteq> c) s = c # b"
    using c hd_dropWhile [of "\<lambda>x. x \<noteq> c" s] by (cases "dropWhile (\<lambda>x. x \<noteq> c) s") auto
  moreover have "c \<notin> set a" unfolding c(2) by (auto dest: set_takeWhileD)
  ultimately show "s = a @ c # b \<and> c \<notin> set a" using c(2) by (metis takeWhile_dropWhile_id)
next
  assume "s = a @ c # b \<and> c \<notin> set a"
  moreover then have "\<forall>x \<in> set a. x \<noteq> c" by blast
  ultimately show "split_once c s = Some (a, b)"
    by (simp add: split_once_def takeWhile_append2 dropWhile_append2)
qed

end
