(* ===== verification/Flows_Json.thy ===== *)
theory Flows_Json
  imports Json Msg Graph
begin

text \<open>
  The loader of \<^verbatim>\<open>flows.json\<close> (\<^verbatim>\<open>runtime/model/json/deser.rs\<close> with the records of
  \<^verbatim>\<open>json/mod.rs\<close>): the expansion of subflow instances, the merging of their environments, and
  the loading of flows, groups and nodes in the order of their dependencies.

  Parameters: the numbers, the hash of identifiers that are not hexadecimal, and the
  identifiers that \<^verbatim>\<open>ElementId::new\<close> draws, the \<open>i\<close>-th of which is \<open>new_id i\<close>. The errors of
  \<^verbatim>\<open>serde\<close> are \<open>None\<close>. A hash set that is only tested for membership is the list of its
  elements.
\<close>

section \<open>Identifiers and types\<close>

record RedElementTypeValue =
  red_type :: string
  red_type_id :: "ElementId option"

definition parse_red_type_value :: "(string \<Rightarrow> u64) \<Rightarrow> string \<Rightarrow> RedElementTypeValue" where
  "parse_red_type_value hash t =
     (case split_once CHR '':'' t of
        Some (x, y) \<Rightarrow> \<lparr>red_type = x, red_type_id = parse_red_id_str hash y\<rparr>
      | None \<Rightarrow> \<lparr>red_type = t, red_type_id = None\<rparr>)"

definition parse_red_id_value :: "(string \<Rightarrow> u64) \<Rightarrow> 'n Json \<Rightarrow> ElementId option" where
  "parse_red_id_value hash v = Option.bind (jstr v) (parse_red_id_str hash)"

definition generate_new_xored_id ::
    "(string \<Rightarrow> u64) \<Rightarrow> ElementId \<Rightarrow> string \<Rightarrow> (ElementId, RustRedError option) outcome" where
  "generate_new_xored_id hash subflow_id old_id =
     obind (ok_or (parse_red_id_str hash old_id) (Some (BadFlowsJson old_id))) (\<lambda>i. Ok (subflow_id XOR i))"

section \<open>Subflows\<close>

record 'n SubflowPack =
  sp_subflow_id :: string
  sp_instance :: "'n Json"
  sp_subflow :: "'n Json"
  sp_children :: "'n Json list"

text \<open>The subflow an element is an instance of.\<close>

definition instance_of :: "'n Json \<Rightarrow> string option" where
  "instance_of v =
     (case Option.bind (get_str ''type'' v) (split_once CHR '':'') of
        Some (x, y) \<Rightarrow> if x = ''subflow'' then Some y else None
      | None \<Rightarrow> None)"

definition subflow_pack :: "'n Json list \<Rightarrow> 'n Json \<Rightarrow> string \<Rightarrow> ('n SubflowPack, RustRedError option) outcome" where
  "subflow_pack elements jv subflow_id =
     obind (ok_or (find (\<lambda>x. get_str ''id'' x = Some subflow_id) elements) (Some (BadFlowsJson subflow_id)))
       (\<lambda>subflow. Ok \<lparr>sp_subflow_id = subflow_id, sp_instance = jv, sp_subflow = subflow,
          sp_children = filter (\<lambda>x. get_str ''z'' x = Some subflow_id) elements\<rparr>)"

fun collect_packs :: "'n Json list \<Rightarrow> 'n Json list \<Rightarrow> ('n SubflowPack list, RustRedError option) outcome" where
  "collect_packs elements [] = Ok []"
| "collect_packs elements (jv # jvs) =
     (case instance_of jv of
        None \<Rightarrow> collect_packs elements jvs
      | Some i \<Rightarrow> obind (subflow_pack elements jv i) (\<lambda>p. obind (collect_packs elements jvs) (\<lambda>ps. Ok (p # ps))))"

definition packed :: "'n SubflowPack \<Rightarrow> 'n Json list" where
  "packed p = sp_instance p # sp_subflow p # sp_children p"

type_synonym id_map = "(string, string) hmap"

fun new_children ::
    "(string \<Rightarrow> u64) \<Rightarrow> ElementId \<Rightarrow> 'n Json list \<Rightarrow> id_map \<Rightarrow> ('n Json list \<times> id_map, RustRedError option) outcome" where
  "new_children hash subflow_new_id [] ids = Ok ([], ids)"
| "new_children hash subflow_new_id (c # cs) ids =
     obind (ok_or (get_str ''id'' c) (Some (BadFlowsJson ''A node inside a subflow must have a string id property'')))
       (\<lambda>old_child_id.
     obind (generate_new_xored_id hash subflow_new_id old_child_id) (\<lambda>new_child_id.
     obind (jset ''id'' (JString (ElementId_to_string new_child_id)) c) (\<lambda>new_child.
     obind (new_children hash subflow_new_id cs (AList.update old_child_id (ElementId_to_string new_child_id) ids))
       (\<lambda>(new_elements, ids'). Ok (new_child # new_elements, ids')))))"

definition expand_pack ::
    "(string \<Rightarrow> u64) \<Rightarrow> ElementId \<Rightarrow> 'n SubflowPack \<Rightarrow> id_map \<Rightarrow> ('n Json list \<times> id_map, RustRedError option) outcome" where
  "expand_pack hash subflow_new_id pack ids =
     (let new_subflow_id = ElementId_to_string subflow_new_id in
      obind (jset ''id'' (JString new_subflow_id) (sp_subflow pack)) (\<lambda>new_subflow.
      obind (jset ''type'' (JString (''subflow:'' @ new_subflow_id)) (sp_instance pack)) (\<lambda>new_instance.
      obind (new_children hash subflow_new_id (sp_children pack) (AList.update (sp_subflow_id pack) new_subflow_id ids))
        (\<lambda>(new_elements, ids'). Ok (new_subflow # new_instance # new_elements, ids')))))"

fun expand_packs ::
    "(string \<Rightarrow> u64) \<Rightarrow> (nat \<Rightarrow> ElementId) \<Rightarrow> nat \<Rightarrow> 'n SubflowPack list \<Rightarrow> id_map
      \<Rightarrow> ('n Json list \<times> id_map, RustRedError option) outcome" where
  "expand_packs hash new_id i [] ids = Ok ([], ids)"
| "expand_packs hash new_id i (p # ps) ids =
     obind (expand_pack hash (new_id i) p ids) (\<lambda>(xs, ids1).
       obind (expand_packs hash new_id (Suc i) ps ids1) (\<lambda>(ys, ids2). Ok (xs @ ys, ids2)))"

text \<open>The properties that name other elements follow the map of identifiers.\<close>

fun remap_id :: "id_map \<Rightarrow> 'n Json \<Rightarrow> 'n Json" where
  "remap_id ids (JString s) = JString (case map_of ids s of Some i \<Rightarrow> i | None \<Rightarrow> s)"
| "remap_id ids v = v"

fun remap_type :: "id_map \<Rightarrow> 'n Json \<Rightarrow> 'n Json" where
  "remap_type ids (JString s) =
     (case split_once CHR '':'' s of
        Some (x, old_id) \<Rightarrow>
          if x = ''subflow'' then
            (case map_of ids old_id of Some i \<Rightarrow> JString (''subflow:'' @ i) | None \<Rightarrow> JString s)
          else JString s
      | None \<Rightarrow> JString s)"
| "remap_type ids v = v"

fun remap_ids :: "id_map \<Rightarrow> 'n Json \<Rightarrow> 'n Json" where
  "remap_ids ids (JArray xs) = JArray (map (remap_id ids) xs)"
| "remap_ids ids v = v"

fun remap_wire :: "id_map \<Rightarrow> 'n Json \<Rightarrow> ('n Json, RustRedError option) outcome" where
  "remap_wire ids (JArray xs) = Ok (JArray (map (remap_id ids) xs))"
| "remap_wire ids v = Err (Some (BadFlowsJson ''A wires entry must be an array of node ids''))"

fun remap_wires :: "id_map \<Rightarrow> 'n Json \<Rightarrow> ('n Json, RustRedError option) outcome" where
  "remap_wires ids (JArray ws) = obind (omap (remap_wire ids) ws) (\<lambda>ws'. Ok (JArray ws'))"
| "remap_wires ids v = Ok v"

fun remap_port_wire :: "id_map \<Rightarrow> 'n Json \<Rightarrow> 'n Json" where
  "remap_port_wire ids (JObject m) = JObject (jupdate ''id'' (remap_id ids) m)"
| "remap_port_wire ids v = v"

text \<open>\<^verbatim>\<open>in_item["wires"]\<close> is a mutable index: it panics unless the port is an object or null.\<close>

fun remap_port :: "id_map \<Rightarrow> 'n Json \<Rightarrow> ('n Json, RustRedError option) outcome" where
  "remap_port ids (JObject m) =
     (case map_of m ''wires'' of
        Some (JArray ws) \<Rightarrow> Ok (JObject (jupdate ''wires'' (\<lambda>_. JArray (map (remap_port_wire ids) ws)) m))
      | _ \<Rightarrow> Err (Some (BadFlowsJson ''A subflow port must have a wires array'')))"
| "remap_port ids JNull = Err (Some (BadFlowsJson ''A subflow port must have a wires array''))"
| "remap_port ids _ = Panic"

fun remap_ports :: "id_map \<Rightarrow> 'n Json \<Rightarrow> ('n Json, RustRedError option) outcome" where
  "remap_ports ids (JArray ps) = obind (omap (remap_port ids) ps) (\<lambda>ps'. Ok (JArray ps'))"
| "remap_ports ids v = Ok v"

text \<open>The change of a property in place that may fail.\<close>

definition try_update ::
    "string \<Rightarrow> ('n Json \<Rightarrow> ('n Json, 'e) outcome) \<Rightarrow> 'n JsonMap \<Rightarrow> ('n JsonMap, 'e) outcome" where
  "try_update k f m =
     (case map_of m k of None \<Rightarrow> Ok m | Some v \<Rightarrow> obind (f v) (\<lambda>v'. Ok (jupdate k (\<lambda>_. v') m)))"

definition remap_names :: "id_map \<Rightarrow> 'n JsonMap \<Rightarrow> 'n JsonMap" where
  "remap_names ids m = jupdate ''type'' (remap_type ids) (jupdate ''g'' (remap_id ids) (jupdate ''z'' (remap_id ids) m))"

definition remap_lists :: "id_map \<Rightarrow> 'n JsonMap \<Rightarrow> 'n JsonMap" where
  "remap_lists ids m = jupdate ''links'' (remap_ids ids) (jupdate ''scope'' (remap_ids ids) m)"

fun remap_element :: "id_map \<Rightarrow> 'n Json \<Rightarrow> ('n Json, RustRedError option) outcome" where
  "remap_element ids (JObject m) =
     obind (try_update ''wires'' (remap_wires ids) (remap_names ids m)) (\<lambda>m1.
     obind (try_update ''in'' (remap_ports ids) (remap_lists ids m1)) (\<lambda>m2.
     obind (try_update ''out'' (remap_ports ids) m2) (\<lambda>m3. Ok (JObject m3))))"
| "remap_element ids _ = Err (Some (BadFlowsJson ''A subflow element must be an object''))"

definition not_array :: RustRedError where
  "not_array = BadFlowsJson ''Cannot convert the value into an array''"

definition preprocess_subflows ::
    "(string \<Rightarrow> u64) \<Rightarrow> (nat \<Rightarrow> ElementId) \<Rightarrow> 'n Json \<Rightarrow> ('n Json, RustRedError option) outcome" where
  "preprocess_subflows hash new_id root =
     obind (ok_or (jarray root) (Some not_array)) (\<lambda>elements.
     obind (collect_packs elements elements) (\<lambda>packs.
     obind (expand_packs hash new_id 0 packs []) (\<lambda>(new_elements, ids).
     obind (omap (remap_element ids) new_elements) (\<lambda>remapped.
       Ok (JArray (remapped @ filter (\<lambda>x. x \<notin> set (concat (map packed packs))) elements))))))"

section \<open>Environments of subflow instances\<close>

definition merge_env :: "'n Json \<Rightarrow> 'n Json \<Rightarrow> ('n Json, RustRedError option) outcome" where
  "merge_env target_envs ref_envs =
     obind (ok_or (jarray target_envs) (Some (BadArgument ''target_envs''))) (\<lambda>target.
     obind (ok_or (jarray ref_envs) (Some (BadArgument ''ref_envs''))) (\<lambda>refs.
       let target_names = List.map_filter (get_str ''name'') target in
       Ok (JArray (target @ filter (\<lambda>x. case get_str ''name'' x of Some n \<Rightarrow> n \<notin> set target_names | None \<Rightarrow> False) refs))))"

fun subflow_envs :: "'n Json list \<Rightarrow> (string, 'n Json) hmap \<Rightarrow> ((string, 'n Json) hmap, RustRedError option) outcome" where
  "subflow_envs [] subflows = Ok subflows"
| "subflow_envs (x # xs) subflows =
     (if get_str ''type'' x \<noteq> Some ''subflow'' then subflow_envs xs subflows
      else case jget ''env'' x of
        None \<Rightarrow> subflow_envs xs subflows
      | Some env \<Rightarrow>
          obind (ok_or (get_str ''id'' x) (Some (BadFlowsJson ''The subflow element must have a string id property'')))
            (\<lambda>i. subflow_envs xs (AList.update i env subflows)))"

definition merge_instance_env :: "(string, 'n Json) hmap \<Rightarrow> 'n Json \<Rightarrow> ('n Json, RustRedError option) outcome" where
  "merge_instance_env subflows x =
     (case Option.bind (instance_of x) (map_of subflows) of
        None \<Rightarrow> Ok x
      | Some subflow_env \<Rightarrow>
          obind (merge_env (case jget ''env'' x of Some e \<Rightarrow> e | None \<Rightarrow> JArray []) subflow_env)
            (\<lambda>e. jset ''env'' e x))"

definition preprocess_merge_subflow_env :: "'n Json \<Rightarrow> ('n Json, RustRedError option) outcome" where
  "preprocess_merge_subflow_env flows =
     obind (ok_or (jarray flows) (Some (BadArgument ''flows''))) (\<lambda>elements.
     obind (subflow_envs elements []) (\<lambda>subflows.
     obind (omap (merge_instance_env subflows) elements) (\<lambda>es. Ok (JArray es))))"

section \<open>Dependencies\<close>

definition flatten_wires :: "'n Json \<Rightarrow> 'n Json list" where
  "flatten_wires v = concat (map (\<lambda>w. jarray_or_empty (Some w)) (jarray_or_empty (jget ''wires'' v)))"

definition is_link :: "'n Json \<Rightarrow> bool" where
  "is_link x \<longleftrightarrow> option_value_equals_str (jget ''type'' x) ''link out'' \<or> option_value_equals_str (jget ''type'' x) ''link call''"

definition get_flow_dependencies :: "(string \<Rightarrow> u64) \<Rightarrow> 'n Json \<Rightarrow> 'n Json list \<Rightarrow> ElementId list" where
  "get_flow_dependencies hash this elements =
     (let this_id = jget ''id'' this;
          wires_ids = concat (map flatten_wires (filter (\<lambda>x. jget ''z'' x = this_id) elements));
          related_link_in_ids =
            concat (map (\<lambda>x. if jget ''z'' x = this_id \<and> is_link x then jarray_or_empty (jget ''links'' x) else []) elements);
          related = filter (\<lambda>x. case jget ''id'' x of
              Some flow_id \<Rightarrow> flow_id \<in> set wires_ids
                \<or> option_value_equals_str (jget ''type'' x) ''link in'' \<and> flow_id \<in> set related_link_in_ids
            | None \<Rightarrow> False) elements in
      List.map_filter (parse_red_id_value hash)
        (List.map_filter (jget ''z'') (filter (\<lambda>x. jget ''z'' x \<noteq> this_id) related)))"

definition get_subflow_dependencies ::
    "(string \<Rightarrow> u64) \<Rightarrow> 'n Json \<Rightarrow> 'n Json list \<Rightarrow> (ElementId list, RustRedError option) outcome" where
  "get_subflow_dependencies hash this elements =
     obind (or_panic (get_str ''id'' this)) (\<lambda>subflow_id.
       Ok (List.map_filter (parse_red_id_value hash)
             (List.map_filter (jget ''z'') (filter (\<lambda>o'. instance_of o' = Some subflow_id) elements))))"

definition get_flow_node_dependencies :: "(string \<Rightarrow> u64) \<Rightarrow> 'n Json \<Rightarrow> ElementId list" where
  "get_flow_node_dependencies hash this =
     (let flat = (\<lambda>k. concat (map (\<lambda>w. jarray_or_empty (Some w)) (jarray_or_empty (jget k this)))) in
      List.map_filter (parse_red_id_value hash)
        (flat ''wires'' @ flat ''scope''
         @ (if get_str ''type'' this = Some ''link out'' \<or> get_str ''type'' this = Some ''link call''
            then jarray_or_empty (jget ''links'' this) else [])))"

end
