(* ===== verification/Flows_Load.thy ===== *)
theory Flows_Load
  imports Flows_Json
begin

text \<open>
  \<^verbatim>\<open>load_flows_json_value\<close>: the records that \<^verbatim>\<open>serde\<close> reads from the elements, the sorting of the
  elements by kind, and the configuration of flows with their groups and nodes.

  A record that ends in a flattened \<^verbatim>\<open>rest\<close> is read from an object: every field has the keys it
  may stand under, two of them at once are an error, and what no field claims is the rest.
\<close>

section \<open>Fields\<close>

definition has_keys :: "string list \<Rightarrow> 'n JsonMap \<Rightarrow> (string \<times> 'n Json) list" where
  "has_keys names m = filter (\<lambda>(k, _). k \<in> set names) m"

definition required :: "string list \<Rightarrow> ('n Json \<Rightarrow> 'a option) \<Rightarrow> 'n JsonMap \<Rightarrow> 'a option" where
  "required names f m = (case has_keys names m of [(_, v)] \<Rightarrow> f v | _ \<Rightarrow> None)"

definition defaulted :: "string list \<Rightarrow> 'a \<Rightarrow> ('n Json \<Rightarrow> 'a option) \<Rightarrow> 'n JsonMap \<Rightarrow> 'a option" where
  "defaulted names d f m = (case has_keys names m of [] \<Rightarrow> Some d | [(_, v)] \<Rightarrow> f v | _ \<Rightarrow> None)"

definition flattened :: "string list \<Rightarrow> 'n JsonMap \<Rightarrow> 'n Json" where
  "flattened names m = JObject (filter (\<lambda>(k, _). k \<notin> set names) m)"

fun de_bool :: "'n Json \<Rightarrow> bool option" where
  "de_bool (JBool b) = Some b"
| "de_bool _ = None"

fun de_option :: "('n Json \<Rightarrow> 'a option) \<Rightarrow> 'n Json \<Rightarrow> 'a option option" where
  "de_option f JNull = Some None"
| "de_option f v = map_option Some (f v)"

fun de_vec :: "('n Json \<Rightarrow> 'a option) \<Rightarrow> 'n Json \<Rightarrow> 'a list option" where
  "de_vec f (JArray xs) = all_some (map f xs)"
| "de_vec f _ = None"

fun de_usize :: "'n num_ops \<Rightarrow> 'n Json \<Rightarrow> nat option" where
  "de_usize N (JNumber n) = map_option unat (num_as_u64 N n)"
| "de_usize N _ = None"

definition deser_red_id :: "(string \<Rightarrow> u64) \<Rightarrow> 'n Json \<Rightarrow> ElementId option" where
  "deser_red_id hash v = Option.bind (jstr v) (parse_red_id_str hash)"

definition deser_red_optional_id :: "(string \<Rightarrow> u64) \<Rightarrow> 'n Json \<Rightarrow> ElementId option option" where
  "deser_red_optional_id hash v =
     Option.bind (de_option jstr v) (\<lambda>s.
       case s of
         None \<Rightarrow> Some None
       | Some s' \<Rightarrow> if s' = [] then Some None else map_option Some (parse_red_id_str hash s'))"

definition deser_red_id_vec :: "(string \<Rightarrow> u64) \<Rightarrow> 'n Json \<Rightarrow> ElementId list option" where
  "deser_red_id_vec hash v = Option.bind (de_vec jstr v) (\<lambda>str_ids. all_some (map (parse_red_id_str hash) str_ids))"

section \<open>Configurations\<close>

record RedPortConfig =
  node_ids :: "ElementId list"

record 'n RedGroupConfig =
  gc_id :: ElementId
  gc_name :: string
  gc_disabled :: bool
  gc_nodes :: "ElementId list"
  gc_z :: ElementId
  gc_g :: "ElementId option"
  gc_rest :: "'n Json"

record RedSubflowPortWire =
  pw_id :: ElementId
  pw_port :: nat

record RedSubflowPort =
  sp_wires :: "RedSubflowPortWire list"

record 'n RedFlowNodeConfig =
  nc_id :: ElementId
  nc_type_name :: string
  nc_name :: string
  nc_z :: ElementId
  nc_g :: "ElementId option"
  nc_disabled :: bool
  nc_wires :: "RedPortConfig list"
  nc_ordering :: nat
  nc_rest :: "'n Json"

record 'n RedFlowConfig =
  fc_disabled :: bool
  fc_id :: ElementId
  fc_info :: string
  fc_label :: string
  fc_type_name :: string
  fc_nodes :: "'n RedFlowNodeConfig list"
  fc_groups :: "'n RedGroupConfig list"
  fc_in_ports :: "RedSubflowPort list"
  fc_out_ports :: "RedSubflowPort list"
  fc_subflow_node_id :: "ElementId option"
  fc_ordering :: nat
  fc_rest :: "'n Json"

record 'n RedGlobalNodeConfig =
  gn_id :: ElementId
  gn_type_name :: string
  gn_name :: string
  gn_active :: "bool option"
  gn_disabled :: bool
  gn_ordering :: nat
  gn_rest :: "'n Json"

record 'n ResolvedFlows =
  rf_flows :: "'n RedFlowConfig list"
  rf_global_nodes :: "'n RedGlobalNodeConfig list"

definition deserialize_wires :: "(string \<Rightarrow> u64) \<Rightarrow> 'n Json \<Rightarrow> RedPortConfig list option" where
  "deserialize_wires hash v =
     Option.bind (de_vec (de_vec jstr) v) (\<lambda>wires.
       map_option (map RedPortConfig.make) (all_some (map (\<lambda>w. all_some (map (parse_red_id_str hash) w)) wires)))"

definition group_config :: "(string \<Rightarrow> u64) \<Rightarrow> 'n JsonMap \<Rightarrow> 'n RedGroupConfig option" where
  "group_config hash m =
     Option.bind (required [''id''] (deser_red_id hash) m) (\<lambda>i.
     Option.bind (defaulted [''name''] [] jstr m) (\<lambda>name.
     Option.bind (defaulted [''disabled''] False de_bool m) (\<lambda>disabled.
     Option.bind (defaulted [''nodes''] [] (deser_red_id_vec hash) m) (\<lambda>nodes.
     Option.bind (required [''z''] (deser_red_id hash) m) (\<lambda>z.
     Option.bind (defaulted [''g''] None (deser_red_optional_id hash) m) (\<lambda>g.
       Some \<lparr>gc_id = i, gc_name = name, gc_disabled = disabled, gc_nodes = nodes, gc_z = z, gc_g = g,
         gc_rest = flattened [''id'', ''name'', ''disabled'', ''nodes'', ''z'', ''g''] m\<rparr>))))))"

definition flow_node_config :: "(string \<Rightarrow> u64) \<Rightarrow> 'n JsonMap \<Rightarrow> 'n RedFlowNodeConfig option" where
  "flow_node_config hash m =
     Option.bind (required [''id''] (deser_red_id hash) m) (\<lambda>i.
     Option.bind (required [''type_name'', ''type''] jstr m) (\<lambda>type_name.
     Option.bind (defaulted [''name''] [] jstr m) (\<lambda>name.
     Option.bind (required [''z''] (deser_red_id hash) m) (\<lambda>z.
     Option.bind (defaulted [''g''] None (deser_red_optional_id hash) m) (\<lambda>g.
     Option.bind (defaulted [''disabled'', ''d''] False de_bool m) (\<lambda>disabled.
     Option.bind (defaulted [''wires''] [] (deserialize_wires hash) m) (\<lambda>wires.
       Some \<lparr>nc_id = i, nc_type_name = type_name, nc_name = name, nc_z = z, nc_g = g, nc_disabled = disabled,
         nc_wires = wires, nc_ordering = 0,
         nc_rest = flattened [''id'', ''type_name'', ''type'', ''name'', ''z'', ''g'', ''disabled'', ''d'', ''wires''] m\<rparr>)))))))"

definition global_node_config :: "(string \<Rightarrow> u64) \<Rightarrow> 'n JsonMap \<Rightarrow> 'n RedGlobalNodeConfig option" where
  "global_node_config hash m =
     Option.bind (required [''id''] (deser_red_id hash) m) (\<lambda>i.
     Option.bind (required [''type_name'', ''type''] jstr m) (\<lambda>type_name.
     Option.bind (defaulted [''name''] [] jstr m) (\<lambda>name.
     Option.bind (defaulted [''active''] None (de_option de_bool) m) (\<lambda>active.
     Option.bind (defaulted [''disabled''] False de_bool m) (\<lambda>disabled.
       Some \<lparr>gn_id = i, gn_type_name = type_name, gn_name = name, gn_active = active, gn_disabled = disabled,
         gn_ordering = 0, gn_rest = flattened [''id'', ''type_name'', ''type'', ''name'', ''active'', ''disabled''] m\<rparr>)))))"

text \<open>Records without a flattened rest are also read from an array of their fields.\<close>

fun port_wire :: "'n num_ops \<Rightarrow> (string \<Rightarrow> u64) \<Rightarrow> 'n Json \<Rightarrow> RedSubflowPortWire option" where
  "port_wire N hash (JObject m) =
     Option.bind (required [''id''] (deser_red_id hash) m) (\<lambda>i.
       map_option (RedSubflowPortWire.make i) (defaulted [''port''] 0 (de_usize N) m))"
| "port_wire N hash (JArray [i]) = map_option (\<lambda>i'. RedSubflowPortWire.make i' 0) (deser_red_id hash i)"
| "port_wire N hash (JArray [i, p]) =
     Option.bind (deser_red_id hash i) (\<lambda>i'. map_option (RedSubflowPortWire.make i') (de_usize N p))"
| "port_wire N hash _ = None"

fun subflow_port :: "'n num_ops \<Rightarrow> (string \<Rightarrow> u64) \<Rightarrow> 'n Json \<Rightarrow> RedSubflowPort option" where
  "subflow_port N hash (JObject m) = map_option RedSubflowPort.make (defaulted [''wires''] [] (de_vec (port_wire N hash)) m)"
| "subflow_port N hash (JArray []) = Some (RedSubflowPort.make [])"
| "subflow_port N hash (JArray [ws]) = map_option RedSubflowPort.make (de_vec (port_wire N hash) ws)"
| "subflow_port N hash _ = None"

definition flow_config :: "'n num_ops \<Rightarrow> (string \<Rightarrow> u64) \<Rightarrow> 'n JsonMap \<Rightarrow> 'n RedFlowConfig option" where
  "flow_config N hash m =
     Option.bind (defaulted [''disabled''] False de_bool m) (\<lambda>disabled.
     Option.bind (required [''id''] (deser_red_id hash) m) (\<lambda>i.
     Option.bind (defaulted [''info''] [] jstr m) (\<lambda>info.
     Option.bind (defaulted [''label''] [] jstr m) (\<lambda>label.
     Option.bind (required [''type_name'', ''type''] jstr m) (\<lambda>type_name.
     Option.bind (defaulted [''in_ports'', ''in''] [] (de_vec (subflow_port N hash)) m) (\<lambda>in_ports.
     Option.bind (defaulted [''out_ports'', ''out''] [] (de_vec (subflow_port N hash)) m) (\<lambda>out_ports.
       Some \<lparr>fc_disabled = disabled, fc_id = i, fc_info = info, fc_label = label, fc_type_name = type_name,
         fc_nodes = [], fc_groups = [], fc_in_ports = in_ports, fc_out_ports = out_ports,
         fc_subflow_node_id = None, fc_ordering = 0,
         fc_rest = flattened [''disabled'', ''id'', ''info'', ''label'', ''type_name'', ''type'',
           ''in_ports'', ''in'', ''out_ports'', ''out''] m\<rparr>)))))))"

section \<open>Loading\<close>

record 'n LoadState =
  ls_flows :: "(ElementId, 'n Json) hmap"
  ls_groups :: "(ElementId, 'n RedGroupConfig) hmap"
  ls_flow_nodes :: "(ElementId, 'n Json) hmap"
  ls_global_nodes :: "'n RedGlobalNodeConfig list"
  ls_flow_topo :: "ElementId TopologicalSorter"
  ls_group_topo :: "ElementId TopologicalSorter"
  ls_node_topo :: "ElementId TopologicalSorter"

definition LoadState_new :: "'n LoadState" where
  "LoadState_new = \<lparr>ls_flows = [], ls_groups = [], ls_flow_nodes = [], ls_global_nodes = [],
     ls_flow_topo = TopologicalSorter_new, ls_group_topo = TopologicalSorter_new, ls_node_topo = TopologicalSorter_new\<rparr>"

definition put_flow :: "ElementId \<Rightarrow> ElementId list \<Rightarrow> 'n Json \<Rightarrow> 'n LoadState \<Rightarrow> 'n LoadState" where
  "put_flow i deps x st = st\<lparr>ls_flow_topo := add_deps i deps (add_vertex i (ls_flow_topo st)),
     ls_flows := AList.update i x (ls_flows st)\<rparr>"

definition put_node :: "(string \<Rightarrow> u64) \<Rightarrow> ElementId \<Rightarrow> 'n Json \<Rightarrow> 'n LoadState \<Rightarrow> 'n LoadState" where
  "put_node hash i x st =
     st\<lparr>ls_node_topo := add_deps i (get_flow_node_dependencies hash x) (add_vertex i (ls_node_topo st)),
       ls_flow_nodes := AList.update i x (ls_flow_nodes st)\<rparr>"

definition put_group :: "ElementId \<Rightarrow> 'n RedGroupConfig \<Rightarrow> 'n LoadState \<Rightarrow> 'n LoadState" where
  "put_group i g st =
     st\<lparr>ls_group_topo := (case gc_g g of Some parent \<Rightarrow> add_dep i parent | None \<Rightarrow> id) (add_vertex i (ls_group_topo st)),
       ls_groups := AList.update i g (ls_groups st)\<rparr>"

definition load_group ::
    "(string \<Rightarrow> u64) \<Rightarrow> ElementId \<Rightarrow> 'n JsonMap \<Rightarrow> 'n LoadState \<Rightarrow> ('n LoadState, RustRedError option) outcome" where
  "load_group hash i m st =
     (if map_of m ''z'' = None then Err (Some (BadFlowsJson ''The group must have a z property''))
      else obind (ok_or (group_config hash m) None) (\<lambda>g. Ok (put_group i g st)))"

definition load_dynamic ::
    "(string \<Rightarrow> u64) \<Rightarrow> ElementId \<Rightarrow> 'n JsonMap \<Rightarrow> 'n LoadState \<Rightarrow> ('n LoadState, RustRedError option) outcome" where
  "load_dynamic hash i m st =
     (if map_of m ''z'' \<noteq> None then Ok (put_node hash i (JObject m) st)
      else obind (ok_or (global_node_config hash m) None) (\<lambda>g. Ok (st\<lparr>ls_global_nodes := ls_global_nodes st @ [g]\<rparr>)))"

definition load_typed ::
    "(string \<Rightarrow> u64) \<Rightarrow> 'n Json list \<Rightarrow> ElementId \<Rightarrow> RedElementTypeValue \<Rightarrow> 'n JsonMap \<Rightarrow> 'n LoadState
      \<Rightarrow> ('n LoadState, RustRedError option) outcome" where
  "load_typed hash all_values i t m st =
     (if red_type t = ''tab'' then Ok (put_flow i (get_flow_dependencies hash (JObject m) all_values) (JObject m) st)
      else if red_type t = ''subflow'' then
        (if red_type_id t \<noteq> None then Ok (put_node hash i (JObject m) st)
         else obind (get_subflow_dependencies hash (JObject m) all_values) (\<lambda>deps. Ok (put_flow i deps (JObject m) st)))
      else if red_type t = ''group'' then load_group hash i m st
      else if red_type t = ''comment'' then Ok st
      else load_dynamic hash i m st)"

fun load_element ::
    "(string \<Rightarrow> u64) \<Rightarrow> 'n Json list \<Rightarrow> 'n Json \<Rightarrow> 'n LoadState \<Rightarrow> ('n LoadState, RustRedError option) outcome" where
  "load_element hash all_values (JObject m) st =
     (case (Option.bind (map_of m ''id'') (parse_red_id_value hash), get_str ''type'' (JObject m)) of
        (Some i, Some t) \<Rightarrow> load_typed hash all_values i (parse_red_type_value hash t) m st
      | _ \<Rightarrow> Ok st)"
| "load_element hash all_values _ st = Err (Some (BadFlowsJson ''The entry in flows.json must be an object''))"

text \<open>\<^verbatim>\<open>remove\<close> each identifier of the sorted list from the table; one that is missing is an error.\<close>

definition no_element :: "ElementId \<Rightarrow> RustRedError" where
  "no_element i = BadFlowsJson (ElementId_to_string i)"

fun take_sorted :: "ElementId list \<Rightarrow> (ElementId, 'a) hmap \<Rightarrow> ('a list, RustRedError option) outcome" where
  "take_sorted [] m = Ok []"
| "take_sorted (i # is) m =
     (case map_of m i of
        None \<Rightarrow> Err (Some (no_element i))
      | Some x \<Rightarrow> obind (take_sorted is (AList.delete i m)) (\<lambda>xs. Ok (x # xs)))"

definition sorted_elements ::
    "ElementId TopologicalSorter \<Rightarrow> (ElementId, 'a) hmap \<Rightarrow> ('a list, RustRedError option) outcome" where
  "sorted_elements topo m = obind (map_outcome (\<lambda>x. x) (\<lambda>_. None) (dependency_sort topo)) (\<lambda>ids. take_sorted ids m)"

fun number_nodes :: "(string \<Rightarrow> u64) \<Rightarrow> nat \<Rightarrow> 'n Json list \<Rightarrow> ('n RedFlowNodeConfig list, RustRedError option) outcome" where
  "number_nodes hash i [] = Ok []"
| "number_nodes hash i (x # xs) =
     obind (ok_or (Option.bind (jobject x) (flow_node_config hash)) None) (\<lambda>c.
       obind (number_nodes hash (Suc i) xs) (\<lambda>cs. Ok (c\<lparr>nc_ordering := i\<rparr> # cs)))"

definition owned_by :: "(string \<Rightarrow> u64) \<Rightarrow> ElementId \<Rightarrow> 'n Json \<Rightarrow> bool" where
  "owned_by hash flow x \<longleftrightarrow> Option.bind (jget ''z'' x) (parse_red_id_value hash) = Some flow"

definition subflow_node ::
    "(string \<Rightarrow> u64) \<Rightarrow> 'n Json list \<Rightarrow> 'n RedFlowConfig \<Rightarrow> ElementId option" where
  "subflow_node hash all_values c =
     (if fc_type_name c = ''subflow'' then
        let key_type = ''subflow:'' @ ElementId_to_string (fc_id c) in
        Option.bind (find (\<lambda>x. get_str ''type'' x = Some key_type) all_values)
          (\<lambda>x. Option.bind (jget ''id'' x) (parse_red_id_value hash))
      else None)"

definition configure_flow ::
    "'n num_ops \<Rightarrow> (string \<Rightarrow> u64) \<Rightarrow> 'n Json list \<Rightarrow> 'n RedGroupConfig list \<Rightarrow> 'n Json list \<Rightarrow> nat \<Rightarrow> 'n Json
      \<Rightarrow> ('n RedFlowConfig, RustRedError option) outcome" where
  "configure_flow N hash all_values groups nodes flow_ordering flow =
     obind (ok_or (Option.bind (jobject flow) (flow_config N hash)) None) (\<lambda>c.
     obind (number_nodes hash 0 (filter (owned_by hash (fc_id c)) nodes)) (\<lambda>ns.
       Ok (c\<lparr>fc_ordering := flow_ordering, fc_subflow_node_id := subflow_node hash all_values c,
           fc_groups := filter (\<lambda>g. gc_z g = fc_id c) groups, fc_nodes := ns\<rparr>)))"

fun configure_flows ::
    "'n num_ops \<Rightarrow> (string \<Rightarrow> u64) \<Rightarrow> 'n Json list \<Rightarrow> 'n RedGroupConfig list \<Rightarrow> 'n Json list \<Rightarrow> nat \<Rightarrow> 'n Json list
      \<Rightarrow> ('n RedFlowConfig list, RustRedError option) outcome" where
  "configure_flows N hash all_values groups nodes i [] = Ok []"
| "configure_flows N hash all_values groups nodes i (f # fs) =
     obind (configure_flow N hash all_values groups nodes i f) (\<lambda>c.
       obind (configure_flows N hash all_values groups nodes (Suc i) fs) (\<lambda>cs. Ok (c # cs)))"

definition load_elements ::
    "'n num_ops \<Rightarrow> (string \<Rightarrow> u64) \<Rightarrow> 'n Json list \<Rightarrow> ('n ResolvedFlows, RustRedError option) outcome" where
  "load_elements N hash all_values =
     obind (ofold (load_element hash all_values) all_values LoadState_new) (\<lambda>st.
     obind (sorted_elements (ls_flow_topo st) (ls_flows st)) (\<lambda>sorted_flows.
     obind (sorted_elements (ls_group_topo st) (ls_groups st)) (\<lambda>sorted_flow_groups.
     obind (sorted_elements (ls_node_topo st) (ls_flow_nodes st)) (\<lambda>sorted_flow_nodes.
     obind (configure_flows N hash all_values sorted_flow_groups sorted_flow_nodes 0 sorted_flows) (\<lambda>flow_configs.
       Ok \<lparr>rf_flows = flow_configs, rf_global_nodes = ls_global_nodes st\<rparr>)))))"

definition load_flows_json_value ::
    "'n num_ops \<Rightarrow> (string \<Rightarrow> u64) \<Rightarrow> (nat \<Rightarrow> ElementId) \<Rightarrow> 'n Json \<Rightarrow> ('n ResolvedFlows, RustRedError option) outcome" where
  "load_flows_json_value N hash new_id root =
     obind (preprocess_subflows hash new_id root) (\<lambda>preprocessed.
     obind (preprocess_merge_subflow_env preprocessed) (\<lambda>merged.
     obind (ok_or (jarray merged) (Some not_array)) (load_elements N hash)))"

end
