(* ===== verification/Flows_Correct.thy ===== *)
theory Flows_Correct
  imports Flows_Load Graph_Correct Variant_Correct
begin

text \<open>
  What is loaded from \<^verbatim>\<open>flows.json\<close>: every flow and every node once, the nodes of a flow after
  the nodes they are wired to; wires to nowhere are refused.
\<close>

section \<open>The elements that become nodes and flows\<close>

definition element_type :: "(string \<Rightarrow> u64) \<Rightarrow> 'n Json \<Rightarrow> (ElementId \<times> RedElementTypeValue) option" where
  "element_type hash x =
     (case (Option.bind (jget ''id'' x) (parse_red_id_value hash), get_str ''type'' x) of
        (Some i, Some t) \<Rightarrow> Some (i, parse_red_type_value hash t)
      | _ \<Rightarrow> None)"

definition node_element :: "(string \<Rightarrow> u64) \<Rightarrow> 'n Json \<Rightarrow> ElementId option" where
  "node_element hash x =
     (case element_type hash x of
        None \<Rightarrow> None
      | Some (i, t) \<Rightarrow>
          if red_type t = ''subflow'' \<and> red_type_id t \<noteq> None
             \<or> red_type t \<notin> {''tab'', ''subflow'', ''group'', ''comment''} \<and> jget ''z'' x \<noteq> None
          then Some i else None)"

definition flow_element :: "(string \<Rightarrow> u64) \<Rightarrow> 'n Json \<Rightarrow> ElementId option" where
  "flow_element hash x =
     (case element_type hash x of
        None \<Rightarrow> None
      | Some (i, t) \<Rightarrow> if red_type t = ''tab'' \<or> red_type t = ''subflow'' \<and> red_type_id t = None then Some i else None)"

definition flow_element_deps :: "(string \<Rightarrow> u64) \<Rightarrow> 'n Json list \<Rightarrow> 'n Json \<Rightarrow> ElementId list" where
  "flow_element_deps hash es x =
     (case element_type hash x of
        Some (i, t) \<Rightarrow>
          if red_type t = ''tab'' then get_flow_dependencies hash x es
          else (case get_subflow_dependencies hash x es of Ok deps \<Rightarrow> deps | _ \<Rightarrow> [])
      | None \<Rightarrow> [])"

text \<open>A table of elements by identifier and the calls of the sorter, in the order of the elements.\<close>

definition table_of :: "('j \<Rightarrow> ElementId option) \<Rightarrow> 'j list \<Rightarrow> (ElementId, 'j) hmap \<Rightarrow> (ElementId, 'j) hmap" where
  "table_of key es m = fold (\<lambda>x. case key x of Some i \<Rightarrow> AList.update i x | None \<Rightarrow> id) es m"

definition ops_of :: "('j \<Rightarrow> ElementId option) \<Rightarrow> ('j \<Rightarrow> ElementId list) \<Rightarrow> 'j list \<Rightarrow> ElementId topo_op list" where
  "ops_of key deps es = concat (map (\<lambda>x. case key x of Some i \<Rightarrow> Vertex i # map (Dep i) (deps x) | None \<Rightarrow> []) es)"

lemma table_of_simps [simp]:
  "table_of key [] m = m"
  "table_of key (x # es) m = table_of key es (case key x of Some i \<Rightarrow> AList.update i x m | None \<Rightarrow> m)"
  by (auto simp: table_of_def split: option.splits)

lemma ops_of_simps [simp]:
  "ops_of key deps [] = []"
  "ops_of key deps (x # es) = (case key x of Some i \<Rightarrow> Vertex i # map (Dep i) (deps x) | None \<Rightarrow> []) @ ops_of key deps es"
  by (simp_all add: ops_of_def)

lemma fold_add_deps: "fold apply_topo (map (Dep i) deps) g = add_deps i deps g"
  by (induction deps arbitrary: g) (simp_all add: add_deps_def)

lemma load_element_effect:
  assumes "load_element hash all_values x st = Ok st'"
  shows "ls_flow_nodes st' = table_of (node_element hash) [x] (ls_flow_nodes st)
    \<and> ls_node_topo st' = fold apply_topo (ops_of (node_element hash) (get_flow_node_dependencies hash) [x]) (ls_node_topo st)
    \<and> ls_flows st' = table_of (flow_element hash) [x] (ls_flows st)
    \<and> ls_flow_topo st' = fold apply_topo (ops_of (flow_element hash) (flow_element_deps hash all_values) [x]) (ls_flow_topo st)"
proof (cases x)
  case (JObject m)
  show ?thesis
  proof (cases "element_type hash x")
    case None
    then have "st' = st" using assms unfolding JObject by (auto simp: element_type_def split: option.splits)
    then show ?thesis by (simp add: None node_element_def flow_element_def)
  next
    case (Some a)
    then obtain i t where a: "a = (i, t)" by fastforce
    then have l: "load_typed hash all_values i t m st = Ok st'" using assms Some unfolding JObject
      by (auto simp: element_type_def split: option.splits)
    show ?thesis
      using l Some a JObject
      by (auto simp: load_typed_def node_element_def flow_element_def flow_element_deps_def put_flow_def put_node_def
          load_group_def put_group_def load_dynamic_def fold_add_deps obind_eq_Ok split: if_splits outcome.splits)
  qed
qed (use assms in simp_all)

lemma load_elements_effect:
  assumes "ofold (load_element hash all_values) es st = Ok st'"
  shows "ls_flow_nodes st' = table_of (node_element hash) es (ls_flow_nodes st)
    \<and> ls_node_topo st' = fold apply_topo (ops_of (node_element hash) (get_flow_node_dependencies hash) es) (ls_node_topo st)
    \<and> ls_flows st' = table_of (flow_element hash) es (ls_flows st)
    \<and> ls_flow_topo st' = fold apply_topo (ops_of (flow_element hash) (flow_element_deps hash all_values) es) (ls_flow_topo st)"
  using assms
proof (induction es arbitrary: st)
  case (Cons x es)
  then obtain st1 where "load_element hash all_values x st = Ok st1" "ofold (load_element hash all_values) es st1 = Ok st'"
    by (auto simp: obind_eq_Ok)
  with load_element_effect [OF this(1)] Cons.IH [OF this(2)] show ?case by (simp del: load_element.simps)
qed simp

section \<open>Tables and their order\<close>

lemma table_of_snoc: "table_of key (es @ [x]) m = (case key x of Some i \<Rightarrow> AList.update i x (table_of key es m) | None \<Rightarrow> table_of key es m)"
  by (induction es arbitrary: m) (auto split: option.splits)

lemma table_of_key: "map_of (table_of key es []) i = Some x \<Longrightarrow> x \<in> set es \<and> key x = Some i"
  by (induction es rule: rev_induct) (auto simp: table_of_snoc hmap_simps split: option.splits if_splits)

lemma table_of_dom: "map_of (table_of key es []) i \<noteq> None \<longleftrightarrow> (\<exists>x \<in> set es. key x = Some i)"
  by (induction es rule: rev_induct) (auto simp: table_of_snoc hmap_simps split: option.splits)

lemma deps_ops_of: "deps_of (ops_of key deps es) = {(i, j). \<exists>x \<in> set es. key x = Some i \<and> j \<in> set (deps x)}"
  by (induction es) (auto simp: deps_of_def split: option.splits)

lemma elements_ops_of:
  "elements_of (ops_of key deps es) =
    {i. \<exists>x \<in> set es. key x = Some i} \<union> {j. \<exists>x \<in> set es. key x \<noteq> None \<and> j \<in> set (deps x)}"
proof -
  have "{i. Vertex i \<in> set (ops_of key deps es)} = {i. \<exists>x \<in> set es. key x = Some i}"
    by (induction es) (auto split: option.splits)
  then show ?thesis unfolding elements_of_def deps_ops_of by (auto simp: image_iff)
qed

lemma take_sorted_Ok:
  assumes "distinct is" "take_sorted is m = Ok xs"
  shows "map (map_of m) is = map Some xs"
  using assms
proof (induction "is" arbitrary: m xs)
  case (Cons i "is")
  then obtain x ys where x: "map_of m i = Some x" "take_sorted is (AList.delete i m) = Ok ys" "xs = x # ys"
    by (auto simp: obind_eq_Ok split: option.splits)
  then have "map (map_of (AList.delete i m)) is = map Some ys" using Cons by simp
  moreover have "map (map_of (AList.delete i m)) is = map (map_of m) is"
    using Cons.prems(1) by (auto simp: hmap_simps)
  ultimately show ?case using x by simp
qed simp

text \<open>The elements in the order of their dependencies, with their identifiers.\<close>

definition in_order :: "('j \<Rightarrow> ElementId option) \<Rightarrow> ('j \<Rightarrow> ElementId list) \<Rightarrow> 'j list \<Rightarrow> ElementId list \<Rightarrow> 'j list \<Rightarrow> bool" where
  "in_order key deps es ids xs \<longleftrightarrow>
     map key xs = map Some ids \<and> distinct ids \<and> set xs \<subseteq> set es
     \<and> set ids = {i. \<exists>x \<in> set es. key x = Some i}
     \<and> (\<forall>x \<in> set es. key x \<noteq> None \<longrightarrow> set (deps x) \<subseteq> set ids)
     \<and> (let D = {(i, j). \<exists>x \<in> set es. key x = Some i \<and> j \<in> set (deps x)} in
          acyclic D \<longrightarrow> (\<forall>(i, j) \<in> D. before ids j i))"

lemma sorted_elements_Ok:
  assumes "sorted_elements (sorter_of (ops_of key deps es)) (table_of key es []) = Ok xs"
  shows "\<exists>ids. in_order key deps es ids xs"
proof -
  let ?ops = "ops_of key deps es" and ?m = "table_of key es []"
  obtain ids where ids: "dependency_sort (sorter_of ?ops) = Ok ids" "distinct ids" "set ids = elements_of ?ops"
    "acyclic (deps_of ?ops) \<longrightarrow> (\<forall>(a, b) \<in> deps_of ?ops. before ids b a)"
    using dependency_sort_sorter by blast
  then have "take_sorted ids ?m = Ok xs" using assms by (simp add: sorted_elements_def)
  then have t: "map (map_of ?m) ids = map Some xs" using take_sorted_Ok ids(2) by blast
  have len: "length ids = length xs" using arg_cong [OF t, of length] by simp
  have at: "key (xs ! n) = Some (ids ! n) \<and> xs ! n \<in> set es" if "n < length ids" for n
  proof -
    have "map (map_of ?m) ids ! n = map Some xs ! n" by (simp only: t)
    then have "map_of ?m (ids ! n) = Some (xs ! n)" using that len by simp
    from table_of_key [OF this] show ?thesis by simp
  qed
  have "map key xs = map Some ids"
    by (rule nth_equalityI) (use at len in simp_all)
  moreover have "set xs \<subseteq> set es" using at len by (auto simp: in_set_conv_nth [of _ xs])
  moreover have d: "set ids \<subseteq> {i. \<exists>x \<in> set es. key x = Some i}"
    using at by (clarsimp simp: in_set_conv_nth [of _ ids]) blast
  then have "set ids = {i. \<exists>x \<in> set es. key x = Some i}" using ids(3) by (auto simp: elements_ops_of)
  moreover have "\<forall>x \<in> set es. key x \<noteq> None \<longrightarrow> set (deps x) \<subseteq> set ids" using ids(3) by (auto simp: elements_ops_of)
  ultimately show ?thesis using ids(2,4) unfolding in_order_def Let_def deps_ops_of by blast
qed

section \<open>Flows with their nodes\<close>

lemma required_id: "required [k] f m = Some i \<Longrightarrow> \<exists>v. map_of m k = Some v \<and> f v = Some i"
proof -
  assume a: "required [k] f m = Some i"
  then obtain k' v where f: "filter (\<lambda>(j, _). j = k) m = [(k', v)]" "f v = Some i"
    by (auto simp: required_def has_keys_def split: list.splits prod.splits)
  then have "map_of m k = Some v"
    by (induction m) (auto split: if_splits simp: filter_empty_conv)
  with f show ?thesis by blast
qed

lemma flow_node_config_id:
  assumes "Option.bind (jobject x) (flow_node_config hash) = Some c" "node_element hash x = Some i"
  shows "nc_id c = i \<and> Option.bind (jget ''z'' x) (parse_red_id_value hash) = Some (nc_z c)"
proof -
  obtain m where m: "x = JObject m" using assms(1) by (cases x) auto
  have "required [''id''] (deser_red_id hash) m = Some (nc_id c)" "required [''z''] (deser_red_id hash) m = Some (nc_z c)"
    using assms(1) m by (auto simp: flow_node_config_def bind_eq_Some_conv)
  then obtain v w where v: "map_of m ''id'' = Some v" "deser_red_id hash v = Some (nc_id c)"
      "map_of m ''z'' = Some w" "deser_red_id hash w = Some (nc_z c)"
    by (blast dest: required_id)
  then show ?thesis
    using assms(2) m by (auto simp: node_element_def element_type_def deser_red_id_def parse_red_id_value_def split: option.splits if_splits)
qed

lemma number_nodes_Ok:
  assumes "number_nodes hash k xs = Ok cs"
  shows "map nc_ordering cs = [k..<k + length xs] \<and> length cs = length xs
    \<and> (\<forall>n < length xs. \<exists>c. Option.bind (jobject (xs ! n)) (flow_node_config hash) = Some c \<and> nc_id (cs ! n) = nc_id c \<and> nc_z (cs ! n) = nc_z c)"
  using assms
proof (induction xs arbitrary: k cs)
  case (Cons x xs)
  then obtain c ds where c: "Option.bind (jobject x) (flow_node_config hash) = Some c" "number_nodes hash (Suc k) xs = Ok ds"
      "cs = c\<lparr>nc_ordering := k\<rparr> # ds"
    by (auto simp: obind_eq_Ok)
  moreover have "[k..<k + length (x # xs)] = k # [Suc k..<Suc k + length xs]" by (simp add: upt_conv_Cons del: upt_Suc)
  ultimately show ?case using Cons.IH [OF c(2)] by (auto simp: less_Suc_eq_0_disj simp del: upt_Suc)
qed simp

lemma before_filter: "distinct xs \<Longrightarrow> before xs a b \<Longrightarrow> P a \<Longrightarrow> P b \<Longrightarrow> before (filter P xs) a b"
  by (induction xs) (auto simp: before_def split: if_splits)

lemma before_elem: "before xs a b \<Longrightarrow> a \<in> set xs \<and> b \<in> set xs"
proof -
  assume "before xs a b"
  then have b: "b \<in> set (tl (dropWhile (\<lambda>x. x \<noteq> a) xs))" by (simp add: before_def)
  then have "a \<in> set xs" by (induction xs) (auto split: if_splits)
  moreover have "b \<in> set (dropWhile (\<lambda>x. x \<noteq> a) xs)" using b by (cases "dropWhile (\<lambda>x. x \<noteq> a) xs") simp_all
  then have "b \<in> set xs" by (rule set_dropWhileD)
  ultimately show ?thesis by blast
qed

text \<open>The elements a flow owns, by identifier.\<close>

lemma number_owned:
  assumes "map (node_element hash) xs = map Some ids" "number_nodes hash 0 (filter P xs) = Ok cs"
  shows "map Some (map nc_id cs) = map (node_element hash) (filter P xs)" "map nc_ordering cs = [0..<length cs]"
proof -
  note n = number_nodes_Ok [OF assms(2)]
  show "map nc_ordering cs = [0..<length cs]" using n by simp
  have some: "\<exists>i. node_element hash x = Some i" if "x \<in> set xs" for x
    using assms(1) that by (metis (no_types, lifting) in_set_conv_nth length_map nth_map)
  show "map Some (map nc_id cs) = map (node_element hash) (filter P xs)"
  proof (rule nth_equalityI)
    fix k
    assume "k < length (map Some (map nc_id cs))"
    then have k: "k < length (filter P xs)" using n by simp
    then have "filter P xs ! k \<in> set xs" by (metis nth_mem filter_is_subset subsetD)
    then obtain i where i: "node_element hash (filter P xs ! k) = Some i" using some by blast
    obtain c where c: "Option.bind (jobject (filter P xs ! k)) (flow_node_config hash) = Some c" "nc_id (cs ! k) = nc_id c"
      using n k by blast
    then show "map Some (map nc_id cs) ! k = map (node_element hash) (filter P xs) ! k"
      using k i flow_node_config_id [OF c(1) i] n by simp
  qed (use n in simp)
qed

lemma owned_ids:
  assumes "map key xs = map Some ids" "distinct ids" "map Some cs = map key (filter P xs)"
  shows "cs = filter (\<lambda>k. \<exists>x \<in> set xs. key x = Some k \<and> P x) ids"
  using assms
proof (induction xs arbitrary: ids cs)
  case (Cons x xs)
  then obtain i "is" where i: "ids = i # is" "key x = Some i" "map key xs = map Some is" by (cases ids) auto
  have fresh: "\<not> (\<exists>y \<in> set xs. key y = Some i)"
  proof
    assume "\<exists>y \<in> set xs. key y = Some i"
    then have "Some i \<in> set (map key xs)" by force
    then show False using Cons.prems(2) unfolding i(1,3) by auto
  qed
  have keep: "filter (\<lambda>k. \<exists>y \<in> set (x # xs). key y = Some k \<and> P y) is = filter (\<lambda>k. \<exists>y \<in> set xs. key y = Some k \<and> P y) is"
    by (rule filter_cong) (use i(1,2) Cons.prems(2) in auto)
  show ?case
  proof (cases "P x")
    case True
    then obtain ds where ds: "cs = i # ds" "map Some ds = map key (filter P xs)" using Cons.prems(3) i(2) by (cases cs) auto
    have "ds = filter (\<lambda>k. \<exists>y \<in> set xs. key y = Some k \<and> P y) is"
      by (rule Cons.IH [OF i(3) _ ds(2)]) (use Cons.prems(2) i(1) in simp)
    then show ?thesis using ds(1) keep True i(1,2) by simp
  next
    case False
    then have "cs = filter (\<lambda>k. \<exists>y \<in> set xs. key y = Some k \<and> P y) is"
      by (intro Cons.IH [OF i(3)]) (use Cons.prems(2,3) i(1) in simp_all)
    then show ?thesis using keep False i(1,2) fresh by auto
  qed
qed simp

lemma configure_flows_Ok:
  assumes "configure_flows N hash all_values groups nodes k fs = Ok cs"
  shows "length cs = length fs \<and> (\<forall>n < length fs. configure_flow N hash all_values groups nodes (k + n) (fs ! n) = Ok (cs ! n))"
  using assms
proof (induction fs arbitrary: k cs)
  case (Cons f fs)
  then obtain c ds where c: "configure_flow N hash all_values groups nodes k f = Ok c"
      "configure_flows N hash all_values groups nodes (Suc k) fs = Ok ds" "cs = c # ds"
    by (auto simp: obind_eq_Ok)
  then show ?case using Cons.IH [OF c(2)] by (auto simp: less_Suc_eq_0_disj)
qed simp

lemma flow_config_id:
  assumes "Option.bind (jobject x) (flow_config N hash) = Some c" "flow_element hash x = Some i"
  shows "fc_id c = i"
proof -
  obtain m where m: "x = JObject m" using assms(1) by (cases x) auto
  have "required [''id''] (deser_red_id hash) m = Some (fc_id c)"
    using assms(1) m by (auto simp: flow_config_def bind_eq_Some_conv)
  then obtain v where "map_of m ''id'' = Some v" "deser_red_id hash v = Some (fc_id c)"
    by (blast dest: required_id)
  then show ?thesis
    using assms(2) m by (auto simp: flow_element_def element_type_def deser_red_id_def parse_red_id_value_def split: option.splits if_splits)
qed

text \<open>The dependencies of the nodes.\<close>

definition wire_deps :: "(string \<Rightarrow> u64) \<Rightarrow> 'n Json list \<Rightarrow> (ElementId \<times> ElementId) set" where
  "wire_deps hash es =
     {(i, j). \<exists>x \<in> set es. node_element hash x = Some i \<and> j \<in> set (get_flow_node_dependencies hash x)}"

text \<open>
  What a successful load went through: the flows and the nodes in their sorted order, and for
  every flow the nodes it owns.
\<close>

definition loaded :: "(string \<Rightarrow> u64) \<Rightarrow> 'n Json list \<Rightarrow> 'n ResolvedFlows \<Rightarrow> ElementId list \<Rightarrow> 'n Json list \<Rightarrow> bool" where
  "loaded hash es r ids nodes \<longleftrightarrow>
     in_order (node_element hash) (get_flow_node_dependencies hash) es ids nodes
     \<and> distinct (map fc_id (rf_flows r)) \<and> set (map fc_id (rf_flows r)) = {i. \<exists>x \<in> set es. flow_element hash x = Some i}
     \<and> (\<forall>f \<in> set (rf_flows r). number_nodes hash 0 (filter (owned_by hash (fc_id f)) nodes) = Ok (fc_nodes f))"

lemma load_elements_Ok:
  assumes "load_elements N hash es = Ok r"
  shows "\<exists>ids nodes. loaded hash es r ids nodes"
proof -
  obtain st where st: "ofold (load_element hash es) es LoadState_new = Ok st"
    using assms by (auto simp: load_elements_def obind_eq_Ok)
  note eff = load_elements_effect [OF st]
  have flows: "sorted_elements (ls_flow_topo st) (ls_flows st)
      = sorted_elements (sorter_of (ops_of (flow_element hash) (flow_element_deps hash es) es)) (table_of (flow_element hash) es [])"
    and nodes: "sorted_elements (ls_node_topo st) (ls_flow_nodes st)
      = sorted_elements (sorter_of (ops_of (node_element hash) (get_flow_node_dependencies hash) es)) (table_of (node_element hash) es [])"
    using eff by (simp_all add: sorter_of_def LoadState_new_def)
  obtain fs gs ns where fs: "sorted_elements (ls_flow_topo st) (ls_flows st) = Ok fs"
    and ns: "sorted_elements (ls_node_topo st) (ls_flow_nodes st) = Ok ns"
    and cs: "configure_flows N hash es gs ns 0 fs = Ok (rf_flows r)"
    using assms st by (auto simp: load_elements_def obind_eq_Ok)
  obtain fids where fids: "map (flow_element hash) fs = map Some fids" "distinct fids"
    "set fids = {i. \<exists>x \<in> set es. flow_element hash x = Some i}"
    using sorted_elements_Ok [OF fs [unfolded flows]] unfolding in_order_def by blast
  have conf: "fc_id (rf_flows r ! k) = fids ! k
      \<and> number_nodes hash 0 (filter (owned_by hash (fc_id (rf_flows r ! k))) ns) = Ok (fc_nodes (rf_flows r ! k))"
    if k: "k < length fs" for k
  proof -
    have "configure_flow N hash es gs ns (0 + k) (fs ! k) = Ok (rf_flows r ! k)"
      using configure_flows_Ok [OF cs] k by blast
    then obtain c n where c: "Option.bind (jobject (fs ! k)) (flow_config N hash) = Some c"
        "number_nodes hash 0 (filter (owned_by hash (fc_id c)) ns) = Ok n"
        "rf_flows r ! k = c\<lparr>fc_ordering := 0 + k, fc_subflow_node_id := subflow_node hash es c,
           fc_groups := filter (\<lambda>g. gc_z g = fc_id c) gs, fc_nodes := n\<rparr>"
      by (auto simp: configure_flow_def obind_eq_Ok)
    have "map (flow_element hash) fs ! k = map Some fids ! k" by (simp only: fids(1))
    then have "flow_element hash (fs ! k) = Some (fids ! k)" using k arg_cong [OF fids(1), of length] by simp
    from flow_config_id [OF c(1) this] c(2,3) show ?thesis by simp
  qed
  have len: "length (rf_flows r) = length fs" "length fids = length fs"
    using configure_flows_Ok [OF cs] arg_cong [OF fids(1), of length] by simp_all
  have f: "map fc_id (rf_flows r) = fids" by (rule nth_equalityI) (use len conf in simp_all)
  obtain ids where "in_order (node_element hash) (get_flow_node_dependencies hash) es ids ns"
    using sorted_elements_Ok [OF ns [unfolded nodes]] by blast
  moreover have "\<forall>f \<in> set (rf_flows r). number_nodes hash 0 (filter (owned_by hash (fc_id f)) ns) = Ok (fc_nodes f)"
  proof
    fix f
    assume "f \<in> set (rf_flows r)"
    then obtain k where "k < length fs" "f = rf_flows r ! k" using len(1) by (metis in_set_conv_nth)
    with conf show "number_nodes hash 0 (filter (owned_by hash (fc_id f)) ns) = Ok (fc_nodes f)" by blast
  qed
  ultimately have "loaded hash es r ids ns" using f fids(2,3) by (simp add: loaded_def)
  then show ?thesis by blast
qed

text \<open>
  C6. A load that succeeds takes everything over: there is one flow for every tab and every subflow,
  and, when no two nodes share an identifier, a flow has exactly the nodes whose \<^verbatim>\<open>z\<close> names it,
  each once and numbered from zero.
\<close>

theorem load_complete:
  assumes "load_elements N hash es = Ok r"
    and "\<forall>x \<in> set es. \<forall>y \<in> set es. node_element hash x \<noteq> None \<and> node_element hash x = node_element hash y \<longrightarrow> x = y"
  shows "distinct (map fc_id (rf_flows r)) \<and> set (map fc_id (rf_flows r)) = {i. \<exists>x \<in> set es. flow_element hash x = Some i}
    \<and> (\<forall>f \<in> set (rf_flows r).
          distinct (map nc_id (fc_nodes f)) \<and> map nc_ordering (fc_nodes f) = [0..<length (fc_nodes f)]
          \<and> set (map nc_id (fc_nodes f)) = {i. \<exists>x \<in> set es. node_element hash x = Some i \<and> owned_by hash (fc_id f) x})"
proof -
  obtain ids nodes where l: "loaded hash es r ids nodes" using load_elements_Ok [OF assms(1)] by blast
  then have n: "map (node_element hash) nodes = map Some ids" "distinct ids" "set nodes \<subseteq> set es"
      "set ids = {i. \<exists>x \<in> set es. node_element hash x = Some i}"
    by (simp_all add: loaded_def in_order_def)
  have f: "distinct (map fc_id (rf_flows r))" "set (map fc_id (rf_flows r)) = {i. \<exists>x \<in> set es. flow_element hash x = Some i}"
      "\<forall>f \<in> set (rf_flows r). number_nodes hash 0 (filter (owned_by hash (fc_id f)) nodes) = Ok (fc_nodes f)"
    using l by (simp_all add: loaded_def)
  have all: "x \<in> set nodes" if x: "x \<in> set es" "node_element hash x = Some i" for x i
  proof -
    have "Some i \<in> set (map Some ids)" using n(4) x by auto
    then obtain y where y: "y \<in> set nodes" "node_element hash y = Some i" unfolding n(1) [symmetric] by auto
    then have "y \<in> set es" using n(3) by blast
    with assms(2) x y(2) have "x = y" by (metis option.distinct(1))
    then show ?thesis using y by simp
  qed
  have "distinct (map (node_element hash) nodes)" using n(1,2) by (simp add: distinct_map)
  then have "distinct (map nc_id (fc_nodes f)) \<and> map nc_ordering (fc_nodes f) = [0..<length (fc_nodes f)]
      \<and> set (map nc_id (fc_nodes f)) = {i. \<exists>x \<in> set es. node_element hash x = Some i \<and> owned_by hash (fc_id f) x}"
    if "f \<in> set (rf_flows r)" for f
  proof -
    let ?P = "owned_by hash (fc_id f)"
    note o = number_owned [OF n(1) f(3) [rule_format, OF that]]
    have d: "distinct (map Some (map nc_id (fc_nodes f)))"
      unfolding o(1) by (rule distinct_map_filter) fact
    have "Some i \<in> set (map Some (map nc_id (fc_nodes f))) \<longleftrightarrow> (\<exists>x \<in> set es. node_element hash x = Some i \<and> ?P x)" for i
    proof -
      have "x \<in> set nodes \<longleftrightarrow> x \<in> set es" if "node_element hash x = Some i" for x using n(3) all that by blast
      moreover have "Some i \<in> set (map (node_element hash) (filter ?P nodes)) \<longleftrightarrow> (\<exists>x \<in> set nodes. ?P x \<and> node_element hash x = Some i)"
        by (auto simp: image_iff eq_commute [of "Some i"])
      ultimately show ?thesis unfolding o(1) by blast
    qed
    moreover have "i \<in> set (map nc_id (fc_nodes f)) \<longleftrightarrow> Some i \<in> set (map Some (map nc_id (fc_nodes f)))" for i by auto
    ultimately have "set (map nc_id (fc_nodes f)) = {i. \<exists>x \<in> set es. node_element hash x = Some i \<and> ?P x}" by blast
    moreover have "distinct (map nc_id (fc_nodes f))" using d unfolding distinct_map [of Some] by simp
    ultimately show ?thesis using o(2) by simp
  qed
  then show ?thesis using f by blast
qed

text \<open>
  C7. Within a flow, a node comes after the nodes it is wired to, directly or by a link, unless the
  wires of the file form a cycle.
\<close>

theorem load_ordered:
  assumes "load_elements N hash es = Ok r" "f \<in> set (rf_flows r)" "acyclic (wire_deps hash es)"
    and "(i, j) \<in> wire_deps hash es" "i \<in> set (map nc_id (fc_nodes f))" "j \<in> set (map nc_id (fc_nodes f))"
  shows "before (map nc_id (fc_nodes f)) j i"
proof -
  obtain ids nodes where l: "loaded hash es r ids nodes" using load_elements_Ok [OF assms(1)] by blast
  then have n: "map (node_element hash) nodes = map Some ids" "distinct ids"
      "acyclic (wire_deps hash es) \<longrightarrow> (\<forall>(i, j) \<in> wire_deps hash es. before ids j i)"
    and f: "\<forall>f \<in> set (rf_flows r). number_nodes hash 0 (filter (owned_by hash (fc_id f)) nodes) = Ok (fc_nodes f)"
    by (simp_all add: loaded_def in_order_def wire_deps_def)
  have o: "map Some (map nc_id (fc_nodes f)) = map (node_element hash) (filter (owned_by hash (fc_id f)) nodes)"
    using number_owned(1) [OF n(1)] f assms(2) by blast
  define K where "K = (\<lambda>k. \<exists>x \<in> set nodes. node_element hash x = Some k \<and> owned_by hash (fc_id f) x)"
  have "map nc_id (fc_nodes f) = filter K ids"
    using owned_ids [OF n(1,2)] o unfolding K_def by blast
  moreover have "before ids j i" using n(3) assms(3,4) by blast
  moreover have "K i" "K j" using assms(5,6) unfolding calculation(1) by simp_all
  ultimately show ?thesis using before_filter [OF n(2)] by simp
qed

text \<open>
  C38. A file in which some node is wired to an identifier that no node has is not loaded at all.
\<close>

theorem dangling_wire_refused:
  assumes "x \<in> set es" "node_element hash x = Some i" "j \<in> set (get_flow_node_dependencies hash x)"
    and "\<forall>y \<in> set es. node_element hash y \<noteq> Some j"
  shows "\<nexists>r. load_elements N hash es = Ok r"
proof
  assume "\<exists>r. load_elements N hash es = Ok r"
  then obtain r ids nodes where "loaded hash es r ids nodes" using load_elements_Ok by blast
  then have "set (get_flow_node_dependencies hash x) \<subseteq> {k. \<exists>y \<in> set es. node_element hash y = Some k}"
    using assms(1,2) unfolding loaded_def in_order_def by blast
  then show False using assms(3,4) by blast
qed

section \<open>A sample flow\<close>

definition demo_node :: "string \<Rightarrow> string \<Rightarrow> string \<Rightarrow> string list \<Rightarrow> int Json" where
  "demo_node i t z ws = JObject [(''id'', JString i), (''type'', JString t), (''wires'', JArray [JArray (map JString ws)]), (''z'', JString z)]"

definition demo_tab :: "int Json" where
  "demo_tab = JObject [(''id'', JString ''1''), (''type'', JString ''tab'')]"

definition demo_flow :: "int Json list" where
  "demo_flow = [demo_tab, demo_node ''2'' ''inject'' ''1'' [''3''], demo_node ''3'' ''debug'' ''1'' []]"

lemma demo_loads: "(case load_elements int_num (\<lambda>_. 0) demo_flow of
   Ok r \<Rightarrow> map fc_id (rf_flows r) = [1] \<and> map (map nc_id \<circ> fc_nodes) (rf_flows r) = [[3, 2]] | _ \<Rightarrow> False)"
  by code_simp


theorem load_complete_witness:
  "\<exists>r. load_elements int_num (\<lambda>_. 0) demo_flow = Ok r \<and> map fc_id (rf_flows r) = [1]
    \<and> (\<forall>f \<in> set (rf_flows r). set (map nc_id (fc_nodes f)) = {2, 3})"
proof -
  obtain r where r: "load_elements int_num (\<lambda>_. 0) demo_flow = Ok r" "map fc_id (rf_flows r) = [1]"
    using demo_loads by (auto split: outcome.splits)
  have n: "map (node_element (\<lambda>_. 0)) demo_flow = [None, Some 2, Some 3]" by code_simp
  have "\<forall>x \<in> set demo_flow. \<forall>y \<in> set demo_flow. node_element (\<lambda>_. 0) x \<noteq> None \<and> node_element (\<lambda>_. 0) x = node_element (\<lambda>_. 0) y \<longrightarrow> x = y"
    using n by (simp add: demo_flow_def)
  from load_complete [OF r(1) this] 
  have "\<forall>f \<in> set (rf_flows r). set (map nc_id (fc_nodes f)) = {i. \<exists>x \<in> set demo_flow. node_element (\<lambda>_. 0) x = Some i \<and> owned_by (\<lambda>_. 0) (fc_id f) x}"
    by blast
  moreover have "\<forall>x\<in>set (tl demo_flow). owned_by (\<lambda>_. 0) 1 x" by code_simp
  then have "{i. \<exists>x \<in> set demo_flow. node_element (\<lambda>_. 0) x = Some i \<and> owned_by (\<lambda>_. 0) 1 x} = {2, 3}"
    using n by (auto simp: demo_flow_def)
  moreover have "\<forall>f \<in> set (rf_flows r). fc_id f = 1" using r(2) by (cases "rf_flows r") auto
  ultimately show ?thesis using r by simp
qed

theorem load_ordered_witness:
  "\<exists>r f. load_elements int_num (\<lambda>_. 0) demo_flow = Ok r \<and> f \<in> set (rf_flows r) \<and> before (map nc_id (fc_nodes f)) 3 2"
proof -
  obtain r where r: "load_elements int_num (\<lambda>_. 0) demo_flow = Ok r" "map (map nc_id \<circ> fc_nodes) (rf_flows r) = [[3, 2]]"
    using demo_loads by (auto split: outcome.splits)
  then obtain f where f: "f \<in> set (rf_flows r)" "map nc_id (fc_nodes f) = [3, 2]" by (cases "rf_flows r") auto
  have n: "map (node_element (\<lambda>_. 0)) demo_flow = [None, Some 2, Some 3]"
    "map (get_flow_node_dependencies (\<lambda>_. 0)) demo_flow = [[], [3], []]" by code_simp+
  then have w: "wire_deps (\<lambda>_. 0) demo_flow = {(2, 3)}"
    by (auto simp: wire_deps_def demo_flow_def)
  have "acyclic (wire_deps (\<lambda>_. 0) demo_flow)"
    unfolding w by (auto simp: acyclic_def trancl_insert2 elim: tranclE)
  with load_ordered [OF r(1) f(1) this, of 2 3] f r w show ?thesis by auto
qed

theorem dangling_wire_refused_witness:
  "\<nexists>r. load_elements int_num (\<lambda>_. 0) [demo_tab, demo_node ''2'' ''inject'' ''1'' [''3'']] = Ok r"
proof (rule dangling_wire_refused)
  show "demo_node ''2'' ''inject'' ''1'' [''3''] \<in> set [demo_tab, demo_node ''2'' ''inject'' ''1'' [''3'']]" by simp
  show "node_element (\<lambda>_. 0) (demo_node ''2'' ''inject'' ''1'' [''3'']) = Some 2" by code_simp
  show "3 \<in> set (get_flow_node_dependencies (\<lambda>_. 0) (demo_node ''2'' ''inject'' ''1'' [''3'']))" by code_simp
  show "\<forall>y \<in> set [demo_tab, demo_node ''2'' ''inject'' ''1'' [''3'']]. node_element (\<lambda>_. 0) y \<noteq> Some 3" by code_simp
qed

end
