(* ===== verification/Flows_Subflows.thy ===== *)
theory Flows_Subflows
  imports Flows_Correct
begin

text \<open>
  The expansion of subflows: a subflow with one instance is copied with its wiring, an instance
  inherits the environment of its subflow, and the instances of one subflow lose their nodes to
  the last of them.
\<close>

section \<open>Copies\<close>

lemma map_of_insert [simp]: "map_of (btree_insert k v m) j = (if j = k then Some v else map_of m j)"
  by (induction k v m rule: btree_insert.induct) auto

lemma jset_Ok: "jset k v x = Ok y \<Longrightarrow> jget j y = (if j = k then Some v else jget j x)"
  by (cases x) auto

lemma get_str_jset: "jset k (JString s) x = Ok y \<Longrightarrow> get_str j y = (if j = k then Some s else get_str j x)"
  by (simp add: get_str_def jset_Ok [of k "JString s" x y])

definition new_child_id :: "(string \<Rightarrow> u64) \<Rightarrow> ElementId \<Rightarrow> string \<Rightarrow> string" where
  "new_child_id hash new i = ElementId_to_string (new XOR the (parse_red_id_str hash i))"

lemma new_children_Ok:
  assumes "new_children hash new cs ids = Ok (xs, ids')"
  shows "list_all2 (\<lambda>c x. \<exists>i. get_str ''id'' c = Some i \<and> parse_red_id_str hash i \<noteq> None
           \<and> jset ''id'' (JString (new_child_id hash new i)) c = (Ok x :: ('n Json, RustRedError option) outcome)) cs xs
    \<and> map_of ids' = (\<lambda>i. if Some i \<in> set (map (get_str ''id'') cs) then Some (new_child_id hash new i) else map_of ids i)"
  using assms
proof (induction cs arbitrary: ids xs)
  case (Cons c cs)
  then obtain i e x ys where s: "get_str ''id'' c = Some i" "parse_red_id_str hash i = Some e"
      "jset ''id'' (JString (ElementId_to_string (new XOR e))) c = (Ok x :: ('n Json, RustRedError option) outcome)"
      "new_children hash new cs (AList.update i (ElementId_to_string (new XOR e)) ids) = Ok (ys, ids')" "xs = x # ys"
    by (auto simp: obind_eq_Ok generate_new_xored_id_def split: prod.splits)
  have n: "ElementId_to_string (new XOR e) = new_child_id hash new i" using s(2) by (simp add: new_child_id_def)
  show ?case using Cons.IH [OF s(4)] s by (auto simp: n hmap_simps fun_eq_iff)
qed simp

lemma expand_pack_Ok:
  assumes "expand_pack hash new p ids = Ok (xs, ids')"
  obtains sub inst ys where "xs = sub # inst # ys"
    "jset ''id'' (JString (ElementId_to_string new)) (sp_subflow p) = (Ok sub :: ('n Json, RustRedError option) outcome)"
    "jset ''type'' (JString (''subflow:'' @ ElementId_to_string new)) (sp_instance p) = (Ok inst :: ('n Json, RustRedError option) outcome)"
    "new_children hash new (sp_children p) (AList.update (sp_subflow_id p) (ElementId_to_string new) ids) = Ok (ys, ids')"
  using assms by (auto simp: expand_pack_def Let_def obind_eq_Ok)

section \<open>Renaming\<close>

lemma try_update_Ok: "try_update k f m = Ok m' \<Longrightarrow> j \<noteq> k \<Longrightarrow> map_of m' j = map_of m j"
  by (auto simp: try_update_def obind_eq_Ok json_simps split: option.splits)

lemma remap_element_get:
  assumes "remap_element ids x = Ok y"
  shows "jget ''z'' y = map_option (remap_id ids) (jget ''z'' x)" "jget ''id'' y = jget ''id'' x"
    "jget ''type'' y = map_option (remap_type ids) (jget ''type'' x)"
proof -
  obtain m where x: "x = JObject m" using assms by (cases x) auto
  then obtain m1 m2 m3 where m: "try_update ''wires'' (remap_wires ids) (remap_names ids m) = Ok m1"
      "try_update ''in'' (remap_ports ids) (remap_lists ids m1) = Ok m2"
      "try_update ''out'' (remap_ports ids) m2 = Ok m3" "y = JObject m3"
    using assms by (auto simp: obind_eq_Ok)
  note u = try_update_Ok [OF m(1)] try_update_Ok [OF m(2)] try_update_Ok [OF m(3)]
  show "jget ''z'' y = map_option (remap_id ids) (jget ''z'' x)" "jget ''id'' y = jget ''id'' x"
    "jget ''type'' y = map_option (remap_type ids) (jget ''type'' x)"
    by (simp_all add: m(4) x u remap_lists_def remap_names_def json_simps option.map_comp)
qed

lemma remap_element_wires:
  assumes "remap_element ids x = Ok y"
  shows "flatten_wires y = map (remap_id ids) (flatten_wires x)"
proof -
  obtain m where x: "x = JObject m" using assms by (cases x) auto
  then obtain m1 m2 m3 where m: "try_update ''wires'' (remap_wires ids) (remap_names ids m) = Ok m1"
      "try_update ''in'' (remap_ports ids) (remap_lists ids m1) = Ok m2"
      "try_update ''out'' (remap_ports ids) m2 = Ok m3" "y = JObject m3"
    using assms by (auto simp: obind_eq_Ok)
  have w: "map_of m3 ''wires'' = map_of m1 ''wires''" "map_of (remap_names ids m) ''wires'' = map_of m ''wires''"
    using try_update_Ok [OF m(2)] try_update_Ok [OF m(3)] by (simp_all add: remap_lists_def remap_names_def json_simps)
  have ws: "concat (map (\<lambda>w. jarray_or_empty (Some w)) vs) = map (remap_id ids) (concat (map (\<lambda>w. jarray_or_empty (Some w)) ws))"
    if "omap (remap_wire ids) ws = Ok vs" for ws vs
    using that
  proof (induction ws arbitrary: vs)
    case (Cons v ws)
    then show ?case by (cases v) (auto simp: obind_eq_Ok jarray_or_empty_def)
  qed simp
  show ?thesis
  proof (cases "map_of m ''wires''")
    case None
    then have "m1 = remap_names ids m" using m(1) w(2) by (simp add: try_update_def)
    then show ?thesis using None w by (simp add: x m(4) flatten_wires_def jarray_or_empty_def)
  next
    case (Some v)
    then obtain v' where "remap_wires ids v = Ok v'" "map_of m1 ''wires'' = Some v'"
      using m(1) w(2) by (auto simp: try_update_def obind_eq_Ok json_simps)
    then show ?thesis using Some w(1) ws
      by (cases v) (auto simp: x m(4) flatten_wires_def jarray_or_empty_def obind_eq_Ok)
  qed
qed

lemma preprocess_Ok:
  assumes "collect_packs elements elements = Ok packs" "preprocess_subflows hash new_id (JArray elements) = Ok (JArray es')"
  shows "\<exists>copies ids ys. expand_packs hash new_id 0 packs [] = Ok (copies, ids) \<and> omap (remap_element ids) copies = Ok ys
    \<and> es' = ys @ filter (\<lambda>x. x \<notin> set (concat (map packed packs))) elements"
  using assms by (auto simp: preprocess_subflows_def obind_eq_Ok split: prod.splits)

lemma omap_eq_Ok: "omap f xs = Ok ys \<longleftrightarrow> list_all2 (\<lambda>x y. f x = Ok y) xs ys"
  by (induction xs arbitrary: ys) (auto simp: obind_eq_Ok list_all2_Cons1)

section \<open>One instance\<close>

text \<open>A renaming of identifiers that does not confuse them.\<close>

lemma new_child_id_inj:
  assumes "distinct (map (parse_red_id_str hash) cs)" "None \<notin> set (map (parse_red_id_str hash) cs)"
  shows "inj_on (new_child_id hash new) (set cs)"
proof (rule inj_onI)
  fix i j
  assume i: "i \<in> set cs" "j \<in> set cs" "new_child_id hash new i = new_child_id hash new j"
  then have "new XOR the (parse_red_id_str hash i) = new XOR the (parse_red_id_str hash j)"
    unfolding new_child_id_def by (metis from_str_to_string option.inject)
  then have "new XOR (new XOR the (parse_red_id_str hash i)) = new XOR (new XOR the (parse_red_id_str hash j))" by simp
  then have "the (parse_red_id_str hash i) = the (parse_red_id_str hash j)" by (simp add: xor.assoc [symmetric])
  moreover obtain a b where "parse_red_id_str hash i = Some a" "parse_red_id_str hash j = Some b"
    using i(1,2) assms(2) by (cases "parse_red_id_str hash i"; cases "parse_red_id_str hash j") force+
  ultimately have "parse_red_id_str hash i = parse_red_id_str hash j" by simp
  then show "i = j" using assms(1) i(1,2) by (metis distinct_map inj_onD)
qed

lemma new_child_id_neq: "parse_red_id_str hash i = Some e \<Longrightarrow> new \<noteq> 0 \<Longrightarrow> new_child_id hash new i \<noteq> i"
proof
  assume e: "parse_red_id_str hash i = Some e" "new \<noteq> 0" "new_child_id hash new i = i"
  then have "parse_red_id_str hash (ElementId_to_string (new XOR e)) = Some e" by (simp add: new_child_id_def)
  moreover have "ElementId_to_string (new XOR e) \<noteq> []"
    using from_str_to_string [of "new XOR e"] by (auto simp: ElementId_from_str_def)
  ultimately have "new XOR e = e" by (simp add: parse_red_id_str_def from_str_to_string)
  then have "(new XOR e) XOR e = 0" by simp
  then show False using e(2) by (simp add: xor.assoc)
qed

lemma copied_child:
  assumes "jset ''id'' (JString j) c = (Ok x :: ('n Json, RustRedError option) outcome)" "remap_element ids x = Ok y"
    and "get_str ''z'' c = Some z" "map_of ids z = Some z'"
  shows "get_str ''id'' y = Some j" "get_str ''z'' y = Some z'" "flatten_wires y = map (remap_id ids) (flatten_wires c)"
proof -
  show "get_str ''id'' y = Some j"
    using remap_element_get(2) [OF assms(2)] get_str_jset [OF assms(1), of "''id''"] by (simp add: get_str_def)
  have "get_str ''z'' x = Some z" using get_str_jset [OF assms(1), of "''z''"] assms(3) by simp
  then show "get_str ''z'' y = Some z'"
    using remap_element_get(1) [OF assms(2)] assms(4) by (auto simp: get_str_def bind_eq_Some_conv elim!: jstr.elims)
  have "flatten_wires x = flatten_wires c" using jset_Ok [OF assms(1), of "''wires''"] by (simp add: flatten_wires_def)
  then show "flatten_wires y = map (remap_id ids) (flatten_wires c)" using remap_element_wires [OF assms(2)] by simp
qed

text \<open>The copied subflow and its instance, when the new identifier is not an old one.\<close>

lemma copied_subflow:
  assumes "jset ''id'' (JString new) c = (Ok x :: ('n Json, RustRedError option) outcome)" "remap_element ids x = Ok y"
  shows "get_str ''id'' y = Some new"
  using remap_element_get(2) [OF assms(2)] get_str_jset [OF assms(1), of "''id''"] by (simp add: get_str_def)

lemma pointed_instance:
  assumes "jset ''type'' (JString (''subflow:'' @ new)) c = (Ok x :: ('n Json, RustRedError option) outcome)" "remap_element ids x = Ok y"
    and "map_of ids new = None"
  shows "get_str ''type'' y = Some (''subflow:'' @ new)" "get_str ''id'' y = get_str ''id'' c"
proof -
  have "jget ''type'' x = Some (JString (''subflow:'' @ new))" using jset_Ok [OF assms(1)] by simp
  then show "get_str ''type'' y = Some (''subflow:'' @ new)"
    using remap_element_get(3) [OF assms(2)] assms(3) by (simp add: get_str_def split_once_def)
  show "get_str ''id'' y = get_str ''id'' c"
    using remap_element_get(2) [OF assms(2)] get_str_jset [OF assms(1), of "''id''"] by (simp add: get_str_def)
qed

text \<open>The elements of an expanded pack after the renaming, one by one.\<close>

lemma expanded_pack:
  assumes "expand_pack hash new p [] = Ok (copies, ids)" "omap (remap_element ids) copies = Ok ys"
    and "map (get_str ''id'') (sp_children p) = map Some cs" "sp_subflow_id p \<notin> set cs"
      "ElementId_to_string new \<notin> insert (sp_subflow_id p) (set cs)"
      "\<forall>c \<in> set (sp_children p). get_str ''z'' c = Some (sp_subflow_id p)"
  obtains sub inst zs where "ys = sub # inst # zs" "None \<notin> set (map (parse_red_id_str hash) cs)"
    "get_str ''id'' sub = Some (ElementId_to_string new)"
    "get_str ''id'' inst = get_str ''id'' (sp_instance p)" "get_str ''type'' inst = Some (''subflow:'' @ ElementId_to_string new)"
    "list_all2 (\<lambda>i y. get_str ''id'' y = Some (new_child_id hash new i) \<and> get_str ''z'' y = Some (ElementId_to_string new)) cs zs"
    "list_all2 (\<lambda>c y. flatten_wires y = map (remap_id ids) (flatten_wires c)) (sp_children p) zs"
    "\<And>i. i \<in> set cs \<Longrightarrow> map_of ids i = Some (new_child_id hash new i)"
proof -
  obtain sub inst xs where x: "copies = sub # inst # xs"
      "jset ''id'' (JString (ElementId_to_string new)) (sp_subflow p) = (Ok sub :: ('a Json, RustRedError option) outcome)"
      "jset ''type'' (JString (''subflow:'' @ ElementId_to_string new)) (sp_instance p) = (Ok inst :: ('a Json, RustRedError option) outcome)"
      "new_children hash new (sp_children p) (AList.update (sp_subflow_id p) (ElementId_to_string new) []) = Ok (xs, ids)"
    by (rule expand_pack_Ok [OF assms(1)])
  note nc = new_children_Ok [OF x(4)]
  have ids: "map_of ids i = (if i \<in> set cs then Some (new_child_id hash new i)
      else if i = sp_subflow_id p then Some (ElementId_to_string new) else None)" for i
    using nc unfolding assms(3) by (auto simp: hmap_simps)
  obtain sub' inst' zs where zs: "ys = sub' # inst' # zs" "list_all2 (\<lambda>x y. remap_element ids x = Ok y) xs zs"
      "remap_element ids sub = Ok sub'" "remap_element ids inst = Ok inst'"
    using assms(2) unfolding x(1) omap_eq_Ok by (auto simp: list_all2_Cons1)
  have len: "length xs = length (sp_children p)" "length zs = length (sp_children p)" "length cs = length (sp_children p)"
    using list_all2_lengthD [OF nc [THEN conjunct1]] list_all2_lengthD [OF zs(2)] arg_cong [OF assms(3), of length] by simp_all
  have one: "get_str ''id'' (zs ! k) = Some (new_child_id hash new (cs ! k)) \<and> get_str ''z'' (zs ! k) = Some (ElementId_to_string new)
      \<and> flatten_wires (zs ! k) = map (remap_id ids) (flatten_wires (sp_children p ! k)) \<and> parse_red_id_str hash (cs ! k) \<noteq> None"
    if k: "k < length (sp_children p)" for k
  proof -
    have c: "get_str ''id'' (sp_children p ! k) = Some (cs ! k)" using arg_cong [OF assms(3), of "\<lambda>l. l ! k"] k len by simp
    then have n: "parse_red_id_str hash (cs ! k) \<noteq> None"
        "jset ''id'' (JString (new_child_id hash new (cs ! k))) (sp_children p ! k) = (Ok (xs ! k) :: ('a Json, RustRedError option) outcome)"
      using nc k by (auto simp: list_all2_conv_all_nth)
    have r: "remap_element ids (xs ! k) = Ok (zs ! k)" using zs(2) k len by (simp add: list_all2_conv_all_nth)
    have z: "get_str ''z'' (sp_children p ! k) = Some (sp_subflow_id p)" "map_of ids (sp_subflow_id p) = Some (ElementId_to_string new)"
      using assms(4,6) k ids by simp_all
    show ?thesis using copied_child [OF n(2) r z] n(1) by simp
  qed
  have "None \<notin> set (map (parse_red_id_str hash) cs)" using one len by (metis in_set_conv_nth length_map nth_map)
  moreover have "list_all2 (\<lambda>i y. get_str ''id'' y = Some (new_child_id hash new i) \<and> get_str ''z'' y = Some (ElementId_to_string new)) cs zs"
    "list_all2 (\<lambda>c y. flatten_wires y = map (remap_id ids) (flatten_wires c)) (sp_children p) zs"
    using one len by (auto simp: list_all2_conv_all_nth)
  ultimately show thesis
    using that [OF zs(1)] copied_subflow [OF x(2) zs(3)] pointed_instance [OF x(3) zs(4)] ids assms(5) by simp
qed

text \<open>
  C8. A subflow with a single instance is copied as it is, under new identifiers. The copy of the
  subflow has the new identifier, the instance keeps its own and points to the copy; the nodes of
  the copy lie in it, their identifiers are their old ones combined with the new identifier, none
  of them the one the node had and different for different nodes; and two copies are wired
  exactly as their originals are. (The new identifier is taken to be none of the old ones.)
\<close>

theorem instance_wiring_preserved:
  assumes "collect_packs elements elements = Ok [p]" "preprocess_subflows hash new_id (JArray elements) = Ok (JArray es')"
    and cs: "map (get_str ''id'') (sp_children p) = map Some cs" "distinct (map (parse_red_id_str hash) cs)"
      "sp_subflow_id p \<notin> set cs" "\<forall>c \<in> set (sp_children p). get_str ''z'' c = Some (sp_subflow_id p)"
    and new: "new_id 0 \<noteq> 0" "ElementId_to_string (new_id 0) \<notin> insert (sp_subflow_id p) (set cs)"
  shows "\<exists>ren sub inst copies rest. es' = sub # inst # copies @ rest
    \<and> get_str ''id'' sub = Some (ElementId_to_string (new_id 0))
    \<and> get_str ''id'' inst = get_str ''id'' (sp_instance p)
    \<and> get_str ''type'' inst = Some (''subflow:'' @ ElementId_to_string (new_id 0))
    \<and> (\<forall>i \<in> set cs. ren i = ElementId_to_string (new_id 0 XOR the (parse_red_id_str hash i)) \<and> ren i \<noteq> i) \<and> inj_on ren (set cs)
    \<and> map (get_str ''id'') copies = map (Some \<circ> ren) cs
    \<and> (\<forall>c \<in> set copies. get_str ''z'' c = Some (ElementId_to_string (new_id 0)))
    \<and> list_all2 (\<lambda>c copy. \<forall>ws. flatten_wires c = map JString ws \<and> set ws \<subseteq> set cs \<longrightarrow>
          flatten_wires copy = map JString (map ren ws)) (sp_children p) copies"
proof -
  let ?ren = "new_child_id hash (new_id 0)"
  obtain copies ids ys where e: "expand_packs hash new_id 0 [p] [] = Ok (copies, ids)"
      and ys: "omap (remap_element ids) copies = Ok ys"
      and es: "es' = ys @ filter (\<lambda>x. x \<notin> set (concat (map packed [p]))) elements"
    using preprocess_Ok [OF assms(1,2)] by blast
  then have "expand_pack hash (new_id 0) p [] = Ok (copies, ids)" by (auto simp: obind_eq_Ok)
  then obtain sub inst zs where zs: "ys = sub # inst # zs" "None \<notin> set (map (parse_red_id_str hash) cs)"
      and sub: "get_str ''id'' sub = Some (ElementId_to_string (new_id 0))"
      and inst: "get_str ''id'' inst = get_str ''id'' (sp_instance p)" "get_str ''type'' inst = Some (''subflow:'' @ ElementId_to_string (new_id 0))"
      and nodes: "list_all2 (\<lambda>i y. get_str ''id'' y = Some (?ren i) \<and> get_str ''z'' y = Some (ElementId_to_string (new_id 0))) cs zs"
      and wires: "list_all2 (\<lambda>c y. flatten_wires y = map (remap_id ids) (flatten_wires c)) (sp_children p) zs"
      and ids: "\<And>i. i \<in> set cs \<Longrightarrow> map_of ids i = Some (?ren i)"
    using expanded_pack [OF _ ys cs(1,3) new(2) cs(4)] by blast
  have "inj_on ?ren (set cs)" by (rule new_child_id_inj [OF cs(2) zs(2)])
  moreover have "?ren i = ElementId_to_string (new_id 0 XOR the (parse_red_id_str hash i)) \<and> ?ren i \<noteq> i" if "i \<in> set cs" for i
    using new_child_id_neq [OF _ new(1), of hash i] zs(2) that by (auto simp: new_child_id_def image_iff)
  moreover have "map (get_str ''id'') zs = map (Some \<circ> ?ren) cs" "\<forall>c \<in> set zs. get_str ''z'' c = Some (ElementId_to_string (new_id 0))"
    using nodes by (induction rule: list_all2_induct) auto
  moreover have "list_all2 (\<lambda>c copy. \<forall>ws. flatten_wires c = map JString ws \<and> set ws \<subseteq> set cs \<longrightarrow>
          flatten_wires copy = map JString (map ?ren ws)) (sp_children p) zs"
    by (rule list_all2_mono [OF wires]) (auto simp: ids subset_iff)
  moreover have "es' = sub # inst # zs @ filter (\<lambda>x. x \<notin> set (concat (map packed [p]))) elements" using es zs(1) by simp
  ultimately show ?thesis using sub inst by blast
qed

section \<open>Several instances\<close>

definition lies_in :: "string \<Rightarrow> 'n Json \<Rightarrow> bool" where
  "lies_in z x \<longleftrightarrow> get_str ''z'' x = Some z"

lemma expand_pack_ids:
  assumes "expand_pack hash new p ids = Ok (xs, ids')" "Some t \<notin> set (map (get_str ''id'') (sp_children p))"
  shows "map_of ids' t = (if t = sp_subflow_id p then Some (ElementId_to_string new) else map_of ids t)"
proof -
  obtain ys where "new_children hash new (sp_children p) (AList.update (sp_subflow_id p) (ElementId_to_string new) ids) = Ok (ys, ids')"
    using expand_pack_Ok [OF assms(1)] by blast
  from new_children_Ok [OF this] assms(2) show ?thesis by (auto simp: hmap_simps)
qed

lemma expand_packs_keep:
  assumes "expand_packs hash new_id i ps ids = Ok (xs, ids')"
    and "\<forall>p \<in> set ps. sp_subflow_id p \<noteq> t \<and> Some t \<notin> set (map (get_str ''id'') (sp_children p))"
  shows "map_of ids' t = map_of ids t"
  using assms
proof (induction ps arbitrary: i ids xs)
  case (Cons p ps)
  then obtain ys ids1 zs where e: "expand_pack hash (new_id i) p ids = Ok (ys, ids1)" "expand_packs hash new_id (Suc i) ps ids1 = Ok (zs, ids')"
    by (auto simp: obind_eq_Ok)
  have "map_of ids' t = map_of ids1 t" by (rule Cons.IH [OF e(2)]) (use Cons.prems(2) in simp)
  also have "\<dots> = map_of ids t" using expand_pack_ids [OF e(1), of t] Cons.prems(2) by auto
  finally show ?case .
qed simp

lemma expand_packs_last:
  assumes "expand_packs hash new_id i ps ids = Ok (xs, ids')" "k < length ps" "sp_subflow_id (ps ! k) = t"
    and "\<forall>j < length ps. k < j \<longrightarrow> sp_subflow_id (ps ! j) \<noteq> t"
    and "\<forall>p \<in> set ps. Some t \<notin> set (map (get_str ''id'') (sp_children p))"
  shows "map_of ids' t = Some (ElementId_to_string (new_id (i + k)))"
  using assms
proof (induction ps arbitrary: i k ids xs)
  case (Cons p ps)
  then obtain ys ids1 zs where e: "expand_pack hash (new_id i) p ids = Ok (ys, ids1)" "expand_packs hash new_id (Suc i) ps ids1 = Ok (zs, ids')"
    by (auto simp: obind_eq_Ok)
  show ?case
  proof (cases k)
    case 0
    have "sp_subflow_id q \<noteq> t" if "q \<in> set ps" for q
    proof -
      from that obtain j where "j < length ps" "q = ps ! j" by (auto simp: in_set_conv_nth)
      then show ?thesis using Cons.prems(4) [rule_format, of "Suc j"] 0 by simp
    qed
    then have "\<forall>p \<in> set ps. sp_subflow_id p \<noteq> t \<and> Some t \<notin> set (map (get_str ''id'') (sp_children p))"
      using Cons.prems(5) by simp
    then have "map_of ids' t = map_of ids1 t" by (rule expand_packs_keep [OF e(2)])
    also have "\<dots> = Some (ElementId_to_string (new_id i))"
      using expand_pack_ids [OF e(1), of t] Cons.prems(3,5) 0 by simp
    finally show ?thesis using 0 by simp
  next
    case (Suc n)
    have "map_of ids' t = Some (ElementId_to_string (new_id (Suc i + n)))"
      by (rule Cons.IH [OF e(2)]) (use Cons.prems(2-5) Suc in auto)
    then show ?thesis using Suc by simp
  qed
qed simp

lemma expand_pack_lies:
  assumes "expand_pack hash new p ids = Ok (xs, ids')" "\<forall>c \<in> set (sp_children p). lies_in t c"
  shows "length (sp_children p) \<le> length (filter (lies_in t) xs)"
proof -
  obtain sub inst ys where x: "xs = sub # inst # ys"
      "new_children hash new (sp_children p) (AList.update (sp_subflow_id p) (ElementId_to_string new) ids) = Ok (ys, ids')"
    by (rule expand_pack_Ok [OF assms(1)])
  note nc = new_children_Ok [OF x(2), THEN conjunct1]
  have "lies_in t y" if "y \<in> set ys" for y
  proof -
    from that obtain k where k: "k < length ys" "y = ys ! k" by (auto simp: in_set_conv_nth)
    have "lies_in t (sp_children p ! k)" using assms(2) k list_all2_lengthD [OF nc] by simp
    moreover obtain i where "jset ''id'' (JString (new_child_id hash new i)) (sp_children p ! k) = (Ok y :: ('a Json, RustRedError option) outcome)"
      using nc k by (auto simp: list_all2_conv_all_nth)
    ultimately show ?thesis using get_str_jset [of "''id''" _ "sp_children p ! k" y "''z''"] by (simp add: lies_in_def)
  qed
  then have "filter (lies_in t) ys = ys" by simp
  then show ?thesis using list_all2_lengthD [OF nc] x(1) by simp
qed

lemma expand_packs_lies:
  assumes "expand_packs hash new_id i ps ids = Ok (xs, ids')"
    and "\<forall>p \<in> set ps. sp_subflow_id p = t \<longrightarrow> sp_children p = cs" "\<forall>c \<in> set cs. lies_in t c"
  shows "length (filter (\<lambda>p. sp_subflow_id p = t) ps) * length cs \<le> length (filter (lies_in t) xs)"
  using assms(1,2)
proof (induction ps arbitrary: i ids xs)
  case (Cons p ps)
  then obtain ys ids1 zs where e: "expand_pack hash (new_id i) p ids = Ok (ys, ids1)" "expand_packs hash new_id (Suc i) ps ids1 = Ok (zs, ids')"
      "xs = ys @ zs"
    by (auto simp: obind_eq_Ok)
  have "length (filter (\<lambda>p. sp_subflow_id p = t) ps) * length cs \<le> length (filter (lies_in t) zs)"
    using Cons.IH [OF e(2)] Cons.prems(2) by simp
  moreover have "length cs \<le> length (filter (lies_in t) ys)" if "sp_subflow_id p = t"
    using expand_pack_lies [OF e(1), of t] Cons.prems(2) assms(3) that by simp
  ultimately show ?case using e(3) by auto
qed simp

lemma collect_packs_Ok:
  "collect_packs es xs = Ok ps \<Longrightarrow> p \<in> set ps \<Longrightarrow> sp_children p = filter (lies_in (sp_subflow_id p)) es"
proof (induction xs arbitrary: ps)
  case (Cons x xs)
  then show ?case by (auto simp: obind_eq_Ok subflow_pack_def lies_in_def [abs_def] split: option.splits)
qed simp

lemma remapped_lies:
  assumes "list_all2 (\<lambda>x y. remap_element ids x = Ok y) xs ys" "map_of ids t = Some u"
  shows "length (filter (lies_in t) xs) \<le> length (filter (lies_in u) ys)"
  using assms(1)
proof (induction rule: list_all2_induct)
  case (Cons x xs y ys)
  have "lies_in u y" if "lies_in t x"
    using that remap_element_get(1) [OF Cons.hyps(1)] assms(2)
    by (auto simp: lies_in_def get_str_def bind_eq_Some_conv elim!: jstr.elims)
  then show ?case using Cons.IH by auto
qed simp

text \<open>
  C9. The instances of one subflow share a single map of identifiers, in which a later instance
  overwrites what an earlier one entered: the nodes copied for all of them end up in the subflow
  of the last one.
\<close>

theorem instances_share_nodes:
  assumes "collect_packs elements elements = Ok packs" "preprocess_subflows hash new_id (JArray elements) = Ok (JArray es')"
    and k: "k < length packs" "sp_subflow_id (packs ! k) = t" "\<forall>j < length packs. k < j \<longrightarrow> sp_subflow_id (packs ! j) \<noteq> t"
    and "\<forall>x \<in> set elements. get_str ''id'' x = Some t \<longrightarrow> get_str ''z'' x = None"
  shows "length (filter (\<lambda>p. sp_subflow_id p = t) packs) * length (filter (lies_in t) elements)
    \<le> length (filter (lies_in (ElementId_to_string (new_id k))) es')"
proof -
  obtain copies ids ys where e: "expand_packs hash new_id 0 packs [] = Ok (copies, ids)"
      and ys: "omap (remap_element ids) copies = Ok ys"
      and es: "es' = ys @ filter (\<lambda>x. x \<notin> set (concat (map packed packs))) elements"
    using preprocess_Ok [OF assms(1,2)] by blast
  note c = collect_packs_Ok [OF assms(1)]
  have "\<forall>p \<in> set packs. Some t \<notin> set (map (get_str ''id'') (sp_children p))"
    using c assms(6) by (fastforce simp: lies_in_def)
  then have "map_of ids t = Some (ElementId_to_string (new_id k))"
    using expand_packs_last [OF e k] by simp
  then have "length (filter (lies_in t) copies) \<le> length (filter (lies_in (ElementId_to_string (new_id k))) ys)"
    using remapped_lies ys by (simp add: omap_eq_Ok)
  moreover have "length (filter (\<lambda>p. sp_subflow_id p = t) packs) * length (filter (lies_in t) elements) \<le> length (filter (lies_in t) copies)"
    by (rule expand_packs_lies [OF e]) (use c in auto)
  ultimately show ?thesis using es by simp
qed

section \<open>The environment of an instance\<close>

definition env_entry :: "string \<Rightarrow> 'n Json list \<Rightarrow> 'n Json option" where
  "env_entry n env = find (\<lambda>x. get_str ''name'' x = Some n) env"

lemma find_append: "find P (xs @ ys) = (case find P xs of Some x \<Rightarrow> Some x | None \<Rightarrow> find P ys)"
  by (induction xs) auto

lemma env_entry_merged:
  "env_entry n (target @ filter (\<lambda>x. case get_str ''name'' x of Some n \<Rightarrow> n \<notin> set (List.map_filter (get_str ''name'') target) | None \<Rightarrow> False) refs)
    = (case env_entry n target of Some x \<Rightarrow> Some x | None \<Rightarrow> env_entry n refs)"
proof (cases "env_entry n target")
  case None
  then have "n \<notin> set (List.map_filter (get_str ''name'') target)"
    by (auto simp: env_entry_def find_None_iff map_filter_def image_iff)
  then have "find (\<lambda>x. get_str ''name'' x = Some n)
      (filter (\<lambda>x. case get_str ''name'' x of Some n \<Rightarrow> n \<notin> set (List.map_filter (get_str ''name'') target) | None \<Rightarrow> False) refs)
    = find (\<lambda>x. get_str ''name'' x = Some n) refs"
    by (induction refs) (auto split: option.splits)
  then show ?thesis using None by (simp add: env_entry_def find_append)
qed (simp add: env_entry_def find_append)

text \<open>
  An instance of a subflow has its own value for a variable it sets, and the value of the subflow
  for every other.
\<close>

theorem instance_env_merged:
  assumes "instance_of x = Some s" "map_of subflows s = Some (JArray defaults)"
    and "jget ''env'' x = Some (JArray own) \<or> jget ''env'' x = None \<and> own = []"
  shows "\<exists>y env. merge_instance_env subflows x = Ok y \<and> jget ''env'' y = Some (JArray env)
    \<and> (\<forall>n. env_entry n env = (case env_entry n own of Some v \<Rightarrow> Some v | None \<Rightarrow> env_entry n defaults))"
proof -
  obtain m where x: "x = JObject m" using assms(1) by (cases x) (auto simp: instance_of_def get_str_def split: option.splits)
  have "(case jget ''env'' x of Some e \<Rightarrow> e | None \<Rightarrow> JArray []) = JArray own" using assms(3) by auto
  then show ?thesis
    using assms(1,2) x env_entry_merged [of _ own defaults] by (simp add: merge_instance_env_def merge_env_def Let_def)
qed

section \<open>A sample subflow\<close>

definition demo_subflow :: "int Json list" where
  "demo_subflow = [demo_tab, JObject [(''id'', JString ''a''), (''type'', JString ''subflow'')],
     demo_node ''b'' ''inject'' ''a'' [''c''], demo_node ''c'' ''debug'' ''a'' [], demo_node ''d'' ''subflow:a'' ''1'' []]"

definition demo_pack :: "string \<Rightarrow> int SubflowPack" where
  "demo_pack i = \<lparr>sp_subflow_id = ''a'', sp_instance = demo_node i ''subflow:a'' ''1'' [],
     sp_subflow = JObject [(''id'', JString ''a''), (''type'', JString ''subflow'')],
     sp_children = [demo_node ''b'' ''inject'' ''a'' [''c''], demo_node ''c'' ''debug'' ''a'' []]\<rparr>"

definition demo_new_id :: "nat \<Rightarrow> ElementId" where
  "demo_new_id n = (if n = 0 then 0x100 else 0x200)"

lemma demo_packs: "collect_packs demo_subflow demo_subflow = Ok [demo_pack ''d'']"
  "collect_packs (demo_subflow @ [demo_node ''e'' ''subflow:a'' ''1'' []]) (demo_subflow @ [demo_node ''e'' ''subflow:a'' ''1'' []])
    = Ok [demo_pack ''d'', demo_pack ''e'']"
  by code_simp+

lemma demo_ids: "parse_red_id_str (\<lambda>_. 0) ''b'' = Some 11" "parse_red_id_str (\<lambda>_. 0) ''c'' = Some 12"
  "ElementId_to_string 0x100 = ''0000000000000100''"  "ElementId_to_string 0x10B = ''000000000000010b''"  "ElementId_to_string 0x10C = ''000000000000010c''"
  "ElementId_to_string 0x200 = ''0000000000000200''"  "ElementId_to_string 0x20B = ''000000000000020b''"  "ElementId_to_string 0x20C = ''000000000000020c''"
  by code_simp+

lemmas demo_expand = demo_pack_def demo_new_id_def expand_pack_def generate_new_xored_id_def get_str_def demo_ids demo_node_def
  try_update_def remap_names_def remap_lists_def jupdate_def split_once_def Let_def

lemma demo_one: "\<exists>es'. preprocess_subflows (\<lambda>_. 0) demo_new_id (JArray demo_subflow) = Ok (JArray es')"
  by (simp add: preprocess_subflows_def demo_packs cong: obind_weak_cong) (simp add: demo_expand cong: obind_weak_cong)

lemma demo_two: "\<exists>es'. preprocess_subflows (\<lambda>_. 0) demo_new_id (JArray (demo_subflow @ [demo_node ''e'' ''subflow:a'' ''1'' []])) = Ok (JArray es')"
  by (simp add: preprocess_subflows_def demo_packs cong: obind_weak_cong) (simp add: demo_expand cong: obind_weak_cong)

theorem instance_wiring_preserved_witness:
  "\<exists>ren sub inst copies rest. preprocess_subflows (\<lambda>_. 0) demo_new_id (JArray demo_subflow) = Ok (JArray (sub # inst # copies @ rest))
    \<and> get_str ''id'' sub = Some ''0000000000000100'' \<and> get_str ''type'' inst = Some ''subflow:0000000000000100''
    \<and> map (get_str ''id'') copies = [Some ''000000000000010b'', Some ''000000000000010c'']
    \<and> flatten_wires (copies ! 0) = [JString ''000000000000010c'']"
proof -
  obtain es' where es: "preprocess_subflows (\<lambda>_. 0) demo_new_id (JArray demo_subflow) = Ok (JArray es')" using demo_one by blast
  have c: "map (get_str ''id'') (sp_children (demo_pack ''d'')) = map Some [''b'', ''c'']"
    "distinct (map (parse_red_id_str (\<lambda>_. 0)) [''b'', ''c''])" "sp_subflow_id (demo_pack ''d'') \<notin> set [''b'', ''c'']"
    "\<forall>c \<in> set (sp_children (demo_pack ''d'')). get_str ''z'' c = Some (sp_subflow_id (demo_pack ''d''))"
    "demo_new_id 0 \<noteq> 0" "ElementId_to_string (demo_new_id 0) \<notin> insert (sp_subflow_id (demo_pack ''d'')) (set [''b'', ''c''])"
    "flatten_wires (sp_children (demo_pack ''d'') ! 0) = map JString [''c'']"
    "length (sp_children (demo_pack ''d'')) = 2"
    by code_simp+
  have new: "demo_new_id 0 = 0x100" "(0x100 :: u64) XOR 11 = 0x10B" "(0x100 :: u64) XOR 12 = 0x10C" by code_simp+
  obtain ren sub inst copies rest where r: "es' = sub # inst # copies @ rest"
    "get_str ''id'' sub = Some (ElementId_to_string (demo_new_id 0))"
    "get_str ''type'' inst = Some (''subflow:'' @ ElementId_to_string (demo_new_id 0))"
    "\<forall>i \<in> set [''b'', ''c'']. ren i = ElementId_to_string (demo_new_id 0 XOR the (parse_red_id_str (\<lambda>_. 0) i))"
    "map (get_str ''id'') copies = map (Some \<circ> ren) [''b'', ''c'']"
    "list_all2 (\<lambda>c copy. \<forall>ws. flatten_wires c = map JString ws \<and> set ws \<subseteq> set [''b'', ''c''] \<longrightarrow>
          flatten_wires copy = map JString (map ren ws)) (sp_children (demo_pack ''d'')) copies"
    using instance_wiring_preserved [OF demo_packs(1) es c(1-6)] by blast
  have n: "ren ''b'' = ''000000000000010b''" "ren ''c'' = ''000000000000010c''" using r(4) by (simp_all add: new demo_ids)
  have "flatten_wires (copies ! 0) = map JString (map ren [''c''])"
    using list_all2_nthD [OF r(6), of 0, rule_format, of "[''c'']"] c(7,8) by simp
  then show ?thesis
    using es r(1,2,3,5) n by (auto simp: new demo_ids)
qed

theorem instances_share_nodes_witness:
  "\<exists>es'. preprocess_subflows (\<lambda>_. 0) demo_new_id (JArray (demo_subflow @ [demo_node ''e'' ''subflow:a'' ''1'' []])) = Ok (JArray es')
    \<and> 4 \<le> length (filter (lies_in (ElementId_to_string 0x200)) es')"
proof -
  let ?es = "demo_subflow @ [demo_node ''e'' ''subflow:a'' ''1'' []]"
  obtain es' where es: "preprocess_subflows (\<lambda>_. 0) demo_new_id (JArray ?es) = Ok (JArray es')" using demo_two by blast
  have "length (filter (lies_in ''a'') ?es) = 2" "\<forall>x \<in> set ?es. get_str ''id'' x = Some ''a'' \<longrightarrow> get_str ''z'' x = None"
    by code_simp+
  with instances_share_nodes [OF demo_packs(2) es, of 1 "''a''"] es show ?thesis
    by (auto simp: demo_pack_def demo_new_id_def)
qed

theorem instance_env_merged_witness:
  "\<exists>y env. merge_instance_env [(''a'', JArray [JObject [(''name'', JString ''x''), (''value'', JString ''1'')]])] (demo_node ''d'' ''subflow:a'' ''1'' []) = Ok y
    \<and> jget ''env'' y = Some (JArray env) \<and> env_entry ''x'' env = Some (JObject [(''name'', JString ''x''), (''value'', JString ''1'')])"
proof -
  have i: "instance_of (demo_node ''d'' ''subflow:a'' ''1'' []) = Some ''a''" "jget ''env'' (demo_node ''d'' ''subflow:a'' ''1'' []) = None"
    by code_simp+
  have "env_entry ''x'' [JObject [(''name'', JString ''x''), (''value'', JString ''1'')] :: int Json] = Some (JObject [(''name'', JString ''x''), (''value'', JString ''1'')])"
    "env_entry ''x'' ([] :: int Json list) = None"
    by code_simp+
  with instance_env_merged [OF i(1), of "[(''a'', JArray [JObject [(''name'', JString ''x''), (''value'', JString ''1'')]])]"
      "[JObject [(''name'', JString ''x''), (''value'', JString ''1'')]]" "[]"] i(2)
  show ?thesis by fastforce
qed

end
