(* ===== verification/Delay_Node.thy ===== *)
theory Delay_Node
  imports Json Msg
begin

text \<open>
  The delay node (\<^verbatim>\<open>runtime/nodes/function_nodes/delay.rs\<close>). The node is a receiving task and the
  tasks it spawns: one per delayed message and at most one timer per buffer. A task runs a list of
  actions, each what happens between two awaits, under one lock; handlers are translated to such
  lists. The tasks interleave in any order, and a task that was aborted may still run up to its next
  wait.

  Parameters: the numbers of JSON, the arithmetic of \<^verbatim>\<open>f64\<close> and the random numbers (\<open>delay_ops\<close>).
  The clock counts nanoseconds. Whether \<^verbatim>\<open>fan_out_one\<close> succeeds is a choice of the step. A received
  message is named by the number of its reception, which also names its \<^verbatim>\<open>DelayCompletion\<close>; the
  counters of receptions, delays and tasks do not wrap.
\<close>

section \<open>Configuration\<close>

datatype DelayPauseType = PauseDelay | DelayVariable | PauseRandom | Rate | Queue | Timed

datatype TimeoutUnits = Milliseconds | Seconds | Minutes | Hours | Days

datatype RateUnits = RateSecond | RateMinute | RateHour | RateDay

record 'f DelayNodeConfig =
  dc_pause_type :: DelayPauseType
  dc_timeout :: 'f
  dc_timeout_units :: TimeoutUnits
  dc_random_first :: 'f
  dc_random_last :: 'f
  dc_random_units :: TimeoutUnits
  dc_outputs :: nat
  dc_rate :: 'f
  dc_rate_units :: RateUnits
  dc_nb_rate_units :: nat
  dc_drop :: bool
  dc_allow_rate :: bool
  dc_max_kept_msgs :: nat

record ('n, 'f) delay_ops =
  do_num :: "'n num_ops"
  do_as_f64 :: "'n \<Rightarrow> 'f option"
  do_parse_f64 :: "string \<Rightarrow> 'f option"
  do_of_nat :: "nat \<Rightarrow> 'f"
  do_add :: "'f \<Rightarrow> 'f \<Rightarrow> 'f"
  do_sub :: "'f \<Rightarrow> 'f \<Rightarrow> 'f"
  do_mul :: "'f \<Rightarrow> 'f \<Rightarrow> 'f"
  do_div :: "'f \<Rightarrow> 'f \<Rightarrow> 'f"
  do_max :: "'f \<Rightarrow> 'f \<Rightarrow> 'f"
  do_far :: "'f \<Rightarrow> bool"
  do_to_u64 :: "'f \<Rightarrow> u64"
  do_random :: "nat \<Rightarrow> 'f"

text \<open>\<open>do_far x\<close> is \<^verbatim>\<open>x.abs() > f64::EPSILON\<close>.\<close>

fun deserialize_string_or_f64 :: "('n, 'f) delay_ops \<Rightarrow> 'n Json \<Rightarrow> ('f, string) outcome" where
  "deserialize_string_or_f64 F (JNumber n) = ok_or (do_as_f64 F n) ''Invalid number''"
| "deserialize_string_or_f64 F (JString s) = ok_or (do_parse_f64 F s) ''Invalid number string''"
| "deserialize_string_or_f64 F _ = Err ''Expected number or string''"

fun deserialize_string_or_usize :: "('n, 'f) delay_ops \<Rightarrow> (string \<Rightarrow> nat option) \<Rightarrow> 'n Json \<Rightarrow> (nat, string) outcome" where
  "deserialize_string_or_usize F parse_usize (JNumber n) = ok_or (map_option unat (num_as_u64 (do_num F) n)) ''Invalid number''"
| "deserialize_string_or_usize F parse_usize (JString s) = ok_or (parse_usize s) ''Invalid number string''"
| "deserialize_string_or_usize F parse_usize _ = Err ''Expected number or string''"

section \<open>Durations\<close>

definition from_millis :: "u64 \<Rightarrow> nat" where
  "from_millis ms = unat ms * 1000000"

fun units_millis :: "('n, 'f) delay_ops \<Rightarrow> TimeoutUnits \<Rightarrow> 'f \<Rightarrow> 'f" where
  "units_millis F Milliseconds t = t"
| "units_millis F Seconds t = do_mul F t (do_of_nat F 1000)"
| "units_millis F Minutes t = do_mul F (do_mul F t (do_of_nat F 60)) (do_of_nat F 1000)"
| "units_millis F Hours t = do_mul F (do_mul F (do_mul F t (do_of_nat F 60)) (do_of_nat F 60)) (do_of_nat F 1000)"
| "units_millis F Days t =
     do_mul F (do_mul F (do_mul F (do_mul F t (do_of_nat F 24)) (do_of_nat F 60)) (do_of_nat F 60)) (do_of_nat F 1000)"

definition random_duration :: "('n, 'f) delay_ops \<Rightarrow> 'f DelayNodeConfig \<Rightarrow> 'f \<Rightarrow> nat" where
  "random_duration F cfg r =
     (let first_millis = units_millis F (dc_random_units cfg) (dc_random_first cfg);
          last_millis = units_millis F (dc_random_units cfg) (dc_random_last cfg);
          random_offset = do_mul F (do_sub F last_millis first_millis) r in
      from_millis (do_to_u64 F (do_add F first_millis random_offset)))"

fun seconds_per_unit :: "RateUnits \<Rightarrow> nat" where
  "seconds_per_unit RateSecond = 1"
| "seconds_per_unit RateMinute = 60"
| "seconds_per_unit RateHour = 3600"
| "seconds_per_unit RateDay = 86400"

definition dynamic_rate_interval :: "('n, 'f) delay_ops \<Rightarrow> 'f DelayNodeConfig \<Rightarrow> 'f \<Rightarrow> nat" where
  "dynamic_rate_interval F cfg current_rate =
     (let interval_seconds =
            do_div F (do_mul F (do_of_nat F (dc_nb_rate_units cfg)) (do_of_nat F (seconds_per_unit (dc_rate_units cfg)))) current_rate in
      from_millis (do_to_u64 F (do_mul F interval_seconds (do_of_nat F 1000))))"

definition dynamic_timeout_duration :: "('n, 'f) delay_ops \<Rightarrow> 'f DelayNodeConfig \<Rightarrow> 'f \<Rightarrow> nat" where
  "dynamic_timeout_duration F cfg current_timeout =
     from_millis (do_to_u64 F (units_millis F (dc_timeout_units cfg) current_timeout))"

section \<open>Messages and flags\<close>

record ('n, 't, 'r) received =
  rx_seq :: nat
  rx_msg :: "('n, 't, 'r) Msg"

definition flush_amount :: "'n num_ops \<Rightarrow> ('n, 't, 'r) Variant option \<Rightarrow> nat option" where
  "flush_amount N v = map_option (\<lambda>n. case num_as_u64 N n of Some u \<Rightarrow> unat u | None \<Rightarrow> 0) (Option.bind v as_number)"

record delay_flags =
  df_reset :: bool
  df_flush :: bool
  df_flush_count :: "nat option"
  df_data :: bool

definition control_flags :: "'n num_ops \<Rightarrow> ('n, 't, 'r) Msg \<Rightarrow> (delay_flags, RustRedError) outcome" where
  "control_flags N m =
     obind (Msg_object m) (\<lambda>o1.
       Ok \<lparr>df_reset = map_of o1 ''reset'' \<noteq> None, df_flush = map_of o1 ''flush'' \<noteq> None,
           df_flush_count = flush_amount N (map_of o1 ''flush''), df_data = (\<exists>k \<in> set (map fst o1). k \<noteq> ''flush'')\<rparr>)"

text \<open>A number in the message, with the configured value where it is not a \<^verbatim>\<open>f64\<close>.\<close>

definition number_in :: "('n, 'f) delay_ops \<Rightarrow> string \<Rightarrow> 'f \<Rightarrow> ('n, 't, 'r) Msg \<Rightarrow> 'f option" where
  "number_in F key dflt m =
     map_option (\<lambda>n. case do_as_f64 F n of Some f \<Rightarrow> f | None \<Rightarrow> dflt) (Option.bind (Msg_get key m) as_number)"

record ('n, 't, 'r) MsgInfo =
  mi_msg :: "('n, 't, 'r) received"
  mi_port :: nat
  mi_completion :: "nat option"

record ('n, 't, 'r) PendingDelay =
  pd_id :: nat
  pd_msg :: "('n, 't, 'r) received"
  pd_completion :: nat

section \<open>Tasks and state\<close>

datatype timer = RateTimer | QueueTimer

datatype ('n, 't, 'r) delay_action =
  Schedule "('n, 't, 'r) received" nat
| ScheduleCurrent "('n, 't, 'r) received"
| SleepStart nat nat "('n, 't, 'r) received"
| Sleep nat nat "('n, 't, 'r) received"
| TakePending nat "('n, 't, 'r) received"
| ClearPending
| FlushPending "nat option" nat
| Interrupt nat

datatype timer_action =
  Abort timer
| Ensure timer
| TimerStart timer nat
| TimerLoop timer nat nat
| TimerTick timer nat nat
| TimerPop timer nat nat
| TimerCheck timer nat nat
| TimerStop timer

datatype ('n, 't, 'r, 'f) rate_action =
  DropSend "('n, 't, 'r) received"
| RateIn "('n, 't, 'r) received" "'f option" delay_flags
| RateBuffer "('n, 't, 'r) received" "'f option" delay_flags
| RateChange 'f
| RateFlush "nat option"
| RateClear
| ClearLastSent
| QueueChange 'f
| QueueRestart
| QueueDrain
| QueueFlush "nat option"
| QueueAdd "('n, 't, 'r) received" string

datatype ('n, 't, 'r, 'f) action =
  SendIgnore nat "('n, 't, 'r) received"
| SendOrFail nat "('n, 't, 'r) received" nat
| CompleteMsg nat
| HandleError nat
| PanicNow
| UpdateRate 'f
| UpdateTimeout 'f
| Dly "('n, 't, 'r) delay_action"
| Rte "('n, 't, 'r, 'f) rate_action"
| Tmr timer_action

datatype delay_event = Emit nat nat nat bool | Done nat | Failed nat

record ('n, 't, 'r, 'f) task =
  tk_code :: "('n, 't, 'r, 'f) action list"
  tk_aborted :: bool

record ('n, 't, 'r, 'f) delay_state =
  ds_now :: nat
  ds_stopped :: bool
  ds_panicked :: bool
  ds_next_seq :: nat
  ds_main :: "('n, 't, 'r, 'f) action list"
  ds_tasks :: "('n, 't, 'r, 'f) task list"
  ds_pending_delays :: "('n, 't, 'r) PendingDelay list"
  ds_interrupted :: "nat list"
  ds_next_delay_id :: nat
  ds_last_sent :: "nat option"
  ds_queue_buffer :: "('n, 't, 'r) MsgInfo list"
  ds_queue_timer :: "nat option"
  ds_rate_buffer :: "('n, 't, 'r) MsgInfo list"
  ds_rate_timer :: "nat option"
  ds_current_rate :: 'f
  ds_current_timeout :: 'f
  ds_completed :: "nat list"
  ds_log :: "delay_event list"

definition delay_build :: "'f DelayNodeConfig \<Rightarrow> ('n, 't, 'r, 'f) delay_state" where
  "delay_build cfg =
     \<lparr>ds_now = 0, ds_stopped = False, ds_panicked = False, ds_next_seq = 0, ds_main = [], ds_tasks = [],
      ds_pending_delays = [], ds_interrupted = [], ds_next_delay_id = 1, ds_last_sent = None, ds_queue_buffer = [],
      ds_queue_timer = None, ds_rate_buffer = [], ds_rate_timer = None, ds_current_rate = dc_rate cfg,
      ds_current_timeout = dc_timeout cfg, ds_completed = [], ds_log = []\<rparr>"

definition emit :: "nat \<Rightarrow> ('n, 't, 'r) received \<Rightarrow> bool \<Rightarrow> ('n, 't, 'r, 'f) delay_state \<Rightarrow> ('n, 't, 'r, 'f) delay_state" where
  "emit port m ok s = s\<lparr>ds_log := ds_log s @ [Emit port (rx_seq m) (ds_now s) ok]\<rparr>"

definition complete :: "nat \<Rightarrow> ('n, 't, 'r, 'f) delay_state \<Rightarrow> ('n, 't, 'r, 'f) delay_state" where
  "complete c s =
     (if c \<in> set (ds_completed s) then s
      else s\<lparr>ds_completed := c # ds_completed s, ds_log := ds_log s @ [Done c]\<rparr>)"

definition spawn :: "('n, 't, 'r, 'f) action list \<Rightarrow> ('n, 't, 'r, 'f) delay_state \<Rightarrow> ('n, 't, 'r, 'f) delay_state" where
  "spawn code s = s\<lparr>ds_tasks := ds_tasks s @ [\<lparr>tk_code = code, tk_aborted = False\<rparr>]\<rparr>"

definition abort_task :: "nat option \<Rightarrow> ('n, 't, 'r, 'f) delay_state \<Rightarrow> ('n, 't, 'r, 'f) delay_state" where
  "abort_task handle s =
     (case handle of
        None \<Rightarrow> s
      | Some i \<Rightarrow> s\<lparr>ds_tasks := (ds_tasks s)[i := (ds_tasks s ! i)\<lparr>tk_aborted := True\<rparr>]\<rparr>)"

section \<open>Delays\<close>

definition schedule_delayed ::
    "('n, 't, 'r) received \<Rightarrow> nat \<Rightarrow> ('n, 't, 'r, 'f) delay_state \<Rightarrow> ('n, 't, 'r, 'f) delay_state" where
  "schedule_delayed m delay s =
     (let i = ds_next_delay_id s in
      spawn [Dly (SleepStart i delay m)]
        (s\<lparr>ds_next_delay_id := Suc i,
           ds_pending_delays := ds_pending_delays s @ [\<lparr>pd_id = i, pd_msg = m, pd_completion = rx_seq m\<rparr>]\<rparr>))"

fun remove_pending :: "nat \<Rightarrow> ('n, 't, 'r) PendingDelay list \<Rightarrow> ('n, 't, 'r) PendingDelay list option" where
  "remove_pending i [] = None"
| "remove_pending i (p # ps) = (if pd_id p = i then Some ps else map_option ((#) p) (remove_pending i ps))"

definition take_pending_delay ::
    "nat \<Rightarrow> ('n, 't, 'r) received \<Rightarrow> ('n, 't, 'r, 'f) delay_state
      \<Rightarrow> ('n, 't, 'r, 'f) delay_state \<times> ('n, 't, 'r, 'f) action list" where
  "take_pending_delay i m s =
     (case remove_pending i (ds_pending_delays s) of
        Some ps \<Rightarrow> (s\<lparr>ds_pending_delays := ps\<rparr>, [SendIgnore 0 m, CompleteMsg (rx_seq m)])
      | None \<Rightarrow> (s, []))"

definition clear_pending_delays ::
    "('n, 't, 'r, 'f) delay_state \<Rightarrow> ('n, 't, 'r, 'f) delay_state \<times> ('n, 't, 'r, 'f) action list" where
  "clear_pending_delays s =
     (s\<lparr>ds_pending_delays := []\<rparr>,
      concat (map (\<lambda>e. [Dly (Interrupt (pd_id e)), CompleteMsg (pd_completion e)]) (ds_pending_delays s)))"

definition take_count :: "nat option \<Rightarrow> 'a list \<Rightarrow> nat" where
  "take_count amount xs = (case amount of None \<Rightarrow> length xs | Some n \<Rightarrow> min n (length xs))"

definition flush_pending_delays ::
    "nat option \<Rightarrow> nat \<Rightarrow> ('n, 't, 'r, 'f) delay_state \<Rightarrow> ('n, 't, 'r, 'f) delay_state \<times> ('n, 't, 'r, 'f) action list" where
  "flush_pending_delays amount own s =
     (let n = take_count amount (ds_pending_delays s) in
      (s\<lparr>ds_pending_delays := drop n (ds_pending_delays s)\<rparr>,
       concat (map (\<lambda>e. [Dly (Interrupt (pd_id e)), SendOrFail 0 (pd_msg e) own, CompleteMsg (pd_completion e)])
         (take n (ds_pending_delays s)))))"

definition handle_delay_controls :: "delay_flags \<Rightarrow> nat \<Rightarrow> nat option \<Rightarrow> ('n, 't, 'r, 'f) action list" where
  "handle_delay_controls fl own own_completion =
     (if df_reset fl then [Dly ClearPending] else if df_flush fl then [Dly (FlushPending (df_flush_count fl) own)] else [])
     @ (case own_completion of Some c \<Rightarrow> [CompleteMsg c] | None \<Rightarrow> [])"

text \<open>What the three delay modes share: a message with data waits on its own timer.\<close>

definition delay_program ::
    "delay_flags \<Rightarrow> ('n, 't, 'r) received \<Rightarrow> ('n, 't, 'r, 'f) action \<Rightarrow> ('n, 't, 'r, 'f) action list" where
  "delay_program fl m schedule =
     (if df_data fl then schedule # handle_delay_controls fl (rx_seq m) None
      else handle_delay_controls fl (rx_seq m) (Some (rx_seq m)))"

definition handle_delay_mode ::
    "('n, 'f) delay_ops \<Rightarrow> 'f DelayNodeConfig \<Rightarrow> delay_flags \<Rightarrow> ('n, 't, 'r) received \<Rightarrow> ('n, 't, 'r, 'f) action list" where
  "handle_delay_mode F cfg fl m =
     (case (if dc_allow_rate cfg then number_in F ''timeout'' (dc_timeout cfg) (rx_msg m) else None) of
        Some t \<Rightarrow> [UpdateTimeout t] | None \<Rightarrow> [])
     @ delay_program fl m (Dly (ScheduleCurrent m))"

definition handle_delay_variable_mode ::
    "('n, 'f) delay_ops \<Rightarrow> 'f DelayNodeConfig \<Rightarrow> delay_flags \<Rightarrow> ('n, 't, 'r) received \<Rightarrow> ('n, 't, 'r, 'f) action list" where
  "handle_delay_variable_mode F cfg fl m =
     delay_program fl m
       (case number_in F ''delay'' (do_of_nat F 0) (rx_msg m) of
          Some delay \<Rightarrow> Dly (Schedule m (from_millis (do_to_u64 F (do_max F delay (do_of_nat F 0)))))
        | None \<Rightarrow> Dly (ScheduleCurrent m))"

definition handle_random_mode ::
    "('n, 'f) delay_ops \<Rightarrow> 'f DelayNodeConfig \<Rightarrow> delay_flags \<Rightarrow> ('n, 't, 'r) received \<Rightarrow> ('n, 't, 'r, 'f) action list" where
  "handle_random_mode F cfg fl m = delay_program fl m (Dly (Schedule m (random_duration F cfg (do_random F (rx_seq m)))))"

section \<open>Rate limits\<close>

definition get_current_rate_interval :: "('n, 'f) delay_ops \<Rightarrow> 'f DelayNodeConfig \<Rightarrow> ('n, 't, 'r, 'f) delay_state \<Rightarrow> nat" where
  "get_current_rate_interval F cfg s = dynamic_rate_interval F cfg (ds_current_rate s)"

definition rate_update :: "'f option \<Rightarrow> ('n, 't, 'r, 'f) action list" where
  "rate_update rate = (case rate of Some r \<Rightarrow> [UpdateRate r] | None \<Rightarrow> [])"

text \<open>The part of the handler after the message is sent or buffered.\<close>

definition rate_tail :: "'f DelayNodeConfig \<Rightarrow> delay_flags \<Rightarrow> nat \<Rightarrow> bool \<Rightarrow> ('n, 't, 'r, 'f) action list" where
  "rate_tail cfg fl own completion_owned =
     (if df_flush fl then [Rte (RateFlush (df_flush_count fl))] else [])
     @ (if df_reset fl then
          (if df_flush fl then [] else [Rte ClearLastSent]) @ [Rte RateClear, Tmr (Abort RateTimer), UpdateRate (dc_rate cfg)]
        else [])
     @ (if completion_owned \<or> df_reset fl \<or> df_flush fl then [CompleteMsg own] else [])"

definition handle_rate_mode ::
    "('n, 'f) delay_ops \<Rightarrow> 'f DelayNodeConfig \<Rightarrow> delay_flags \<Rightarrow> ('n, 't, 'r) received \<Rightarrow> ('n, 't, 'r, 'f) action list" where
  "handle_rate_mode F cfg fl m =
     (let msg_rate = (if dc_allow_rate cfg then number_in F ''rate'' (dc_rate cfg) (rx_msg m) else None) in
      if dc_drop cfg then
        rate_update msg_rate @ (if df_data fl \<and> \<not> df_reset fl then [Rte (DropSend m)] else []) @ [CompleteMsg (rx_seq m)]
      else if df_data fl \<and> \<not> df_reset fl then [Rte (RateIn m msg_rate fl)]
      else rate_tail cfg fl (rx_seq m) True)"

definition drop_send ::
    "('n, 'f) delay_ops \<Rightarrow> 'f DelayNodeConfig \<Rightarrow> ('n, 't, 'r) received \<Rightarrow> ('n, 't, 'r, 'f) delay_state
      \<Rightarrow> ('n, 't, 'r, 'f) delay_state \<times> ('n, 't, 'r, 'f) action list" where
  "drop_send F cfg m s =
     (let can_send = (case ds_last_sent s of
            Some last_time \<Rightarrow> get_current_rate_interval F cfg s \<le> ds_now s - last_time
          | None \<Rightarrow> True) in
      if can_send then (s\<lparr>ds_last_sent := Some (ds_now s)\<rparr>, [SendOrFail 0 m (rx_seq m)])
      else (s, if 2 \<le> dc_outputs cfg then [SendOrFail 1 m (rx_seq m)] else []))"

definition rate_in ::
    "'f DelayNodeConfig \<Rightarrow> ('n, 't, 'r) received \<Rightarrow> 'f option \<Rightarrow> delay_flags \<Rightarrow> ('n, 't, 'r, 'f) delay_state
      \<Rightarrow> ('n, 't, 'r, 'f) action list" where
  "rate_in cfg m msg_rate fl s =
     (if ds_rate_timer s \<noteq> None then [Rte (RateBuffer m msg_rate fl)]
      else rate_update msg_rate @ [SendOrFail 0 m (rx_seq m), Tmr (Ensure RateTimer)] @ rate_tail cfg fl (rx_seq m) True)"

definition buffered :: "('n, 't, 'r) received \<Rightarrow> ('n, 't, 'r) MsgInfo" where
  "buffered m = \<lparr>mi_msg = m, mi_port = 0, mi_completion = Some (rx_seq m)\<rparr>"

definition rate_buffer ::
    "'f DelayNodeConfig \<Rightarrow> ('n, 't, 'r) received \<Rightarrow> 'f option \<Rightarrow> delay_flags \<Rightarrow> ('n, 't, 'r, 'f) delay_state
      \<Rightarrow> ('n, 't, 'r, 'f) delay_state \<times> ('n, 't, 'r, 'f) action list" where
  "rate_buffer cfg m msg_rate fl s =
     (if 0 < dc_max_kept_msgs cfg \<and> dc_max_kept_msgs cfg \<le> length (ds_rate_buffer s) then
        (s\<lparr>ds_rate_buffer := []\<rparr>, [HandleError (rx_seq m)])
      else
        (s\<lparr>ds_rate_buffer := ds_rate_buffer s @ [buffered m]\<rparr>,
         (case msg_rate of Some r \<Rightarrow> [Rte (RateChange r)] | None \<Rightarrow> []) @ [Tmr (Ensure RateTimer)] @ rate_tail cfg fl (rx_seq m) False))"

text \<open>The actions that send a buffered message and complete it.\<close>

definition release :: "('n, 't, 'r) MsgInfo \<Rightarrow> ('n, 't, 'r, 'f) action list" where
  "release mi = SendIgnore (mi_port mi) (mi_msg mi) # (case mi_completion mi of Some c \<Rightarrow> [CompleteMsg c] | None \<Rightarrow> [])"

definition rate_flush ::
    "nat option \<Rightarrow> ('n, 't, 'r, 'f) delay_state \<Rightarrow> ('n, 't, 'r, 'f) delay_state \<times> ('n, 't, 'r, 'f) action list" where
  "rate_flush amount s =
     (let n = take_count amount (ds_rate_buffer s); remaining = length (ds_rate_buffer s) - n in
      (s\<lparr>ds_rate_buffer := drop n (ds_rate_buffer s)\<rparr>,
       Tmr (Abort RateTimer) # concat (map release (take n (ds_rate_buffer s))) @ (if 0 < remaining then [Tmr (Ensure RateTimer)] else [])))"

definition ensure_rate_timer_running ::
    "('n, 'f) delay_ops \<Rightarrow> 'f DelayNodeConfig \<Rightarrow> ('n, 't, 'r, 'f) delay_state \<Rightarrow> ('n, 't, 'r, 'f) delay_state" where
  "ensure_rate_timer_running F cfg s =
     (if ds_rate_timer s \<noteq> None then s
      else (spawn [Tmr (TimerStart RateTimer (get_current_rate_interval F cfg s))] s)\<lparr>ds_rate_timer := Some (length (ds_tasks s))\<rparr>)"

text \<open>What the rate timer does at a tick: one message, or the end of the task.\<close>

definition rate_pop ::
    "nat \<Rightarrow> nat \<Rightarrow> ('n, 't, 'r, 'f) delay_state \<Rightarrow> ('n, 't, 'r, 'f) delay_state \<times> ('n, 't, 'r, 'f) action list" where
  "rate_pop period next s =
     (case ds_rate_buffer s of
        mi # mis \<Rightarrow> (s\<lparr>ds_rate_buffer := mis\<rparr>, release mi @ [Tmr (TimerLoop RateTimer period next)])
      | [] \<Rightarrow> (s, [Tmr (TimerStop RateTimer)]))"

section \<open>Queues\<close>

definition handle_queue_and_timed_modes ::
    "('n, 'f) delay_ops \<Rightarrow> 'f DelayNodeConfig \<Rightarrow> ('n, 't, 'r) received \<Rightarrow> ('n, 't, 'r, 'f) action list" where
  "handle_queue_and_timed_modes F cfg m =
     (let msg = rx_msg m;
          is_flush = Msg_contains ''flush'' msg;
          flush_count = (if is_flush then flush_amount (do_num F) (Msg_get ''flush'' msg) else None);
          topic = (case Option.bind (Msg_get ''topic'' msg) as_str of Some t \<Rightarrow> t | None \<Rightarrow> ''_none_'');
          msg_rate = (if dc_allow_rate cfg then number_in F ''rate'' (dc_rate cfg) msg else None) in
      (case msg_rate of Some r \<Rightarrow> [Rte (QueueChange r)] | None \<Rightarrow> [])
      @ (if Msg_contains ''reset'' msg then
           [Rte QueueDrain, Tmr (Abort QueueTimer), UpdateRate (dc_rate cfg), UpdateTimeout (dc_timeout cfg), CompleteMsg (rx_seq m)]
         else if is_flush then [Rte (QueueFlush flush_count), CompleteMsg (rx_seq m)]
         else [Rte (QueueAdd m topic), Tmr (Ensure QueueTimer)]))"

definition queue_drain :: "('n, 't, 'r, 'f) delay_state \<Rightarrow> ('n, 't, 'r, 'f) delay_state" where
  "queue_drain s =
     (fold (\<lambda>mi s. case mi_completion mi of Some c \<Rightarrow> complete c s | None \<Rightarrow> s) (ds_queue_buffer s) s)\<lparr>ds_queue_buffer := []\<rparr>"

definition queue_flush ::
    "nat option \<Rightarrow> ('n, 't, 'r, 'f) delay_state \<Rightarrow> ('n, 't, 'r, 'f) delay_state \<times> ('n, 't, 'r, 'f) action list" where
  "queue_flush amount s =
     (let n = take_count amount (ds_queue_buffer s) in
      (s\<lparr>ds_queue_buffer := drop n (ds_queue_buffer s)\<rparr>, concat (map release (take n (ds_queue_buffer s)))))"

definition buffered_topic :: "('n, 't, 'r) MsgInfo \<Rightarrow> string" where
  "buffered_topic mi =
     (case Option.bind (Msg_get ''topic'' (rx_msg (mi_msg mi))) as_str of Some t \<Rightarrow> t | None \<Rightarrow> '''')"

fun position :: "('a \<Rightarrow> bool) \<Rightarrow> 'a list \<Rightarrow> nat option" where
  "position P [] = None"
| "position P (x # xs) = (if P x then Some 0 else map_option Suc (position P xs))"

text \<open>
  The buffer is locked from the search to the replacement. \<open>ok\<close> is whether the replaced message
  could be sent.
\<close>

definition queue_add ::
    "'f DelayNodeConfig \<Rightarrow> bool \<Rightarrow> ('n, 't, 'r) received \<Rightarrow> string \<Rightarrow> ('n, 't, 'r, 'f) delay_state
      \<Rightarrow> ('n, 't, 'r, 'f) delay_state" where
  "queue_add cfg ok m topic s =
     (case position (\<lambda>mi. buffered_topic mi = topic) (ds_queue_buffer s) of
        Some pos \<Rightarrow>
          let old = ds_queue_buffer s ! pos;
              s1 = (if 2 \<le> dc_outputs cfg then emit 1 (mi_msg old) ok s else s);
              s2 = (case mi_completion old of Some c \<Rightarrow> complete c s1 | None \<Rightarrow> s1) in
          s2\<lparr>ds_queue_buffer := (ds_queue_buffer s2)[pos := buffered m]\<rparr>
      | None \<Rightarrow> s\<lparr>ds_queue_buffer := ds_queue_buffer s @ [buffered m]\<rparr>)"

definition ensure_queue_timer_running ::
    "('n, 'f) delay_ops \<Rightarrow> 'f DelayNodeConfig \<Rightarrow> ('n, 't, 'r, 'f) delay_state \<Rightarrow> ('n, 't, 'r, 'f) delay_state" where
  "ensure_queue_timer_running F cfg s =
     (if ds_queue_timer s \<noteq> None then s
      else (spawn [Tmr (TimerStart QueueTimer (get_current_rate_interval F cfg s))] s)\<lparr>ds_queue_timer := Some (length (ds_tasks s))\<rparr>)"

text \<open>What the queue timer does at a tick: the head of the queue, or all of it in timed mode.\<close>

definition queue_pop ::
    "'f DelayNodeConfig \<Rightarrow> nat \<Rightarrow> nat \<Rightarrow> ('n, 't, 'r, 'f) delay_state \<Rightarrow> ('n, 't, 'r, 'f) delay_state \<times> ('n, 't, 'r, 'f) action list" where
  "queue_pop cfg period next s =
     (let n = (if dc_pause_type cfg = Queue then 1 else length (ds_queue_buffer s)) in
      (s\<lparr>ds_queue_buffer := drop n (ds_queue_buffer s)\<rparr>,
       concat (map release (take n (ds_queue_buffer s))) @ [Tmr (TimerCheck QueueTimer period next)]))"

fun set_timer :: "timer \<Rightarrow> nat option \<Rightarrow> ('n, 't, 'r, 'f) delay_state \<Rightarrow> ('n, 't, 'r, 'f) delay_state" where
  "set_timer RateTimer handle s = s\<lparr>ds_rate_timer := handle\<rparr>"
| "set_timer QueueTimer handle s = s\<lparr>ds_queue_timer := handle\<rparr>"

fun get_timer :: "timer \<Rightarrow> ('n, 't, 'r, 'f) delay_state \<Rightarrow> nat option" where
  "get_timer RateTimer s = ds_rate_timer s"
| "get_timer QueueTimer s = ds_queue_timer s"

section \<open>Steps\<close>

text \<open>
  One action. The result is the new state and the code the task goes on with, or \<open>None\<close> when the
  task has to wait. \<open>choice\<close> is whether a send succeeds and which branch of \<^verbatim>\<open>select!\<close> is taken.
\<close>

primrec exec_delay ::
    "('n, 'f) delay_ops \<Rightarrow> 'f DelayNodeConfig \<Rightarrow> bool \<Rightarrow> ('n, 't, 'r) delay_action \<Rightarrow> ('n, 't, 'r, 'f) delay_state
      \<Rightarrow> (('n, 't, 'r, 'f) delay_state \<times> ('n, 't, 'r, 'f) action list) option" where
  "exec_delay F cfg choice (Schedule m delay) s = Some (schedule_delayed m delay s, [])"
| "exec_delay F cfg choice (ScheduleCurrent m) s =
     Some (schedule_delayed m (dynamic_timeout_duration F cfg (ds_current_timeout s)) s, [])"
| "exec_delay F cfg choice (SleepStart i delay m) s = Some (s, [Dly (Sleep i (ds_now s + delay) m)])"
| "exec_delay F cfg choice (Sleep i deadline m) s =
     (if choice then if i \<in> set (ds_interrupted s) \<or> ds_stopped s then Some (s, []) else None
      else if deadline \<le> ds_now s then Some (s, [Dly (TakePending i m)]) else None)"
| "exec_delay F cfg choice (TakePending i m) s = Some (take_pending_delay i m s)"
| "exec_delay F cfg choice ClearPending s = Some (clear_pending_delays s)"
| "exec_delay F cfg choice (FlushPending amount own) s = Some (flush_pending_delays amount own s)"
| "exec_delay F cfg choice (Interrupt i) s = Some (s\<lparr>ds_interrupted := i # ds_interrupted s\<rparr>, [])"

primrec exec_timer ::
    "('n, 'f) delay_ops \<Rightarrow> 'f DelayNodeConfig \<Rightarrow> timer_action \<Rightarrow> ('n, 't, 'r, 'f) delay_state
      \<Rightarrow> (('n, 't, 'r, 'f) delay_state \<times> ('n, 't, 'r, 'f) action list) option" where
  "exec_timer F cfg (Abort k) s = Some (set_timer k None (abort_task (get_timer k s) s), [])"
| "exec_timer F cfg (Ensure k) s =
     Some (case k of RateTimer \<Rightarrow> ensure_rate_timer_running F cfg s | QueueTimer \<Rightarrow> ensure_queue_timer_running F cfg s, [])"
| "exec_timer F cfg (TimerStart k period) s =
     Some (s, if period = 0 then [] else [Tmr (TimerLoop k period (ds_now s + period))])"
| "exec_timer F cfg (TimerLoop k period next) s = Some (s, if ds_stopped s then [] else [Tmr (TimerTick k period next)])"
| "exec_timer F cfg (TimerTick k period next) s =
     (if next \<le> ds_now s then Some (s, if ds_stopped s then [] else [Tmr (TimerPop k period (next + period))]) else None)"
| "exec_timer F cfg (TimerPop k period next) s =
     Some (case k of RateTimer \<Rightarrow> rate_pop period next s | QueueTimer \<Rightarrow> queue_pop cfg period next s)"
| "exec_timer F cfg (TimerCheck k period next) s =
     Some (s, if ds_queue_buffer s = [] then [Tmr (TimerStop k)] else [Tmr (TimerLoop k period next)])"
| "exec_timer F cfg (TimerStop k) s = Some (set_timer k None s, [])"

primrec exec_rate ::
    "('n, 'f) delay_ops \<Rightarrow> 'f DelayNodeConfig \<Rightarrow> bool \<Rightarrow> ('n, 't, 'r, 'f) rate_action \<Rightarrow> ('n, 't, 'r, 'f) delay_state
      \<Rightarrow> ('n, 't, 'r, 'f) delay_state \<times> ('n, 't, 'r, 'f) action list" where
  "exec_rate F cfg choice (DropSend m) s = drop_send F cfg m s"
| "exec_rate F cfg choice (RateIn m msg_rate fl) s = (s, rate_in cfg m msg_rate fl s)"
| "exec_rate F cfg choice (RateBuffer m msg_rate fl) s = rate_buffer cfg m msg_rate fl s"
| "exec_rate F cfg choice (RateChange r) s =
     (if do_far F (do_sub F r (ds_current_rate s)) then (s\<lparr>ds_current_rate := r\<rparr>, [Tmr (Abort RateTimer)]) else (s, []))"
| "exec_rate F cfg choice (RateFlush amount) s = rate_flush amount s"
| "exec_rate F cfg choice RateClear s = (s\<lparr>ds_rate_buffer := []\<rparr>, [])"
| "exec_rate F cfg choice ClearLastSent s = (s\<lparr>ds_last_sent := None\<rparr>, [])"
| "exec_rate F cfg choice (QueueChange r) s =
     (if do_far F (do_sub F r (ds_current_rate s)) then (s\<lparr>ds_current_rate := r\<rparr>, [Tmr (Abort QueueTimer), Rte QueueRestart])
      else (s, []))"
| "exec_rate F cfg choice QueueRestart s = (s, if ds_queue_buffer s = [] then [] else [Tmr (Ensure QueueTimer)])"
| "exec_rate F cfg choice QueueDrain s = (queue_drain s, [])"
| "exec_rate F cfg choice (QueueFlush amount) s = queue_flush amount s"
| "exec_rate F cfg choice (QueueAdd m topic) s = (queue_add cfg choice m topic s, [])"

text \<open>The actions of the sleeping tasks and of the timers end with the last of their code.\<close>

primrec exec ::
    "('n, 'f) delay_ops \<Rightarrow> 'f DelayNodeConfig \<Rightarrow> bool \<Rightarrow> ('n, 't, 'r, 'f) action \<Rightarrow> ('n, 't, 'r, 'f) action list
      \<Rightarrow> ('n, 't, 'r, 'f) delay_state \<Rightarrow> (('n, 't, 'r, 'f) delay_state \<times> ('n, 't, 'r, 'f) action list) option" where
  "exec F cfg choice (SendIgnore port m) rest s = Some (emit port m choice s, rest)"
| "exec F cfg choice (SendOrFail port m own) rest s =
     Some (emit port m choice s, if choice then rest else [HandleError own, CompleteMsg own])"
| "exec F cfg choice (CompleteMsg c) rest s = Some (complete c s, rest)"
| "exec F cfg choice (HandleError c) rest s = Some (s\<lparr>ds_log := ds_log s @ [Failed c]\<rparr>, rest)"
| "exec F cfg choice PanicNow rest s = Some (s\<lparr>ds_panicked := True\<rparr>, [])"
| "exec F cfg choice (UpdateRate r) rest s = Some (s\<lparr>ds_current_rate := r\<rparr>, rest)"
| "exec F cfg choice (UpdateTimeout t) rest s = Some (s\<lparr>ds_current_timeout := t\<rparr>, rest)"
| "exec F cfg choice (Dly a) rest s = map_option (\<lambda>(s1, code). (s1, code @ rest)) (exec_delay F cfg choice a s)"
| "exec F cfg choice (Rte a) rest s = Some (case exec_rate F cfg choice a s of (s1, code) \<Rightarrow> (s1, code @ rest))"
| "exec F cfg choice (Tmr a) rest s = map_option (\<lambda>(s1, code). (s1, code @ rest)) (exec_timer F cfg a s)"

definition handle_msg ::
    "('n, 'f) delay_ops \<Rightarrow> 'f DelayNodeConfig \<Rightarrow> ('n, 't, 'r) received \<Rightarrow> ('n, 't, 'r, 'f) action list" where
  "handle_msg F cfg m =
     (let with_flags = (\<lambda>handle. case control_flags (do_num F) (rx_msg m) of Ok fl \<Rightarrow> handle F cfg fl m | _ \<Rightarrow> [PanicNow]) in
      case dc_pause_type cfg of
        PauseDelay \<Rightarrow> with_flags handle_delay_mode
      | DelayVariable \<Rightarrow> with_flags handle_delay_variable_mode
      | PauseRandom \<Rightarrow> with_flags handle_random_mode
      | Rate \<Rightarrow> with_flags handle_rate_mode
      | Queue \<Rightarrow> handle_queue_and_timed_modes F cfg m
      | Timed \<Rightarrow> handle_queue_and_timed_modes F cfg m)"

definition receive ::
    "('n, 'f) delay_ops \<Rightarrow> 'f DelayNodeConfig \<Rightarrow> ('n, 't, 'r) Msg \<Rightarrow> ('n, 't, 'r, 'f) delay_state
      \<Rightarrow> ('n, 't, 'r, 'f) delay_state" where
  "receive F cfg msg s =
     s\<lparr>ds_next_seq := Suc (ds_next_seq s), ds_main := handle_msg F cfg \<lparr>rx_seq = ds_next_seq s, rx_msg = msg\<rparr>\<rparr>"

definition run_main ::
    "('n, 'f) delay_ops \<Rightarrow> 'f DelayNodeConfig \<Rightarrow> bool \<Rightarrow> ('n, 't, 'r, 'f) delay_state
      \<Rightarrow> ('n, 't, 'r, 'f) delay_state option" where
  "run_main F cfg choice s =
     (case ds_main s of
        [] \<Rightarrow> None
      | a # rest \<Rightarrow> map_option (\<lambda>(s1, code). s1\<lparr>ds_main := code\<rparr>) (exec F cfg choice a rest s))"

fun waits :: "('n, 't, 'r, 'f) action \<Rightarrow> bool" where
  "waits (Tmr (TimerTick _ _ _)) = True"
| "waits _ = False"

definition run_task ::
    "('n, 'f) delay_ops \<Rightarrow> 'f DelayNodeConfig \<Rightarrow> bool \<Rightarrow> nat \<Rightarrow> ('n, 't, 'r, 'f) delay_state
      \<Rightarrow> ('n, 't, 'r, 'f) delay_state option" where
  "run_task F cfg choice i s =
     (if i < length (ds_tasks s) then
        (case tk_code (ds_tasks s ! i) of
           [] \<Rightarrow> None
         | a # rest \<Rightarrow>
             if tk_aborted (ds_tasks s ! i) \<and> waits a then None
             else map_option (\<lambda>(s1, code). s1\<lparr>ds_tasks := (ds_tasks s1)[i := (ds_tasks s1 ! i)\<lparr>tk_code := code\<rparr>]\<rparr>)
                    (exec F cfg choice a rest s))
      else None)"

definition kill_task :: "nat \<Rightarrow> ('n, 't, 'r, 'f) delay_state \<Rightarrow> ('n, 't, 'r, 'f) delay_state option" where
  "kill_task i s =
     (if i < length (ds_tasks s) \<and> tk_aborted (ds_tasks s ! i)
      then Some (s\<lparr>ds_tasks := (ds_tasks s)[i := (ds_tasks s ! i)\<lparr>tk_code := []\<rparr>]\<rparr>)
      else None)"

datatype ('n, 't, 'r) delay_input =
  Receive "('n, 't, 'r) Msg" | RunMain bool | RunTask nat bool | Kill nat | Pass nat | StopNode

fun delay_step ::
    "('n, 'f) delay_ops \<Rightarrow> 'f DelayNodeConfig \<Rightarrow> ('n, 't, 'r) delay_input \<Rightarrow> ('n, 't, 'r, 'f) delay_state
      \<Rightarrow> ('n, 't, 'r, 'f) delay_state option" where
  "delay_step F cfg (Receive msg) s =
     (if ds_main s = [] \<and> \<not> ds_stopped s \<and> \<not> ds_panicked s then Some (receive F cfg msg s) else None)"
| "delay_step F cfg (RunMain choice) s = run_main F cfg choice s"
| "delay_step F cfg (RunTask i choice) s = run_task F cfg choice i s"
| "delay_step F cfg (Kill i) s = kill_task i s"
| "delay_step F cfg (Pass d) s = Some (s\<lparr>ds_now := ds_now s + d\<rparr>)"
| "delay_step F cfg StopNode s = Some (s\<lparr>ds_stopped := True\<rparr>)"

fun delay_run ::
    "('n, 'f) delay_ops \<Rightarrow> 'f DelayNodeConfig \<Rightarrow> ('n, 't, 'r) delay_input list \<Rightarrow> ('n, 't, 'r, 'f) delay_state
      \<Rightarrow> ('n, 't, 'r, 'f) delay_state option" where
  "delay_run F cfg [] s = Some s"
| "delay_run F cfg (i # is) s = Option.bind (delay_step F cfg i s) (delay_run F cfg is)"

text \<open>The states reached by inputs that are allowed.\<close>

inductive delay_reach ::
    "('n, 'f) delay_ops \<Rightarrow> 'f DelayNodeConfig \<Rightarrow> (('n, 't, 'r) delay_input \<Rightarrow> bool) \<Rightarrow> ('n, 't, 'r, 'f) delay_state \<Rightarrow> bool"
  for F cfg allowed where
  start: "delay_reach F cfg allowed (delay_build cfg)"
| step: "delay_reach F cfg allowed s \<Longrightarrow> allowed i \<Longrightarrow> delay_step F cfg i s = Some s' \<Longrightarrow> delay_reach F cfg allowed s'"

end
