(* ===== verification/Delay_Correct.thy ===== *)
theory Delay_Correct
  imports Delay_Node
begin

text \<open>
  The delay node under every interleaving of its tasks.
\<close>

named_theorems delay_defs "the operations that actions of the delay node perform"

lemmas [delay_defs] = emit_def complete_def spawn_def abort_task_def schedule_delayed_def take_pending_delay_def
  clear_pending_delays_def flush_pending_delays_def drop_send_def rate_in_def rate_buffer_def buffered_def release_def
  rate_flush_def ensure_rate_timer_running_def rate_pop_def queue_flush_def ensure_queue_timer_running_def queue_pop_def
  rate_update_def rate_tail_def take_count_def

section \<open>Who holds a message\<close>

fun delay_held :: "('n, 't, 'r) delay_action \<Rightarrow> nat multiset" where
  "delay_held (Schedule m d) = {#rx_seq m#}"
| "delay_held (ScheduleCurrent m) = {#rx_seq m#}"
| "delay_held _ = {#}"

fun rate_held :: "('n, 't, 'r, 'f) rate_action \<Rightarrow> nat multiset" where
  "rate_held (DropSend m) = {#rx_seq m#}"
| "rate_held (RateIn m r fl) = {#rx_seq m#}"
| "rate_held (RateBuffer m r fl) = {#rx_seq m#}"
| "rate_held (QueueAdd m t) = {#rx_seq m#}"
| "rate_held _ = {#}"

fun action_held :: "('n, 't, 'r, 'f) action \<Rightarrow> nat multiset" where
  "action_held (SendIgnore p m) = {#rx_seq m#}"
| "action_held (SendOrFail p m c) = {#rx_seq m#}"
| "action_held (Dly a) = delay_held a"
| "action_held (Rte a) = rate_held a"
| "action_held _ = {#}"

abbreviation code_held :: "('n, 't, 'r, 'f) action list \<Rightarrow> nat multiset" where
  "code_held code \<equiv> sum_list (map action_held code)"

fun emitted :: "delay_event list \<Rightarrow> nat list" where
  "emitted [] = []"
| "emitted (Emit p q t ok # es) = q # emitted es"
| "emitted (_ # es) = emitted es"

lemma emitted_append [simp]: "emitted (es @ fs) = emitted es @ emitted fs"
  by (induction es rule: emitted.induct) auto

text \<open>What the shared state holds, and what the tasks hold.\<close>

definition shared_held :: "('n, 't, 'r, 'f) delay_state \<Rightarrow> nat multiset" where
  "shared_held s =
     mset (map (rx_seq \<circ> pd_msg) (ds_pending_delays s)) + mset (map (rx_seq \<circ> mi_msg) (ds_queue_buffer s))
     + mset (map (rx_seq \<circ> mi_msg) (ds_rate_buffer s)) + mset (emitted (ds_log s))"

definition tasks_held :: "('n, 't, 'r, 'f) task list \<Rightarrow> nat multiset" where
  "tasks_held ts = sum_list (map (\<lambda>t. code_held (tk_code t)) ts)"

lemma tasks_held_simps [simp]: "tasks_held [] = {#}" "tasks_held (ts @ us) = tasks_held ts + tasks_held us"
    "tasks_held [t] = code_held (tk_code t)"
  by (simp_all add: tasks_held_def)

lemma tasks_held_update:
  "i < length ts \<Longrightarrow> tasks_held (ts[i := t]) + code_held (tk_code (ts ! i)) = tasks_held ts + code_held (tk_code t)"
proof (induction ts arbitrary: i)
  case (Cons u ts)
  show ?case
  proof (cases i)
    case (Suc j)
    then show ?thesis using Cons by (simp add: tasks_held_def add.assoc)
  qed (simp add: tasks_held_def ac_simps)
qed simp

lemma tasks_held_abort: "tasks_held (ts[i := (ts ! i)\<lparr>tk_aborted := b\<rparr>]) = tasks_held ts"
proof (cases "i < length ts")
  case True
  then show ?thesis using tasks_held_update [of i ts "(ts ! i)\<lparr>tk_aborted := b\<rparr>"] by simp
qed (simp add: list_update_beyond)

lemma shared_held_simps [simp]:
  "shared_held (s\<lparr>ds_tasks := ts\<rparr>) = shared_held s" "shared_held (s\<lparr>ds_main := code\<rparr>) = shared_held s"
  "shared_held (s\<lparr>ds_now := n\<rparr>) = shared_held s" "shared_held (s\<lparr>ds_stopped := b\<rparr>) = shared_held s"
  "shared_held (s\<lparr>ds_panicked := b\<rparr>) = shared_held s" "shared_held (s\<lparr>ds_next_seq := n\<rparr>) = shared_held s"
  "shared_held (s\<lparr>ds_interrupted := is\<rparr>) = shared_held s" "shared_held (s\<lparr>ds_last_sent := l\<rparr>) = shared_held s"
  "shared_held (s\<lparr>ds_current_rate := r\<rparr>) = shared_held s" "shared_held (s\<lparr>ds_current_timeout := r\<rparr>) = shared_held s"
  "shared_held (set_timer k h s) = shared_held s" "shared_held (abort_task h s) = shared_held s"
  "shared_held (complete c s) = shared_held s" "shared_held (spawn code s) = shared_held s"
  by (cases k; simp add: shared_held_def abort_task_def complete_def spawn_def split: option.splits)+


lemma code_held_release: "code_held (concat (map release mis)) = mset (map (rx_seq \<circ> mi_msg) mis)"
  by (induction mis) (auto simp: release_def split: option.splits)

lemma mset_take_drop: "image_mset f (mset (take n xs)) + image_mset f (mset (drop n xs)) = image_mset f (mset xs)"
  by (metis append_take_drop_id image_mset_union mset_append)

lemma mset_drop_take [simp]: "image_mset f (mset (drop n xs)) + image_mset f (mset (take n xs)) = image_mset f (mset xs)"
  by (metis mset_take_drop add.commute)

lemma image_mset_update:
  "i < length xs \<Longrightarrow> image_mset f (mset (xs[i := x])) + {#f (xs ! i)#} = image_mset f (mset xs) + {#f x#}"
  by (induction xs arbitrary: i) (auto split: nat.splits)

lemma remove_pending_Some:
  "remove_pending i ps = Some qs \<Longrightarrow> \<exists>e. e \<in> set ps \<and> pd_id e = i \<and> mset ps = add_mset e (mset qs)"
proof (induction ps arbitrary: qs)
  case (Cons p ps)
  then show ?case by (cases "pd_id p = i") fastforce+
qed simp

lemma position_Some: "position P xs = Some k \<Longrightarrow> k < length xs \<and> P (xs ! k)"
  by (induction xs arbitrary: k) (auto split: if_splits)

lemma set_timer_frame [simp]:
  "ds_tasks (set_timer k h s) = ds_tasks s" "ds_next_seq (set_timer k h s) = ds_next_seq s"
  "ds_main (set_timer k h s) = ds_main s" "ds_log (set_timer k h s) = ds_log s"
  "ds_completed (set_timer k h s) = ds_completed s" "ds_pending_delays (set_timer k h s) = ds_pending_delays s"
  "ds_next_delay_id (set_timer k h s) = ds_next_delay_id s"
  by (cases k; simp)+

lemma complete_frame [simp]:
  "ds_pending_delays (complete c s) = ds_pending_delays s" "ds_queue_buffer (complete c s) = ds_queue_buffer s"
  "ds_rate_buffer (complete c s) = ds_rate_buffer s" "ds_tasks (complete c s) = ds_tasks s"
  "ds_next_delay_id (complete c s) = ds_next_delay_id s" "ds_main (complete c s) = ds_main s"
  "ds_next_seq (complete c s) = ds_next_seq s" "emitted (ds_log (complete c s)) = emitted (ds_log s)"
  by (simp_all add: complete_def)

definition complete_all :: "('n, 't, 'r) MsgInfo list \<Rightarrow> ('n, 't, 'r, 'f) delay_state \<Rightarrow> ('n, 't, 'r, 'f) delay_state" where
  "complete_all mis s = fold (\<lambda>mi s. case mi_completion mi of Some c \<Rightarrow> complete c s | None \<Rightarrow> s) mis s"

lemma complete_all_simps [simp]:
  "complete_all [] s = s"
  "complete_all (mi # mis) s = complete_all mis (case mi_completion mi of Some c \<Rightarrow> complete c s | None \<Rightarrow> s)"
  by (simp_all add: complete_all_def)

lemma complete_all_frame [simp]:
  "ds_pending_delays (complete_all mis s) = ds_pending_delays s" "ds_rate_buffer (complete_all mis s) = ds_rate_buffer s"
  "ds_tasks (complete_all mis s) = ds_tasks s" "ds_next_delay_id (complete_all mis s) = ds_next_delay_id s"
  "ds_main (complete_all mis s) = ds_main s" "ds_next_seq (complete_all mis s) = ds_next_seq s"
  "emitted (ds_log (complete_all mis s)) = emitted (ds_log s)"
  by (induction mis arbitrary: s; simp split: option.split)+

lemma queue_drain_eq: "queue_drain s = (complete_all (ds_queue_buffer s) s)\<lparr>ds_queue_buffer := []\<rparr>"
  by (simp add: queue_drain_def complete_all_def)

lemma tasks_spawn [simp]: "ds_tasks (spawn code s) = ds_tasks s @ [\<lparr>tk_code = code, tk_aborted = False\<rparr>]"
  by (simp add: spawn_def)

lemma exec_delay_held:
  assumes "exec_delay F cfg choice a s = Some (s', code)"
    and "\<forall>i m e. a = TakePending i m \<longrightarrow> e \<in> set (ds_pending_delays s) \<longrightarrow> pd_id e = i \<longrightarrow> pd_msg e = m"
  shows "shared_held s' + tasks_held (ds_tasks s') + code_held code \<subseteq># shared_held s + tasks_held (ds_tasks s) + delay_held a"
proof (cases a)
  case (TakePending i m)
  show ?thesis
  proof (cases "remove_pending i (ds_pending_delays s)")
    case (Some ps)
    then obtain e where e: "e \<in> set (ds_pending_delays s)" "pd_id e = i" "mset (ds_pending_delays s) = add_mset e (mset ps)"
      using remove_pending_Some by blast
    then have "pd_msg e = m" using assms(2) TakePending by simp
    then show ?thesis using assms(1) TakePending Some e(3) by (auto simp: take_pending_delay_def shared_held_def)
  qed (use assms(1) TakePending in \<open>auto simp: take_pending_delay_def\<close>)
next
  case ClearPending
  have "code_held (concat (map (\<lambda>e. [Dly (Interrupt (pd_id e)), CompleteMsg (pd_completion e)]) ps) :: ('a, 'b, 'c, 'd) action list) = {#}"
    for ps :: "('a, 'b, 'c) PendingDelay list" by (induction ps) auto
  then show ?thesis using assms(1) ClearPending by (auto simp: clear_pending_delays_def shared_held_def)
next
  case (FlushPending amount own)
  have "code_held (concat (map (\<lambda>e. [Dly (Interrupt (pd_id e)), SendOrFail 0 (pd_msg e) own, CompleteMsg (pd_completion e)]) ps)
      :: ('a, 'b, 'c, 'd) action list) = mset (map (rx_seq \<circ> pd_msg) ps)"
    for ps :: "('a, 'b, 'c) PendingDelay list" by (induction ps) auto
  then show ?thesis using assms(1) FlushPending
    by (auto simp: flush_pending_delays_def shared_held_def Let_def)
qed (use assms(1) in \<open>auto simp: schedule_delayed_def shared_held_def spawn_def Let_def split: if_splits\<close>)

lemma exec_timer_held:
  assumes "exec_timer F cfg a s = Some (s', code)"
  shows "shared_held s' + tasks_held (ds_tasks s') + code_held code \<subseteq># shared_held s + tasks_held (ds_tasks s)"
proof (cases a)
  case (Abort k)
  then show ?thesis using assms by (cases k) (auto simp: abort_task_def tasks_held_abort shared_held_def split: option.splits)
next
  case (Ensure k)
  then show ?thesis using assms
    by (auto simp: ensure_rate_timer_running_def ensure_queue_timer_running_def shared_held_def spawn_def split: timer.splits if_splits)
next
  case (TimerPop k p n)
  show ?thesis
  proof (cases k)
    case RateTimer
    then show ?thesis using assms TimerPop
      by (auto simp: rate_pop_def shared_held_def release_def split: list.splits option.splits)
  next
    case QueueTimer
    then show ?thesis using assms TimerPop
      by (auto simp: queue_pop_def shared_held_def code_held_release Let_def)
  qed
qed (use assms in \<open>auto split: if_splits\<close>)

lemma exec_rate_held:
  assumes "exec_rate F cfg choice a s = (s', code)"
  shows "shared_held s' + tasks_held (ds_tasks s') + code_held code \<subseteq># shared_held s + tasks_held (ds_tasks s) + rate_held a"
proof (cases a)
  case (RateFlush amount)
  then show ?thesis using assms
    by (auto simp: rate_flush_def shared_held_def code_held_release Let_def)
next
  case (QueueFlush amount)
  then show ?thesis using assms
    by (auto simp: queue_flush_def shared_held_def code_held_release Let_def)
next
  case QueueDrain
  then show ?thesis using assms by (auto simp: shared_held_def queue_drain_eq)
next
  case (QueueAdd m topic)
  show ?thesis
  proof (cases "position (\<lambda>mi. buffered_topic mi = topic) (ds_queue_buffer s)")
    case None
    then show ?thesis using assms QueueAdd by (auto simp: queue_add_def shared_held_def buffered_def)
  next
    case (Some pos)
    have q: "image_mset (rx_seq \<circ> mi_msg) (mset ((ds_queue_buffer s)[pos := buffered m])) + {#rx_seq (mi_msg (ds_queue_buffer s ! pos))#}
        = image_mset (rx_seq \<circ> mi_msg) (mset (ds_queue_buffer s)) + {#rx_seq m#}"
      using image_mset_update [of pos "ds_queue_buffer s" "rx_seq \<circ> mi_msg" "buffered m"] position_Some [OF Some]
      by (simp add: buffered_def)
    then have "image_mset (rx_seq \<circ> mi_msg) (mset ((ds_queue_buffer s)[pos := buffered m]))
        \<subseteq># image_mset (rx_seq \<circ> mi_msg) (mset (ds_queue_buffer s)) + {#rx_seq m#}"
      by (metis mset_subset_eq_add_left)
    then show ?thesis using assms QueueAdd Some q
      by (auto simp: queue_add_def shared_held_def Let_def emit_def complete_def split: option.splits if_splits)
  qed
qed (use assms in \<open>auto simp: delay_defs shared_held_def split: if_splits option.splits\<close>)


section \<open>Who waits for a delay\<close>

fun delay_sleepers :: "('n, 't, 'r) delay_action \<Rightarrow> (nat \<times> ('n, 't, 'r) received) set" where
  "delay_sleepers (SleepStart i d m) = {(i, m)}"
| "delay_sleepers (Sleep i d m) = {(i, m)}"
| "delay_sleepers (TakePending i m) = {(i, m)}"
| "delay_sleepers _ = {}"

fun action_sleepers :: "('n, 't, 'r, 'f) action \<Rightarrow> (nat \<times> ('n, 't, 'r) received) set" where
  "action_sleepers (Dly a) = delay_sleepers a"
| "action_sleepers _ = {}"

definition code_sleepers :: "('n, 't, 'r, 'f) action list \<Rightarrow> (nat \<times> ('n, 't, 'r) received) set" where
  "code_sleepers code = (\<Union>a \<in> set code. action_sleepers a)"

definition tasks_sleepers :: "('n, 't, 'r, 'f) task list \<Rightarrow> (nat \<times> ('n, 't, 'r) received) set" where
  "tasks_sleepers ts = (\<Union>t \<in> set ts. code_sleepers (tk_code t))"

lemma code_sleepers_simps [simp]:
  "code_sleepers [] = {}" "code_sleepers (a # code) = action_sleepers a \<union> code_sleepers code"
  "code_sleepers (code @ code') = code_sleepers code \<union> code_sleepers code'"
  by (auto simp: code_sleepers_def)

lemma tasks_sleepers_simps [simp]:
  "tasks_sleepers [] = {}" "tasks_sleepers (ts @ us) = tasks_sleepers ts \<union> tasks_sleepers us"
  "tasks_sleepers [t] = code_sleepers (tk_code t)"
  by (auto simp: tasks_sleepers_def)

lemma tasks_sleepers_update: "tasks_sleepers (ts[i := t]) \<subseteq> tasks_sleepers ts \<union> code_sleepers (tk_code t)"
  using set_update_subset_insert [of ts i t] by (auto simp: tasks_sleepers_def)

lemma tk_code_abort [simp]: "tk_code (ts[i := (ts ! i)\<lparr>tk_aborted := b\<rparr>] ! j) = tk_code (ts ! j)"
  by (cases "i = j"; cases "i < length ts") (simp_all add: list_update_beyond)

lemma tasks_sleepers_abort [simp]: "tasks_sleepers (ts[i := (ts ! i)\<lparr>tk_aborted := b\<rparr>]) = tasks_sleepers ts"
proof -
  have "map tk_code (ts[i := (ts ! i)\<lparr>tk_aborted := b\<rparr>]) = map tk_code ts"
    by (rule nth_equalityI) simp_all
  moreover have "tasks_sleepers us = (\<Union>c \<in> set (map tk_code us). code_sleepers c)" for us :: "('a, 'b, 'c, 'd) task list"
    by (simp add: tasks_sleepers_def)
  ultimately show ?thesis by metis
qed

lemma code_sleepers_concat: "\<forall>x \<in> set xs. code_sleepers (f x) = {} \<Longrightarrow> code_sleepers (concat (map f xs)) = {}"
  by (induction xs) auto

lemma code_sleepers_release [simp]: "code_sleepers (release mi) = {}"
  by (simp add: release_def split: option.split)

definition id_step ::
    "('n, 't, 'r, 'f) delay_state \<Rightarrow> ('n, 't, 'r, 'f) delay_state \<Rightarrow> (nat \<times> ('n, 't, 'r) received) set
      \<Rightarrow> (nat \<times> ('n, 't, 'r) received) set \<Rightarrow> bool" where
  "id_step s s' W W' \<longleftrightarrow>
     set (ds_pending_delays s') \<subseteq> set (ds_pending_delays s) \<and> ds_next_delay_id s' = ds_next_delay_id s \<and> W' \<subseteq> W
     \<or> (\<exists>m. ds_pending_delays s' = ds_pending_delays s @ [\<lparr>pd_id = ds_next_delay_id s, pd_msg = m, pd_completion = rx_seq m\<rparr>]
          \<and> ds_next_delay_id s' = Suc (ds_next_delay_id s) \<and> W' \<subseteq> insert (ds_next_delay_id s, m) W)"

lemma id_step_schedule [simp]:
  "id_step s (schedule_delayed m d s) (tasks_sleepers (ds_tasks s)) (tasks_sleepers (ds_tasks (schedule_delayed m d s)))"
  by (auto simp: id_step_def schedule_delayed_def Let_def spawn_def)

lemma exec_delay_ids:
  "exec_delay F cfg choice a s = Some (s', code) \<Longrightarrow>
     id_step s s' (tasks_sleepers (ds_tasks s) \<union> delay_sleepers a) (tasks_sleepers (ds_tasks s') \<union> code_sleepers code)"
proof (cases a)
  case (TakePending i m)
  assume "exec_delay F cfg choice a s = Some (s', code)"
  then show ?thesis using TakePending
    by (auto simp: take_pending_delay_def id_step_def dest: remove_pending_Some split: option.splits)
       (metis insert_iff remove_pending_Some set_mset_add_mset_insert set_mset_mset)
qed (auto simp: id_step_def schedule_delayed_def clear_pending_delays_def flush_pending_delays_def Let_def spawn_def
       code_sleepers_concat dest: in_set_dropD split: if_splits)

lemma exec_timer_ids:
  assumes "exec_timer F cfg a s = Some (s', code)"
  shows "id_step s s' (tasks_sleepers (ds_tasks s)) (tasks_sleepers (ds_tasks s') \<union> code_sleepers code)"
proof (cases a)
  case (Abort k)
  then show ?thesis using assms Abort by (cases k) (auto simp: abort_task_def id_step_def split: option.splits)
next
  case (TimerPop k p n)
  then show ?thesis using assms
    by (auto simp: id_step_def rate_pop_def queue_pop_def code_sleepers_concat Let_def split: timer.splits list.splits)
next
  case (TimerStop k)
  then show ?thesis using assms by (cases k) (auto simp: id_step_def)
qed (use assms in \<open>auto simp: id_step_def ensure_rate_timer_running_def ensure_queue_timer_running_def spawn_def split: timer.splits if_splits\<close>)

lemma exec_rate_ids:
  "exec_rate F cfg choice a s = (s', code) \<Longrightarrow>
     id_step s s' (tasks_sleepers (ds_tasks s)) (tasks_sleepers (ds_tasks s') \<union> code_sleepers code)"
  by (cases a)
     (auto simp: id_step_def drop_send_def rate_in_def rate_buffer_def rate_update_def rate_tail_def rate_flush_def queue_flush_def
       queue_drain_eq queue_add_def emit_def code_sleepers_concat Let_def split: if_splits option.splits)

lemma id_step_mono: "id_step s s' W W' \<Longrightarrow> id_step s s' (W \<union> V) (W' \<union> V)"
  by (auto simp: id_step_def)

lemma exec_ids:
  assumes "exec F cfg choice a rest s = Some (s', code)"
  shows "id_step s s' (tasks_sleepers (ds_tasks s) \<union> action_sleepers a \<union> code_sleepers rest)
    (tasks_sleepers (ds_tasks s') \<union> code_sleepers code)"
proof -
  show ?thesis
  proof (cases a)
    case (Dly d)
    then show ?thesis using assms id_step_mono [OF exec_delay_ids, of F cfg choice d s s' _ "code_sleepers rest"]
      by (auto simp: Un_assoc)
  next
    case (Rte r)
    then show ?thesis using assms id_step_mono [OF exec_rate_ids, of F cfg choice r s s' _ "code_sleepers rest"]
      by (auto simp: Un_assoc split: prod.splits)
  next
    case (Tmr k)
    then show ?thesis using assms id_step_mono [OF exec_timer_ids, of F cfg k s s' _ "code_sleepers rest"]
      by (auto simp: Un_assoc)
  qed (use assms in \<open>auto simp: id_step_def emit_def split: if_splits\<close>)
qed

lemma exec_held:
  assumes "exec F cfg choice a rest s = Some (s', code)"
    and "\<forall>i m e. (i, m) \<in> action_sleepers a \<longrightarrow> e \<in> set (ds_pending_delays s) \<longrightarrow> pd_id e = i \<longrightarrow> pd_msg e = m"
  shows "shared_held s' + tasks_held (ds_tasks s') + code_held code
    \<subseteq># shared_held s + tasks_held (ds_tasks s) + (action_held a + code_held rest)"
proof (cases a)
  case (Dly d)
  then obtain code1 where e: "exec_delay F cfg choice d s = Some (s', code1)" "code = code1 @ rest"
    using assms(1) by auto
  have "shared_held s' + tasks_held (ds_tasks s') + code_held code1 \<subseteq># shared_held s + tasks_held (ds_tasks s) + delay_held d"
    by (rule exec_delay_held [OF e(1)]) (use assms(2) Dly in auto)
  then show ?thesis using Dly e(2) by (simp add: add.assoc [symmetric])
next
  case (Rte r)
  then obtain code1 where e: "exec_rate F cfg choice r s = (s', code1)" "code = code1 @ rest"
    using assms(1) by (auto split: prod.splits)
  show ?thesis using Rte exec_rate_held [OF e(1)] e(2) by (simp add: add.assoc [symmetric])
next
  case (Tmr k)
  then obtain code1 where e: "exec_timer F cfg k s = Some (s', code1)" "code = code1 @ rest"
    using assms(1) by auto
  show ?thesis using Tmr exec_timer_held [OF e(1)] e(2) by (simp add: add.assoc [symmetric])
qed (use assms(1) in \<open>auto simp: shared_held_def emit_def\<close>)


section \<open>Every step\<close>

definition ids_ok :: "nat \<Rightarrow> ('n, 't, 'r) PendingDelay list \<Rightarrow> (nat \<times> ('n, 't, 'r) received) set \<Rightarrow> bool" where
  "ids_ok n ps W \<longleftrightarrow>
     (\<forall>e \<in> set ps. pd_id e < n)
     \<and> (\<forall>i m. (i, m) \<in> W \<longrightarrow> i < n \<and> (\<forall>e \<in> set ps. pd_id e = i \<longrightarrow> pd_msg e = m))"

lemma ids_ok_mono: "ids_ok n ps W \<Longrightarrow> W' \<subseteq> W \<Longrightarrow> ids_ok n ps W'"
  unfolding ids_ok_def by blast

lemma ids_ok_msg: "ids_ok n ps W \<Longrightarrow> (i, m) \<in> W \<Longrightarrow> e \<in> set ps \<Longrightarrow> pd_id e = i \<Longrightarrow> pd_msg e = m"
  unfolding ids_ok_def by blast

lemma ids_kept:
  assumes "id_step s s' W W'" "ids_ok (ds_next_delay_id s) (ds_pending_delays s) W"
  shows "ids_ok (ds_next_delay_id s') (ds_pending_delays s') W'"
  using assms(1) unfolding id_step_def
proof (elim disjE conjE exE)
  fix m
  assume s': "ds_pending_delays s' = ds_pending_delays s @ [\<lparr>pd_id = ds_next_delay_id s, pd_msg = m, pd_completion = rx_seq m\<rparr>]"
    "ds_next_delay_id s' = Suc (ds_next_delay_id s)" "W' \<subseteq> insert (ds_next_delay_id s, m) W"
  have "ids_ok (ds_next_delay_id s') (ds_pending_delays s') (insert (ds_next_delay_id s, m) W)"
    using assms(2) s'(1,2) by (auto simp: ids_ok_def less_Suc_eq)
  then show ?thesis using s'(3) by (rule ids_ok_mono)
next
  assume q: "set (ds_pending_delays s') \<subseteq> set (ds_pending_delays s)" "ds_next_delay_id s' = ds_next_delay_id s" "W' \<subseteq> W"
  have "ids_ok (ds_next_delay_id s') (ds_pending_delays s') W"
    using assms(2) q(1) unfolding ids_ok_def q(2) by (meson subsetD)
  then show ?thesis using q(3) by (rule ids_ok_mono)
qed

definition sleepers :: "('n, 't, 'r, 'f) delay_state \<Rightarrow> (nat \<times> ('n, 't, 'r) received) set" where
  "sleepers s = code_sleepers (ds_main s) \<union> tasks_sleepers (ds_tasks s)"

definition held :: "('n, 't, 'r, 'f) delay_state \<Rightarrow> nat multiset" where
  "held s = shared_held s + tasks_held (ds_tasks s) + code_held (ds_main s)"

definition delay_inv :: "('n, 't, 'r, 'f) delay_state \<Rightarrow> bool" where
  "delay_inv s \<longleftrightarrow>
     ids_ok (ds_next_delay_id s) (ds_pending_delays s) (sleepers s) \<and> held s \<subseteq># mset [0..<ds_next_seq s]"

lemma exec_next_seq: "exec F cfg choice a rest s = Some (s', code) \<Longrightarrow> ds_next_seq s' = ds_next_seq s \<and> ds_main s' = ds_main s"
proof (cases a)
  case (Dly d)
  assume "exec F cfg choice a rest s = Some (s', code)"
  then show ?thesis using Dly by (cases d) (auto simp: delay_defs Let_def split: if_splits option.splits)
next
  case (Tmr k)
  assume e: "exec F cfg choice a rest s = Some (s', code)"
  show ?thesis using e Tmr by (cases k) (auto simp: delay_defs Let_def split: if_splits option.splits timer.splits list.splits)
next
  case (Rte r)
  assume "exec F cfg choice a rest s = Some (s', code)"
  then show ?thesis using Rte
    by (cases r) (auto simp: delay_defs queue_add_def queue_drain_eq Let_def split: if_splits option.splits prod.splits)
qed (auto simp: emit_def)

lemma exec_tasks:
  assumes "exec F cfg choice a rest s = Some (s', code)" "j < length (ds_tasks s)"
  shows "j < length (ds_tasks s') \<and> tk_code (ds_tasks s' ! j) = tk_code (ds_tasks s ! j)"
proof (cases a)
  case (Dly d)
  then show ?thesis using assms by (cases d) (auto simp: delay_defs nth_append Let_def split: if_splits option.splits)
next
  case (Tmr k)
  then show ?thesis using assms
    by (cases k) (auto simp: delay_defs nth_append nth_list_update Let_def split: if_splits option.splits timer.splits list.splits)
next
  case (Rte r)
  then show ?thesis using assms
    by (cases r) (auto simp: delay_defs queue_add_def queue_drain_eq Let_def split: if_splits option.splits prod.splits)
qed (use assms in \<open>auto simp: emit_def\<close>)

text \<open>The code a handler starts with holds its message at most once and no delay.\<close>

lemma handle_msg_code:
  "code_held (handle_msg F cfg m) \<subseteq># {#rx_seq m#}" "code_sleepers (handle_msg F cfg m) = {}"
  by (auto simp: handle_msg_def handle_delay_mode_def handle_delay_variable_mode_def handle_random_mode_def delay_program_def
      handle_delay_controls_def handle_rate_mode_def handle_queue_and_timed_modes_def rate_update_def rate_tail_def Let_def
      split: DelayPauseType.splits outcome.splits option.splits if_splits)


lemma cancel_held:
  assumes "K' + C = K1 + L" "S1 + K1 + L \<subseteq># S + K + (C :: 'a multiset)"
  shows "S1 + K' \<subseteq># S + K"
proof -
  have "S1 + K' + C \<subseteq># S + K + C" using assms(2) unfolding add.assoc assms(1) .
  then show ?thesis by simp
qed

lemma main_step:
  assumes "delay_inv s" "ds_main s = a # rest" "exec F cfg choice a rest s = Some (s1, code)"
  shows "delay_inv (s1\<lparr>ds_main := code\<rparr>)"
proof -
  note inv = assms(1) [unfolded delay_inv_def]
  have "id_step s s1 (sleepers s) (sleepers (s1\<lparr>ds_main := code\<rparr>))"
    using exec_ids [OF assms(3)] assms(2) by (simp add: sleepers_def Un_ac)
  then have "ids_ok (ds_next_delay_id s1) (ds_pending_delays s1) (sleepers (s1\<lparr>ds_main := code\<rparr>))"
    using inv ids_kept by blast
  moreover have "pd_msg x = m" if "(i, m) \<in> action_sleepers a" "x \<in> set (ds_pending_delays s)" "pd_id x = i" for i m x
    by (rule ids_ok_msg [OF conjunct1 [OF inv] _ that(2,3)]) (use that(1) assms(2) in \<open>simp add: sleepers_def\<close>)
  then have "held (s1\<lparr>ds_main := code\<rparr>) \<subseteq># held s"
    using exec_held [OF assms(3)] assms(2) by (simp add: held_def)
  then have "held (s1\<lparr>ds_main := code\<rparr>) \<subseteq># mset [0..<ds_next_seq s]" using inv subset_mset.order_trans by blast
  ultimately show ?thesis using exec_next_seq [OF assms(3)] by (simp add: delay_inv_def)
qed

lemma task_step:
  assumes "delay_inv s" and j: "j < length (ds_tasks s)" "tk_code (ds_tasks s ! j) = a # rest"
    and e: "exec F cfg choice a rest s = Some (s1, code)"
  shows "delay_inv (s1\<lparr>ds_tasks := (ds_tasks s1)[j := (ds_tasks s1 ! j)\<lparr>tk_code := code\<rparr>]\<rparr>)" (is "delay_inv ?s'")
proof -
  note inv = assms(1) [unfolded delay_inv_def]
  note j1 = exec_tasks [OF e j(1)] and main = exec_next_seq [OF e]
  have w: "code_sleepers (a # rest) \<subseteq> tasks_sleepers (ds_tasks s)"
    using j nth_mem [OF j(1)] unfolding tasks_sleepers_def by (metis UN_upper)
  then have W: "tasks_sleepers (ds_tasks s) \<union> action_sleepers a \<union> code_sleepers rest = tasks_sleepers (ds_tasks s)" by auto
  have "id_step s s1 (sleepers s) (tasks_sleepers (ds_tasks s1) \<union> code_sleepers code \<union> code_sleepers (ds_main s))"
    using id_step_mono [OF exec_ids [OF e], of "code_sleepers (ds_main s)"] unfolding W sleepers_def by (simp add: Un_ac)
  then have "ids_ok (ds_next_delay_id s1) (ds_pending_delays s1) (tasks_sleepers (ds_tasks s1) \<union> code_sleepers code \<union> code_sleepers (ds_main s))"
    using inv ids_kept by blast
  moreover have "sleepers ?s' \<subseteq> tasks_sleepers (ds_tasks s1) \<union> code_sleepers code \<union> code_sleepers (ds_main s)"
    using tasks_sleepers_update [of "ds_tasks s1" j "(ds_tasks s1 ! j)\<lparr>tk_code := code\<rparr>"] main by (auto simp: sleepers_def)
  ultimately have ids: "ids_ok (ds_next_delay_id s1) (ds_pending_delays s1) (sleepers ?s')" by (rule ids_ok_mono)
  have "tasks_held (ds_tasks ?s') + code_held (a # rest) = tasks_held (ds_tasks s1) + code_held code"
    using tasks_held_update [of j "ds_tasks s1" "(ds_tasks s1 ! j)\<lparr>tk_code := code\<rparr>"] j1 j(2) by simp
  moreover have "pd_msg x = m" if "(i, m) \<in> action_sleepers a" "x \<in> set (ds_pending_delays s)" "pd_id x = i" for i m x
    by (rule ids_ok_msg [OF conjunct1 [OF inv] _ that(2,3)]) (use w that(1) in \<open>auto simp: sleepers_def\<close>)
  then have "shared_held s1 + tasks_held (ds_tasks s1) + code_held code
      \<subseteq># shared_held s + tasks_held (ds_tasks s) + code_held (a # rest)"
    using exec_held [OF e] by simp
  ultimately have "shared_held s1 + tasks_held (ds_tasks ?s') \<subseteq># shared_held s + tasks_held (ds_tasks s)"
    by (rule cancel_held)
  then have "held ?s' \<subseteq># held s" using main by (simp add: held_def)
  then have "held ?s' \<subseteq># mset [0..<ds_next_seq s]" using inv subset_mset.order_trans by blast
  then show ?thesis using ids main by (simp add: delay_inv_def)
qed

lemma receive_step:
  assumes "delay_inv s" "ds_main s = []"
  shows "delay_inv (receive F cfg msg s)"
proof -
  note inv = assms(1) [unfolded delay_inv_def]
  have "shared_held s + tasks_held (ds_tasks s) + code_held (handle_msg F cfg \<lparr>rx_seq = ds_next_seq s, rx_msg = msg\<rparr>)
      \<subseteq># mset [0..<ds_next_seq s] + {#ds_next_seq s#}"
    using inv assms(2) handle_msg_code(1) [of F cfg "\<lparr>rx_seq = ds_next_seq s, rx_msg = msg\<rparr>"]
    by (intro subset_mset.add_mono) (auto simp: held_def)
  then show ?thesis using inv assms(2) by (simp add: delay_inv_def receive_def handle_msg_code(2) held_def sleepers_def)
qed

lemma kill_step:
  assumes "delay_inv s" "kill_task j s = Some s'"
  shows "delay_inv s'"
proof -
  note inv = assms(1) [unfolded delay_inv_def]
  have s': "j < length (ds_tasks s)" "s' = s\<lparr>ds_tasks := (ds_tasks s)[j := (ds_tasks s ! j)\<lparr>tk_code := []\<rparr>]\<rparr>"
    using assms(2) by (auto simp: kill_task_def split: if_splits)
  have "tasks_held (ds_tasks s') + code_held (tk_code (ds_tasks s ! j)) = tasks_held (ds_tasks s)"
    using tasks_held_update [of j "ds_tasks s" "(ds_tasks s ! j)\<lparr>tk_code := []\<rparr>"] s' by simp
  then have "tasks_held (ds_tasks s') \<subseteq># tasks_held (ds_tasks s)" by (metis mset_subset_eq_add_left)
  then have "held s' \<subseteq># held s" using s'(2) by (simp add: held_def)
  then have "held s' \<subseteq># mset [0..<ds_next_seq s]" using inv subset_mset.order_trans by blast
  moreover have "sleepers s' \<subseteq> sleepers s"
    using tasks_sleepers_update [of "ds_tasks s" j "(ds_tasks s ! j)\<lparr>tk_code := []\<rparr>"] s'(2) by (auto simp: sleepers_def)
  then have "ids_ok (ds_next_delay_id s) (ds_pending_delays s) (sleepers s')" using inv ids_ok_mono by blast
  ultimately show ?thesis using s'(2) by (simp add: delay_inv_def)
qed

lemma delay_inv_step:
  assumes "delay_inv s" and st: "delay_step F cfg i s = Some s'"
  shows "delay_inv s'"
proof (cases i)
  case (Receive msg)
  then show ?thesis using assms receive_step by (auto split: if_splits)
next
  case (RunMain choice)
  then show ?thesis using assms main_step by (auto simp: run_main_def split: list.splits)
next
  case (RunTask j choice)
  then show ?thesis using assms task_step by (auto simp: run_task_def split: list.splits if_splits)
next
  case (Kill j)
  then show ?thesis using assms kill_step by auto
qed (use assms in \<open>auto simp: delay_inv_def held_def sleepers_def\<close>)

fun dones :: "delay_event list \<Rightarrow> nat list" where
  "dones [] = []"
| "dones (Done c # es) = c # dones es"
| "dones (_ # es) = dones es"

lemma dones_append [simp]: "dones (es @ fs) = dones es @ dones fs"
  by (induction es rule: dones.induct) auto

definition done_once :: "('n, 't, 'r, 'f) delay_state \<Rightarrow> bool" where
  "done_once s \<longleftrightarrow> dones (ds_log s) = rev (ds_completed s) \<and> distinct (ds_completed s)"

lemma done_once_complete [simp]: "done_once s \<Longrightarrow> done_once (complete c s)"
  by (auto simp: done_once_def complete_def)

lemma done_once_complete_all [simp]: "done_once s \<Longrightarrow> done_once (complete_all mis s)"
  by (induction mis arbitrary: s) (auto split: option.split)

lemma done_once_emit [simp]: "done_once (emit p m ok s) = done_once s"
  by (simp add: done_once_def emit_def)

lemma done_once_simps [simp]:
  "done_once (s\<lparr>ds_queue_buffer := b\<rparr>) = done_once s" "done_once (s\<lparr>ds_main := code\<rparr>) = done_once s"
  "done_once (s\<lparr>ds_tasks := ts\<rparr>) = done_once s" "done_once (s\<lparr>ds_now := n\<rparr>) = done_once s"
  "done_once (s\<lparr>ds_stopped := c\<rparr>) = done_once s" "done_once (s\<lparr>ds_next_seq := n\<rparr>) = done_once s"
  by (simp_all add: done_once_def)

lemma done_once_frame:
  "ds_log s' = ds_log s \<Longrightarrow> ds_completed s' = ds_completed s \<Longrightarrow> done_once s' = done_once s"
  by (simp add: done_once_def)

lemma exec_done_once:
  assumes "exec F cfg choice a rest s = Some (s', code)" "done_once s"
  shows "done_once s'"
proof (cases a)
  case (Dly d)
  have "ds_log s' = ds_log s \<and> ds_completed s' = ds_completed s"
    using Dly assms(1) by (cases d) (auto simp: delay_defs Let_def split: if_splits option.splits)
  then show ?thesis using assms(2) done_once_frame by blast
next
  case (Tmr k)
  have "ds_log s' = ds_log s \<and> ds_completed s' = ds_completed s"
    using Tmr assms(1)
    by (cases k) (auto simp: delay_defs Let_def split: if_splits option.splits timer.splits list.splits)
  then show ?thesis using assms(2) done_once_frame by blast
next
  case (Rte r)
  show ?thesis
  proof (cases r)
    case (QueueAdd m topic)
    then show ?thesis using assms Rte by (auto simp: queue_add_def Let_def split: option.splits)
  next
    case QueueDrain
    then show ?thesis using assms Rte done_once_complete_all [OF assms(2), of "ds_queue_buffer s"]
      by (auto simp: queue_drain_eq done_once_def)
  qed (use assms Rte in \<open>auto simp: delay_defs done_once_def Let_def split: if_splits option.splits prod.splits\<close>)
next
  case (CompleteMsg c)
  then show ?thesis using assms done_once_complete by auto
qed (use assms in \<open>auto simp: done_once_def emit_def\<close>)

lemma done_once_step: "done_once s \<Longrightarrow> delay_step F cfg i s = Some s' \<Longrightarrow> done_once s'"
  by (cases i)
     (auto simp: receive_def run_main_def run_task_def kill_task_def split: list.splits if_splits dest: exec_done_once)

lemma delay_reach_inv: "delay_reach F cfg allowed s \<Longrightarrow> delay_inv s \<and> done_once s"
proof (induction rule: delay_reach.induct)
  case start
  show ?case by (simp add: delay_inv_def ids_ok_def held_def sleepers_def done_once_def delay_build_def shared_held_def)
next
  case (step s i s')
  then show ?case using delay_inv_step done_once_step by blast
qed

lemma subset_upt_distinct:
  assumes "mset xs \<subseteq># mset [0..<n]"
  shows "distinct xs \<and> set xs \<subseteq> {0..<n}"
proof -
  obtain zs where z: "mset [0..<n] = mset (xs @ zs)"
    using assms by (metis ex_mset mset_append mset_subset_eq_exists_conv)
  have "distinct (xs @ zs)" using mset_eq_imp_distinct_iff [OF z] by simp
  moreover have "set (xs @ zs) = {0..<n}" using mset_eq_setD [OF z] by simp
  ultimately show ?thesis by auto
qed

lemma emitted_distinct:
  assumes "delay_reach F cfg allowed s"
  shows "distinct (emitted (ds_log s))" "set (emitted (ds_log s)) \<subseteq> {0..<ds_next_seq s}"
proof -
  have "mset (emitted (ds_log s)) \<subseteq># held s" by (simp add: shared_held_def held_def add.assoc)
  also have "\<dots> \<subseteq># mset [0..<ds_next_seq s]" using delay_reach_inv [OF assms] by (simp add: delay_inv_def)
  finally show "distinct (emitted (ds_log s))" "set (emitted (ds_log s)) \<subseteq> {0..<ds_next_seq s}"
    using subset_upt_distinct by blast+
qed

text \<open>
  In every mode, whatever the messages, the sends that fail and the interleaving of the tasks: no
  message is sent twice, none is completed twice, and nothing is sent that was not received.
\<close>

theorem delay_emits_once:
  assumes "delay_reach F cfg allowed s"
  shows "distinct (emitted (ds_log s)) \<and> distinct (dones (ds_log s)) \<and> set (emitted (ds_log s)) \<subseteq> {0..<ds_next_seq s}"
  using emitted_distinct [OF assms] delay_reach_inv [OF assms] by (simp add: done_once_def)

end
