(* ===== verification/Delay_Progress.thy ===== *)
theory Delay_Progress
  imports Delay_Correct
begin

text \<open>
  Completion in the modes where every message waits on its own timer. The steps considered are
  those in which the sends of a flush succeed, messages are objects and the node is not stopped.
\<close>

section \<open>What the tasks do\<close>

definition own_timers :: "'f DelayNodeConfig \<Rightarrow> bool" where
  "own_timers cfg \<longleftrightarrow> dc_pause_type cfg \<in> {PauseDelay, DelayVariable, PauseRandom}"

fun reliable :: "('n, 't, 'r) delay_input \<Rightarrow> bool" where
  "reliable (Receive msg) \<longleftrightarrow> as_object (msg_body msg) \<noteq> None"
| "reliable (RunMain choice) \<longleftrightarrow> choice"
| "reliable StopNode \<longleftrightarrow> False"
| "reliable _ \<longleftrightarrow> True"

definition sleeping :: "nat \<Rightarrow> ('n, 't, 'r) received \<Rightarrow> ('n, 't, 'r, 'f) action list \<Rightarrow> bool" where
  "sleeping i m code \<longleftrightarrow>
     (\<exists>d. code = [Dly (SleepStart i d m)]) \<or> (\<exists>d. code = [Dly (Sleep i d m)]) \<or> code = [Dly (TakePending i m)]"

definition task_shape :: "('n, 't, 'r, 'f) task \<Rightarrow> bool" where
  "task_shape t \<longleftrightarrow> \<not> tk_aborted t \<and>
     ((\<exists>i m. sleeping i m (tk_code t)) \<or> (\<exists>m c. tk_code t = [SendIgnore 0 m, CompleteMsg c])
      \<or> (\<exists>c. tk_code t = [CompleteMsg c]) \<or> tk_code t = [])"

fun main_action :: "('n, 't, 'r, 'f) action \<Rightarrow> bool" where
  "main_action (SendOrFail p m c) = True"
| "main_action (CompleteMsg c) = True"
| "main_action (UpdateTimeout t) = True"
| "main_action (Dly a) = (case a of SleepStart i d m \<Rightarrow> False | Sleep i d m \<Rightarrow> False | TakePending i m \<Rightarrow> False | _ \<Rightarrow> True)"
| "main_action _ = False"

definition accounted :: "('n, 't, 'r, 'f) delay_state \<Rightarrow> nat \<Rightarrow> bool" where
  "accounted s q \<longleftrightarrow>
     q \<in> set (ds_completed s) \<or> CompleteMsg q \<in> set (ds_main s) \<or> (\<exists>t \<in> set (ds_tasks s). CompleteMsg q \<in> set (tk_code t))
     \<or> q \<in> (rx_seq \<circ> pd_msg) ` set (ds_pending_delays s)
     \<or> (\<exists>m. rx_seq m = q \<and> ((\<exists>d. Dly (Schedule m d) \<in> set (ds_main s)) \<or> Dly (ScheduleCurrent m) \<in> set (ds_main s)))"

definition pending_ok :: "('n, 't, 'r, 'f) delay_state \<Rightarrow> ('n, 't, 'r) PendingDelay \<Rightarrow> bool" where
  "pending_ok s e \<longleftrightarrow>
     pd_completion e = rx_seq (pd_msg e) \<and> pd_id e < ds_next_delay_id s
     \<and> pd_id e \<notin> set (ds_interrupted s) \<and> Dly (Interrupt (pd_id e)) \<notin> set (ds_main s)
     \<and> (\<exists>t \<in> set (ds_tasks s). sleeping (pd_id e) (pd_msg e) (tk_code t))"

definition timers_inv :: "('n, 't, 'r, 'f) delay_state \<Rightarrow> bool" where
  "timers_inv s \<longleftrightarrow>
     (\<forall>a \<in> set (ds_main s). main_action a) \<and> (\<forall>t \<in> set (ds_tasks s). task_shape t)
     \<and> (\<forall>e \<in> set (ds_pending_delays s). pending_ok s e) \<and> distinct (map pd_id (ds_pending_delays s))
     \<and> (\<forall>i \<in> set (ds_interrupted s). i < ds_next_delay_id s)
     \<and> (\<forall>i. Dly (Interrupt i) \<in> set (ds_main s) \<longrightarrow> i < ds_next_delay_id s)
     \<and> \<not> ds_stopped s \<and> \<not> ds_panicked s \<and> (\<forall>q < ds_next_seq s. accounted s q)"

lemma remove_pending_None: "remove_pending i ps = None \<Longrightarrow> i \<notin> pd_id ` set ps"
  by (induction ps) (auto split: if_splits)

lemma remove_pending_distinct:
  "remove_pending i ps = Some qs \<Longrightarrow> distinct (map pd_id ps) \<Longrightarrow>
     set qs = {e \<in> set ps. pd_id e \<noteq> i} \<and> distinct (map pd_id qs)"
proof (induction ps arbitrary: qs)
  case (Cons p ps)
  show ?case
  proof (cases "pd_id p = i")
    case True
    then show ?thesis using Cons.prems by (auto simp: image_iff)
  next
    case False
    then obtain rs where "remove_pending i ps = Some rs" "qs = p # rs" using Cons.prems(1) by auto
    then show ?thesis using Cons.IH [of rs] Cons.prems(2) False by auto
  qed
qed simp

lemma set_update_cases: "t \<in> set (ts[j := x]) \<Longrightarrow> t = x \<or> t \<in> set ts"
  by (meson insertE set_update_subset_insert subsetD)

lemma set_update_other: "t \<in> set ts \<Longrightarrow> t \<noteq> ts ! j \<Longrightarrow> t \<in> set (ts[j := x])"
  by (metis in_set_conv_nth length_list_update nth_list_update_neq)

section \<open>The receiving task\<close>

text \<open>A step of the receiving task that completes nothing and schedules nothing.\<close>

lemma main_other:
  assumes "timers_inv s" "ds_main s = a # rest" "ds_main s' = code @ rest"
    and "\<forall>b \<in> set code. main_action b"
    and "\<forall>c. a \<noteq> CompleteMsg c" "\<forall>m d. a \<noteq> Dly (Schedule m d)" "\<forall>m. a \<noteq> Dly (ScheduleCurrent m)"
    and "ds_completed s' = ds_completed s" "ds_tasks s' = ds_tasks s" "ds_next_seq s' = ds_next_seq s"
    and "ds_next_delay_id s' = ds_next_delay_id s" "ds_stopped s' = ds_stopped s" "ds_panicked s' = ds_panicked s"
    and ps: "\<exists>n. ds_pending_delays s' = drop n (ds_pending_delays s)
          \<and> (\<forall>e \<in> set (take n (ds_pending_delays s)). CompleteMsg (rx_seq (pd_msg e)) \<in> set code)
          \<and> (\<forall>i. Dly (Interrupt i) \<in> set code \<longrightarrow> i \<in> pd_id ` set (take n (ds_pending_delays s)))"
    and intr: "set (ds_interrupted s') \<subseteq> set (ds_interrupted s) \<union> {i. a = Dly (Interrupt i)}"
  shows "timers_inv s'"
proof -
  obtain n where n: "ds_pending_delays s' = drop n (ds_pending_delays s)"
      "\<forall>e \<in> set (take n (ds_pending_delays s)). CompleteMsg (rx_seq (pd_msg e)) \<in> set code"
      "\<forall>i. Dly (Interrupt i) \<in> set code \<longrightarrow> i \<in> pd_id ` set (take n (ds_pending_delays s))"
    using ps by blast
  note inv = assms(1) [unfolded timers_inv_def]
  have set_ps: "set (ds_pending_delays s) = set (take n (ds_pending_delays s)) \<union> set (drop n (ds_pending_delays s))"
    by (simp flip: set_append)
  have dist: "distinct (map pd_id (take n (ds_pending_delays s)) @ map pd_id (drop n (ds_pending_delays s)))"
    using inv by (simp flip: map_append del: distinct_append)
  have pend: "pending_ok s' e" if "e \<in> set (ds_pending_delays s')" for e
  proof -
    have "e \<in> set (ds_pending_delays s)" using that n(1) by (auto dest: in_set_dropD)
    then have e: "pending_ok s e" using inv by blast
    have "pd_id e \<notin> pd_id ` set (take n (ds_pending_delays s))" using that n(1) dist by auto
    then have "Dly (Interrupt (pd_id e)) \<notin> set code" using n(3) by blast
    moreover have "a \<noteq> Dly (Interrupt (pd_id e))" using e assms(2) by (auto simp: pending_ok_def)
    ultimately show ?thesis using e assms(2,3,9,11) intr by (auto simp: pending_ok_def)
  qed
  moreover have "accounted s' q" if "accounted s q" for q
    using that assms(2,3,5-9) n(1,2) set_ps unfolding accounted_def by (auto simp: image_iff)
  moreover have "i < ds_next_delay_id s" if "Dly (Interrupt i) \<in> set code" for i
    using that n(3) inv set_ps by (auto simp: pending_ok_def)
  moreover have "distinct (map pd_id (ds_pending_delays s'))" using dist n(1) by simp
  moreover have "\<forall>i \<in> set (ds_interrupted s'). i < ds_next_delay_id s" using inv intr assms(2) by auto
  ultimately show ?thesis using inv assms(2-4,9-13) by (auto simp: timers_inv_def)
qed

lemma main_complete:
  assumes "timers_inv s" "ds_main s = CompleteMsg c # rest"
  shows "timers_inv ((complete c s)\<lparr>ds_main := rest\<rparr>)"
  using assms by (auto simp: timers_inv_def pending_ok_def accounted_def complete_def)

lemma main_schedule:
  assumes "timers_inv s" "ds_main s = a # rest" "a = Dly (Schedule m d) \<or> a = Dly (ScheduleCurrent m)"
  shows "timers_inv ((schedule_delayed m d' s)\<lparr>ds_main := rest\<rparr>)"
proof -
  let ?s = "(schedule_delayed m d' s)\<lparr>ds_main := rest\<rparr>"
  note inv = assms(1) [unfolded timers_inv_def]
  have "accounted ?s q" if "accounted s q" for q
    using that assms(2,3) unfolding accounted_def schedule_delayed_def spawn_def Let_def by (auto simp: image_iff)
  moreover have "pending_ok ?s e" if "e \<in> set (ds_pending_delays ?s)" for e
    using that inv assms(2,3) by (auto simp: pending_ok_def schedule_delayed_def spawn_def Let_def sleeping_def)
  moreover have "\<forall>t \<in> set (ds_tasks ?s). task_shape t"
    using inv by (auto simp: schedule_delayed_def spawn_def Let_def task_shape_def sleeping_def)
  moreover have "distinct (map pd_id (ds_pending_delays ?s))"
    using inv by (auto simp: schedule_delayed_def spawn_def Let_def pending_ok_def)
  ultimately show ?thesis using inv assms(2,3)
    by (auto simp: timers_inv_def schedule_delayed_def spawn_def Let_def)
qed


lemma timers_main:
  assumes "timers_inv s" "ds_main s = a # rest" "exec F cfg True a rest s = Some (s1, code)"
  shows "timers_inv (s1\<lparr>ds_main := code\<rparr>)"
proof -
  have act: "main_action a" using assms(1,2) by (simp add: timers_inv_def)
  show ?thesis
  proof (cases a)
    case (CompleteMsg c)
    then show ?thesis using assms main_complete by auto
  next
    case (SendOrFail p m c)
    then show ?thesis using assms
      by (intro main_other [OF assms(1,2), of _ "[]"]) (auto simp: emit_def intro!: exI [where x = 0])
  next
    case (UpdateTimeout t)
    then show ?thesis using assms
      by (intro main_other [OF assms(1,2), of _ "[]"]) (auto intro!: exI [where x = 0])
  next
    case (Dly d)
    show ?thesis
    proof (cases d)
      case (Interrupt i)
      then show ?thesis using assms Dly
        by (intro main_other [OF assms(1,2), of _ "[]"]) (auto intro!: exI [where x = 0])
    next
      case ClearPending
      have "\<forall>e \<in> set (ds_pending_delays s). pd_completion e = rx_seq (pd_msg e)"
        using assms(1) by (simp add: timers_inv_def pending_ok_def)
      then show ?thesis using assms Dly ClearPending
        by (intro main_other [OF assms(1,2), where code = "snd (clear_pending_delays s)"])
           (auto simp: clear_pending_delays_def intro!: exI [where x = "length (ds_pending_delays s)"])
    next
      case (FlushPending amount own)
      have "\<forall>e \<in> set (take (take_count amount (ds_pending_delays s)) (ds_pending_delays s)). pd_completion e = rx_seq (pd_msg e)"
        using assms(1) by (auto simp: timers_inv_def pending_ok_def dest: in_set_takeD)
      then show ?thesis using assms Dly FlushPending
        by (intro main_other [OF assms(1,2), where code = "snd (flush_pending_delays amount own s)"])
           (auto simp: flush_pending_delays_def Let_def intro!: exI [where x = "take_count amount (ds_pending_delays s)"])
    next
      case (Schedule m d)
      then show ?thesis using assms Dly main_schedule [of s a rest m d] by auto
    next
      case (ScheduleCurrent m)
      then show ?thesis using assms Dly main_schedule [of s a rest m undefined] by auto
    qed (use act Dly in auto)
  qed (use act in auto)
qed

section \<open>The tasks\<close>

text \<open>Replacing the code of one task by code of the right shape.\<close>

lemma task_replaced:
  assumes inv: "timers_inv s" and j: "j < length (ds_tasks s)" "t = ds_tasks s ! j"
    and s': "ds_tasks s' = (ds_tasks s)[j := t\<lparr>tk_code := code\<rparr>]" "ds_main s' = ds_main s"
      "ds_next_seq s' = ds_next_seq s" "ds_next_delay_id s' = ds_next_delay_id s" "ds_stopped s' = ds_stopped s"
      "ds_panicked s' = ds_panicked s" "ds_interrupted s' = ds_interrupted s"
      "set (ds_completed s) \<subseteq> set (ds_completed s')"
    and shape: "task_shape (t\<lparr>tk_code := code\<rparr>)"
    and ps: "set (ds_pending_delays s') \<subseteq> set (ds_pending_delays s)" "distinct (map pd_id (ds_pending_delays s'))"
    and sleep: "\<forall>e \<in> set (ds_pending_delays s'). sleeping (pd_id e) (pd_msg e) (tk_code t) \<longrightarrow> sleeping (pd_id e) (pd_msg e) code"
    and acc: "\<forall>q. CompleteMsg q \<in> set (tk_code t) \<longrightarrow> q \<in> set (ds_completed s') \<or> CompleteMsg q \<in> set code"
      "\<forall>e \<in> set (ds_pending_delays s) - set (ds_pending_delays s'). CompleteMsg (rx_seq (pd_msg e)) \<in> set code"
  shows "timers_inv s'"
proof -
  note inv' = inv [unfolded timers_inv_def]
  have new: "t\<lparr>tk_code := code\<rparr> \<in> set (ds_tasks s')" using s'(1) j(1) by (simp add: set_update_memI)
  have other: "u \<in> set (ds_tasks s')" if "u \<in> set (ds_tasks s)" "u \<noteq> t" for u
    using that set_update_other [of u "ds_tasks s" j] j(2) s'(1) by simp
  have "pending_ok s' e" if "e \<in> set (ds_pending_delays s')" for e
  proof -
    have e: "pending_ok s e" using that ps(1) inv' by blast
    then obtain u where u: "u \<in> set (ds_tasks s)" "sleeping (pd_id e) (pd_msg e) (tk_code u)" by (auto simp: pending_ok_def)
    have "\<exists>u \<in> set (ds_tasks s'). sleeping (pd_id e) (pd_msg e) (tk_code u)"
    proof (cases "u = t")
      case True
      then have "sleeping (pd_id e) (pd_msg e) (tk_code (t\<lparr>tk_code := code\<rparr>))" using sleep that u(2) by simp
      then show ?thesis using new by blast
    qed (use u other in blast)
    then show ?thesis using e s' by (simp add: pending_ok_def)
  qed
  moreover have "accounted s' q" if "accounted s q" for q
  proof -
    have in_tasks: "q \<in> set (ds_completed s') \<or> (\<exists>u \<in> set (ds_tasks s'). CompleteMsg q \<in> set (tk_code u))"
      if u: "u \<in> set (ds_tasks s)" "CompleteMsg q \<in> set (tk_code u)" for u
    proof (cases "u = t")
      case True
      then have "q \<in> set (ds_completed s') \<or> CompleteMsg q \<in> set (tk_code (t\<lparr>tk_code := code\<rparr>))" using u(2) acc(1) by simp
      then show ?thesis using new by blast
    qed (use u other in blast)
    have in_pending: "q \<in> (rx_seq \<circ> pd_msg) ` set (ds_pending_delays s') \<or> (\<exists>u \<in> set (ds_tasks s'). CompleteMsg q \<in> set (tk_code u))"
      if e: "e \<in> set (ds_pending_delays s)" "q = rx_seq (pd_msg e)" for e
    proof (cases "e \<in> set (ds_pending_delays s')")
      case False
      then have "CompleteMsg q \<in> set (tk_code (t\<lparr>tk_code := code\<rparr>))" using acc(2) e by simp
      then show ?thesis using new by blast
    qed (use e in auto)
    show ?thesis
      using that in_tasks in_pending s'(8) unfolding accounted_def s'(2) by (elim disjE) (blast, blast, blast, fastforce, blast)
  qed
  moreover have "\<forall>u \<in> set (ds_tasks s'). task_shape u"
    using s'(1) shape inv' by (auto dest: set_update_cases)
  ultimately show ?thesis using inv' s' ps(2) by (auto simp: timers_inv_def)
qed


lemma timers_task:
  assumes inv: "timers_inv s" and d: "delay_inv s" and st: "run_task F cfg choice j s = Some s'"
  shows "timers_inv s'"
proof -
  obtain a rest s1 code where j: "j < length (ds_tasks s)" "tk_code (ds_tasks s ! j) = a # rest"
      and e: "exec F cfg choice a rest s = Some (s1, code)"
      and s': "s' = s1\<lparr>ds_tasks := (ds_tasks s1)[j := (ds_tasks s1 ! j)\<lparr>tk_code := code\<rparr>]\<rparr>"
    using st by (auto simp: run_task_def split: list.splits if_splits)
  let ?t = "ds_tasks s ! j"
  have shape: "task_shape ?t" using inv j(1) by (simp add: timers_inv_def)
  note replaced = task_replaced [OF inv j(1) refl, of s' code]
  have dist: "distinct (map pd_id (ds_pending_delays s))" using inv by (simp add: timers_inv_def)
  consider (start) i dl m where "a = Dly (SleepStart i dl m)" "rest = []" | (sleep) i dl m where "a = Dly (Sleep i dl m)" "rest = []"
    | (take) i m where "a = Dly (TakePending i m)" "rest = []" | (send) m c where "a = SendIgnore 0 m" "rest = [CompleteMsg c]"
    | (fin) c where "a = CompleteMsg c" "rest = []"
    using shape j(2) by (auto simp: task_shape_def sleeping_def)
  then show ?thesis
  proof cases
    case (start i dl m)
    then show ?thesis using e s' shape j(2) dist by (intro replaced) (auto simp: task_shape_def sleeping_def)
  next
    case (sleep i dl m)
    have "i \<notin> pd_id ` set (ds_pending_delays s)" if "i \<in> set (ds_interrupted s)"
      using inv that by (auto simp: timers_inv_def pending_ok_def)
    moreover have "\<not> ds_stopped s" using inv by (simp add: timers_inv_def)
    ultimately show ?thesis using e s' shape j(2) dist sleep
      by (intro replaced) (auto simp: task_shape_def sleeping_def split: if_splits)
  next
    case (take i m)
    show ?thesis
    proof (cases "remove_pending i (ds_pending_delays s)")
      case None
      then show ?thesis using e s' shape j(2) dist take remove_pending_None [OF None]
        by (intro replaced) (auto simp: task_shape_def sleeping_def take_pending_delay_def)
    next
      case (Some qs)
      have "(i, m) \<in> sleepers s" using j(2) take nth_mem [OF j(1)]
        unfolding sleepers_def tasks_sleepers_def by (intro UnI2 UN_I [of ?t]) simp_all
      moreover have "ids_ok (ds_next_delay_id s) (ds_pending_delays s) (sleepers s)" using d by (simp add: delay_inv_def)
      ultimately have m: "pd_msg x = m" if "x \<in> set (ds_pending_delays s)" "pd_id x = i" for x
        using ids_ok_msg that by metis
      note qs = remove_pending_distinct [OF Some dist]
      show ?thesis using e s' shape j(2) dist take Some qs m
        by (intro replaced) (auto simp: task_shape_def sleeping_def take_pending_delay_def)
    qed
  next
    case (send m c)
    then show ?thesis using e s' shape j(2) dist by (intro replaced) (auto simp: task_shape_def sleeping_def emit_def)
  next
    case (fin c)
    then show ?thesis using e s' shape j(2) dist
      by (intro replaced) (auto simp: task_shape_def sleeping_def complete_def split: if_splits)
  qed
qed

lemma timers_receive:
  assumes "timers_inv s" "own_timers cfg" "ds_main s = []" "as_object (msg_body msg) \<noteq> None"
  shows "timers_inv (receive F cfg msg s)"
proof -
  let ?m = "\<lparr>rx_seq = ds_next_seq s, rx_msg = msg\<rparr>"
  obtain fl where fl: "control_flags (do_num F) msg = Ok fl" using assms(4) by (auto simp: control_flags_def Msg_object_def)
  consider "dc_pause_type cfg = PauseDelay" | "dc_pause_type cfg = DelayVariable" | "dc_pause_type cfg = PauseRandom"
    using assms(2) by (auto simp: own_timers_def)
  then have sched: "\<exists>a code. handle_msg F cfg ?m = code @ delay_program fl ?m a
      \<and> (\<forall>b \<in> set code. main_action b \<and> (\<forall>i. b \<noteq> Dly (Interrupt i)))
      \<and> main_action a \<and> (\<forall>i. a \<noteq> Dly (Interrupt i)) \<and> ((\<exists>d. a = Dly (Schedule ?m d)) \<or> a = Dly (ScheduleCurrent ?m))"
  proof cases
    case 1
    show ?thesis
      by (rule exI [where x = "Dly (ScheduleCurrent ?m)"], rule exI [where x = "case (if dc_allow_rate cfg
            then number_in F ''timeout'' (dc_timeout cfg) msg else None) of Some t \<Rightarrow> [UpdateTimeout t] | None \<Rightarrow> []"])
         (use 1 fl in \<open>auto simp: handle_msg_def handle_delay_mode_def split: option.splits if_splits\<close>)
  next
    case 2
    show ?thesis
      by (rule exI [where x = "case number_in F ''delay'' (do_of_nat F 0) msg of
            Some delay \<Rightarrow> Dly (Schedule ?m (from_millis (do_to_u64 F (do_max F delay (do_of_nat F 0))))) | None \<Rightarrow> Dly (ScheduleCurrent ?m)"],
          rule exI [where x = "[]"])
         (use 2 fl in \<open>auto simp: handle_msg_def handle_delay_variable_mode_def split: option.splits\<close>)
  next
    case 3
    show ?thesis
      by (rule exI [where x = "Dly (Schedule ?m (random_duration F cfg (do_random F (ds_next_seq s))))"], rule exI [where x = "[]"])
         (use 3 fl in \<open>auto simp: handle_msg_def handle_random_mode_def\<close>)
  qed
  then obtain a code where h: "handle_msg F cfg ?m = code @ delay_program fl ?m a"
      "\<forall>b \<in> set code. main_action b \<and> (\<forall>i. b \<noteq> Dly (Interrupt i))" "main_action a" "\<forall>i. a \<noteq> Dly (Interrupt i)"
      "(\<exists>d. a = Dly (Schedule ?m d)) \<or> a = Dly (ScheduleCurrent ?m)"
    by blast
  have acts: "\<forall>b \<in> set (handle_msg F cfg ?m). main_action b \<and> (\<forall>i. b \<noteq> Dly (Interrupt i))"
    using h(2-4) unfolding h(1) by (auto simp: delay_program_def handle_delay_controls_def split: if_splits)
  have "accounted (receive F cfg msg s) (ds_next_seq s)"
  proof (cases "df_data fl")
    case True
    then have "a \<in> set (ds_main (receive F cfg msg s))" by (simp add: receive_def h(1) delay_program_def)
    then have "\<exists>m. rx_seq m = ds_next_seq s \<and> ((\<exists>d. Dly (Schedule m d) \<in> set (ds_main (receive F cfg msg s)))
        \<or> Dly (ScheduleCurrent m) \<in> set (ds_main (receive F cfg msg s)))"
      using h(5) by (intro exI [where x = ?m]) auto
    then show ?thesis unfolding accounted_def by blast
  next
    case False
    then show ?thesis by (simp add: accounted_def receive_def h(1) delay_program_def handle_delay_controls_def)
  qed
  moreover have "accounted (receive F cfg msg s) q" if "accounted s q" for q
    using that assms(3) by (auto simp: accounted_def receive_def)
  moreover have "pending_ok (receive F cfg msg s) e" if "pending_ok s e" for e
    using that acts by (auto simp: pending_ok_def receive_def)
  ultimately show ?thesis using assms(1) acts by (auto simp: timers_inv_def receive_def less_Suc_eq)
qed

lemma timers_reach: "delay_reach F cfg reliable s \<Longrightarrow> own_timers cfg \<Longrightarrow> timers_inv s"
proof (induction rule: delay_reach.induct)
  case start
  show ?case by (simp add: timers_inv_def delay_build_def)
next
  case (step s i s')
  then have inv: "timers_inv s" "delay_inv s" using delay_reach_inv by blast+
  show ?case
  proof (cases i)
    case (Receive msg)
    then have "s' = receive F cfg msg s" "ds_main s = []" "as_object (msg_body msg) \<noteq> None"
      using step.hyps by (auto split: if_splits)
    then show ?thesis using timers_receive [OF inv(1) step.prems] by blast
  next
    case (RunMain choice)
    then show ?thesis using step.hyps inv timers_main by (auto simp: run_main_def split: list.splits)
  next
    case (RunTask j choice)
    then show ?thesis using step.hyps inv timers_task by auto
  next
    case (Kill j)
    then show ?thesis using step.hyps inv by (auto simp: kill_task_def timers_inv_def task_shape_def split: if_splits)
  next
    case (Pass d)
    then show ?thesis using step.hyps inv by (auto simp: timers_inv_def pending_ok_def accounted_def)
  qed (use step.hyps in auto)
qed


section \<open>Completion\<close>

text \<open>Nothing is left to do: the handler has returned and every task has ended.\<close>

definition settled :: "('n, 't, 'r, 'f) delay_state \<Rightarrow> bool" where
  "settled s \<longleftrightarrow> ds_main s = [] \<and> (\<forall>t \<in> set (ds_tasks s). tk_code t = [])"

lemma settled_pending:
  assumes "timers_inv s" "settled s"
  shows "ds_pending_delays s = []"
proof (rule ccontr)
  assume "ds_pending_delays s \<noteq> []"
  then obtain e where "e \<in> set (ds_pending_delays s)" by fastforce
  then have "pending_ok s e" using assms(1) by (simp add: timers_inv_def)
  then show False using assms(2) by (auto simp: pending_ok_def settled_def sleeping_def)
qed

lemma timers_settled:
  assumes "timers_inv s" "settled s" "q < ds_next_seq s"
  shows "q \<in> set (ds_completed s)"
  using assms settled_pending [OF assms(1,2)] by (auto simp: timers_inv_def settled_def accounted_def)

text \<open>A task that has not ended can go on, once its delay has passed.\<close>

lemma timers_progress:
  assumes "timers_inv s" "\<not> settled s"
  shows "\<exists>d i s'. delay_run F cfg [Pass d, i] s = Some s' \<and> ((\<exists>j c. i = RunTask j c) \<or> i = RunMain True)"
proof (cases "ds_main s")
  case (Cons a rest)
  then have "main_action a" using assms(1) by (simp add: timers_inv_def)
  then have "run_main F cfg True (s\<lparr>ds_now := ds_now s + 0\<rparr>) \<noteq> None"
    using Cons by (cases a rule: main_action.cases) (auto simp: run_main_def split: delay_action.splits)
  then show ?thesis by (intro exI [where x = 0] exI [where x = "RunMain True"]) auto
next
  case Nil
  then obtain t where "t \<in> set (ds_tasks s)" "tk_code t \<noteq> []" using assms(2) by (auto simp: settled_def)
  then obtain j where j: "j < length (ds_tasks s)" "tk_code (ds_tasks s ! j) \<noteq> []" by (auto simp: in_set_conv_nth)
  then have shape: "task_shape (ds_tasks s ! j)" using assms(1) by (simp add: timers_inv_def)
  have "\<exists>d. \<forall>i dl m. tk_code (ds_tasks s ! j) = [Dly (Sleep i dl m)] \<longrightarrow> dl \<le> ds_now s + d"
  proof (cases "\<exists>i dl m. tk_code (ds_tasks s ! j) = [Dly (Sleep i dl m)]")
    case True
    then obtain i dl m where "tk_code (ds_tasks s ! j) = [Dly (Sleep i dl m)]" by blast
    then show ?thesis by (intro exI [where x = dl]) simp
  qed simp
  then obtain d where d: "\<forall>i dl m. tk_code (ds_tasks s ! j) = [Dly (Sleep i dl m)] \<longrightarrow> dl \<le> ds_now s + d" by blast
  have "run_task F cfg False j (s\<lparr>ds_now := ds_now s + d\<rparr>) \<noteq> None"
    using shape j d by (auto simp: task_shape_def sleeping_def run_task_def)
  then show ?thesis by (intro exI [where x = d] exI [where x = "RunTask j False"]) auto
qed


text \<open>The work left: every step of a task takes some of it, and only a message brings more.\<close>

fun action_work :: "('n, 't, 'r, 'f) action \<Rightarrow> nat" where
  "action_work (Dly (Schedule m d)) = 12"
| "action_work (Dly (ScheduleCurrent m)) = 12"
| "action_work (Dly (SleepStart i d m)) = 6"
| "action_work (Dly (Sleep i d m)) = 5"
| "action_work (Dly (TakePending i m)) = 4"
| "action_work _ = 1"

definition code_work :: "('n, 't, 'r, 'f) action list \<Rightarrow> nat" where
  "code_work code = sum_list (map action_work code)"

definition tasks_work :: "('n, 't, 'r, 'f) task list \<Rightarrow> nat" where
  "tasks_work ts = sum_list (map (\<lambda>t. code_work (tk_code t)) ts)"

definition work :: "('n, 't, 'r, 'f) delay_state \<Rightarrow> nat" where
  "work s = code_work (ds_main s) + tasks_work (ds_tasks s) + 4 * length (ds_pending_delays s)"

lemma code_work_simps [simp]:
  "code_work [] = 0" "code_work (a # code) = action_work a + code_work code" "code_work (c @ d) = code_work c + code_work d"
  by (simp_all add: code_work_def)

lemma tasks_work_simps [simp]: "tasks_work (ts @ [t]) = tasks_work ts + code_work (tk_code t)"
  by (simp add: tasks_work_def)

lemma tasks_work_update:
  "i < length ts \<Longrightarrow> tasks_work (ts[i := t]) + code_work (tk_code (ts ! i)) = tasks_work ts + code_work (tk_code t)"
proof (induction ts arbitrary: i)
  case (Cons u ts)
  then show ?case by (cases i) (simp_all add: tasks_work_def)
qed simp

lemma code_work_const: "\<forall>x \<in> set xs. code_work (f x) = n \<Longrightarrow> code_work (concat (map f xs)) = n * length xs"
  by (induction xs) auto

lemma flush_work:
  "code_work (concat (map (\<lambda>e. [Dly (Interrupt (pd_id e)), SendOrFail 0 (pd_msg e) own, CompleteMsg (pd_completion e)]) ps)) = 3 * length ps"
  by (rule code_work_const) simp

lemma remove_pending_length: "remove_pending i ps = Some qs \<Longrightarrow> length ps = Suc (length qs)"
  by (metis remove_pending_Some size_add_mset size_mset)

lemma work_main:
  assumes "timers_inv s" "run_main F cfg True s = Some s'"
  shows "work s' < work s"
proof -
  obtain a rest s1 code where e: "ds_main s = a # rest" "exec F cfg True a rest s = Some (s1, code)" "s' = s1\<lparr>ds_main := code\<rparr>"
    using assms(2) by (auto simp: run_main_def split: list.splits)
  have "main_action a" using assms(1) e(1) by (simp add: timers_inv_def)
  then show ?thesis
  proof (cases a rule: main_action.cases)
    case (4 d)
    then show ?thesis
    proof (cases d)
      case ClearPending
      then show ?thesis using 4 e by (auto simp: work_def clear_pending_delays_def code_work_const [where n = 2])
    next
      case (FlushPending amount own)
      have "take_count amount (ds_pending_delays s) \<le> length (ds_pending_delays s)"
        by (simp add: take_count_def split: option.split)
      then show ?thesis using 4 e FlushPending by (auto simp: work_def flush_pending_delays_def flush_work Let_def)
    qed (use 4 e \<open>main_action a\<close> in \<open>auto simp: work_def schedule_delayed_def spawn_def Let_def\<close>)
  qed (use e \<open>main_action a\<close> in \<open>auto simp: work_def emit_def complete_def\<close>)
qed

lemma work_task:
  assumes "timers_inv s" "run_task F cfg choice j s = Some s'"
  shows "work s' < work s"
proof -
  obtain a rest s1 code where j: "j < length (ds_tasks s)" "tk_code (ds_tasks s ! j) = a # rest"
      and e: "exec F cfg choice a rest s = Some (s1, code)"
      and s': "s' = s1\<lparr>ds_tasks := (ds_tasks s1)[j := (ds_tasks s1 ! j)\<lparr>tk_code := code\<rparr>]\<rparr>"
    using assms(2) by (auto simp: run_task_def split: list.splits if_splits)
  have shape: "task_shape (ds_tasks s ! j)" using assms(1) j(1) by (simp add: timers_inv_def)
  have "ds_tasks s1 = ds_tasks s \<and> ds_main s1 = ds_main s
      \<and> code_work code + 4 * length (ds_pending_delays s1) < code_work (a # rest) + 4 * length (ds_pending_delays s)"
    using shape j(2) e
    by (auto simp: task_shape_def sleeping_def take_pending_delay_def emit_def complete_def dest!: remove_pending_length split: if_splits option.splits)
  then show ?thesis
    using tasks_work_update [OF j(1), of "(ds_tasks s ! j)\<lparr>tk_code := code\<rparr>"] j(2) s' by (simp add: work_def)
qed

fun receives :: "('n, 't, 'r) delay_input \<Rightarrow> bool" where
  "receives (Receive msg) = True"
| "receives _ = False"

fun runs :: "('n, 't, 'r) delay_input \<Rightarrow> bool" where
  "runs (RunMain choice) = True"
| "runs (RunTask j choice) = True"
| "runs _ = False"

lemma work_step:
  assumes "timers_inv s" "delay_step F cfg i s = Some s'" "reliable i" "\<not> receives i"
  shows "work s' + (if runs i then 1 else 0) \<le> work s"
proof (cases i)
  case (RunMain choice)
  then show ?thesis using assms work_main [of s F cfg s'] by auto
next
  case (RunTask j choice)
  then show ?thesis using assms work_task [of s F cfg choice j s'] by auto
next
  case (Kill j)
  then show ?thesis using assms by (auto simp: kill_task_def timers_inv_def task_shape_def split: if_splits)
qed (use assms in \<open>auto simp: work_def\<close>)

lemma steps_bounded:
  assumes "own_timers cfg" "delay_reach F cfg reliable s" "delay_run F cfg is s = Some s'"
    and "\<forall>i \<in> set is. reliable i \<and> \<not> receives i"
  shows "length (filter runs is) \<le> work s"
  using assms(2-4)
proof (induction "is" arbitrary: s)
  case (Cons i "is")
  then obtain s1 where s1: "delay_step F cfg i s = Some s1" "delay_run F cfg is s1 = Some s'"
    by (auto simp: bind_eq_Some_conv)
  have "delay_reach F cfg reliable s1" using delay_reach.step Cons.prems(1,3) s1(1) by auto
  then have "length (filter runs is) \<le> work s1" using Cons.IH s1(2) Cons.prems(3) by simp
  moreover have "work s1 + (if runs i then 1 else 0) \<le> work s"
    using work_step [OF timers_reach [OF Cons.prems(1) assms(1)] s1(1)] Cons.prems(3) by simp
  ultimately show ?case by auto
qed simp

lemma run_append: "delay_run F cfg (is @ js) s = Option.bind (delay_run F cfg is s) (delay_run F cfg js)"
  by (induction "is" arbitrary: s) (auto split: bind_split)

lemma reach_run:
  "delay_reach F cfg allowed s \<Longrightarrow> delay_run F cfg is s = Some s' \<Longrightarrow> \<forall>i \<in> set is. allowed i \<Longrightarrow> delay_reach F cfg allowed s'"
proof (induction "is" arbitrary: s)
  case (Cons i "is")
  then show ?case using delay_reach.step by (fastforce simp: bind_eq_Some_conv)
qed simp

lemma can_settle:
  assumes "own_timers cfg" "delay_reach F cfg reliable s"
  shows "\<exists>is s'. delay_run F cfg is s = Some s' \<and> (\<forall>i \<in> set is. reliable i \<and> \<not> receives i) \<and> settled s'"
  using assms(2)
proof (induction "work s" arbitrary: s rule: less_induct)
  case less
  show ?case
  proof (cases "settled s")
    case True
    then show ?thesis by (intro exI [where x = "[]"] exI [where x = s]) simp
  next
    case False
    have inv: "timers_inv s" using timers_reach less.prems assms(1) by blast
    obtain d i s1 where st: "delay_run F cfg [Pass d, i] s = Some s1" "(\<exists>j c. i = RunTask j c) \<or> i = RunMain True"
      using timers_progress [OF inv False] by blast
    then have r: "reliable i" "\<not> receives i" "runs i" by auto
    have reach: "delay_reach F cfg reliable s1" using reach_run [OF less.prems st(1)] r(1) by simp
    have "length (filter runs [Pass d, i]) + work s1 \<le> work s"
    proof -
      have p: "delay_reach F cfg reliable (s\<lparr>ds_now := ds_now s + d\<rparr>)"
        using reach_run [OF less.prems, of "[Pass d]"] by simp
      have "work s1 + 1 \<le> work (s\<lparr>ds_now := ds_now s + d\<rparr>)"
        using work_step [OF timers_reach [OF p assms(1)], of F cfg i s1] st(1) r by (simp add: bind_eq_Some_conv)
      then show ?thesis using r(3) by (simp add: work_def)
    qed
    then have "work s1 < work s" using r(3) by simp
    from less.hyps [OF this reach] obtain js s' where
      "delay_run F cfg js s1 = Some s'" "\<forall>i \<in> set js. reliable i \<and> \<not> receives i" "settled s'" by blast
    then show ?thesis using st(1) r
      by (intro exI [where x = "[Pass d, i] @ js"] exI [where x = s']) (simp add: run_append del: append_Cons)
  qed
qed

end
