(* ===== verification/Delay_Delivery.thy ===== *)
theory Delay_Delivery
  imports Delay_Progress Variant_Correct
begin

text \<open>
  Delivery in the modes in which every message has its own timer: when messages carry data and none
  is a reset, none is lost. Runs of a sample node.
\<close>

section \<open>No message is lost\<close>

text \<open>Inputs that are reliable, and messages with data that do not reset the node.\<close>

fun plain_input :: "('n, 't, 'r) delay_input \<Rightarrow> bool" where
  "plain_input (Receive msg) \<longleftrightarrow>
     (\<exists>o1. msg_body msg = Object o1 \<and> map_of o1 ''reset'' = None \<and> (\<exists>k \<in> set (map fst o1). k \<noteq> ''flush''))"
| "plain_input i \<longleftrightarrow> reliable i"

lemma plain_reliable: "plain_input i \<Longrightarrow> reliable i"
  by (cases i) auto

lemma plain_reach: "delay_reach F cfg plain_input s \<Longrightarrow> delay_reach F cfg reliable s"
  by (induction rule: delay_reach.induct) (auto intro: delay_reach.intros dest: plain_reliable)

fun keeps :: "('n, 't, 'r, 'f) action \<Rightarrow> bool" where
  "keeps (Dly a) = (a \<noteq> ClearPending)"
| "keeps (Rte a) = False"
| "keeps (Tmr a) = False"
| "keeps PanicNow = False"
| "keeps _ = True"

lemma exec_delay_kept:
  assumes "exec_delay F cfg choice a s = Some (s', code)" "a \<noteq> ClearPending"
    and "\<forall>i m e. a = TakePending i m \<longrightarrow> e \<in> set (ds_pending_delays s) \<longrightarrow> pd_id e = i \<longrightarrow> pd_msg e = m"
  shows "shared_held s' + tasks_held (ds_tasks s') + code_held code = shared_held s + tasks_held (ds_tasks s) + delay_held a"
proof (cases a)
  case (TakePending i m)
  show ?thesis
  proof (cases "remove_pending i (ds_pending_delays s)")
    case (Some ps)
    then obtain e where e: "e \<in> set (ds_pending_delays s)" "pd_id e = i" "mset (ds_pending_delays s) = add_mset e (mset ps)"
      using remove_pending_Some by blast
    then have "pd_msg e = m" using assms(3) TakePending by simp
    then show ?thesis using assms(1) TakePending Some e(3) by (auto simp: take_pending_delay_def shared_held_def)
  qed (use assms(1) TakePending in \<open>auto simp: take_pending_delay_def\<close>)
next
  case (FlushPending amount own)
  have "code_held (concat (map (\<lambda>e. [Dly (Interrupt (pd_id e)), SendOrFail 0 (pd_msg e) own, CompleteMsg (pd_completion e)]) ps)
      :: ('a, 'b, 'c, 'd) action list) = mset (map (rx_seq \<circ> pd_msg) ps)"
    for ps :: "('a, 'b, 'c) PendingDelay list" by (induction ps) auto
  then show ?thesis using assms(1) FlushPending
    by (auto simp: flush_pending_delays_def shared_held_def Let_def)
qed (use assms(1,2) in \<open>auto simp: schedule_delayed_def shared_held_def spawn_def Let_def split: if_splits\<close>)

lemma exec_kept:
  assumes "exec F cfg choice a rest s = Some (s', code)" "keeps a" "choice \<or> (\<forall>p m c. a \<noteq> SendOrFail p m c)"
    and "\<forall>i m e. (i, m) \<in> action_sleepers a \<longrightarrow> e \<in> set (ds_pending_delays s) \<longrightarrow> pd_id e = i \<longrightarrow> pd_msg e = m"
  shows "shared_held s' + tasks_held (ds_tasks s') + code_held code
    = shared_held s + tasks_held (ds_tasks s) + (action_held a + code_held rest)"
proof (cases a)
  case (Dly d)
  then obtain code1 where e: "exec_delay F cfg choice d s = Some (s', code1)" "code = code1 @ rest"
    using assms(1) by auto
  have "shared_held s' + tasks_held (ds_tasks s') + code_held code1 = shared_held s + tasks_held (ds_tasks s) + delay_held d"
    by (rule exec_delay_kept [OF e(1)]) (use assms(2,4) Dly in auto)
  then show ?thesis using Dly e(2) by (simp add: add.assoc [symmetric])
qed (use assms(1-3) in \<open>auto simp: shared_held_def emit_def\<close>)

definition buffers_empty :: "('n, 't, 'r, 'f) delay_state \<Rightarrow> bool" where
  "buffers_empty s \<longleftrightarrow> ds_queue_buffer s = [] \<and> ds_rate_buffer s = []"

lemma exec_buffers:
  assumes "exec F cfg choice a rest s = Some (s', code)" "keeps a"
  shows "ds_queue_buffer s' = ds_queue_buffer s \<and> ds_rate_buffer s' = ds_rate_buffer s \<and> set code \<subseteq> set rest \<union> Collect keeps"
proof (cases a)
  case (Dly d)
  then show ?thesis using assms
    by (cases d) (auto simp: schedule_delayed_def take_pending_delay_def flush_pending_delays_def spawn_def Let_def
        split: if_splits option.splits)
qed (use assms in \<open>auto simp: emit_def split: if_splits\<close>)

text \<open>Every message received so far is with somebody, or sent.\<close>

definition plain_inv :: "('n, 't, 'r, 'f) delay_state \<Rightarrow> bool" where
  "plain_inv s \<longleftrightarrow> held s = mset [0..<ds_next_seq s] \<and> (\<forall>a \<in> set (ds_main s). keeps a) \<and> buffers_empty s"

lemma plain_main:
  assumes "delay_inv s" "plain_inv s" "ds_main s = a # rest" "exec F cfg True a rest s = Some (s1, code)"
  shows "plain_inv (s1\<lparr>ds_main := code\<rparr>)"
proof -
  note inv = assms(1) [unfolded delay_inv_def]
  have k: "keeps a" using assms(2,3) by (simp add: plain_inv_def)
  have "pd_msg x = m" if "(i, m) \<in> action_sleepers a" "x \<in> set (ds_pending_delays s)" "pd_id x = i" for i m x
    by (rule ids_ok_msg [OF conjunct1 [OF inv] _ that(2,3)]) (use that(1) assms(3) in \<open>simp add: sleepers_def\<close>)
  then have "held (s1\<lparr>ds_main := code\<rparr>) = held s"
    using exec_kept [OF assms(4) k] assms(3) by (simp add: held_def)
  then show ?thesis
    using exec_buffers [OF assms(4) k] exec_next_seq [OF assms(4)] assms(2,3) by (auto simp: plain_inv_def buffers_empty_def)
qed

lemma cancel_kept:
  assumes "K' + C = K1 + L" "S1 + K1 + L = S + K + (C :: 'a multiset)"
  shows "S1 + K' = S + K"
proof -
  have "S1 + K' + C = S + K + C" using assms(2) unfolding add.assoc assms(1) .
  then show ?thesis by simp
qed

lemma task_keeps: "task_shape t \<Longrightarrow> a \<in> set (tk_code t) \<Longrightarrow> keeps a \<and> (\<forall>p m c. a \<noteq> SendOrFail p m c)"
  by (auto simp: task_shape_def sleeping_def)

lemma plain_task:
  assumes "delay_inv s" "timers_inv s" "plain_inv s" and st: "run_task F cfg choice j s = Some s'"
  shows "plain_inv s'"
proof -
  obtain a rest s1 code where j: "j < length (ds_tasks s)" "tk_code (ds_tasks s ! j) = a # rest"
      and e: "exec F cfg choice a rest s = Some (s1, code)"
      and s': "s' = s1\<lparr>ds_tasks := (ds_tasks s1)[j := (ds_tasks s1 ! j)\<lparr>tk_code := code\<rparr>]\<rparr>"
    using st by (auto simp: run_task_def split: list.splits if_splits)
  note inv = assms(1) [unfolded delay_inv_def] and j1 = exec_tasks [OF e j(1)] and main = exec_next_seq [OF e]
  have "task_shape (ds_tasks s ! j)" using assms(2) j(1) by (simp add: timers_inv_def)
  then have k: "keeps a" "\<forall>p m c. a \<noteq> SendOrFail p m c" using task_keeps j(2) by fastforce+
  have w: "code_sleepers (a # rest) \<subseteq> tasks_sleepers (ds_tasks s)"
    using j nth_mem [OF j(1)] unfolding tasks_sleepers_def by (metis UN_upper)
  have "pd_msg x = m" if "(i, m) \<in> action_sleepers a" "x \<in> set (ds_pending_delays s)" "pd_id x = i" for i m x
    by (rule ids_ok_msg [OF conjunct1 [OF inv] _ that(2,3)]) (use w that(1) in \<open>auto simp: sleepers_def\<close>)
  then have h: "shared_held s1 + tasks_held (ds_tasks s1) + code_held code
      = shared_held s + tasks_held (ds_tasks s) + code_held (a # rest)"
    using exec_kept [OF e k(1)] k(2) by simp
  have t: "tasks_held (ds_tasks s') + code_held (a # rest) = tasks_held (ds_tasks s1) + code_held code"
    using tasks_held_update [of j "ds_tasks s1" "(ds_tasks s1 ! j)\<lparr>tk_code := code\<rparr>"] j1 j(2) s' by simp
  have "shared_held s1 + tasks_held (ds_tasks s') = shared_held s + tasks_held (ds_tasks s)"
    by (rule cancel_kept [OF t h])
  moreover have "shared_held s' = shared_held s1" "ds_main s' = ds_main s" using main s' by simp_all
  ultimately have "held s' = held s" by (simp only: held_def)
  then show ?thesis
    using conjunct1 [OF exec_buffers [OF e k(1)]] conjunct1 [OF conjunct2 [OF exec_buffers [OF e k(1)]]] main assms(3) s'
    by (simp add: plain_inv_def buffers_empty_def)
qed

lemma plain_receive:
  assumes "plain_inv s" "own_timers cfg" "ds_main s = []" "plain_input (Receive msg)"
  shows "plain_inv (receive F cfg msg s)"
proof -
  let ?m = "\<lparr>rx_seq = ds_next_seq s, rx_msg = msg\<rparr>"
  obtain o1 where o1: "msg_body msg = Object o1" "map_of o1 ''reset'' = None" "\<exists>k \<in> set (map fst o1). k \<noteq> ''flush''"
    using assms(4) unfolding plain_input.simps by blast
  then obtain fl where fl: "control_flags (do_num F) msg = Ok fl" "\<not> df_reset fl" "df_data fl"
    by (simp add: control_flags_def Msg_object_def del: set_map)
  have "code_held (handle_msg F cfg ?m) = {#ds_next_seq s#} \<and> (\<forall>a \<in> set (handle_msg F cfg ?m). keeps a)"
    using assms(2) fl
    by (auto simp: own_timers_def handle_msg_def handle_delay_mode_def handle_delay_variable_mode_def handle_random_mode_def
        delay_program_def handle_delay_controls_def Let_def split: option.splits)
  then show ?thesis using assms(1,3) by (auto simp: plain_inv_def receive_def held_def buffers_empty_def shared_held_def)
qed

lemma plain_reach_inv: "delay_reach F cfg plain_input s \<Longrightarrow> own_timers cfg \<Longrightarrow> plain_inv s"
proof (induction rule: delay_reach.induct)
  case start
  show ?case by (simp add: plain_inv_def buffers_empty_def delay_build_def held_def shared_held_def)
next
  case (step s i s')
  have inv: "plain_inv s" "delay_inv s" "timers_inv s"
    using step delay_reach_inv timers_reach [OF plain_reach [OF step.hyps(1)]] by blast+
  show ?case
  proof (cases i)
    case (Receive msg)
    then show ?thesis using step inv plain_receive [of s cfg msg F] by (auto split: if_splits)
  next
    case (RunMain choice)
    then show ?thesis using step inv plain_main [of s] by (auto simp: run_main_def split: list.splits)
  next
    case (RunTask j choice)
    then show ?thesis using step inv plain_task [of s F cfg choice j s'] by auto
  next
    case (Kill j)
    then show ?thesis using step inv by (auto simp: kill_task_def timers_inv_def task_shape_def split: if_splits)
  qed (use step inv in \<open>auto simp: plain_inv_def held_def buffers_empty_def\<close>)
qed

lemma plain_settled:
  assumes "delay_reach F cfg plain_input s" "own_timers cfg" "settled s"
  shows "mset (emitted (ds_log s)) = mset [0..<ds_next_seq s]"
proof -
  have "ds_pending_delays s = []" using settled_pending timers_reach [OF plain_reach [OF assms(1)] assms(2)] assms(3) by blast
  moreover have "\<forall>t \<in> set ts. tk_code t = [] \<Longrightarrow> tasks_held ts = {#}" for ts :: "('a, 'c, 'd, 'b) task list"
    by (induction ts) (simp_all add: tasks_held_def)
  then have "tasks_held (ds_tasks s) = {#}" using assms(3) by (simp add: settled_def)
  ultimately show ?thesis
    using plain_reach_inv [OF assms(1,2)] assms(3) by (auto simp: plain_inv_def held_def shared_held_def settled_def buffers_empty_def)
qed

section \<open>A sample node\<close>

text \<open>Numbers are integers, as are the times of the configuration.\<close>

definition demo_delay_ops :: "(int, nat) delay_ops" where
  "demo_delay_ops = \<lparr>do_num = int_num, do_as_f64 = (\<lambda>n. Some (nat n)), do_parse_f64 = (\<lambda>_. None), do_of_nat = (\<lambda>n. n),
     do_add = (+), do_sub = (-), do_mul = (*), do_div = (div), do_max = max, do_far = (\<lambda>x. x \<noteq> 0), do_to_u64 = of_nat,
     do_random = (\<lambda>_. 1)\<rparr>"

definition demo_delay :: "DelayPauseType \<Rightarrow> bool \<Rightarrow> nat DelayNodeConfig" where
  "demo_delay t dropping = \<lparr>dc_pause_type = t, dc_timeout = 5, dc_timeout_units = Milliseconds, dc_random_first = 1, dc_random_last = 5,
     dc_random_units = Seconds, dc_outputs = 1, dc_rate = 2, dc_rate_units = RateSecond, dc_nb_rate_units = 1, dc_drop = dropping,
     dc_allow_rate = False, dc_max_kept_msgs = 0\<rparr>"

definition demo_data :: "(int, nat, nat) Msg" where
  "demo_data = \<lparr>msg_body = Object [(''payload'', Number 1)], link_call_stack = None\<rparr>"

text \<open>Two messages are received, and the timer of the second is served first.\<close>

definition demo_two :: "(int, nat, nat) delay_input list" where
  "demo_two = [Receive demo_data, RunMain True, Receive demo_data, RunMain True, RunTask 0 False, RunTask 1 False, Pass 5000000]
     @ [RunTask 1 False, RunTask 1 False, RunTask 1 True, RunTask 1 True]
     @ [RunTask 0 False, RunTask 0 False, RunTask 0 True, RunTask 0 True]"

definition demo_end :: "(int, nat, nat, nat) delay_state" where
  "demo_end = the (delay_run demo_delay_ops (demo_delay PauseDelay False) demo_two (delay_build (demo_delay PauseDelay False)))"

lemma demo_run:
  "delay_run demo_delay_ops (demo_delay PauseDelay False) demo_two (delay_build (demo_delay PauseDelay False)) = Some demo_end"
  "settled demo_end \<and> ds_next_seq demo_end = 2 \<and> emitted (ds_log demo_end) = [1, 0]"
proof -
  have "(case delay_run demo_delay_ops (demo_delay PauseDelay False) demo_two (delay_build (demo_delay PauseDelay False)) of
      Some s \<Rightarrow> settled s \<and> ds_next_seq s = 2 \<and> emitted (ds_log s) = [1, 0] | None \<Rightarrow> False)"
    by code_simp
  then show "delay_run demo_delay_ops (demo_delay PauseDelay False) demo_two (delay_build (demo_delay PauseDelay False)) = Some demo_end"
    "settled demo_end \<and> ds_next_seq demo_end = 2 \<and> emitted (ds_log demo_end) = [1, 0]"
    unfolding demo_end_def by (auto split: option.splits)
qed

lemma demo_plain: "\<forall>i \<in> set demo_two. plain_input i"
  by (simp add: demo_two_def demo_data_def)

lemmas demo_delay_reach = reach_run [OF delay_reach.start demo_run(1) demo_plain]

section \<open>Properties\<close>

text \<open>
  C30. In the modes that give each message its own timer (fixed, variable and random delay),
  while sends succeed and the node is not stopped: from every state the handler and the tasks
  can take only boundedly many steps without a new message, they can always run to the end, and
  then every message received has been completed exactly once and sent at most once. If the
  messages carry data and none is a reset, flushes included, every message has then been sent
  exactly once, however the timers, the flushes and the tasks interleave.
\<close>

theorem delay_completes:
  assumes "own_timers cfg" "delay_reach F cfg reliable s"
  shows "(\<forall>is s'. delay_run F cfg is s = Some s' \<longrightarrow> (\<forall>i \<in> set is. reliable i \<and> \<not> receives i) \<longrightarrow> length (filter runs is) \<le> work s)
    \<and> (\<exists>is s'. delay_run F cfg is s = Some s' \<and> (\<forall>i \<in> set is. reliable i \<and> \<not> receives i) \<and> settled s')
    \<and> (settled s \<longrightarrow> (\<forall>q < ds_next_seq s. count (mset (dones (ds_log s))) q = 1 \<and> count (mset (emitted (ds_log s))) q \<le> 1))
    \<and> (settled s \<longrightarrow> delay_reach F cfg plain_input s \<longrightarrow> mset (emitted (ds_log s)) = mset [0..<ds_next_seq s])"
proof (intro conjI)
  show "\<forall>is s'. delay_run F cfg is s = Some s' \<longrightarrow> (\<forall>i \<in> set is. reliable i \<and> \<not> receives i) \<longrightarrow> length (filter runs is) \<le> work s"
    using steps_bounded [OF assms] by blast
  show "\<exists>is s'. delay_run F cfg is s = Some s' \<and> (\<forall>i \<in> set is. reliable i \<and> \<not> receives i) \<and> settled s'"
    by (rule can_settle [OF assms])
  show "settled s \<longrightarrow> (\<forall>q < ds_next_seq s. count (mset (dones (ds_log s))) q = 1 \<and> count (mset (emitted (ds_log s))) q \<le> 1)"
    using timers_settled [OF timers_reach [OF assms(2,1)]] delay_reach_inv [OF assms(2)] emitted_distinct [OF assms(2)]
    by (auto simp: done_once_def distinct_count_atmost_1)
  show "settled s \<longrightarrow> delay_reach F cfg plain_input s \<longrightarrow> mset (emitted (ds_log s)) = mset [0..<ds_next_seq s]"
    using plain_settled assms(1) by blast
qed

theorem delay_completes_witness:
  "count (mset (dones (ds_log demo_end))) 0 = 1 \<and> count (mset (dones (ds_log demo_end))) 1 = 1
    \<and> mset (emitted (ds_log demo_end)) = {#0, 1#}"
proof -
  have "own_timers (demo_delay PauseDelay False)" by (simp add: own_timers_def demo_delay_def)
  from delay_completes [OF this plain_reach [OF demo_delay_reach]] show ?thesis
    using demo_run(2) demo_delay_reach by (simp add: numeral_2_eq_2)
qed

end
