(* ===== verification/Delay_Limits.thy ===== *)
theory Delay_Limits
  imports Delay_Delivery
begin

text \<open>
  The rate limit of the drop mode: the messages sent to the first output since the start are at most
  one more than the intervals that have passed.
\<close>

section \<open>The rate limit of the drop mode\<close>

fun port0 :: "delay_event \<Rightarrow> bool" where
  "port0 (Emit p q t ok) \<longleftrightarrow> p = 0"
| "port0 _ \<longleftrightarrow> False"

fun sends0 :: "('n, 't, 'r, 'f) action list \<Rightarrow> nat" where
  "sends0 (SendOrFail p m c # code) = (if p = 0 then 1 else 0) + sends0 code"
| "sends0 (_ # code) = sends0 code"
| "sends0 [] = 0"

text \<open>The messages sent through, counting one that is about to be sent.\<close>

definition sent_through :: "('n, 't, 'r, 'f) delay_state \<Rightarrow> nat" where
  "sent_through s = length (filter port0 (ds_log s)) + sends0 (ds_main s)"

definition drop_shape :: "('n, 't, 'r, 'f) action list \<Rightarrow> bool" where
  "drop_shape code \<longleftrightarrow>
     code = [] \<or> code = [PanicNow] \<or> (\<exists>c. code = [CompleteMsg c]) \<or> (\<exists>m c. code = [Rte (DropSend m), CompleteMsg c])
     \<or> (\<exists>p m c d. code = [SendOrFail p m c, CompleteMsg d]) \<or> (\<exists>c d. code = [HandleError c, CompleteMsg d])"

definition drop_inv :: "'f DelayNodeConfig \<Rightarrow> nat \<Rightarrow> ('n, 't, 'r, 'f) delay_state \<Rightarrow> bool" where
  "drop_inv cfg I s \<longleftrightarrow>
     drop_shape (ds_main s) \<and> ds_tasks s = [] \<and> ds_current_rate s = dc_rate cfg
     \<and> (case ds_last_sent s of
          None \<Rightarrow> sent_through s = 0
        | Some l \<Rightarrow> l \<le> ds_now s \<and> 1 \<le> sent_through s \<and> (sent_through s - 1) * I \<le> l)"

lemma drop_main:
  assumes "drop_inv cfg (dynamic_rate_interval F cfg (dc_rate cfg)) s" "run_main F cfg choice s = Some s'"
  shows "drop_inv cfg (dynamic_rate_interval F cfg (dc_rate cfg)) s'"
proof -
  let ?I = "dynamic_rate_interval F cfg (dc_rate cfg)"
  obtain a rest s1 code where e: "ds_main s = a # rest" "exec F cfg choice a rest s = Some (s1, code)" "s' = s1\<lparr>ds_main := code\<rparr>"
    using assms(2) by (auto simp: run_main_def split: list.splits)
  note inv = assms(1) [unfolded drop_inv_def]
  show ?thesis
  proof (cases "\<exists>m c. ds_main s = [Rte (DropSend m), CompleteMsg c]")
    case True
    then obtain m c where m: "a = Rte (DropSend m)" "rest = [CompleteMsg c]" using e(1) by auto
    have rate: "get_current_rate_interval F cfg s = ?I" using inv by (simp add: get_current_rate_interval_def)
    show ?thesis
    proof (cases "ds_last_sent s")
      case None
      then show ?thesis using inv e m rate
        by (auto simp: drop_inv_def drop_send_def drop_shape_def sent_through_def)
    next
      case (Some l)
      have "sent_through s * ?I \<le> ds_now s" if "?I \<le> ds_now s - l"
      proof -
        obtain n where n: "sent_through s = Suc n" using inv Some by (cases "sent_through s") auto
        then have "sent_through s * ?I = ?I + n * ?I" by simp
        also have "\<dots> \<le> (ds_now s - l) + l" using that inv Some n by (intro add_mono) auto
        also have "\<dots> = ds_now s" using inv Some by simp
        finally show ?thesis .
      qed
      then show ?thesis using inv e m rate Some
        by (auto simp: drop_inv_def drop_send_def drop_shape_def sent_through_def split: if_splits)
    qed
  next
    case False
    then show ?thesis using inv e
      by (auto simp: drop_inv_def drop_shape_def sent_through_def emit_def complete_def split: if_splits option.splits)
  qed
qed

lemma drop_reach:
  assumes "dc_pause_type cfg = Rate" "dc_drop cfg" "\<not> dc_allow_rate cfg"
  shows "delay_reach F cfg allowed s \<Longrightarrow> drop_inv cfg (dynamic_rate_interval F cfg (dc_rate cfg)) s"
proof (induction rule: delay_reach.induct)
  case start
  show ?case by (simp add: drop_inv_def drop_shape_def delay_build_def sent_through_def)
next
  case (step s i s')
  show ?case
  proof (cases i)
    case (Receive msg)
    let ?m = "\<lparr>rx_seq = ds_next_seq s, rx_msg = msg\<rparr>"
    have "drop_shape (handle_msg F cfg ?m) \<and> sends0 (handle_msg F cfg ?m) = 0"
      using assms by (auto simp: handle_msg_def handle_rate_mode_def rate_update_def drop_shape_def Let_def split: outcome.split)
    then show ?thesis using step Receive
      by (auto simp: drop_inv_def receive_def sent_through_def split: if_splits option.splits)
  next
    case (RunMain choice)
    then show ?thesis using step drop_main by auto
  qed (use step in \<open>auto simp: drop_inv_def run_task_def kill_task_def sent_through_def split: option.splits\<close>)
qed

text \<open>
  In drop mode at a fixed rate the node sends at most one message to its first output per interval,
  whatever arrives and however its steps interleave.
\<close>

theorem drop_rate_limit:
  assumes "dc_pause_type cfg = Rate" "dc_drop cfg" "\<not> dc_allow_rate cfg" "delay_reach F cfg allowed s"
  shows "(length (filter port0 (ds_log s)) - 1) * dynamic_rate_interval F cfg (dc_rate cfg) \<le> ds_now s"
proof -
  let ?I = "dynamic_rate_interval F cfg (dc_rate cfg)"
  have "(length (filter port0 (ds_log s)) - 1) * ?I \<le> (sent_through s - 1) * ?I"
    by (intro mult_le_mono diff_le_mono) (simp_all add: sent_through_def)
  also have "\<dots> \<le> ds_now s" using drop_reach [OF assms] by (auto simp: drop_inv_def split: option.splits)
  finally show ?thesis .
qed

end
