(* ===== verification/Spec2Isabelle.thy ===== *)
theory Spec2Isabelle
  imports Mqtt_Broker_Correct Bacnet_Correct Cluster_Correct Graph_Correct Context_Correct Split_Join_Cases Csv_Correct Change_Correct Flows_Subflows Delay_Limits
begin

text \<open>
  A verification development for rust-red, a flow runtime compatible with Node-RED. All paths
  below are relative to \<^verbatim>\<open>src/\<close>.

  THE PROGRAM. \<^verbatim>\<open>crates/core\<close> is the runtime: it loads \<^verbatim>\<open>flows.json\<close>, builds nodes and passes
  messages between them. A message is a \<^verbatim>\<open>Variant\<close> object; nodes read and write it through
  property expressions, keep variables in context stores, and are ordered by a topological
  sorter when they are loaded. \<^verbatim>\<open>crates/mqtt-broker\<close> is a broker the MQTT nodes can start in the
  process. \<^verbatim>\<open>crates/cluster\<close> lets several runtimes share flows and context. The development
  models these three crates from the bottom up.

  THE THEORIES. Every component has a theory of definitions and, where it says \<open>_Correct\<close>, one
  of theorems.

  \<^item> \<open>Prelude\<close>, \<open>Btree\<close>, \<open>Rust_Text\<close>, \<open>Utf8\<close>, \<open>Utf8_Chars\<close>: machine integers and byte orders,
    the type \<open>outcome\<close> of calls that return, fail, panic or run out of fuel, hash tables and
    ordered maps, and the operations of Rust's \<^verbatim>\<open>str\<close> and \<^verbatim>\<open>String\<close> the sources use.
  \<^item> \<open>Mqtt_Packets\<close>, \<open>Mqtt_Codec\<close>, \<open>Mqtt_Codec_Correct\<close>: \<^verbatim>\<open>mqtt-broker/src/protocol\<close>. A packet is
    framed exactly, encoding is undone by decoding, and what truncated packets do.
  \<^item> \<open>Mqtt_Topics\<close>, \<open>Mqtt_Topics_Correct\<close>: \<^verbatim>\<open>broker/subscription.rs\<close> and \<^verbatim>\<open>retained.rs\<close>. The trie
    refines a map from client and filter to the granted quality of service.
  \<^item> \<open>Mqtt_Broker\<close>, \<open>Mqtt_Broker_Correct\<close>: \<^verbatim>\<open>broker/mod.rs\<close> and \<^verbatim>\<open>session.rs\<close>. Connections are a
    step relation over the shared state; its invariant holds in every interleaving, a publish
    reaches the subscribers and nobody else, a subscription replays the retained messages it
    covers, and the read loop of a connection ends, by a panic only on the malformed packets
    that are named.
  \<^item> \<open>Bacnet\<close>, \<open>Bacnet_Correct\<close>: \<^verbatim>\<open>industrial_nodes/bacnet_client.rs\<close>. Tags, values and frames
    survive the wire, segmented replies are reassembled, and a request returns under any traffic
    but one kind of short acknowledgement, on which it panics.
  \<^item> \<open>Cluster\<close>, \<open>Cluster_State\<close>, \<open>Cluster_Correct\<close>: \<^verbatim>\<open>crates/cluster/src\<close>. The member table under
    all messages and ticks, the assignment of flows, the convergence of replicated context.
  \<^item> \<open>Graph\<close>, \<open>Graph_Correct\<close>: \<^verbatim>\<open>core/src/utils/graph.rs\<close> and \<^verbatim>\<open>topo.rs\<close>. The dependency sort is
    total, complete and ordered.
  \<^item> \<open>Variant\<close>, \<open>Variant_Correct\<close>, \<open>Propex\<close>, \<open>Msg\<close>: \<^verbatim>\<open>model/variant\<close>, \<^verbatim>\<open>propex.rs\<close>, \<^verbatim>\<open>msg.rs\<close> and
    \<^verbatim>\<open>eid.rs\<close>. What is set at a path is read there and nothing else changes; an expression is
    parsed to the path it was written from.
  \<^item> \<open>Context_Store\<close>, \<open>Context_Correct\<close>: \<^verbatim>\<open>runtime/context\<close>. Contexts over any store that keeps
    the laws of the locale \<open>context_store\<close>, instantiated with the store in memory.
  \<^item> \<open>Split_Node\<close>, \<open>Join_Node\<close>, \<open>Split_Join\<close>, \<open>Split_Join_Cases\<close>: \<^verbatim>\<open>sequence_nodes/split.rs\<close> and
    \<^verbatim>\<open>join.rs\<close>. What is split is joined again in any order of arrival, and the cases it is not.
  \<^item> \<open>Csv_Node\<close>, \<open>Csv_Correct\<close>: \<^verbatim>\<open>parser_nodes/csv.rs\<close>. A table is read as it was written.
  \<^item> \<open>Change_Node\<close>, \<open>Change_Correct\<close>: \<^verbatim>\<open>function_nodes/change.rs\<close> and \<^verbatim>\<open>eval.rs\<close>. What the rules do
    to the message and to contexts.
  \<^item> \<open>Json\<close>, \<open>Flows_Json\<close>, \<open>Flows_Load\<close>, \<open>Flows_Correct\<close>, \<open>Flows_Subflows\<close>: \<^verbatim>\<open>model/json/deser.rs\<close>, how
    a flow file is loaded. Subflows are expanded first; a load that succeeds is complete and in
    order, and what becomes of one instance of a subflow and of several.
  \<^item> \<open>Delay_Node\<close>, \<open>Delay_Correct\<close>, \<open>Delay_Progress\<close>, \<open>Delay_Delivery\<close>, \<open>Delay_Limits\<close>:
    \<^verbatim>\<open>function_nodes/delay.rs\<close>. The receiving task and the tasks it spawns are lists of actions that
    interleave in any order. No message is sent or completed twice, in the delay modes all are
    completed and none is lost, and the drop mode keeps its rate.

  CONVENTIONS. A struct is a record, an enum a datatype, a fixed-width integer a word. A method
  that takes \<^verbatim>\<open>&mut self\<close> returns the new state; \<^verbatim>\<open>Result\<close> is \<open>outcome\<close>, where a panic is the
  value \<open>Panic\<close>. A \<^verbatim>\<open>usize\<close> that counts elements is a \<open>nat\<close>. Locks are not modelled: each
  handler runs to completion on the state it locks, and the handlers interleave as steps; in the
  delay node the steps are as small as the locks.
  Log output is dropped.

  INTERFACES AND PARAMETERS. What the sources only call is a parameter: streams, buffers
  (\<open>bytes\<close>), bounded channels (locale \<open>mpsc\<close>), concurrent maps (locale over \<open>dash_ops\<close>), the UDP
  socket (locale \<open>udp_socket\<close>), the clock and random identifiers, the numbers of JSON, hashes,
  regular expressions, and the values of JSON, JSONata and environment properties. The laws
  used of them are the assumptions of the locales, each of which is interpreted on concrete
  functions.

  FUEL. Loops over a parameter take fuel and \<open>Diverge\<close> when it runs out. Decoders use the
  length of the input; the depth-first visit of the sorter one more than the number of nodes;
  a connection one unit per packet, of which every packet consumes at least two octets;
  nested property expressions the length of the text. For each it is proved that \<open>Diverge\<close>
  does not occur, or that more fuel does not change the result.

  NOT MODELLED. The editor (TypeScript), the HTTP handlers and authentication of \<^verbatim>\<open>crates/web\<close>,
  the marketplace, the WebAssembly host and plug-ins, the Python module and the macro crate,
  which are interfaces to their frameworks; the tasks of \<^verbatim>\<open>engine.rs\<close> and \<^verbatim>\<open>flow.rs\<close>, which spawn
  nodes and forward messages on channels; the network, database, storage and industrial nodes
  other than BACnet, which drive client libraries; templates, scripts, JSONata and AI
  providers, whose languages are third-party; the nodes of the runtime that are not named above;
  the file store of contexts. \<^verbatim>\<open>f64\<close> arithmetic is a parameter, so nodes that compare
  floating-point numbers throughout are left out.
\<close>

end
